(* ===== verification/Go_Prelude.thy ===== *)
theory Go_Prelude
  imports Main "HOL-Library.Word" "HOL-Library.Char_ord" "HOL-Library.List_Lexorder"
    "HOL-Library.Code_Target_Nat"
begin

text \<open>
  Shared vocabulary of the NetsGo development: Go's machine integers, byte slices, strings,
  instants and durations, the fragment of the Go standard library the modelled components
  call (package \<open>strings\<close>, \<open>encoding/binary\<close>, \<open>io\<close>), and the generic
  lemmas on lists, maps and words that the component theories use.

  Conventions. A Go \<open>string\<close> is its byte sequence, a HOL \<open>string\<close> (a character is a
  byte). A \<open>[]byte\<close> on a wire is a list of 8-bit words. \<open>uint64\<close> counters are
  64-bit words; \<open>int64\<close> values that are only compared are \<open>int\<close>. A
  \<open>time.Time\<close> is the number of nanoseconds since Go's zero instant, so the zero
  \<open>Time\<close> is 0; a \<open>time.Duration\<close> is a number of nanoseconds. A Go
  \<open>error\<close> result is the left component of a sum.
\<close>

section \<open>Types\<close>

type_synonym u8 = "8 word"
type_synonym u16 = "16 word"
type_synonym u32 = "32 word"
type_synonym u64 = "64 word"
type_synonym bytes = "u8 list"
type_synonym gotime = int
type_synonym duration = int

named_theorems codec_simps \<open>length and shape facts of wire encodings\<close>
named_theorems go_string_simps \<open>facts about the modelled fragment of package strings\<close>
named_theorems sum_map_simps \<open>summation over finite maps\<close>
named_theorems step_inv_intros \<open>per-operation invariant preservation\<close>

abbreviation second :: duration where
  "second \<equiv> 1000000000"

abbreviation millisecond :: duration where
  "millisecond \<equiv> 1000000"

abbreviation microsecond :: duration where
  "microsecond \<equiv> 1000"

abbreviation minute :: duration where
  "minute \<equiv> 60 * second"

text \<open>\<open>Time.Sub\<close> saturates at the bounds of a 64-bit duration.\<close>

definition max_duration :: duration where
  "max_duration = 2 ^ 63 - 1"

definition min_duration :: duration where
  "min_duration = - (2 ^ 63)"

definition time_sub :: "gotime \<Rightarrow> gotime \<Rightarrow> duration" where
  "time_sub t u = max min_duration (min max_duration (t - u))"

definition time_is_zero :: "gotime \<Rightarrow> bool" where
  "time_is_zero t \<longleftrightarrow> t = 0"

lemma time_sub_exact:
  "\<bar>t - u\<bar> \<le> max_duration \<Longrightarrow> time_sub t u = t - u"
  by (auto simp: time_sub_def max_duration_def min_duration_def)

lemma time_sub_pos_iff [simp]: "0 < time_sub t u \<longleftrightarrow> u < t"
  by (auto simp: time_sub_def max_duration_def min_duration_def)

lemma time_sub_nonpos_iff [simp]: "time_sub t u \<le> 0 \<longleftrightarrow> t \<le> u"
  by (metis not_le time_sub_pos_iff)

lemma time_sub_le: "u \<le> t \<Longrightarrow> time_sub t u \<le> t - u"
  by (auto simp: time_sub_def min_duration_def)

section \<open>Result values\<close>

text \<open>Sequencing of fallible steps: the first error is returned.\<close>

definition bind_res :: "'e + 'a \<Rightarrow> ('a \<Rightarrow> 'e + 'b) \<Rightarrow> 'e + 'b" where
  "bind_res r f = (case r of Inl e \<Rightarrow> Inl e | Inr x \<Rightarrow> f x)"

definition check_that :: "bool \<Rightarrow> 'e \<Rightarrow> 'e + unit" where
  "check_that b e = (if b then Inr () else Inl e)"

lemma bind_res_simps [simp]:
  "bind_res (Inl e) f = Inl e"
  "bind_res (Inr x) f = f x"
  by (simp_all add: bind_res_def)

lemma bind_res_eq_Inr:
  "bind_res r f = Inr y \<longleftrightarrow> (\<exists>x. r = Inr x \<and> f x = Inr y)"
  by (cases r) auto

lemma bind_res_eq_Inl:
  "bind_res r f = Inl e \<longleftrightarrow> r = Inl e \<or> (\<exists>x. r = Inr x \<and> f x = Inl e)"
  by (cases r) auto

text \<open>A list of validation steps, run in order until one of them reports an error.\<close>

fun first_error :: "(bool \<times> 'e) list \<Rightarrow> 'e option" where
  "first_error [] = None"
| "first_error ((bad, e) # cs) = (if bad then Some e else first_error cs)"

lemma first_error_None_iff: "first_error cs = None \<longleftrightarrow> (\<forall>(bad, e) \<in> set cs. \<not> bad)"
  by (induction cs rule: first_error.induct) auto

lemma first_error_append:
  "first_error (cs @ ds) = (case first_error cs of Some e \<Rightarrow> Some e | None \<Rightarrow> first_error ds)"
  by (induction cs rule: first_error.induct) auto

section \<open>Bytes and strings\<close>

definition bytes_of :: "string \<Rightarrow> bytes" where
  "bytes_of s = map of_char s"

definition string_of :: "bytes \<Rightarrow> string" where
  "string_of bs = map (\<lambda>b. char_of (unat b)) bs"

lemma of_char_unat: "unat (of_char c :: u8) = of_char c"
proof -
  have "(of_char c :: nat) < 256"
    using of_char_of [of "of_char c :: nat"] by (simp del: of_char_of)
  moreover have "(of_char c :: u8) = of_nat (of_char c)" by (rule of_nat_of_char [symmetric])
  ultimately show ?thesis by (simp only: unat_of_nat) (simp add: take_bit_eq_mod)
qed

lemma string_of_bytes_of [simp]: "string_of (bytes_of s) = s"
  by (simp add: string_of_def bytes_of_def of_char_unat o_def)

lemma bytes_of_string_of [simp]: "bytes_of (string_of bs) = bs"
proof -
  have "(of_char (char_of (unat b) :: char) :: u8) = b" for b :: u8
  proof -
    have "unat b < 256"
      using unsigned_less [of b] by simp
    then have "(of_char (char_of (unat b) :: char) :: nat) = unat b"
      by simp
    then show ?thesis by (metis of_nat_of_char of_nat_unat ucast_id)
  qed
  then show ?thesis by (simp add: string_of_def bytes_of_def o_def)
qed

lemma length_bytes_of [simp, codec_simps]: "length (bytes_of s) = length s"
  by (simp add: bytes_of_def)

lemma length_string_of [simp]: "length (string_of bs) = length bs"
  by (simp add: string_of_def)

lemma bytes_of_inject [simp]: "bytes_of s = bytes_of t \<longleftrightarrow> s = t"
  by (metis string_of_bytes_of)

lemma bytes_of_append: "bytes_of (s @ t) = bytes_of s @ bytes_of t"
  by (simp add: bytes_of_def)

section \<open>Big-endian integers (package encoding/binary)\<close>

definition put_uint16 :: "u16 \<Rightarrow> bytes" where
  "put_uint16 v = [ucast (drop_bit 8 v), ucast v]"

definition get_uint16 :: "bytes \<Rightarrow> u16" where
  "get_uint16 bs = (case bs of
     [a, b] \<Rightarrow> or (push_bit 8 (ucast a)) (ucast b) | _ \<Rightarrow> 0)"

definition put_uint32 :: "u32 \<Rightarrow> bytes" where
  "put_uint32 v = [ucast (drop_bit 24 v), ucast (drop_bit 16 v), ucast (drop_bit 8 v), ucast v]"

definition get_uint32 :: "bytes \<Rightarrow> u32" where
  "get_uint32 bs = (case bs of
     [a, b, c, d] \<Rightarrow> or (push_bit 24 (ucast a)) (or (push_bit 16 (ucast b))
                        (or (push_bit 8 (ucast c)) (ucast d))) | _ \<Rightarrow> 0)"

lemma length_put_uint16 [simp, codec_simps]: "length (put_uint16 v) = 2"
  by (simp add: put_uint16_def)

lemma length_put_uint32 [simp, codec_simps]: "length (put_uint32 v) = 4"
  by (simp add: put_uint32_def)

lemma get_put_uint16 [simp]: "get_uint16 (put_uint16 v) = v"
  unfolding get_uint16_def put_uint16_def list.case
  by (rule bit_word_eqI) (auto simp: bit_simps)

lemma get_put_uint32 [simp]: "get_uint32 (put_uint32 v) = v"
  unfolding get_uint32_def put_uint32_def list.case
proof (rule bit_word_eqI)
  fix n assume "n < LENGTH(32)"
  then consider "n < 8" | "8 \<le> n" "n < 16" | "16 \<le> n" "n < 24" | "24 \<le> n" "n < 32"
    by fastforce
  then show "bit (or (push_bit 24 (ucast (ucast (drop_bit 24 v) :: u8)))
      (or (push_bit 16 (ucast (ucast (drop_bit 16 v) :: u8)))
        (or (push_bit 8 (ucast (ucast (drop_bit 8 v) :: u8)))
          (ucast (ucast v :: u8))) :: u32)) n = bit v n"
    by cases (auto simp: bit_simps)
qed

lemma split_four:
  "p = take a p @ take b (drop a p) @ take c (drop (a + b) p) @ drop (a + b + c) p"
  by (simp only: append_assoc [symmetric] take_add [symmetric] append_take_drop_id)

lemma put_get_uint16:
  assumes "length bs = 2" shows "put_uint16 (get_uint16 bs) = bs"
proof -
  from assms obtain a b where bs: "bs = [a, b]"
    by (auto simp: numeral_2_eq_2 length_Suc_conv)
  have "ucast (drop_bit 8 (or (push_bit 8 (ucast a)) (ucast b) :: u16)) = a"
    by (rule bit_word_eqI) (auto simp: bit_simps dest: bit_imp_le_length)
  moreover have "ucast (or (push_bit 8 (ucast a)) (ucast b) :: u16) = b"
    by (rule bit_word_eqI) (auto simp: bit_simps)
  ultimately show ?thesis by (simp add: bs get_uint16_def put_uint16_def)
qed

lemma unat_max_u64: "unat (- 1 :: u64) = 2 ^ 64 - 1"
  by (simp add: unsigned_minus_1_eq_mask mask_eq_exp_minus_1)

lemma unat_of_nat_small: "n < 2 ^ LENGTH('a) \<Longrightarrow> unat (of_nat n :: 'a::len word) = n"
  by (simp add: unat_of_nat)

section \<open>Package io: reading a byte stream\<close>

text \<open>
  A reader is the byte sequence it will still deliver. \<open>io.ReadFull\<close> returns
  \<open>EOF\<close> when no byte was read, \<open>ErrUnexpectedEOF\<close> when the stream ends
  early, and otherwise exactly the requested bytes and the rest of the stream.
\<close>

datatype io_error = EOF | ErrUnexpectedEOF | ErrNoProgress | ErrShortWrite | WriteError string

definition read_full :: "nat \<Rightarrow> bytes \<Rightarrow> io_error + bytes \<times> bytes" where
  "read_full n r =
     (if n = 0 then Inr ([], r)
      else if r = [] then Inl EOF
      else if length r < n then Inl ErrUnexpectedEOF
      else Inr (take n r, drop n r))"

lemma read_full_append [simp]: "length p = n \<Longrightarrow> read_full n (p @ r) = Inr (p, r)"
  by (auto simp: read_full_def)

lemma read_full_all [simp]: "length p = n \<Longrightarrow> read_full n p = Inr (p, [])"
  using read_full_append [of p n "[]"] by simp

lemma read_full_InrD:
  "read_full n r = Inr (p, r') \<Longrightarrow> r = p @ r' \<and> length p = n"
  by (auto simp: read_full_def split: if_splits)

section \<open>Package strings\<close>

definition has_prefix :: "'a list \<Rightarrow> 'a list \<Rightarrow> bool" where
  "has_prefix s p \<longleftrightarrow> take (length p) s = p"

definition has_suffix :: "'a list \<Rightarrow> 'a list \<Rightarrow> bool" where
  "has_suffix s p \<longleftrightarrow> has_prefix (rev s) (rev p)"

definition trim_prefix :: "string \<Rightarrow> string \<Rightarrow> string" where
  "trim_prefix s p = (if has_prefix s p then drop (length p) s else s)"

definition trim_suffix :: "string \<Rightarrow> string \<Rightarrow> string" where
  "trim_suffix s p = (if has_suffix s p then take (length s - length p) s else s)"

fun contains_sub :: "string \<Rightarrow> string \<Rightarrow> bool" where
  "contains_sub [] p = (p = [])"
| "contains_sub (c # s) p = (has_prefix (c # s) p \<or> contains_sub s p)"

text \<open>\<open>ContainsAny\<close> and \<open>Trim\<close> are used with ASCII sets only, where they act on bytes.\<close>

definition contains_any :: "string \<Rightarrow> string \<Rightarrow> bool" where
  "contains_any s cs \<longleftrightarrow> list_ex (\<lambda>c. c \<in> set cs) s"

definition trim_set :: "string \<Rightarrow> string \<Rightarrow> string" where
  "trim_set s cs =
     rev (dropWhile (\<lambda>c. c \<in> set cs) (rev (dropWhile (\<lambda>c. c \<in> set cs) s)))"

fun split_on :: "char \<Rightarrow> string \<Rightarrow> string list" where
  "split_on d [] = [[]]"
| "split_on d (c # s) =
     (if c = d then [] # split_on d s
      else (case split_on d s of [] \<Rightarrow> [[c]] | w # ws \<Rightarrow> (c # w) # ws))"

fun join_on :: "char \<Rightarrow> string list \<Rightarrow> string" where
  "join_on d [] = []"
| "join_on d [w] = w"
| "join_on d (w # ws) = w @ d # join_on d ws"

fun repeat_str :: "string \<Rightarrow> nat \<Rightarrow> string" where
  "repeat_str s 0 = []"
| "repeat_str s (Suc n) = s @ repeat_str s n"

text \<open>
  \<open>TrimSpace\<close> removes the runes for which \<open>unicode.IsSpace\<close> holds; these are their
  UTF-8 encodings. A suffix that is one of these encodings is also the last rune of the
  string, so both ends can be trimmed on bytes.
\<close>

definition space_encodings :: "string list" where
  "space_encodings =
     [[CHR 0x09], [CHR 0x0A], [CHR 0x0B], [CHR 0x0C], [CHR 0x0D], [CHR 0x20],
      [CHR 0xC2, CHR 0x85], [CHR 0xC2, CHR 0xA0], [CHR 0xE1, CHR 0x9A, CHR 0x80],
      [CHR 0xE2, CHR 0x80, CHR 0x80], [CHR 0xE2, CHR 0x80, CHR 0x81],
      [CHR 0xE2, CHR 0x80, CHR 0x82], [CHR 0xE2, CHR 0x80, CHR 0x83],
      [CHR 0xE2, CHR 0x80, CHR 0x84], [CHR 0xE2, CHR 0x80, CHR 0x85],
      [CHR 0xE2, CHR 0x80, CHR 0x86], [CHR 0xE2, CHR 0x80, CHR 0x87],
      [CHR 0xE2, CHR 0x80, CHR 0x88], [CHR 0xE2, CHR 0x80, CHR 0x89],
      [CHR 0xE2, CHR 0x80, CHR 0x8A], [CHR 0xE2, CHR 0x80, CHR 0xA8],
      [CHR 0xE2, CHR 0x80, CHR 0xA9], [CHR 0xE2, CHR 0x80, CHR 0xAF],
      [CHR 0xE2, CHR 0x81, CHR 0x9F], [CHR 0xE3, CHR 0x80, CHR 0x80]]"

function strip_any :: "string list \<Rightarrow> string \<Rightarrow> string" where
  "strip_any es s =
     (case find (\<lambda>e. e \<noteq> [] \<and> has_prefix s e) es of
        None \<Rightarrow> s
      | Some e \<Rightarrow> strip_any es (drop (length e) s))"
  by pat_completeness auto
termination
proof (relation "measure (\<lambda>(es, s). length s)")
  fix es :: "string list" and s e :: string
  assume "find (\<lambda>e. e \<noteq> [] \<and> has_prefix s e) es = Some e"
  then have "e \<noteq> [] \<and> has_prefix s e" by (auto simp: find_Some_iff)
  then have "0 < length e \<and> s \<noteq> []" by (auto simp: has_prefix_def)
  then show "((es, drop (length e) s), es, s) \<in> measure (\<lambda>(es, s). length s)"
    by (cases s) auto
qed simp

declare strip_any.simps [simp del]

definition trim_space :: "string \<Rightarrow> string" where
  "trim_space s =
     rev (strip_any (map rev space_encodings) (rev (strip_any space_encodings s)))"

text \<open>
  \<open>ToLower\<close> is the ASCII case map on ASCII strings; on other strings it consults the
  Unicode tables of the Go runtime, which are the parameter \<open>ul\<close>.
\<close>

definition is_ascii :: "string \<Rightarrow> bool" where
  "is_ascii s \<longleftrightarrow> list_all (\<lambda>c. (of_char c :: nat) < 128) s"

definition ascii_lower :: "char \<Rightarrow> char" where
  "ascii_lower c =
     (let n = (of_char c :: nat) in if 65 \<le> n \<and> n \<le> 90 then char_of (n + 32) else c)"

definition to_lower :: "(string \<Rightarrow> string) \<Rightarrow> string \<Rightarrow> string" where
  "to_lower ul s = (if is_ascii s then map ascii_lower s else ul s)"

section \<open>Package strconv\<close>

text \<open>\<open>strconv.Itoa\<close>.\<close>

fun nat_digits :: "nat \<Rightarrow> string" where
  "nat_digits n = (if n < 10 then [char_of (48 + n)] else nat_digits (n div 10) @ [char_of (48 + n mod 10)])"

declare nat_digits.simps [simp del]

definition itoa :: "int \<Rightarrow> string" where
  "itoa n = (if n < 0 then CHR ''-'' # nat_digits (nat (- n)) else nat_digits (nat n))"

subsection \<open>Facts about the string functions\<close>

lemma strip_any_id:
  assumes "\<And>e. e \<in> set es \<Longrightarrow> e \<noteq> [] \<Longrightarrow> hd e \<noteq> c"
  shows "strip_any es (c # s) = c # s"
proof -
  have "find (\<lambda>e. e \<noteq> [] \<and> has_prefix (c # s) e) es = None"
    unfolding find_None_iff
  proof safe
    fix e assume e: "e \<in> set es" "has_prefix (c # s) e" "e \<noteq> []"
    from e(2) obtain r where "c # s = e @ r" by (metis append_take_drop_id has_prefix_def)
    with e(3) have "hd e = c" by (metis hd_append2 list.sel(1))
    with assms e show False by blast
  qed
  then show ?thesis by (subst strip_any.simps) simp
qed

text \<open>A string that begins and ends with printable ASCII characters has nothing to trim.\<close>

lemma trim_space_braces:
  "trim_space (CHR ''{'' # s @ [CHR ''}'']) = CHR ''{'' # s @ [CHR ''}'']"
proof -
  have "strip_any space_encodings (CHR ''{'' # s @ [CHR ''}'']) = CHR ''{'' # s @ [CHR ''}'']"
    by (rule strip_any_id) (auto simp: space_encodings_def)
  moreover have "strip_any (map rev space_encodings) (CHR ''}'' # rev s @ [CHR ''{'']) =
      CHR ''}'' # rev s @ [CHR ''{'']"
    by (rule strip_any_id) (auto simp: space_encodings_def)
  ultimately show ?thesis by (simp add: trim_space_def)
qed


lemma has_prefix_append [simp, go_string_simps]: "has_prefix (p @ s) p"
  by (simp add: has_prefix_def)

lemma has_prefix_iff: "has_prefix s p \<longleftrightarrow> (\<exists>r. s = p @ r)"
  by (metis append_take_drop_id has_prefix_append has_prefix_def)

lemma split_on_nonempty [simp, go_string_simps]: "split_on d s \<noteq> []"
  by (induction s) (auto split: list.splits)

lemma join_split_on [simp, go_string_simps]: "join_on d (split_on d s) = s"
proof (induction s)
  case (Cons c s)
  obtain w ws where "split_on d s = w # ws"
    by (cases "split_on d s") auto
  with Cons show ?case by (cases ws) auto
qed simp

lemma split_on_no_sep [go_string_simps]: "d \<notin> set s \<Longrightarrow> split_on d s = [s]"
  by (induction s) auto

lemma split_on_app [go_string_simps]:
  "d \<notin> set w \<Longrightarrow> split_on d (w @ d # s) = w # split_on d s"
  by (induction w) auto

lemma split_join_on [go_string_simps]:
  "ws \<noteq> [] \<Longrightarrow> \<forall>w \<in> set ws. d \<notin> set w \<Longrightarrow> split_on d (join_on d ws) = ws"
  by (induction d ws rule: join_on.induct) (auto simp: split_on_no_sep split_on_app)

lemma split_on_pieces: "w \<in> set (split_on d s) \<Longrightarrow> d \<notin> set w"
  by (induction s arbitrary: w) (auto split: if_splits list.splits)

lemma split_on_inject: "split_on d s = split_on d t \<longleftrightarrow> s = t"
  by (metis join_split_on)

lemma length_split_on: "length (split_on d s) = Suc (count_list s d)"
  by (induction s) (auto split: list.splits)

lemma contains_any_iff: "contains_any s cs \<longleftrightarrow> (\<exists>c \<in> set s. c \<in> set cs)"
  by (auto simp: contains_any_def list_ex_iff)

lemma contains_sub_single [simp, go_string_simps]: "contains_sub s [c] \<longleftrightarrow> c \<in> set s"
  by (induction s) (auto simp: has_prefix_def)

section \<open>Summation over finite maps\<close>

text \<open>
  Totals over a Go map: the sum of a weight over the stored values. The accumulators and
  cursors of the traffic and credit components are compared through such totals.
\<close>

definition map_total :: "('v \<Rightarrow> nat) \<Rightarrow> ('k \<rightharpoonup> 'v) \<Rightarrow> nat" where
  "map_total w m = (\<Sum>k \<in> dom m. w (the (m k)))"

lemma map_total_empty [simp, sum_map_simps]: "map_total w Map.empty = 0"
  by (simp add: map_total_def)

lemma map_total_upd_new [sum_map_simps]:
  "finite (dom m) \<Longrightarrow> m k = None \<Longrightarrow> map_total w (m(k \<mapsto> v)) = map_total w m + w v"
  unfolding map_total_def
  by (auto simp: domIff intro!: sum.cong)

lemma map_total_del [sum_map_simps]:
  "finite (dom m) \<Longrightarrow> m k = Some v \<Longrightarrow> map_total w (m(k := None)) + w v = map_total w m"
proof -
  assume fin: "finite (dom m)" and k: "m k = Some v"
  have "map_total w ((m(k := None))(k \<mapsto> v)) = map_total w (m(k := None)) + w v"
    using fin by (intro map_total_upd_new) auto
  then show ?thesis using k by (simp add: map_upd_triv)
qed

lemma map_total_upd_old [sum_map_simps]:
  assumes "finite (dom m)" and "m k = Some v"
  shows "map_total w (m(k \<mapsto> v')) + w v = map_total w m + w v'"
proof -
  have "map_total w ((m(k := None))(k \<mapsto> v')) = map_total w (m(k := None)) + w v'"
    using assms by (intro map_total_upd_new) auto
  then show ?thesis using map_total_del [OF assms, of w] by simp
qed

text \<open>Filtering an association list with distinct keys.\<close>

lemma map_of_filter_value:
  "distinct (map fst m) \<Longrightarrow>
     map_of (filter (\<lambda>(k, v). P v) m) k = (case map_of m k of Some v \<Rightarrow> if P v then Some v else None | None \<Rightarrow> None)"
  by (induction m) (auto split: option.splits simp: map_of_eq_None_iff rev_image_eqI)

lemma distinct_filter_keys: "distinct (map fst m) \<Longrightarrow> distinct (map fst (filter P m))"
  by (induction m) auto

end
