(* ===== verification/Go_Net.thy ===== *)
theory Go_Net
  imports Go_Prelude
begin

text \<open>
  The fragment of package \<open>net\<close> (and \<open>net/netip\<close>, on which it is built) that the
  modelled components call: \<open>ParseIP\<close>, \<open>IP.To4\<close>, the address-class predicates,
  \<open>ParseCIDR\<close>, \<open>IPNet.Contains\<close> and \<open>SplitHostPort\<close>. An \<open>IP\<close> is its list of
  16 bytes (an IPv4 address in its IPv4-mapped form) or, inside an \<open>IPNet\<close>, 4 bytes.
\<close>

section \<open>Decimal and hexadecimal digits\<close>

definition is_digit :: "char \<Rightarrow> bool" where
  "is_digit c \<longleftrightarrow> (let n = (of_char c :: nat) in 48 \<le> n \<and> n \<le> 57)"

definition digit_val :: "char \<Rightarrow> nat" where
  "digit_val c = of_char c - 48"

definition dec_value :: "string \<Rightarrow> nat" where
  "dec_value s = foldl (\<lambda>v c. v * 10 + digit_val c) 0 s"

definition hex_val :: "char \<Rightarrow> nat option" where
  "hex_val c =
     (let n = (of_char c :: nat) in
      if 48 \<le> n \<and> n \<le> 57 then Some (n - 48)
      else if 97 \<le> n \<and> n \<le> 102 then Some (n - 87)
      else if 65 \<le> n \<and> n \<le> 70 then Some (n - 55)
      else None)"

section \<open>Parsing addresses\<close>

text \<open>A decimal octet: one to three digits, no leading zero, at most 255.\<close>

definition octet_ok :: "string \<Rightarrow> bool" where
  "octet_ok s \<longleftrightarrow> s \<noteq> [] \<and> list_all is_digit s \<and> (length s > 1 \<longrightarrow> hd s \<noteq> CHR ''0'') \<and>
     length s \<le> 3 \<and> dec_value s \<le> 255"

definition parse_ipv4 :: "string \<Rightarrow> bytes option" where
  "parse_ipv4 s =
     (let fs = split_on CHR ''.'' s in
      if length fs = 4 \<and> list_all octet_ok fs then Some (map (\<lambda>f. of_nat (dec_value f)) fs)
      else None)"

definition v4_mapped :: "bytes \<Rightarrow> bytes" where
  "v4_mapped b = replicate 10 0 @ [0xFF, 0xFF] @ b"

text \<open>
  The loop of \<open>parseIPv6\<close>: \<open>ip\<close> is what was parsed so far, \<open>ell\<close> the position of the
  ellipsis. The result is the parsed bytes, the ellipsis and the unread rest.
\<close>

definition hex_run :: "string \<Rightarrow> string" where
  "hex_run s = takeWhile (\<lambda>c. hex_val c \<noteq> None) s"

definition hex_value :: "string \<Rightarrow> nat" where
  "hex_value s = foldl (\<lambda>v c. v * 16 + the (hex_val c)) 0 s"

function parse_ipv6_groups ::
  "string \<Rightarrow> bytes \<Rightarrow> nat option \<Rightarrow> (bytes \<times> nat option \<times> string) option" where
  "parse_ipv6_groups s ip ell =
     (if 16 \<le> length ip then Some (ip, ell, s)
      else let run = hex_run s; rest = drop (length run) s in
        if run = [] \<or> length run > 4 then None
        else if rest \<noteq> [] \<and> hd rest = CHR ''.'' then
          (if ell = None \<and> length ip \<noteq> 12 then None
           else if length ip + 4 > 16 then None
           else (case parse_ipv4 s of None \<Rightarrow> None | Some q \<Rightarrow> Some (ip @ q, ell, [])))
        else let ip' = ip @ [of_nat (hex_value run div 256), of_nat (hex_value run mod 256)] in
          if rest = [] then Some (ip', ell, [])
          else if hd rest \<noteq> CHR '':'' \<or> length rest = 1 then None
          else let s' = tl rest in
            if hd s' = CHR '':'' then
              (if ell \<noteq> None then None
               else if tl s' = [] then Some (ip', Some (length ip'), [])
               else parse_ipv6_groups (tl s') ip' (Some (length ip')))
            else parse_ipv6_groups s' ip' ell)"
  by pat_completeness auto
termination
  by (relation "measure (\<lambda>(s, ip, ell). 16 - length ip)") auto

declare parse_ipv6_groups.simps [simp del]

definition parse_ipv6 :: "string \<Rightarrow> bytes option" where
  "parse_ipv6 s =
     (if CHR ''%'' \<in> set s then None
      else let lead = has_prefix s ''::'';
               s1 = (if lead then drop 2 s else s) in
        if lead \<and> s1 = [] then Some (replicate 16 0)
        else (case parse_ipv6_groups s1 [] (if lead then Some 0 else None) of
            None \<Rightarrow> None
          | Some (ip, ell, rest) \<Rightarrow>
              if rest \<noteq> [] then None
              else if length ip < 16 then
                (case ell of None \<Rightarrow> None
                 | Some e \<Rightarrow> Some (take e ip @ replicate (16 - length ip) 0 @ drop e ip))
              else if ell \<noteq> None then None
              else Some ip))"

text \<open>
  \<open>net.ParseIP\<close>: the first of the characters dot, colon and percent decides the family; an
  address with a zone is no \<open>IP\<close>.
\<close>

definition ParseIP :: "string \<Rightarrow> bytes option" where
  "ParseIP s =
     (case find (\<lambda>c. c \<in> {CHR ''.'', CHR '':'', CHR ''%''}) s of
        None \<Rightarrow> None
      | Some c \<Rightarrow>
          if c = CHR ''.'' then map_option v4_mapped (parse_ipv4 s)
          else if c = CHR '':'' then parse_ipv6 s
          else None)"

section \<open>Address classes\<close>

definition To4 :: "bytes \<Rightarrow> bytes option" where
  "To4 ip =
     (if length ip = 4 then Some ip
      else if length ip = 16 \<and> take 12 ip = replicate 10 0 @ [0xFF, 0xFF] then Some (drop 12 ip)
      else None)"

definition IsLoopback :: "bytes \<Rightarrow> bool" where
  "IsLoopback ip =
     (case To4 ip of
        Some q \<Rightarrow> hd q = 127
      | None \<Rightarrow> ip = replicate 15 0 @ [1])"

section \<open>Printing addresses\<close>

fun hex_digits :: "nat \<Rightarrow> string" where
  "hex_digits n =
     (let d = n mod 16; c = (if d < 10 then char_of (48 + d) else char_of (87 + d)) in
      if n < 16 then [c] else hex_digits (n div 16) @ [c])"

declare hex_digits.simps [simp del]

definition ip_groups :: "bytes \<Rightarrow> nat list" where
  "ip_groups ip = map (\<lambda>i. 256 * unat (ip ! (2 * i)) + unat (ip ! (2 * i + 1))) [0 ..< 8]"

text \<open>The first longest run of at least two zero groups: its start and length.\<close>

definition zero_run :: "nat list \<Rightarrow> (nat \<times> nat) option" where
  "zero_run gs =
     foldl (\<lambda>best i.
        let l = length (takeWhile (\<lambda>g. g = 0) (drop i gs)) in
        if 2 \<le> l \<and> (case best of None \<Rightarrow> True | Some (_, m) \<Rightarrow> m < l) then Some (i, l) else best)
      None [0 ..< 8]"

definition ip_string :: "bytes \<Rightarrow> string" where
  "ip_string ip =
     (case To4 ip of
        Some q \<Rightarrow> join_on CHR ''.'' (map (\<lambda>b. nat_digits (unat b)) q)
      | None \<Rightarrow>
          let gs = ip_groups ip; show = (\<lambda>xs. join_on CHR '':'' (map hex_digits xs)) in
          (case zero_run gs of
             None \<Rightarrow> show gs
           | Some (i, l) \<Rightarrow> show (take i gs) @ ''::'' @ show (drop (i + l) gs)))"

section \<open>Networks\<close>

record ip_net =
  net_ip :: bytes
  net_mask :: bytes

definition mask_byte :: "nat \<Rightarrow> u8" where
  "mask_byte n = (if 8 \<le> n then 0xFF else push_bit (8 - n) (mask n))"

definition cidr_mask :: "nat \<Rightarrow> nat \<Rightarrow> bytes" where
  "cidr_mask ones len = map (\<lambda>i. mask_byte (ones - 8 * i)) [0 ..< len]"

definition apply_mask :: "bytes \<Rightarrow> bytes \<Rightarrow> bytes" where
  "apply_mask ip m = map2 (\<lambda>a b. and a b) ip m"

text \<open>\<open>net.ParseCIDR\<close>: the network of the address and the prefix length after the slash.\<close>

definition ParseCIDR :: "string \<Rightarrow> ip_net option" where
  "ParseCIDR s =
     (if CHR ''/'' \<notin> set s then None
      else let addr = takeWhile (\<lambda>c. c \<noteq> CHR ''/'') s; m = drop (Suc (length addr)) s in
        case ParseIP addr of
          None \<Rightarrow> None
        | Some ip \<Rightarrow>
            let v4 = (CHR ''.'' \<in> set addr \<and> CHR '':'' \<notin> set addr);
                len = (if v4 then 4 else 16) in
            if m = [] \<or> \<not> list_all is_digit m \<or> dec_value m > 8 * len then None
            else let mk = cidr_mask (dec_value m) len;
                     ip' = (if v4 then drop 12 ip else ip) in
              Some \<lparr>net_ip = apply_mask ip' mk, net_mask = mk\<rparr>)"

definition Contains :: "ip_net \<Rightarrow> bytes \<Rightarrow> bool" where
  "Contains n ip =
     (let nn = (case To4 (net_ip n) of Some q \<Rightarrow> q | None \<Rightarrow> net_ip n);
          m = (if length (net_mask n) = 16 \<and> length nn = 4 then drop 12 (net_mask n)
               else net_mask n);
          x = (case To4 ip of Some q \<Rightarrow> q | None \<Rightarrow> ip) in
      length x = length nn \<and> apply_mask nn m = apply_mask x m)"

section \<open>Splitting host and port\<close>

definition SplitHostPort :: "string \<Rightarrow> (string \<times> string) option" where
  "SplitHostPort s =
     (if CHR '':'' \<notin> set s then None
      else let port = rev (takeWhile (\<lambda>c. c \<noteq> CHR '':'') (rev s));
               i = length s - length port - 1 in
        if hd s = CHR ''['' then
          (if CHR '']'' \<notin> set s then None
           else let e = length (takeWhile (\<lambda>c. c \<noteq> CHR '']'') s) in
             if Suc e \<noteq> i then None
             else if CHR ''['' \<in> set (drop 1 s) \<or> CHR '']'' \<in> set (drop (Suc e) s) then None
             else Some (take (e - 1) (drop 1 s), port))
        else let host = take i s in
          if CHR '':'' \<in> set host then None
          else if CHR ''['' \<in> set s \<or> CHR '']'' \<in> set s then None
          else Some (host, port))"

section \<open>Facts\<close>

lemma parse_ipv4_length: "parse_ipv4 s = Some b \<Longrightarrow> length b = 4"
  by (auto simp: parse_ipv4_def Let_def split: if_splits)

lemma ParseIP_no_sep:
  "CHR ''.'' \<notin> set s \<Longrightarrow> CHR '':'' \<notin> set s \<Longrightarrow> ParseIP s = None"
proof -
  assume a: "CHR ''.'' \<notin> set s" "CHR '':'' \<notin> set s"
  show ?thesis
  proof (cases "find (\<lambda>c. c \<in> {CHR ''.'', CHR '':'', CHR ''%''}) s")
    case (Some c)
    then have "c \<in> set s" "c \<in> {CHR ''.'', CHR '':'', CHR ''%''}"
      by (auto simp: find_Some_iff in_set_conv_nth)
    with a have "c = CHR ''%''" by auto
    with Some show ?thesis by (simp add: ParseIP_def)
  qed (simp add: ParseIP_def)
qed

lemma ParseIP_no_colon:
  "CHR '':'' \<notin> set s \<Longrightarrow> ParseIP s = Some ip \<Longrightarrow> \<exists>q. parse_ipv4 s = Some q \<and> ip = v4_mapped q"
proof -
  assume a: "CHR '':'' \<notin> set s" and p: "ParseIP s = Some ip"
  from p obtain c where c: "find (\<lambda>c. c \<in> {CHR ''.'', CHR '':'', CHR ''%''}) s = Some c"
    by (auto simp: ParseIP_def split: option.splits)
  then have "c \<in> set s" by (auto simp: find_Some_iff in_set_conv_nth)
  with a p c show ?thesis
    by (auto simp: ParseIP_def split: if_splits)
qed

end
