(* ===== verification/Http_Domain.thy ===== *)
theory Http_Domain
  imports Go_Net
begin

text \<open>
  HTTP host routing (\<open>internal/server/http_domain.go\<close>, and \<open>validateDomain\<close>,
  \<open>normalizeHostLiteral\<close> of \<open>http_tunnel.go\<close>): validation of configured domain
  patterns, canonical form, the candidate patterns of a request host, matching, overlap and
  ownership conflict. A pattern is up to three leading star labels and a fixed suffix. The
  parameter \<open>ul\<close> is Unicode lower-casing of strings that are not ASCII.
\<close>

section \<open>Model\<close>

definition maxHTTPDomainWildcards :: nat where
  "maxHTTPDomainWildcards = 3"

datatype domain_error =
    DomainEmpty
  | DomainWhitespace
  | DomainNoWildcards
  | DomainScheme
  | DomainPath
  | DomainPort
  | DomainTooLong
  | DomainIsIP
  | DomainTooFewLabels
  | LabelEmpty
  | LabelTooLong
  | LabelHyphen
  | LabelNonASCII
  | LabelInvalidChar
  | TooManyWildcards
  | WildcardPosition

definition label_char_ok :: "char \<Rightarrow> bool" where
  "label_char_ok c \<longleftrightarrow>
     (let n = (of_char c :: nat) in (97 \<le> n \<and> n \<le> 122) \<or> (48 \<le> n \<and> n \<le> 57) \<or> n = 45)"

fun label_chars :: "string \<Rightarrow> domain_error option" where
  "label_chars [] = None"
| "label_chars (c # s) =
     (if label_char_ok c then label_chars s
      else if (of_char c :: nat) > 127 then Some LabelNonASCII
      else Some LabelInvalidChar)"

fun validate_labels :: "string list \<Rightarrow> domain_error option" where
  "validate_labels [] = None"
| "validate_labels (l # ls) =
     (if l = [] then Some LabelEmpty
      else if length l > 63 then Some LabelTooLong
      else if has_prefix l ''-'' \<or> has_suffix l ''-'' then Some LabelHyphen
      else (case label_chars l of
              Some e \<Rightarrow> Some e
            | None \<Rightarrow> validate_labels ls))"

definition validateDomain :: "(string \<Rightarrow> string) \<Rightarrow> string \<Rightarrow> domain_error option" where
  "validateDomain ul domain =
     (let raw = trim_space domain in
      if raw = [] then Some DomainEmpty
      else if raw \<noteq> domain \<or> contains_any domain [CHR '' '', CHR 0x09, CHR 0x0D, CHR 0x0A]
        then Some DomainWhitespace
      else if contains_sub domain ''*'' then Some DomainNoWildcards
      else if contains_sub domain ''://'' then Some DomainScheme
      else if contains_any domain ''/?#'' then Some DomainPath
      else if contains_sub domain '':'' then Some DomainPort
      else let normalized = trim_suffix (to_lower ul raw) ''.'' in
        if length normalized > 253 then Some DomainTooLong
        else if ParseIP normalized \<noteq> None then Some DomainIsIP
        else let labels = split_on CHR ''.'' normalized in
          if length labels < 2 then Some DomainTooFewLabels
          else validate_labels labels)"

text \<open>The wildcard loop: the number of leading star labels and the rest of the domain.\<close>

fun strip_wildcards :: "nat \<Rightarrow> string \<Rightarrow> nat \<times> string" where
  "strip_wildcards n (a # b # s) =
     (if a = CHR ''*'' \<and> b = CHR ''.'' then strip_wildcards (Suc n) s else (n, a # b # s))"
| "strip_wildcards n s = (n, s)"

definition validateHTTPDomain :: "(string \<Rightarrow> string) \<Rightarrow> string \<Rightarrow> domain_error option" where
  "validateHTTPDomain ul domain =
     (if domain \<noteq> trim_space domain then Some DomainWhitespace
      else if length (trim_suffix domain ''.'') > 253 then Some DomainTooLong
      else let (count, suffix) = strip_wildcards 0 domain in
        if count > maxHTTPDomainWildcards then Some TooManyWildcards
        else if contains_sub suffix ''*'' then Some WildcardPosition
        else validateDomain ul suffix)"

definition canonicalHTTPDomain :: "(string \<Rightarrow> string) \<Rightarrow> string \<Rightarrow> string" where
  "canonicalHTTPDomain ul domain = trim_suffix (to_lower ul domain) ''.''"

text \<open>The checks on the port of a request authority; the empty host is the rejection.\<close>

definition route_port_ok :: "string \<Rightarrow> bool" where
  "route_port_ok port \<longleftrightarrow>
     port \<noteq> [] \<and> list_all is_digit port \<and> 1 \<le> dec_value port \<and> dec_value port \<le> 65535"

definition route_authority :: "string \<Rightarrow> string option" where
  "route_authority host =
     (case SplitHostPort host of
        Some (name, port) \<Rightarrow>
          if has_prefix host ''['' \<and> ParseIP name = None then None
          else if \<not> route_port_ok port then None
          else Some name
      | None \<Rightarrow>
          if contains_any host '':[]'' then
            (if contains_any host ''[]'' \<and> (\<not> has_prefix host ''['' \<or> \<not> has_suffix host '']'')
             then None
             else if ParseIP (trim_prefix (trim_suffix host '']'') ''['') = None then None
             else Some host)
          else Some host)"

definition canonicalHTTPRouteHost :: "(string \<Rightarrow> string) \<Rightarrow> string \<Rightarrow> string" where
  "canonicalHTTPRouteHost ul host =
     (if host = [] \<or> contains_any host (''* /'' @ [CHR 0x5C] @ ''?#@'' @ [CHR 0x09, CHR 0x0D, CHR 0x0A])
      then []
      else (case route_authority host of
         None \<Rightarrow> []
       | Some host1 \<Rightarrow>
           if has_suffix host1 ''..'' then []
           else let host2 = canonicalHTTPDomain ul (trim_set host1 ''[]'') in
             if ParseIP host2 \<noteq> None \<or> host2 = ''localhost'' then host2
             else if validateDomain ul host2 \<noteq> None then []
             else host2))"

definition wildcard_candidate :: "string list \<Rightarrow> nat \<Rightarrow> string" where
  "wildcard_candidate labels count = repeat_str ''*.'' count @ join_on CHR ''.'' (drop count labels)"

definition httpDomainCandidates :: "(string \<Rightarrow> string) \<Rightarrow> string \<Rightarrow> string list" where
  "httpDomainCandidates ul host0 =
     (let host = canonicalHTTPRouteHost ul host0 in
      if host = [] then []
      else if ParseIP host \<noteq> None then [host]
      else let labels = split_on CHR ''.'' host in
        host # map (wildcard_candidate labels)
                 (filter (\<lambda>count. count + 2 \<le> length labels) [1 ..< Suc maxHTTPDomainWildcards]))"

definition httpDomainMatches :: "(string \<Rightarrow> string) \<Rightarrow> string \<Rightarrow> string \<Rightarrow> bool" where
  "httpDomainMatches ul pattern host \<longleftrightarrow>
     list_ex (\<lambda>candidate. candidate = canonicalHTTPDomain ul pattern) (httpDomainCandidates ul host)"

definition labels_compatible :: "string \<Rightarrow> string \<Rightarrow> bool" where
  "labels_compatible x y \<longleftrightarrow> x = ''*'' \<or> y = ''*'' \<or> x = y"

definition httpDomainsOverlap :: "(string \<Rightarrow> string) \<Rightarrow> string \<Rightarrow> string \<Rightarrow> bool" where
  "httpDomainsOverlap ul left right \<longleftrightarrow>
     (let a = split_on CHR ''.'' (canonicalHTTPDomain ul left);
          b = split_on CHR ''.'' (canonicalHTTPDomain ul right) in
      length a = length b \<and> list_all2 labels_compatible a b)"

definition httpDomainsConflict ::
  "(string \<Rightarrow> string) \<Rightarrow> string \<Rightarrow> string \<Rightarrow> string \<Rightarrow> string \<Rightarrow> bool" where
  "httpDomainsConflict ul left leftOwner right rightOwner \<longleftrightarrow>
     httpDomainsOverlap ul left right \<and>
     (canonicalHTTPDomain ul left = canonicalHTTPDomain ul right \<or>
      leftOwner = [] \<or> rightOwner = [] \<or> leftOwner \<noteq> rightOwner)"

text \<open>The literal form of a host in the management address (\<open>http_tunnel.go\<close>).\<close>

definition normalizeHostLiteral :: "(string \<Rightarrow> string) \<Rightarrow> string \<Rightarrow> string" where
  "normalizeHostLiteral ul host0 =
     (let host = trim_set (trim_suffix (to_lower ul (trim_space host0)) ''.'') ''[]'' in
      if host = [] then []
      else if contains_sub host '':'' then ''['' @ host @ '']''
      else host)"

section \<open>Labels of candidates\<close>

text \<open>The candidate with \<open>n\<close> stars has the labels of the host with the first \<open>n\<close> replaced.\<close>

lemma repeat_star_split:
  "split_on CHR ''.'' (repeat_str ''*.'' n @ s) = replicate n ''*'' @ split_on CHR ''.'' s"
  by (induction n) auto

lemma wildcard_candidate_labels:
  assumes "ls \<noteq> []" and "n < length ls" and "\<forall>l \<in> set ls. CHR ''.'' \<notin> set l"
  shows "split_on CHR ''.'' (wildcard_candidate ls n) = replicate n ''*'' @ drop n ls"
proof -
  have "split_on CHR ''.'' (join_on CHR ''.'' (drop n ls)) = drop n ls"
    using assms by (intro split_join_on) (auto dest: in_set_dropD)
  then show ?thesis by (simp add: wildcard_candidate_def repeat_star_split)
qed

text \<open>The labels of a pattern match the labels of a host: each star stands for one label.\<close>

definition labels_match :: "string list \<Rightarrow> string list \<Rightarrow> bool" where
  "labels_match ps hs \<longleftrightarrow> list_all2 (\<lambda>p h. p = ''*'' \<or> p = h) ps hs"

text \<open>Two patterns that match the same host labels are compatible label by label.\<close>

lemma labels_match_compatible:
  "labels_match ps hs \<Longrightarrow> labels_match qs hs \<Longrightarrow> length ps = length qs \<and> list_all2 labels_compatible ps qs"
  unfolding labels_match_def
  by (simp add: list_all2_conv_all_nth labels_compatible_def) metis

lemma labels_match_stars: "n \<le> length hs \<Longrightarrow> labels_match (replicate n ''*'' @ drop n hs) hs"
  by (auto simp: labels_match_def list_all2_conv_all_nth nth_append)

lemma candidate_labels_match:
  assumes "c \<in> set (httpDomainCandidates ul host)"
  shows "labels_match (split_on CHR ''.'' c) (split_on CHR ''.'' (canonicalHTTPRouteHost ul host))"
proof -
  define h where "h = canonicalHTTPRouteHost ul host"
  define ls where "ls = split_on CHR ''.'' h"
  have nd: "\<forall>l \<in> set ls. CHR ''.'' \<notin> set l" and ne: "ls \<noteq> []"
    by (auto simp: ls_def dest: split_on_pieces)
  from assms consider "c = h"
    | n where "n + 2 \<le> length ls" "c = wildcard_candidate ls n"
    by (auto simp: httpDomainCandidates_def h_def [symmetric] ls_def [symmetric] Let_def
        split: if_split_asm)
  then show ?thesis
  proof cases
    case 1
    then show ?thesis using labels_match_stars [of 0 ls] by (simp add: h_def [symmetric] ls_def)
  next
    case 2
    then show ?thesis
      using wildcard_candidate_labels [OF ne _ nd, of n] labels_match_stars [of n ls]
      by (simp add: h_def [symmetric] ls_def [symmetric])
  qed
qed

section \<open>Validated patterns\<close>

lemma strip_wildcards_shape:
  "strip_wildcards k p = (n, s) \<Longrightarrow> k \<le> n \<and> p = repeat_str ''*.'' (n - k) @ s"
proof (induction k p arbitrary: n s rule: strip_wildcards.induct)
  case (1 k a b p)
  show ?case
  proof (cases "a = CHR ''*'' \<and> b = CHR ''.''")
    case True
    with 1 have "Suc k \<le> n" "p = repeat_str ''*.'' (n - Suc k) @ s" by auto
    moreover then have "n - k = Suc (n - Suc k)" by simp
    ultimately show ?thesis using True by simp
  next
    case False
    with 1 show ?thesis by auto
  qed
qed auto

lemma length_repeat_str [simp]: "length (repeat_str s n) = n * length s"
  by (induction n) auto

lemma to_lower_repeat:
  assumes "\<And>s. to_lower ul (''*.'' @ s) = ''*.'' @ to_lower ul s"
  shows "to_lower ul (repeat_str ''*.'' n @ s) = repeat_str ''*.'' n @ to_lower ul s"
proof (induction n)
  case (Suc n)
  show ?case using assms [of "repeat_str ''*.'' n @ s"] Suc by simp
qed simp

lemma trim_suffix_append:
  "length x \<le> length t \<Longrightarrow> trim_suffix (r @ t) x = r @ trim_suffix t x"
  by (auto simp: trim_suffix_def has_suffix_def has_prefix_def)

lemma label_chars_None: "label_chars l = None \<longleftrightarrow> (\<forall>c \<in> set l. label_char_ok c)"
  by (induction l) auto

lemma validate_labels_None:
  "validate_labels ls = None \<Longrightarrow> l \<in> set ls \<Longrightarrow> l \<noteq> [] \<and> (\<forall>c \<in> set l. label_char_ok c)"
  by (induction ls) (auto simp: label_chars_None split: if_splits option.splits)

lemma validateDomain_None:
  assumes "validateDomain ul s = None"
  defines "t \<equiv> trim_suffix (to_lower ul s) ''.''"
  shows "s \<noteq> []" "ParseIP t = None" "2 \<le> length (split_on CHR ''.'' t)"
    "validate_labels (split_on CHR ''.'' t) = None"
  using assms by (auto simp: validateDomain_def Let_def split: if_splits)

lemma star_not_label: "validate_labels ls = None \<Longrightarrow> ''*'' \<notin> set ls"
  by (auto dest!: validate_labels_None simp: label_char_ok_def Let_def)

text \<open>The canonical form of a validated pattern: stars, then at least two plain labels.\<close>

lemma valid_pattern_shape:
  assumes low: "\<And>s. to_lower ul (''*.'' @ s) = ''*.'' @ to_lower ul s"
    and valid: "validateHTTPDomain ul p = None"
  obtains n t where "canonicalHTTPDomain ul p = repeat_str ''*.'' n @ t" "n \<le> 3"
    "ParseIP t = None" "2 \<le> length (split_on CHR ''.'' t)"
    "''*'' \<notin> set (split_on CHR ''.'' t)"
proof -
  obtain n s where sw: "strip_wildcards 0 p = (n, s)" by force
  from valid sw have n: "n \<le> 3" and vd: "validateDomain ul s = None"
    by (auto simp: validateHTTPDomain_def maxHTTPDomainWildcards_def split: if_splits)
  from strip_wildcards_shape [OF sw] have p: "p = repeat_str ''*.'' n @ s" by simp
  define t where "t = trim_suffix (to_lower ul s) ''.''"
  note vs = validateDomain_None [OF vd, folded t_def]
  have ne: "to_lower ul s \<noteq> []"
  proof
    assume "to_lower ul s = []"
    then have "t = []" by (simp add: t_def trim_suffix_def)
    with vs(3) show False by simp
  qed
  have "canonicalHTTPDomain ul p = repeat_str ''*.'' n @ t"
    using ne by (simp add: canonicalHTTPDomain_def p to_lower_repeat [OF low] t_def
        trim_suffix_append Suc_le_eq)
  with n vs star_not_label [OF vs(4)] show ?thesis by (intro that) auto
qed

lemma star_not_ip: "ParseIP (CHR ''*'' # CHR ''.'' # s) = None"
  by (auto simp: ParseIP_def parse_ipv4_def octet_ok_def is_digit_def Let_def split: list.splits)

text \<open>Matching label by label forces the fixed labels of the pattern onto the host.\<close>

lemma match_stars_fixed:
  assumes "labels_match (replicate n ''*'' @ ts) hs" and "''*'' \<notin> set ts"
  shows "n \<le> length hs \<and> ts = drop n hs"
proof -
  have len: "length hs = n + length ts" and
    eqs: "\<And>i. i < n + length ts \<Longrightarrow> (replicate n ''*'' @ ts) ! i = ''*'' \<or> (replicate n ''*'' @ ts) ! i = hs ! i"
    using assms(1) by (auto simp: labels_match_def list_all2_conv_all_nth)
  have "ts ! i = drop n hs ! i" if "i < length ts" for i
    using eqs [of "n + i"] that assms(2) len by (auto simp: nth_append in_set_conv_nth)
  then show ?thesis using len by (auto intro: nth_equalityI)
qed

text \<open>
  C18 (functional correctness of routing). A validated pattern serves a request host exactly
  when the host is no IP literal and its labels match those of the pattern, each star standing
  for one label; no regular expression and no map order is involved. The hypothesis
  \<open>low\<close> says that lower-casing leaves a leading star label alone.
\<close>

theorem httpDomainMatches_spec:
  assumes low: "\<And>s. to_lower ul (''*.'' @ s) = ''*.'' @ to_lower ul s"
    and valid: "validateHTTPDomain ul p = None"
    and host: "canonicalHTTPRouteHost ul host \<noteq> []"
  shows "httpDomainMatches ul p host \<longleftrightarrow>
     ParseIP (canonicalHTTPRouteHost ul host) = None \<and>
     labels_match (split_on CHR ''.'' (canonicalHTTPDomain ul p))
                  (split_on CHR ''.'' (canonicalHTTPRouteHost ul host))" (is "?L \<longleftrightarrow> ?R")
proof -
  define h where "h = canonicalHTTPRouteHost ul host"
  define ls where "ls = split_on CHR ''.'' h"
  from low valid obtain n t where can: "canonicalHTTPDomain ul p = repeat_str ''*.'' n @ t"
    and n: "n \<le> 3" and noip: "ParseIP t = None" and two: "2 \<le> length (split_on CHR ''.'' t)"
    and nostar: "''*'' \<notin> set (split_on CHR ''.'' t)"
    by (rule valid_pattern_shape)
  have labels: "split_on CHR ''.'' (canonicalHTTPDomain ul p) = replicate n ''*'' @ split_on CHR ''.'' t"
    by (simp add: can repeat_star_split)
  show ?thesis
  proof
    assume L: ?L
    have "ParseIP (repeat_str ''*.'' n @ t) = None"
      using noip by (cases n) (auto simp: star_not_ip)
    with L have "ParseIP h = None"
      using host by (auto simp: httpDomainMatches_def list_ex_iff httpDomainCandidates_def can h_def
          Let_def split: if_split_asm)
    moreover from L have "canonicalHTTPDomain ul p \<in> set (httpDomainCandidates ul host)"
      by (auto simp: httpDomainMatches_def list_ex_iff)
    ultimately show ?R using candidate_labels_match by (simp add: h_def)
  next
    assume R: ?R
    then have m: "n \<le> length ls" "split_on CHR ''.'' t = drop n ls"
      using match_stars_fixed [OF _ nostar, of n ls] by (auto simp: labels ls_def h_def)
    then have t: "t = join_on CHR ''.'' (drop n ls)" by (metis join_split_on)
    have "n + 2 \<le> length ls" using two m by (simp add: m)
    then have "repeat_str ''*.'' n @ t \<in> set (h # map (wildcard_candidate ls)
        (filter (\<lambda>count. count + 2 \<le> length ls) [1 ..< Suc maxHTTPDomainWildcards]))"
      using n t by (cases "n = 0")
        (simp_all add: maxHTTPDomainWildcards_def wildcard_candidate_def ls_def image_iff Bex_def,
         auto intro!: exI [of _ n])
    moreover have "httpDomainCandidates ul host = h # map (wildcard_candidate ls)
        (filter (\<lambda>count. count + 2 \<le> length ls) [1 ..< Suc maxHTTPDomainWildcards])"
      using R host by (simp add: httpDomainCandidates_def Let_def h_def ls_def)
    ultimately show ?L by (simp only: httpDomainMatches_def list_ex_iff can) blast
  qed
qed

text \<open>
  Two patterns that can serve the same request host overlap, so patterns of
  different users that serve a common host are always reported as a conflict.
\<close>

theorem shared_host_conflict:
  assumes "httpDomainMatches ul p host" and "httpDomainMatches ul q host" and "u \<noteq> v"
  shows "httpDomainsConflict ul p u q v"
proof -
  have "labels_match (split_on CHR ''.'' (canonicalHTTPDomain ul r))
      (split_on CHR ''.'' (canonicalHTTPRouteHost ul host))"
    if "httpDomainMatches ul r host" for r
    using that candidate_labels_match [of "canonicalHTTPDomain ul r" ul host]
    by (auto simp: httpDomainMatches_def list_ex_iff)
  from labels_match_compatible [OF this [OF assms(1)] this [OF assms(2)]] assms(3) show ?thesis
    by (simp add: httpDomainsConflict_def httpDomainsOverlap_def)
qed

text \<open>The routing theorem on a two-star pattern and a request authority with a port.\<close>

theorem httpDomainMatches_spec_witness:
  "httpDomainMatches id ''*.*.Example.com'' ''a.b.example.com:8443''"
proof -
  have low: "to_lower id (''*.'' @ s) = ''*.'' @ to_lower id s" for s
    by (simp add: to_lower_def is_ascii_def ascii_lower_def)
  have valid: "validateHTTPDomain id ''*.*.Example.com'' = None" by code_simp
  have host: "canonicalHTTPRouteHost id ''a.b.example.com:8443'' \<noteq> []" by code_simp
  have "ParseIP (canonicalHTTPRouteHost id ''a.b.example.com:8443'') = None \<and>
     labels_match (split_on CHR ''.'' (canonicalHTTPDomain id ''*.*.Example.com''))
                  (split_on CHR ''.'' (canonicalHTTPRouteHost id ''a.b.example.com:8443''))"
    by code_simp
  with httpDomainMatches_spec [OF low valid host] show ?thesis by simp
qed

text \<open>The conflict theorem on an exact pattern and a wildcard pattern of another user.\<close>

theorem shared_host_conflict_witness:
  "httpDomainsConflict id ''*.example.com'' ''u1'' ''a.example.com.'' ''u2''"
proof -
  have "httpDomainMatches id ''*.example.com'' ''a.example.com''"
    "httpDomainMatches id ''a.example.com.'' ''a.example.com''" by code_simp+
  then show ?thesis by (rule shared_host_conflict) simp
qed

end
