(* ===== verification/Go_Json.thy ===== *)
theory Go_Json
  imports Go_Prelude
begin

text \<open>
  The fragment of package \<open>encoding/json\<close> used on endpoint configurations: the text of a
  \<open>json.RawMessage\<close> is tokenised and parsed into a value, struct fields are decoded from
  an object the way \<open>Unmarshal\<close> does (field names compared up to case folding, later
  members win, a null leaves the field as it is, a value of another type is an error), and
  values are printed the way \<open>Marshal\<close> prints them.
\<close>

section \<open>Values\<close>

text \<open>A number keeps its literal; an object keeps its members in order.\<close>

datatype json =
    JNull
  | JBool bool
  | JNum string
  | JStr string
  | JArr "json list"
  | JObj "(string \<times> json) list"

section \<open>UTF-8\<close>

definition ord_c :: "char \<Rightarrow> nat" where
  "ord_c c = of_char c"

definition cont_c :: "char \<Rightarrow> bool" where
  "cont_c c \<longleftrightarrow> 128 \<le> ord_c c \<and> ord_c c \<le> 191"

text \<open>The size of the rune at the head of a string: 0 when the bytes are not valid UTF-8.\<close>

definition rune_size :: "string \<Rightarrow> nat" where
  "rune_size s =
     (case s of
        [] \<Rightarrow> 0
      | a # r \<Rightarrow>
        let n = ord_c a in
        if n < 128 then 1
        else (case r of
          [] \<Rightarrow> 0
        | b # r2 \<Rightarrow>
          if \<not> cont_c b then 0
          else if 194 \<le> n \<and> n \<le> 223 then 2
          else (case r2 of
            [] \<Rightarrow> 0
          | c # r3 \<Rightarrow>
            if \<not> cont_c c then 0
            else if 224 \<le> n \<and> n \<le> 239 then
              (if (n = 224 \<longrightarrow> 160 \<le> ord_c b) \<and> (n = 237 \<longrightarrow> ord_c b \<le> 159) then 3 else 0)
            else (case r3 of
              [] \<Rightarrow> 0
            | d # _ \<Rightarrow>
              if cont_c d \<and> 240 \<le> n \<and> n \<le> 244 \<and> (n = 240 \<longrightarrow> 144 \<le> ord_c b) \<and>
                 (n = 244 \<longrightarrow> ord_c b \<le> 143) then 4 else 0))))"

definition replacement_char :: string where
  "replacement_char = [CHR 0xEF, CHR 0xBF, CHR 0xBD]"

definition encode_rune :: "nat \<Rightarrow> string" where
  "encode_rune n =
     (if n < 128 then [char_of n]
      else if n < 2048 then [char_of (192 + n div 64), char_of (128 + n mod 64)]
      else if n < 65536 then
        [char_of (224 + n div 4096), char_of (128 + n div 64 mod 64), char_of (128 + n mod 64)]
      else [char_of (240 + n div 262144), char_of (128 + n div 4096 mod 64),
            char_of (128 + n div 64 mod 64), char_of (128 + n mod 64)])"

definition hex_digit :: "char \<Rightarrow> nat option" where
  "hex_digit c =
     (let n = ord_c c in
      if 48 \<le> n \<and> n \<le> 57 then Some (n - 48)
      else if 97 \<le> n \<and> n \<le> 102 then Some (n - 87)
      else if 65 \<le> n \<and> n \<le> 70 then Some (n - 55)
      else None)"

definition hex4 :: "string \<Rightarrow> nat option" where
  "hex4 s =
     (case map hex_digit (take 4 s) of
        [Some a, Some b, Some c, Some d] \<Rightarrow> Some (((a * 16 + b) * 16 + c) * 16 + d)
      | _ \<Rightarrow> None)"

section \<open>Tokens\<close>

text \<open>
  A string literal after its opening quote: the decoded string and the unread rest. Invalid
  UTF-8 and unpaired surrogates become the replacement character, as in \<open>unquoteBytes\<close>.
\<close>

definition simple_escape :: "char \<Rightarrow> char option" where
  "simple_escape c =
     (if c \<in> {CHR ''\"'', CHR 0x5C, CHR ''/''} then Some c
      else if c = CHR ''b'' then Some (CHR 0x08)
      else if c = CHR ''f'' then Some (CHR 0x0C)
      else if c = CHR ''n'' then Some (CHR 0x0A)
      else if c = CHR ''r'' then Some (CHR 0x0D)
      else if c = CHR ''t'' then Some (CHR 0x09)
      else None)"

function scan_string :: "string \<Rightarrow> string \<Rightarrow> (string \<times> string) option" where
  "scan_string acc [] = None"
| "scan_string acc (c # s) =
     (if c = CHR ''\"'' then Some (acc, s)
      else if ord_c c < 32 then None
      else if c = CHR 0x5C then
        (case s of
           [] \<Rightarrow> None
         | e # r \<Rightarrow>
             if e = CHR ''u'' then
               (case hex4 r of
                  None \<Rightarrow> None
                | Some u \<Rightarrow>
                    let r4 = drop 4 r in
                    if 55296 \<le> u \<and> u < 57344 then
                      (if u < 56320 \<and> take 2 r4 = [CHR 0x5C, CHR ''u''] then
                         (case hex4 (drop 2 r4) of
                            None \<Rightarrow> None
                          | Some v \<Rightarrow>
                              if 56320 \<le> v \<and> v < 57344 then
                                scan_string (acc @ encode_rune (65536 + (u - 55296) * 1024 + (v - 56320)))
                                  (drop 6 r4)
                              else scan_string (acc @ replacement_char) r4)
                       else scan_string (acc @ replacement_char) r4)
                    else scan_string (acc @ encode_rune u) r4)
             else (case simple_escape e of
                     None \<Rightarrow> None
                   | Some d \<Rightarrow> scan_string (acc @ [d]) r))
      else let k = rune_size (c # s) in
        if k = 0 then scan_string (acc @ replacement_char) s
        else scan_string (acc @ take k (c # s)) (drop (k - 1) s))"
  by pat_completeness auto
termination by (relation "measure (\<lambda>(acc, s). length s)") auto

declare scan_string.simps(2) [simp del]

text \<open>The JSON number grammar, on a maximal run of number characters.\<close>

definition is_dig :: "char \<Rightarrow> bool" where
  "is_dig c \<longleftrightarrow> 48 \<le> ord_c c \<and> ord_c c \<le> 57"

definition exponent_ok :: "string \<Rightarrow> bool" where
  "exponent_ok s \<longleftrightarrow>
     s = [] \<or> (hd s \<in> {CHR ''e'', CHR ''E''} \<and>
       (let t = tl s; u = (if t \<noteq> [] \<and> hd t \<in> {CHR ''+'', CHR ''-''} then tl t else t) in
        u \<noteq> [] \<and> list_all is_dig u))"

definition number_ok :: "string \<Rightarrow> bool" where
  "number_ok s \<longleftrightarrow>
     (let t = (if s \<noteq> [] \<and> hd s = CHR ''-'' then tl s else s);
          i = takeWhile is_dig t; r = dropWhile is_dig t in
      i \<noteq> [] \<and> (length i > 1 \<longrightarrow> hd i \<noteq> CHR ''0'') \<and>
      (if r \<noteq> [] \<and> hd r = CHR ''.'' then
         takeWhile is_dig (tl r) \<noteq> [] \<and> exponent_ok (dropWhile is_dig (tl r))
       else exponent_ok r))"

definition is_num_char :: "char \<Rightarrow> bool" where
  "is_num_char c \<longleftrightarrow> is_dig c \<or> c \<in> set ''+-.eE''"

definition is_json_space :: "char \<Rightarrow> bool" where
  "is_json_space c \<longleftrightarrow> c \<in> {CHR 0x20, CHR 0x09, CHR 0x0A, CHR 0x0D}"

datatype token = TPunct char | TLit json

function tokens :: "string \<Rightarrow> token list option" where
  "tokens [] = Some []"
| "tokens (c # s) =
     (if is_json_space c then tokens s
      else if c \<in> set ''{}[]:,'' then map_option ((#) (TPunct c)) (tokens s)
      else if c = CHR ''\"'' then
        (case scan_string [] s of
           None \<Rightarrow> None
         | Some (v, r) \<Rightarrow> map_option ((#) (TLit (JStr v))) (if length r \<le> length s then tokens r else None))
      else if has_prefix (c # s) ''true'' then map_option ((#) (TLit (JBool True))) (tokens (drop 3 s))
      else if has_prefix (c # s) ''false'' then map_option ((#) (TLit (JBool False))) (tokens (drop 4 s))
      else if has_prefix (c # s) ''null'' then map_option ((#) (TLit JNull)) (tokens (drop 3 s))
      else let n = takeWhile is_num_char (c # s) in
        if number_ok n then map_option ((#) (TLit (JNum n))) (tokens (drop (length n - 1) s))
        else None)"
  by pat_completeness auto
termination by (relation "measure length") auto

declare tokens.simps(2) [simp del]

section \<open>Parsing with a stack\<close>

datatype frame = FArr "json list" | FObj "(string \<times> json) list" | FKey "(string \<times> json) list" string

datatype expect = EValue | EValueOrClose | EKey | EKeyOrClose | EColon | ENext

text \<open>A finished value goes into the frame on top of the stack.\<close>

definition push_value :: "json \<Rightarrow> frame list \<Rightarrow> (frame list \<times> expect, json) sum option" where
  "push_value v st =
     (case st of
        [] \<Rightarrow> Some (Inr v)
      | FArr vs # fs \<Rightarrow> Some (Inl (FArr (vs @ [v]) # fs, ENext))
      | FKey ms k # fs \<Rightarrow> Some (Inl (FObj (ms @ [(k, v)]) # fs, ENext))
      | FObj ms # fs \<Rightarrow> None)"

definition parse_step :: "token \<Rightarrow> frame list \<times> expect \<Rightarrow> (frame list \<times> expect, json) sum option" where
  "parse_step t se =
     (case se of (st, e) \<Rightarrow>
        (case t of
           TLit v \<Rightarrow>
             if e = EValue \<or> e = EValueOrClose then push_value v st
             else if e = EKey \<or> e = EKeyOrClose then
               (case (v, st) of
                  (JStr k, FObj ms # fs) \<Rightarrow> Some (Inl (FKey ms k # fs, EColon))
                | _ \<Rightarrow> None)
             else None
         | TPunct c \<Rightarrow>
             if c = CHR ''{'' then
               (if e = EValue \<or> e = EValueOrClose then Some (Inl (FObj [] # st, EKeyOrClose)) else None)
             else if c = CHR ''['' then
               (if e = EValue \<or> e = EValueOrClose then Some (Inl (FArr [] # st, EValueOrClose)) else None)
             else if c = CHR ''}'' then
               (case st of
                  FObj ms # fs \<Rightarrow> if e = EKeyOrClose \<or> e = ENext then push_value (JObj ms) fs else None
                | _ \<Rightarrow> None)
             else if c = CHR '']'' then
               (case st of
                  FArr vs # fs \<Rightarrow> if e = EValueOrClose \<or> e = ENext then push_value (JArr vs) fs else None
                | _ \<Rightarrow> None)
             else if c = CHR '':'' then
               (if e = EColon then Some (Inl (st, EValue)) else None)
             else
               (case st of
                  FArr vs # fs \<Rightarrow> if e = ENext then Some (Inl (st, EValue)) else None
                | FObj ms # fs \<Rightarrow> if e = ENext then Some (Inl (st, EKey)) else None
                | _ \<Rightarrow> None)))"

fun parse_tokens :: "token list \<Rightarrow> frame list \<times> expect \<Rightarrow> json option" where
  "parse_tokens [] se = None"
| "parse_tokens (t # ts) se =
     (case parse_step t se of
        None \<Rightarrow> None
      | Some (Inl se') \<Rightarrow> parse_tokens ts se'
      | Some (Inr v) \<Rightarrow> if ts = [] then Some v else None)"

definition json_parse :: "string \<Rightarrow> json option" where
  "json_parse s = (case tokens s of None \<Rightarrow> None | Some ts \<Rightarrow> parse_tokens ts ([], EValue))"

text \<open>\<open>json.Valid\<close>.\<close>

definition json_valid :: "string \<Rightarrow> bool" where
  "json_valid s \<longleftrightarrow> json_parse s \<noteq> None"

section \<open>Decoding struct fields\<close>

text \<open>
  Field names fold to upper case; the only non-ASCII runes that fold to an ASCII letter are
  U+017F (to S) and U+212A (to K).
\<close>

fun fold_name :: "string \<Rightarrow> string" where
  "fold_name [] = []"
| "fold_name (a # s) =
     (if a = CHR 0xC5 \<and> take 1 s = [CHR 0xBF] then CHR ''S'' # fold_name (drop 1 s)
      else if a = CHR 0xE2 \<and> take 2 s = [CHR 0x84, CHR 0xAA] then CHR ''K'' # fold_name (drop 2 s)
      else (if 97 \<le> ord_c a \<and> ord_c a \<le> 122 then char_of (ord_c a - 32) else a) # fold_name s)"

definition members :: "string \<Rightarrow> (string \<times> json) list \<Rightarrow> json list" where
  "members name ms = map snd (filter (\<lambda>(k, v). fold_name k = fold_name name) ms)"

text \<open>
  Decoding one field: every member of that name is stored in turn over the value the field
  has, and one member of a wrong type makes the whole \<open>Unmarshal\<close> fail. A null leaves
  a string, number or struct as it is and sets a slice to nil.
\<close>

fun decode_field :: "(json \<Rightarrow> 'a \<Rightarrow> 'a option) \<Rightarrow> 'a \<Rightarrow> json list \<Rightarrow> 'a option" where
  "decode_field d x [] = Some x"
| "decode_field d x (v # vs) = (case d v x of None \<Rightarrow> None | Some y \<Rightarrow> decode_field d y vs)"

fun string_into :: "json \<Rightarrow> string \<Rightarrow> string option" where
  "string_into JNull x = Some x"
| "string_into (JStr s) x = Some s"
| "string_into _ x = None"

definition digits_value :: "string \<Rightarrow> int" where
  "digits_value s = foldl (\<lambda>v c. v * 10 + int (ord_c c - 48)) 0 s"

definition parse_int64 :: "string \<Rightarrow> int option" where
  "parse_int64 s =
     (let neg = (s \<noteq> [] \<and> hd s = CHR ''-''); t = (if neg then tl s else s);
          v = (if neg then - digits_value t else digits_value t) in
      if t = [] \<or> \<not> list_all is_dig t \<or> v < - (2 ^ 63) \<or> 2 ^ 63 \<le> v then None else Some v)"

fun int_into :: "json \<Rightarrow> int \<Rightarrow> int option" where
  "int_into JNull x = Some x"
| "int_into (JNum n) x = parse_int64 n"
| "int_into _ x = None"

text \<open>A slice of strings is \<open>None\<close> when nil; a null element keeps the zero value.\<close>

fun strings_into :: "json \<Rightarrow> string list option \<Rightarrow> string list option option" where
  "strings_into JNull x = Some None"
| "strings_into (JArr vs) x =
     (if list_all (\<lambda>v. string_into v [] \<noteq> None) vs
      then Some (Some (map (\<lambda>v. the (string_into v [])) vs)) else None)"
| "strings_into _ x = None"

text \<open>The members of the object a text denotes; null decodes a struct to its zero value.\<close>

definition json_object :: "string \<Rightarrow> (string \<times> json) list option" where
  "json_object raw =
     (case json_parse raw of
        Some (JObj ms) \<Rightarrow> Some ms
      | Some JNull \<Rightarrow> Some []
      | _ \<Rightarrow> None)"

section \<open>Printing\<close>

definition hex_char :: "nat \<Rightarrow> char" where
  "hex_char n = (if n < 10 then char_of (48 + n) else char_of (87 + n))"

text \<open>
  \<open>Marshal\<close> escapes quotes, backslashes, control characters, the HTML characters and the
  line separators U+2028 and U+2029, and replaces invalid UTF-8 by an escaped U+FFFD.
\<close>

function quote_body :: "string \<Rightarrow> string" where
  "quote_body [] = []"
| "quote_body (c # s) =
     (if c \<in> {CHR ''\"'', CHR 0x5C} then CHR 0x5C # c # quote_body s
      else if c = CHR 0x08 then CHR 0x5C # CHR ''b'' # quote_body s
      else if c = CHR 0x0C then CHR 0x5C # CHR ''f'' # quote_body s
      else if c = CHR 0x0A then CHR 0x5C # CHR ''n'' # quote_body s
      else if c = CHR 0x0D then CHR 0x5C # CHR ''r'' # quote_body s
      else if c = CHR 0x09 then CHR 0x5C # CHR ''t'' # quote_body s
      else if ord_c c < 32 \<or> c \<in> set ''<>&'' then
        [CHR 0x5C, CHR ''u'', CHR ''0'', CHR ''0'', hex_char (ord_c c div 16), hex_char (ord_c c mod 16)]
          @ quote_body s
      else let k = rune_size (c # s) in
        if k = 0 then CHR 0x5C # ''ufffd'' @ quote_body s
        else if take 3 (c # s) = [CHR 0xE2, CHR 0x80, CHR 0xA8] then CHR 0x5C # ''u2028'' @ quote_body (drop 2 s)
        else if take 3 (c # s) = [CHR 0xE2, CHR 0x80, CHR 0xA9] then CHR 0x5C # ''u2029'' @ quote_body (drop 2 s)
        else take k (c # s) @ quote_body (drop (k - 1) s))"
  by pat_completeness auto
termination by (relation "measure length") auto

declare quote_body.simps(2) [simp del]

definition json_quote :: "string \<Rightarrow> string" where
  "json_quote s = CHR ''\"'' # quote_body s @ [CHR ''\"'']"

fun json_print :: "json \<Rightarrow> string" where
  "json_print JNull = ''null''"
| "json_print (JBool b) = (if b then ''true'' else ''false'')"
| "json_print (JNum n) = n"
| "json_print (JStr s) = json_quote s"
| "json_print (JArr vs) = CHR ''['' # join_on CHR '','' (map json_print vs) @ [CHR '']'']"
| "json_print (JObj ms) =
     CHR ''{'' # join_on CHR '','' (map (\<lambda>(k, v). json_quote k @ CHR '':'' # json_print v) ms) @ [CHR ''}'']"

end
