(* ===== verification/Tunnel_Model.thy ===== *)
theory Tunnel_Model
  imports Http_Domain Go_Json
begin

text \<open>
  The tunnel data model of the server: the records of \<open>pkg/protocol/types.go\<close> and
  \<open>internal/server/store.go\<close>, the state rules of \<open>internal/server/tunnel_state.go\<close>,
  normalisation and validation of a stored tunnel, the ingress resource keys, and the endpoint
  configuration views that hide credentials. An embedded Go struct is a record extension; an
  operation that may panic or fail returns a sum.
\<close>

section \<open>Constants\<close>

abbreviation "ProxyDesiredStateRunning \<equiv> ''running''"
abbreviation "ProxyDesiredStateStopped \<equiv> ''stopped''"
abbreviation "ProxyRuntimeStatePending \<equiv> ''pending''"
abbreviation "ProxyRuntimeStateExposed \<equiv> ''exposed''"
abbreviation "ProxyRuntimeStateOffline \<equiv> ''offline''"
abbreviation "ProxyRuntimeStateIdle \<equiv> ''idle''"
abbreviation "ProxyRuntimeStateError \<equiv> ''error''"
abbreviation "TunnelRuntimeStateActive \<equiv> ''active''"
abbreviation "TunnelTopologyServerExpose \<equiv> ''server_expose''"
abbreviation "TunnelTopologyClientToClient \<equiv> ''client_to_client''"
abbreviation "EndpointLocationServer \<equiv> ''server''"
abbreviation "EndpointLocationClient \<equiv> ''client''"
abbreviation "TunnelIngressTypeTCPListen \<equiv> ''tcp_listen''"
abbreviation "TunnelIngressTypeUDPListen \<equiv> ''udp_listen''"
abbreviation "TunnelIngressTypeHTTPHost \<equiv> ''http_host''"
abbreviation "TunnelIngressTypeSOCKS5Listen \<equiv> ''socks5_listen''"
abbreviation "TunnelTargetTypeTCPService \<equiv> ''tcp_service''"
abbreviation "TunnelTargetTypeUDPService \<equiv> ''udp_service''"
abbreviation "TunnelTargetTypeSOCKS5ConnectHandler \<equiv> ''socks5_connect_handler''"
abbreviation "TunnelTransportServerRelayOnly \<equiv> ''server_relay_only''"
abbreviation "TunnelTransportDirectPreferred \<equiv> ''direct_preferred''"
abbreviation "TunnelTransportDirectOnly \<equiv> ''direct_only''"
abbreviation "TunnelActualTransportUnknown \<equiv> ''unknown''"
abbreviation "TunnelActualTransportServerRelay \<equiv> ''server_relay''"
abbreviation "TunnelActualTransportPeerDirect \<equiv> ''peer_direct''"
abbreviation "TunnelBindingClientID \<equiv> ''client_id''"
abbreviation "ProxyTypeTCP \<equiv> ''tcp''"
abbreviation "ProxyTypeUDP \<equiv> ''udp''"
abbreviation "ProxyTypeHTTP \<equiv> ''http''"

section \<open>Records\<close>

record EndpointSpec =
  ep_Location :: string
  ep_ClientID :: string
  ep_Type :: string
  ep_Config :: string

record P2PState =
  p2p_State :: string
  p2p_Error :: string
  p2p_SessionID :: string

record BandwidthSettings =
  bw_IngressBPS :: int
  bw_EgressBPS :: int
  bw_TotalBPS :: int

record ProxyNewRequest =
  tn_ID :: string
  tn_Name :: string
  tn_Type :: string
  tn_LocalIP :: string
  tn_LocalPort :: int
  tn_RemotePort :: int
  tn_BindIP :: string
  tn_Domain :: string
  tn_RequestPolicy :: string
  tn_RequestTransport :: string
  tn_ProvisionRevision :: u64
  tn_Bandwidth :: BandwidthSettings

record StoredTunnel = ProxyNewRequest +
  tn_DesiredState :: string
  tn_RuntimeState :: string
  tn_Error :: string
  tn_ClientID :: string
  tn_Hostname :: string
  tn_Binding :: string
  tn_CreatedAt :: gotime
  tn_Revision :: int
  tn_Topology :: string
  tn_OwnerClientID :: string
  tn_Ingress :: EndpointSpec
  tn_Target :: EndpointSpec
  tn_TransportPolicy :: string
  tn_ActualTransport :: string
  tn_P2P :: P2PState
  tn_OwnerUserID :: string
  tn_CreatedByUserID :: string
  tn_UpdatedAt :: gotime

record TunnelCapabilities =
  CanResume :: bool
  CanStop :: bool
  CanEdit :: bool
  CanDelete :: bool
  CanMigrate :: bool

text \<open>
  The display fields of \<open>ProxyConfig\<close> that carry issues, participants and the transport
  runtime are only copied by the modelled operations and are left out.
\<close>

record ProxyConfig =
  pc_ID :: string
  pc_Name :: string
  pc_Revision :: int
  pc_Type :: string
  pc_LocalIP :: string
  pc_LocalPort :: int
  pc_RemotePort :: int
  pc_BindIP :: string
  pc_Domain :: string
  pc_ClientID :: string
  pc_Topology :: string
  pc_OwnerClientID :: string
  pc_Ingress :: "EndpointSpec option"
  pc_Target :: "EndpointSpec option"
  pc_TransportPolicy :: string
  pc_ActualTransport :: string
  pc_P2P :: "P2PState option"
  pc_Bandwidth :: BandwidthSettings
  pc_CreatedAt :: gotime
  pc_DesiredState :: string
  pc_RuntimeState :: string
  pc_Error :: string
  pc_Capabilities :: "TunnelCapabilities option"

section \<open>Tunnel states (tunnel\_state.go)\<close>

datatype state_error =
    RunningUnsupported string
  | StoppedRequiresIdle string string
  | UnknownDesiredState string
  | ErrorMustBeEmpty string

definition canonicalDesiredState :: "string \<Rightarrow> string" where
  "canonicalDesiredState d = (if d = ''paused'' then ProxyDesiredStateStopped else d)"

definition tunnelErrorForRuntimeState :: "string \<Rightarrow> string \<Rightarrow> string" where
  "tunnelErrorForRuntimeState r e = (if r = ProxyRuntimeStateError then e else [])"

definition validateTunnelStates :: "string \<Rightarrow> string \<Rightarrow> string \<Rightarrow> state_error option" where
  "validateTunnelStates desired0 r e =
     (let d = canonicalDesiredState desired0;
          tail = (if r \<noteq> ProxyRuntimeStateError \<and> e \<noteq> [] then Some (ErrorMustBeEmpty r) else None) in
      if d = ProxyDesiredStateRunning then
        (if r \<in> {ProxyRuntimeStatePending, ProxyRuntimeStateExposed, ProxyRuntimeStateOffline,
                 ProxyRuntimeStateError} then tail
         else Some (RunningUnsupported r))
      else if d = ProxyDesiredStateStopped then
        (if r \<noteq> ProxyRuntimeStateIdle then Some (StoppedRequiresIdle d r) else tail)
      else Some (UnknownDesiredState d))"

text \<open>\<open>mustValidateTunnelStates\<close> panics with the error: the left result of the setters.\<close>

definition mustValidateTunnelStates :: "string \<Rightarrow> string \<Rightarrow> string \<Rightarrow> state_error + unit" where
  "mustValidateTunnelStates d r e =
     (case validateTunnelStates d r e of Some err \<Rightarrow> Inl err | None \<Rightarrow> Inr ())"

definition setProxyConfigStates ::
  "ProxyConfig \<Rightarrow> string \<Rightarrow> string \<Rightarrow> string \<Rightarrow> state_error + ProxyConfig" where
  "setProxyConfigStates c desired0 r e =
     (let d = canonicalDesiredState desired0 in
      bind_res (mustValidateTunnelStates d r e) (\<lambda>_.
        Inr (c\<lparr>pc_DesiredState := d, pc_RuntimeState := r,
               pc_Error := tunnelErrorForRuntimeState r e\<rparr>)))"

definition setStoredTunnelStates ::
  "StoredTunnel \<Rightarrow> string \<Rightarrow> string \<Rightarrow> string \<Rightarrow> state_error + StoredTunnel" where
  "setStoredTunnelStates t desired0 r e =
     (let d = canonicalDesiredState desired0 in
      bind_res (mustValidateTunnelStates d r e) (\<lambda>_.
        Inr (t\<lparr>tn_DesiredState := d, tn_RuntimeState := r,
               tn_Error := tunnelErrorForRuntimeState r e\<rparr>)))"

definition isTunnelExposed :: "ProxyConfig \<Rightarrow> bool" where
  "isTunnelExposed c \<longleftrightarrow>
     pc_DesiredState c = ProxyDesiredStateRunning \<and> pc_RuntimeState c = ProxyRuntimeStateExposed"

definition isActiveRuntimeState :: "string \<Rightarrow> bool" where
  "isActiveRuntimeState r \<longleftrightarrow> r = ProxyRuntimeStateExposed \<or> r = TunnelRuntimeStateActive"

definition isTunnelOffline :: "ProxyConfig \<Rightarrow> bool" where
  "isTunnelOffline c \<longleftrightarrow>
     pc_DesiredState c = ProxyDesiredStateRunning \<and> pc_RuntimeState c = ProxyRuntimeStateOffline"

definition canResumeTunnel :: "ProxyConfig \<Rightarrow> bool" where
  "canResumeTunnel c \<longleftrightarrow>
     (canonicalDesiredState (pc_DesiredState c) = ProxyDesiredStateStopped \<and>
      pc_RuntimeState c = ProxyRuntimeStateIdle) \<or>
     (pc_DesiredState c = ProxyDesiredStateRunning \<and> pc_RuntimeState c = ProxyRuntimeStateError)"

definition canEditOrDeleteLiveTunnel :: "ProxyConfig \<Rightarrow> bool" where
  "canEditOrDeleteLiveTunnel c \<longleftrightarrow>
     (canonicalDesiredState (pc_DesiredState c) = ProxyDesiredStateStopped \<and>
      pc_RuntimeState c = ProxyRuntimeStateIdle) \<or>
     (pc_DesiredState c = ProxyDesiredStateRunning \<and> pc_RuntimeState c = ProxyRuntimeStateError)"

definition computeTunnelCapabilities :: "ProxyConfig \<Rightarrow> TunnelCapabilities" where
  "computeTunnelCapabilities c =
     \<lparr>CanResume = canResumeTunnel c,
      CanStop = isTunnelExposed c \<or> isTunnelOffline c,
      CanEdit = canEditOrDeleteLiveTunnel c \<or> isTunnelOffline c,
      CanDelete = pc_RuntimeState c \<noteq> ProxyRuntimeStatePending,
      CanMigrate = pc_RuntimeState c \<noteq> ProxyRuntimeStatePending \<and> pc_ID c \<noteq> [] \<and> 0 < pc_Revision c\<rparr>"

section \<open>Endpoint configurations\<close>

definition allowAllSourceCIDRs :: "string list" where
  "allowAllSourceCIDRs = [''0.0.0.0/0'', ''::/0'']"

record tcpListenConfigAPI =
  tl_BindIP :: string
  tl_Port :: int
  tl_AllowedSourceCIDRs :: "string list option"

text \<open>\<open>HTTPAuthConfig\<close> and \<open>SOCKS5AuthConfig\<close> have the same fields.\<close>

record AuthConfig =
  auth_Type :: string
  auth_Username :: string
  auth_Password :: string
  auth_PasswordHash :: string

record httpHostConfigAPI =
  hh_Domain :: string
  hh_AllowedSourceCIDRs :: "string list option"
  hh_Auth :: AuthConfig

record SOCKS5ListenConfig = tcpListenConfigAPI +
  sl_Auth :: AuthConfig

definition empty_auth :: AuthConfig where
  "empty_auth = \<lparr>auth_Type = [], auth_Username = [], auth_Password = [], auth_PasswordHash = []\<rparr>"

fun auth_into :: "json \<Rightarrow> AuthConfig \<Rightarrow> AuthConfig option" where
  "auth_into JNull x = Some x"
| "auth_into (JObj ms) x =
     Option.bind (decode_field string_into (auth_Type x) (members ''type'' ms)) (\<lambda>t.
     Option.bind (decode_field string_into (auth_Username x) (members ''username'' ms)) (\<lambda>u.
     Option.bind (decode_field string_into (auth_Password x) (members ''password'' ms)) (\<lambda>p.
     Option.bind (decode_field string_into (auth_PasswordHash x) (members ''password_hash'' ms)) (\<lambda>h.
       Some \<lparr>auth_Type = t, auth_Username = u, auth_Password = p, auth_PasswordHash = h\<rparr>))))"
| "auth_into _ x = None"

definition decode_tcpListen :: "string \<Rightarrow> tcpListenConfigAPI option" where
  "decode_tcpListen raw =
     Option.bind (json_object raw) (\<lambda>ms.
     Option.bind (decode_field string_into [] (members ''bind_ip'' ms)) (\<lambda>b.
     Option.bind (decode_field int_into 0 (members ''port'' ms)) (\<lambda>p.
     Option.bind (decode_field strings_into None (members ''allowed_source_cidrs'' ms)) (\<lambda>c.
       Some \<lparr>tl_BindIP = b, tl_Port = p, tl_AllowedSourceCIDRs = c\<rparr>))))"

definition decode_httpHost :: "string \<Rightarrow> httpHostConfigAPI option" where
  "decode_httpHost raw =
     Option.bind (json_object raw) (\<lambda>ms.
     Option.bind (decode_field string_into [] (members ''domain'' ms)) (\<lambda>d.
     Option.bind (decode_field strings_into None (members ''allowed_source_cidrs'' ms)) (\<lambda>c.
     Option.bind (decode_field auth_into empty_auth (members ''auth'' ms)) (\<lambda>a.
       Some \<lparr>hh_Domain = d, hh_AllowedSourceCIDRs = c, hh_Auth = a\<rparr>))))"

definition decode_socks5Listen :: "string \<Rightarrow> SOCKS5ListenConfig option" where
  "decode_socks5Listen raw =
     Option.bind (json_object raw) (\<lambda>ms.
     Option.bind (decode_field string_into [] (members ''bind_ip'' ms)) (\<lambda>b.
     Option.bind (decode_field int_into 0 (members ''port'' ms)) (\<lambda>p.
     Option.bind (decode_field strings_into None (members ''allowed_source_cidrs'' ms)) (\<lambda>c.
     Option.bind (decode_field auth_into empty_auth (members ''auth'' ms)) (\<lambda>a.
       Some \<lparr>tl_BindIP = b, tl_Port = p, tl_AllowedSourceCIDRs = c, sl_Auth = a\<rparr>)))))"

definition json_strings :: "string list option \<Rightarrow> json" where
  "json_strings x = (case x of None \<Rightarrow> JNull | Some ss \<Rightarrow> JArr (map JStr ss))"

text \<open>A string field with \<open>omitempty\<close>.\<close>

definition omit_empty :: "string \<Rightarrow> string \<Rightarrow> (string \<times> json) list" where
  "omit_empty k s = (if s = [] then [] else [(k, JStr s)])"

definition json_auth :: "AuthConfig \<Rightarrow> json" where
  "json_auth a =
     JObj ((''type'', JStr (auth_Type a)) # omit_empty ''username'' (auth_Username a) @
       omit_empty ''password'' (auth_Password a) @ omit_empty ''password_hash'' (auth_PasswordHash a))"

definition json_httpHost :: "httpHostConfigAPI \<Rightarrow> json" where
  "json_httpHost c =
     JObj [(''domain'', JStr (hh_Domain c)),
           (''allowed_source_cidrs'', json_strings (hh_AllowedSourceCIDRs c)),
           (''auth'', json_auth (hh_Auth c))]"

definition json_tcpListen :: "tcpListenConfigAPI \<Rightarrow> json" where
  "json_tcpListen c =
     JObj [(''bind_ip'', JStr (tl_BindIP c)), (''port'', JNum (itoa (tl_Port c))),
           (''allowed_source_cidrs'', json_strings (tl_AllowedSourceCIDRs c))]"

definition json_socks5Listen :: "SOCKS5ListenConfig \<Rightarrow> json" where
  "json_socks5Listen c =
     JObj [(''bind_ip'', JStr (tl_BindIP c)), (''port'', JNum (itoa (tl_Port c))),
           (''allowed_source_cidrs'', json_strings (tl_AllowedSourceCIDRs c)),
           (''auth'', json_auth (sl_Auth c))]"

subsection \<open>Views without credentials (socks5\_config.go, unified\_tunnel\_api.go)\<close>

definition redacted_httpHost :: "httpHostConfigAPI \<Rightarrow> json" where
  "redacted_httpHost c =
     json_httpHost (c\<lparr>
       hh_AllowedSourceCIDRs :=
         (case hh_AllowedSourceCIDRs c of None \<Rightarrow> Some allowAllSourceCIDRs | Some x \<Rightarrow> Some x),
       hh_Auth := \<lparr>auth_Type = (if auth_Type (hh_Auth c) = [] then ''none'' else auth_Type (hh_Auth c)),
                  auth_Username = auth_Username (hh_Auth c),
                  auth_Password = [], auth_PasswordHash = []\<rparr>\<rparr>)"

definition redactHTTPHostConfig :: "string \<Rightarrow> string" where
  "redactHTTPHostConfig raw =
     (case decode_httpHost raw of
        None \<Rightarrow> raw
      | Some c \<Rightarrow> json_print (redacted_httpHost c))"

text \<open>A Go map is marshalled with its keys in order.\<close>

definition redacted_socks5Listen :: "SOCKS5ListenConfig \<Rightarrow> json" where
  "redacted_socks5Listen c =
     JObj [(''allowed_source_cidrs'', json_strings (tl_AllowedSourceCIDRs c)),
           (''auth'', JObj ((''type'', JStr (auth_Type (sl_Auth c))) #
              omit_empty ''username'' (auth_Username (sl_Auth c)))),
           (''bind_ip'', JStr (tl_BindIP c)),
           (''port'', JNum (itoa (tl_Port c)))]"

definition redactSOCKS5ListenConfig :: "string \<Rightarrow> string" where
  "redactSOCKS5ListenConfig raw =
     (case decode_socks5Listen raw of
        None \<Rightarrow> raw
      | Some c \<Rightarrow> json_print (redacted_socks5Listen c))"

definition endpointConfigForView :: "EndpointSpec \<Rightarrow> string" where
  "endpointConfigForView ep =
     (if ep_Type ep = TunnelIngressTypeSOCKS5Listen then redactSOCKS5ListenConfig (ep_Config ep)
      else if ep_Type ep = TunnelIngressTypeHTTPHost then redactHTTPHostConfig (ep_Config ep)
      else if ep_Type ep = TunnelIngressTypeTCPListen \<or> ep_Type ep = TunnelIngressTypeUDPListen then
        (case decode_tcpListen (ep_Config ep) of
           Some c \<Rightarrow>
             if tl_AllowedSourceCIDRs c = None
             then json_print (json_tcpListen (c\<lparr>tl_AllowedSourceCIDRs := Some allowAllSourceCIDRs\<rparr>))
             else ep_Config ep
         | None \<Rightarrow> ep_Config ep)
      else ep_Config ep)"

definition proxyConfigForClientView :: "ProxyConfig \<Rightarrow> bool \<Rightarrow> state_error + ProxyConfig" where
  "proxyConfigForClientView config clientOnline =
     bind_res (setProxyConfigStates config (pc_DesiredState config) (pc_RuntimeState config) (pc_Error config))
      (\<lambda>n0.
       let n1 = n0\<lparr>pc_Ingress := map_option (\<lambda>i. i\<lparr>ep_Config := endpointConfigForView i\<rparr>) (pc_Ingress n0),
                   pc_Target := map_option (\<lambda>i. i\<lparr>ep_Config := endpointConfigForView i\<rparr>) (pc_Target n0)\<rparr>;
           n2 = (if \<not> clientOnline \<and> pc_DesiredState n1 = ProxyDesiredStateRunning \<and>
                    pc_RuntimeState n1 \<noteq> ProxyRuntimeStateError
                 then n1\<lparr>pc_RuntimeState := ProxyRuntimeStateOffline, pc_Error := []\<rparr> else n1) in
       Inr (n2\<lparr>pc_Capabilities := Some (computeTunnelCapabilities n2)\<rparr>))"

section \<open>Ingress accessors and resource keys (store.go)\<close>

text \<open>Decoding a configuration into a struct with one field.\<close>

definition config_string :: "string \<Rightarrow> string \<Rightarrow> string option" where
  "config_string name raw =
     Option.bind (json_object raw) (\<lambda>ms. decode_field string_into [] (members name ms))"

definition config_int :: "string \<Rightarrow> string \<Rightarrow> int option" where
  "config_int name raw =
     Option.bind (json_object raw) (\<lambda>ms. decode_field int_into 0 (members name ms))"

definition tunnelIngressBindIP :: "StoredTunnel \<Rightarrow> string" where
  "tunnelIngressBindIP t =
     (if ep_Type (tn_Ingress t) = TunnelIngressTypeHTTPHost then []
      else if ep_Config (tn_Ingress t) \<noteq> [] then
        (case config_string ''bind_ip'' (ep_Config (tn_Ingress t)) of
           Some ip \<Rightarrow> if ip \<noteq> [] then ip else ''0.0.0.0''
         | None \<Rightarrow> ''0.0.0.0'')
      else ''0.0.0.0'')"

definition tunnelIngressPort :: "StoredTunnel \<Rightarrow> int" where
  "tunnelIngressPort t =
     (if ep_Type (tn_Ingress t) = TunnelIngressTypeHTTPHost then 0
      else if ep_Config (tn_Ingress t) \<noteq> [] then
        (case config_int ''port'' (ep_Config (tn_Ingress t)) of
           Some p \<Rightarrow> if 0 < p then p else tn_RemotePort t
         | None \<Rightarrow> tn_RemotePort t)
      else tn_RemotePort t)"

definition tunnelIngressDomain :: "(string \<Rightarrow> string) \<Rightarrow> StoredTunnel \<Rightarrow> string" where
  "tunnelIngressDomain ul t =
     (if ep_Type (tn_Ingress t) \<noteq> TunnelIngressTypeHTTPHost then []
      else if ep_Config (tn_Ingress t) \<noteq> [] then
        (case config_string ''domain'' (ep_Config (tn_Ingress t)) of
           Some d \<Rightarrow> if d \<noteq> [] then to_lower ul d else to_lower ul (tn_Domain t)
         | None \<Rightarrow> to_lower ul (tn_Domain t))
      else to_lower ul (tn_Domain t))"

text \<open>The location part of a resource key.\<close>

definition ingress_location :: "StoredTunnel \<Rightarrow> string" where
  "ingress_location t =
     (if ep_Location (tn_Ingress t) = [] then ''server'' else ep_Location (tn_Ingress t))"

definition ingress_location_id :: "StoredTunnel \<Rightarrow> string" where
  "ingress_location_id t =
     (if ep_ClientID (tn_Ingress t) \<noteq> [] then ingress_location t @ '':'' @ ep_ClientID (tn_Ingress t)
      else ingress_location t)"

definition is_listener :: "string \<Rightarrow> bool" where
  "is_listener ty \<longleftrightarrow>
     ty \<in> {TunnelIngressTypeTCPListen, TunnelIngressTypeUDPListen, TunnelIngressTypeSOCKS5Listen}"

definition listener_proto :: "string \<Rightarrow> string" where
  "listener_proto ty = (if ty = TunnelIngressTypeUDPListen then ''udp'' else ''tcp'')"

definition socket_key :: "string \<Rightarrow> string \<Rightarrow> string \<Rightarrow> int \<Rightarrow> string" where
  "socket_key loc proto ip port =
     ''ingress:'' @ loc @ '':'' @ proto @ '':'' @ ip @ '':'' @ itoa port"

text \<open>The key, kind and client of the lock row of a tunnel; an empty key is no lock.\<close>

definition tunnelIngressResourceLock ::
  "(string \<Rightarrow> string) \<Rightarrow> StoredTunnel \<Rightarrow> string \<times> string \<times> string" where
  "tunnelIngressResourceLock ul t =
     (let ty = ep_Type (tn_Ingress t); port = tunnelIngressPort t in
      if is_listener ty then
        (if port \<le> 0 then ([], [], [])
         else (socket_key (ingress_location_id t) (listener_proto ty) (tunnelIngressBindIP t) port,
               (if ingress_location t = ''client'' then ''client_'' else ''server_'') @
                 listener_proto ty @ ''_port'',
               ep_ClientID (tn_Ingress t)))
      else if ty = TunnelIngressTypeHTTPHost then
        (let domain = canonicalHTTPDomain ul (tunnelIngressDomain ul t) in
         if domain = [] then ([], [], [])
         else (''ingress:'' @ ingress_location_id t @ '':http_host:'' @ domain, ''server_http_host'',
               ep_ClientID (tn_Ingress t)))
      else ([], [], []))"

definition tunnelIngressConflictPatterns :: "StoredTunnel \<Rightarrow> string list" where
  "tunnelIngressConflictPatterns t =
     (let ty = ep_Type (tn_Ingress t); port = tunnelIngressPort t in
      if \<not> is_listener ty then []
      else if tunnelIngressBindIP t \<noteq> ''0.0.0.0'' then []
      else if port \<le> 0 then []
      else [socket_key (ingress_location_id t) (listener_proto ty) ''%'' port])"

definition tunnelIngressConflictKeys :: "(string \<Rightarrow> string) \<Rightarrow> StoredTunnel \<Rightarrow> string list" where
  "tunnelIngressConflictKeys ul t =
     (let key = fst (tunnelIngressResourceLock ul t);
          ty = ep_Type (tn_Ingress t); ip = tunnelIngressBindIP t; port = tunnelIngressPort t in
      if key = [] then []
      else if \<not> is_listener ty then [key]
      else if port \<le> 0 then []
      else if ip = ''0.0.0.0'' then [key]
      else [key, socket_key (ingress_location_id t) (listener_proto ty) ''0.0.0.0'' port])"

definition tunnelTargetResourceKey :: "StoredTunnel \<Rightarrow> string" where
  "tunnelTargetResourceKey t =
     (let ty = (if ep_Type (tn_Target t) = [] then TunnelTargetTypeTCPService else ep_Type (tn_Target t));
          cl = (if ep_ClientID (tn_Target t) = [] then tn_ClientID t else ep_ClientID (tn_Target t));
          raw = ep_Config (tn_Target t) in
      if ty = TunnelTargetTypeSOCKS5ConnectHandler then ''target:client:'' @ cl @ '':'' @ ty
      else
        let (host0, port) =
          (case (config_string ''ip'' raw, config_string ''host'' raw, config_int ''port'' raw) of
             (Some ip, Some h, Some p) \<Rightarrow>
               (if ip \<noteq> [] then ip else if h \<noteq> [] then h else tn_LocalIP t,
                if 0 < p then p else tn_LocalPort t)
           | _ \<Rightarrow> (tn_LocalIP t, tn_LocalPort t));
          host = (case ParseIP host0 of Some ip \<Rightarrow> ip_string ip | None \<Rightarrow> host0) in
        ''target:client:'' @ cl @ '':'' @ ty @ '':'' @ host @ '':'' @ itoa port)"

section \<open>Normalisation and validation of a stored tunnel (store.go)\<close>

datatype tunnel_error =
    MissingID string
  | BadBinding string string
  | MissingClientID string
  | BadStates state_error
  | UnsupportedTopology string
  | MissingOwnerClient string
  | NeedsServerIngress string
  | OwnerNotTarget string
  | NeedsClientIngress string
  | SameIngressTarget string
  | UnsupportedIngressLocation string
  | UnsupportedTargetLocation string
  | UnsupportedIngressType string
  | UnsupportedTargetType string
  | UnsupportedTransportPolicy string
  | InvalidIngressJSON
  | InvalidTargetJSON
  | InvalidDomain domain_error

definition normalizeServerBindIP :: "string \<Rightarrow> string" where
  "normalizeServerBindIP ip = (let t = trim_space ip in if t = [] then ''0.0.0.0'' else t)"

definition tunnelIngressConfig :: "StoredTunnel \<Rightarrow> json" where
  "tunnelIngressConfig t =
     (let cidrs = (''allowed_source_cidrs'', json_strings (Some allowAllSourceCIDRs)) in
      if tn_Type t = ProxyTypeHTTP then
        JObj [cidrs, (''auth'', json_auth (empty_auth\<lparr>auth_Type := ''none''\<rparr>)),
              (''domain'', JStr (tn_Domain t))]
      else
        JObj [cidrs, (''bind_ip'', JStr (normalizeServerBindIP (tn_BindIP t))),
              (''port'', JNum (itoa (tn_RemotePort t)))])"

definition tunnelTargetConfig :: "StoredTunnel \<Rightarrow> json" where
  "tunnelTargetConfig t =
     JObj [(''host'', JStr (tn_LocalIP t)), (''port'', JNum (itoa (tn_LocalPort t)))]"

definition legacyIngressSpec :: "StoredTunnel \<Rightarrow> EndpointSpec" where
  "legacyIngressSpec t =
     \<lparr>ep_Location = ''server'', ep_ClientID = [],
      ep_Type = (if tn_Type t = ProxyTypeUDP then TunnelIngressTypeUDPListen
                 else if tn_Type t = ProxyTypeHTTP then TunnelIngressTypeHTTPHost
                 else TunnelIngressTypeTCPListen),
      ep_Config = json_print (tunnelIngressConfig t)\<rparr>"

definition legacyTargetSpec :: "StoredTunnel \<Rightarrow> EndpointSpec" where
  "legacyTargetSpec t =
     \<lparr>ep_Location = ''client'', ep_ClientID = tn_ClientID t,
      ep_Type = (if tn_Type t = ProxyTypeUDP then TunnelTargetTypeUDPService
                 else TunnelTargetTypeTCPService),
      ep_Config = json_print (tunnelTargetConfig t)\<rparr>"

definition isEmptyEndpointConfig :: "string \<Rightarrow> bool" where
  "isEmptyEndpointConfig raw \<longleftrightarrow> trim_space raw \<in> {[], ''{}'', ''null''}"

definition or_else :: "string \<Rightarrow> string \<Rightarrow> string" where
  "or_else s d = (if s = [] then d else s)"

definition spec_defaults :: "StoredTunnel \<Rightarrow> StoredTunnel" where
  "spec_defaults t =
     t\<lparr>tn_Topology := or_else (tn_Topology t) TunnelTopologyServerExpose,
       tn_OwnerClientID := or_else (tn_OwnerClientID t) (tn_ClientID t),
       tn_TransportPolicy := or_else (tn_TransportPolicy t) TunnelTransportServerRelayOnly,
       tn_ActualTransport := or_else (tn_ActualTransport t) TunnelActualTransportUnknown,
       tn_P2P := (tn_P2P t)\<lparr>p2p_State := or_else (p2p_State (tn_P2P t)) ''idle''\<rparr>,
       tn_Type := or_else (tn_Type t)
         (if ep_Type (tn_Ingress t) = TunnelIngressTypeUDPListen then ProxyTypeUDP
          else if ep_Type (tn_Ingress t) = TunnelIngressTypeHTTPHost then ProxyTypeHTTP
          else ProxyTypeTCP)\<rparr>"

definition spec_endpoints :: "StoredTunnel \<Rightarrow> StoredTunnel" where
  "spec_endpoints t0 =
     (let incomplete = (\<lambda>ep. ep_Type ep = [] \<or> ep_Location ep = [] \<or> isEmptyEndpointConfig (ep_Config ep));
          t1 = (if incomplete (tn_Ingress t0) then t0\<lparr>tn_Ingress := legacyIngressSpec t0\<rparr> else t0);
          t2 = (if incomplete (tn_Target t1) then t1\<lparr>tn_Target := legacyTargetSpec t1\<rparr> else t1);
          t3 = (if tn_Topology t2 = TunnelTopologyServerExpose then
                  t2\<lparr>tn_Ingress := (tn_Ingress t2)\<lparr>ep_Location := ''server'', ep_ClientID := []\<rparr>\<rparr>
                else if tn_Topology t2 = TunnelTopologyClientToClient then
                  t2\<lparr>tn_Ingress := (tn_Ingress t2)\<lparr>ep_Location := ''client''\<rparr>\<rparr>
                else t2) in
      t3\<lparr>tn_Target := (tn_Target t3)\<lparr>ep_Location := ''client'',
                         ep_ClientID := or_else (ep_ClientID (tn_Target t3)) (tn_ClientID t3)\<rparr>\<rparr>)"

definition normalizeUnifiedTunnelSpec :: "StoredTunnel \<Rightarrow> StoredTunnel" where
  "normalizeUnifiedTunnelSpec t =
     (let t1 = spec_endpoints (spec_defaults t);
          t2 = t1\<lparr>tn_ClientID := or_else (tn_ClientID t1) (tn_OwnerClientID t1)\<rparr> in
      t2\<lparr>tn_OwnerClientID := or_else (tn_OwnerClientID t2) (ep_ClientID (tn_Target t2))\<rparr>)"

definition validateUnifiedTunnelSpec :: "(string \<Rightarrow> string) \<Rightarrow> StoredTunnel \<Rightarrow> tunnel_error option" where
  "validateUnifiedTunnelSpec ul t =
     (let top = tn_Topology t; i = tn_Ingress t; g = tn_Target t; name = tn_Name t in
      case first_error
        [(top \<noteq> TunnelTopologyServerExpose \<and> top \<noteq> TunnelTopologyClientToClient, UnsupportedTopology top),
         (tn_OwnerClientID t = [], MissingOwnerClient name),
         (top = TunnelTopologyServerExpose \<and> (ep_Location i \<noteq> ''server'' \<or> ep_ClientID i \<noteq> []),
          NeedsServerIngress name),
         (top = TunnelTopologyServerExpose \<and> tn_OwnerClientID t \<noteq> ep_ClientID g, OwnerNotTarget name),
         (top = TunnelTopologyClientToClient \<and> (ep_Location i \<noteq> ''client'' \<or> ep_ClientID i = []),
          NeedsClientIngress name),
         (top = TunnelTopologyClientToClient \<and> ep_ClientID i = ep_ClientID g, SameIngressTarget name),
         (top = TunnelTopologyClientToClient \<and> tn_OwnerClientID t \<noteq> ep_ClientID g, OwnerNotTarget name),
         (ep_Location i \<noteq> ''server'' \<and> ep_Location i \<noteq> ''client'', UnsupportedIngressLocation (ep_Location i)),
         (ep_Location g \<noteq> ''client'', UnsupportedTargetLocation (ep_Location g)),
         (\<not> is_listener (ep_Type i) \<and> ep_Type i \<noteq> TunnelIngressTypeHTTPHost,
          UnsupportedIngressType (ep_Type i)),
         (ep_Type g \<notin> {TunnelTargetTypeTCPService, TunnelTargetTypeUDPService,
                        TunnelTargetTypeSOCKS5ConnectHandler}, UnsupportedTargetType (ep_Type g)),
         (tn_TransportPolicy t \<notin> {TunnelTransportServerRelayOnly, TunnelTransportDirectPreferred,
                                  TunnelTransportDirectOnly},
          UnsupportedTransportPolicy (tn_TransportPolicy t)),
         (\<not> json_valid (ep_Config i), InvalidIngressJSON),
         (\<not> json_valid (ep_Config g), InvalidTargetJSON)]
      of Some e \<Rightarrow> Some e
       | None \<Rightarrow>
          if ep_Type i = TunnelIngressTypeHTTPHost \<and> contains_sub (tunnelIngressDomain ul t) ''*''
          then map_option InvalidDomain (validateHTTPDomain ul (tunnelIngressDomain ul t))
          else None)"

definition normalize :: "(string \<Rightarrow> string) \<Rightarrow> gotime \<Rightarrow> StoredTunnel \<Rightarrow> tunnel_error + StoredTunnel" where
  "normalize ul now t =
     (if tn_ID t = [] then Inl (MissingID (tn_Name t))
      else let t1 = t\<lparr>tn_Binding := or_else (tn_Binding t) TunnelBindingClientID\<rparr> in
      if tn_Binding t1 \<noteq> TunnelBindingClientID then Inl (BadBinding (tn_Name t) (tn_Binding t1))
      else if tn_ClientID t = [] then Inl (MissingClientID (tn_Name t))
      else let t2 = t1\<lparr>tn_CreatedAt := (if time_is_zero (tn_CreatedAt t1) then now else tn_CreatedAt t1)\<rparr>;
               t3 = t2\<lparr>tn_UpdatedAt := (if time_is_zero (tn_UpdatedAt t2) then tn_CreatedAt t2
                                       else tn_UpdatedAt t2),
                       tn_Revision := (if tn_Revision t2 = 0 then 1 else tn_Revision t2)\<rparr> in
        (case validateTunnelStates (tn_DesiredState t3) (tn_RuntimeState t3) (tn_Error t3) of
           Some e \<Rightarrow> Inl (BadStates e)
         | None \<Rightarrow>
             let t4 = normalizeUnifiedTunnelSpec
                        (t3\<lparr>tn_DesiredState := canonicalDesiredState (tn_DesiredState t3),
                            tn_Error := tunnelErrorForRuntimeState (tn_RuntimeState t3) (tn_Error t3)\<rparr>) in
             (case validateUnifiedTunnelSpec ul t4 of
                Some e \<Rightarrow> Inl e
              | None \<Rightarrow> Inr t4)))"

section \<open>States\<close>

lemmas state_defs = validateTunnelStates_def canonicalDesiredState_def tunnelErrorForRuntimeState_def
  mustValidateTunnelStates_def Let_def

lemma canonical_idem [simp]: "canonicalDesiredState (canonicalDesiredState d) = canonicalDesiredState d"
  by (simp add: canonicalDesiredState_def)

lemma validate_canonical [simp]:
  "validateTunnelStates (canonicalDesiredState d) r e = validateTunnelStates d r e"
  by (simp add: validateTunnelStates_def)

lemma error_for_state_valid:
  "validateTunnelStates d r e = None \<Longrightarrow> tunnelErrorForRuntimeState r e = e"
  by (auto simp: state_defs split: if_splits)

lemma setProxyConfigStates_Inr:
  "setProxyConfigStates c d r e = Inr c' \<longleftrightarrow>
     validateTunnelStates d r e = None \<and>
     c' = c\<lparr>pc_DesiredState := canonicalDesiredState d, pc_RuntimeState := r, pc_Error := e\<rparr>"
  by (auto simp: setProxyConfigStates_def mustValidateTunnelStates_def error_for_state_valid
      split: option.splits)

lemma setStoredTunnelStates_Inr:
  "setStoredTunnelStates t d r e = Inr t' \<longleftrightarrow>
     validateTunnelStates d r e = None \<and>
     t' = t\<lparr>tn_DesiredState := canonicalDesiredState d, tn_RuntimeState := r, tn_Error := e\<rparr>"
  by (auto simp: setStoredTunnelStates_def mustValidateTunnelStates_def error_for_state_valid
      split: option.splits)

text \<open>
  The configuration shown to users panics exactly on inconsistent stored
  states; otherwise it has consistent states again, shows a running tunnel of an absent client
  as offline unless it failed, and its capabilities offer exactly one of resuming and stopping,
  or nothing at all while the tunnel is pending.
\<close>

theorem proxyConfigForClientView_consistent:
  "case proxyConfigForClientView c online of
     Inl err \<Rightarrow> validateTunnelStates (pc_DesiredState c) (pc_RuntimeState c) (pc_Error c) = Some err
   | Inr v \<Rightarrow>
       validateTunnelStates (pc_DesiredState c) (pc_RuntimeState c) (pc_Error c) = None \<and>
       validateTunnelStates (pc_DesiredState v) (pc_RuntimeState v) (pc_Error v) = None \<and>
       (\<not> online \<and> pc_DesiredState v = ProxyDesiredStateRunning \<and>
          pc_RuntimeState c \<noteq> ProxyRuntimeStateError \<longrightarrow> pc_RuntimeState v = ProxyRuntimeStateOffline) \<and>
       (online \<longrightarrow> pc_RuntimeState v = pc_RuntimeState c) \<and>
       (case pc_Capabilities v of
          None \<Rightarrow> False
        | Some cap \<Rightarrow>
            \<not> (CanResume cap \<and> CanStop cap) \<and> (CanEdit cap \<longrightarrow> CanDelete cap) \<and>
            (CanMigrate cap \<longrightarrow> CanDelete cap) \<and>
            (CanResume cap \<or> CanStop cap \<or> pc_RuntimeState v = ProxyRuntimeStatePending) \<and>
            (pc_RuntimeState v = ProxyRuntimeStatePending \<longrightarrow>
               \<not> CanResume cap \<and> \<not> CanStop cap \<and> \<not> CanEdit cap \<and> \<not> CanDelete cap \<and> \<not> CanMigrate cap))"
  by (auto simp: proxyConfigForClientView_def setProxyConfigStates_def computeTunnelCapabilities_def
      canResumeTunnel_def canEditOrDeleteLiveTunnel_def isTunnelExposed_def isTunnelOffline_def state_defs
      split: sum.splits option.splits if_splits)

theorem proxyConfigForClientView_consistent_witness:
  "case proxyConfigForClientView
      \<lparr>pc_ID = ''t1'', pc_Name = ''web'', pc_Revision = 3, pc_Type = ''tcp'', pc_LocalIP = ''127.0.0.1'',
       pc_LocalPort = 80, pc_RemotePort = 8080, pc_BindIP = [], pc_Domain = [], pc_ClientID = ''c1'',
       pc_Topology = [], pc_OwnerClientID = ''c1'', pc_Ingress = None, pc_Target = None,
       pc_TransportPolicy = [], pc_ActualTransport = [], pc_P2P = None,
       pc_Bandwidth = \<lparr>bw_IngressBPS = 0, bw_EgressBPS = 0, bw_TotalBPS = 0\<rparr>, pc_CreatedAt = 0,
       pc_DesiredState = ''running'', pc_RuntimeState = ''exposed'', pc_Error = [],
       pc_Capabilities = None\<rparr> False of
     Inl _ \<Rightarrow> False | Inr v \<Rightarrow> pc_RuntimeState v = ''offline''"
  using proxyConfigForClientView_consistent [of
      "\<lparr>pc_ID = ''t1'', pc_Name = ''web'', pc_Revision = 3, pc_Type = ''tcp'', pc_LocalIP = ''127.0.0.1'',
       pc_LocalPort = 80, pc_RemotePort = 8080, pc_BindIP = [], pc_Domain = [], pc_ClientID = ''c1'',
       pc_Topology = [], pc_OwnerClientID = ''c1'', pc_Ingress = None, pc_Target = None,
       pc_TransportPolicy = [], pc_ActualTransport = [], pc_P2P = None,
       pc_Bandwidth = \<lparr>bw_IngressBPS = 0, bw_EgressBPS = 0, bw_TotalBPS = 0\<rparr>, pc_CreatedAt = 0,
       pc_DesiredState = ''running'', pc_RuntimeState = ''exposed'', pc_Error = [],
       pc_Capabilities = None\<rparr>" False]
  by (simp add: proxyConfigForClientView_def setProxyConfigStates_def state_defs split: sum.splits)

section \<open>Credentials stay hidden\<close>

text \<open>No object member, at any depth, is named like a credential.\<close>

fun secret_free :: "json \<Rightarrow> bool" where
  "secret_free (JObj ms) =
     list_all (\<lambda>(k, v). fold_name k \<notin> {fold_name ''password'', fold_name ''password_hash''} \<and> secret_free v) ms"
| "secret_free (JArr vs) = list_all secret_free vs"
| "secret_free _ = True"

lemma secret_free_strings [simp]: "secret_free (json_strings x)"
  by (auto simp: json_strings_def list_all_iff split: option.splits)

lemma secret_free_redacted_http: "secret_free (redacted_httpHost c)"
  by (auto simp: redacted_httpHost_def json_httpHost_def json_auth_def omit_empty_def ord_c_def)

lemma secret_free_redacted_socks5: "secret_free (redacted_socks5Listen c)"
  by (auto simp: redacted_socks5Listen_def omit_empty_def ord_c_def)



section \<open>Normalised tunnels\<close>

lemma or_else_simps [simp]:
  "or_else [] d = d"
  "s \<noteq> [] \<Longrightarrow> or_else s d = s"
  "or_else s d = [] \<longleftrightarrow> s = [] \<and> d = []"
  by (auto simp: or_else_def)

lemma printed_object_not_empty: "ms \<noteq> [] \<Longrightarrow> \<not> isEmptyEndpointConfig (json_print (JObj ms))"
proof -
  assume "ms \<noteq> []"
  then obtain k v ms' where ms: "ms = (k, v) # ms'" by (cases ms) auto
  obtain r where body: "join_on CHR '','' (map (\<lambda>(k, v). json_quote k @ CHR '':'' # json_print v) ms) = CHR ''\"'' # r"
    by (cases ms') (auto simp: ms json_quote_def)
  then show ?thesis
    by (simp add: isEmptyEndpointConfig_def body trim_space_braces del: append_Cons append.simps)
qed

lemma legacy_configs_not_empty [simp]:
  "\<not> isEmptyEndpointConfig (ep_Config (legacyIngressSpec t))"
  "\<not> isEmptyEndpointConfig (ep_Config (legacyTargetSpec t))"
  by (simp_all add: legacyIngressSpec_def legacyTargetSpec_def tunnelIngressConfig_def Let_def
      tunnelTargetConfig_def printed_object_not_empty del: json_print.simps)

lemma legacy_types [simp]:
  "ep_Type (legacyIngressSpec t) \<noteq> []" "ep_Location (legacyIngressSpec t) = ''server''"
  "ep_Type (legacyTargetSpec t) \<noteq> []" "ep_Location (legacyTargetSpec t) = ''client''"
  by (simp_all add: legacyIngressSpec_def legacyTargetSpec_def)

text \<open>What a normalised tunnel looks like: no default is left to fill in.\<close>

definition normal_form :: "StoredTunnel \<Rightarrow> bool" where
  "normal_form t \<longleftrightarrow>
     tn_ID t \<noteq> [] \<and> tn_Binding t = TunnelBindingClientID \<and> tn_ClientID t \<noteq> [] \<and>
     tn_CreatedAt t \<noteq> 0 \<and> tn_UpdatedAt t \<noteq> 0 \<and> tn_Revision t \<noteq> 0 \<and>
     canonicalDesiredState (tn_DesiredState t) = tn_DesiredState t \<and>
     validateTunnelStates (tn_DesiredState t) (tn_RuntimeState t) (tn_Error t) = None \<and>
     tn_Topology t \<in> {TunnelTopologyServerExpose, TunnelTopologyClientToClient} \<and>
     tn_OwnerClientID t \<noteq> [] \<and> tn_TransportPolicy t \<noteq> [] \<and> tn_ActualTransport t \<noteq> [] \<and>
     p2p_State (tn_P2P t) \<noteq> [] \<and> tn_Type t \<noteq> [] \<and>
     ep_Type (tn_Ingress t) \<noteq> [] \<and> \<not> isEmptyEndpointConfig (ep_Config (tn_Ingress t)) \<and>
     ep_Type (tn_Target t) \<noteq> [] \<and> \<not> isEmptyEndpointConfig (ep_Config (tn_Target t)) \<and>
     (tn_Topology t = TunnelTopologyServerExpose \<longrightarrow>
        ep_Location (tn_Ingress t) = ''server'' \<and> ep_ClientID (tn_Ingress t) = []) \<and>
     (tn_Topology t = TunnelTopologyClientToClient \<longrightarrow> ep_Location (tn_Ingress t) = ''client'') \<and>
     ep_Location (tn_Target t) = ''client'' \<and> ep_ClientID (tn_Target t) \<noteq> []"

lemma same_field_updates:
  fixes ep :: EndpointSpec and t :: StoredTunnel
  shows "ep_Location ep = a \<Longrightarrow> ep_ClientID ep = b \<Longrightarrow> ep\<lparr>ep_Location := a, ep_ClientID := b\<rparr> = ep"
    "ep_Location ep = a \<Longrightarrow> ep\<lparr>ep_Location := a\<rparr> = ep"
    "tn_Ingress t = i \<Longrightarrow> t\<lparr>tn_Ingress := i\<rparr> = t"
    "tn_Target t = i \<Longrightarrow> t\<lparr>tn_Target := i\<rparr> = t"
    "tn_Binding t = b \<Longrightarrow> t\<lparr>tn_Binding := b\<rparr> = t"
  by auto

lemma normal_form_fixed:
  assumes "normal_form t" shows "normalizeUnifiedTunnelSpec t = t"
proof -
  have "tn_Topology t \<noteq> []" using assms by (auto simp: normal_form_def)
  then have d: "spec_defaults t = t"
    using assms by (simp add: spec_defaults_def normal_form_def)
  have loc: "ep_Location (tn_Ingress t) \<noteq> []" using assms by (auto simp: normal_form_def)
  have i: "\<not> (ep_Type (tn_Ingress t) = [] \<or> ep_Location (tn_Ingress t) = [] \<or>
      isEmptyEndpointConfig (ep_Config (tn_Ingress t)))"
    and g: "\<not> (ep_Type (tn_Target t) = [] \<or> ep_Location (tn_Target t) = [] \<or>
      isEmptyEndpointConfig (ep_Config (tn_Target t)))"
    and tgt: "(tn_Target t)\<lparr>ep_Location := ''client'',
      ep_ClientID := or_else (ep_ClientID (tn_Target t)) (tn_ClientID t)\<rparr> = tn_Target t"
    using assms loc by (simp_all add: normal_form_def same_field_updates)
  have top: "(if tn_Topology t = TunnelTopologyServerExpose
      then t\<lparr>tn_Ingress := (tn_Ingress t)\<lparr>ep_Location := ''server'', ep_ClientID := []\<rparr>\<rparr>
      else if tn_Topology t = TunnelTopologyClientToClient
      then t\<lparr>tn_Ingress := (tn_Ingress t)\<lparr>ep_Location := ''client''\<rparr>\<rparr> else t) = t"
    using assms by (simp add: normal_form_def same_field_updates)
  have e: "spec_endpoints t = t"
    unfolding spec_endpoints_def Let_def by (simp only: i g if_False top tgt) simp
  show ?thesis using assms by (simp add: normalizeUnifiedTunnelSpec_def d e normal_form_def Let_def)
qed

lemma normalize_of_normal_form:
  assumes "normal_form t" and "validateUnifiedTunnelSpec ul t = None"
  shows "normalize ul now t = Inr t"
proof -
  have st: "validateTunnelStates (tn_DesiredState t) (tn_RuntimeState t) (tn_Error t) = None"
    and er: "tunnelErrorForRuntimeState (tn_RuntimeState t) (tn_Error t) = tn_Error t"
    using assms(1) error_for_state_valid by (auto simp: normal_form_def)
  with assms normal_form_fixed [OF assms(1)] show ?thesis
    by (simp add: normalize_def normal_form_def time_is_zero_def same_field_updates)
qed

lemma spec_endpoints_keeps [simp]:
  "tn_ID (spec_endpoints t) = tn_ID t" "tn_Name (spec_endpoints t) = tn_Name t"
  "tn_Type (spec_endpoints t) = tn_Type t" "tn_Domain (spec_endpoints t) = tn_Domain t"
  "tn_RemotePort (spec_endpoints t) = tn_RemotePort t"
  "tn_Binding (spec_endpoints t) = tn_Binding t" "tn_ClientID (spec_endpoints t) = tn_ClientID t"
  "tn_CreatedAt (spec_endpoints t) = tn_CreatedAt t" "tn_UpdatedAt (spec_endpoints t) = tn_UpdatedAt t"
  "tn_Revision (spec_endpoints t) = tn_Revision t" "tn_DesiredState (spec_endpoints t) = tn_DesiredState t"
  "tn_RuntimeState (spec_endpoints t) = tn_RuntimeState t" "tn_Error (spec_endpoints t) = tn_Error t"
  "tn_Topology (spec_endpoints t) = tn_Topology t" "tn_OwnerClientID (spec_endpoints t) = tn_OwnerClientID t"
  "tn_TransportPolicy (spec_endpoints t) = tn_TransportPolicy t"
  "tn_ActualTransport (spec_endpoints t) = tn_ActualTransport t" "tn_P2P (spec_endpoints t) = tn_P2P t"
  "tn_OwnerUserID (spec_endpoints t) = tn_OwnerUserID t" "tn_Hostname (spec_endpoints t) = tn_Hostname t"
  "tn_CreatedByUserID (spec_endpoints t) = tn_CreatedByUserID t"
  by (simp_all add: spec_endpoints_def Let_def)

lemma spec_endpoints_ingress [simp]:
  "ep_Type (tn_Ingress (spec_endpoints t)) \<noteq> []"
  "\<not> isEmptyEndpointConfig (ep_Config (tn_Ingress (spec_endpoints t)))"
  "tn_Topology t = TunnelTopologyServerExpose \<Longrightarrow>
     ep_Location (tn_Ingress (spec_endpoints t)) = ''server'' \<and> ep_ClientID (tn_Ingress (spec_endpoints t)) = []"
  "tn_Topology t = TunnelTopologyClientToClient \<Longrightarrow> ep_Location (tn_Ingress (spec_endpoints t)) = ''client''"
  by (simp_all add: spec_endpoints_def Let_def)

lemma spec_endpoints_target [simp]:
  "ep_Type (tn_Target (spec_endpoints t)) \<noteq> []"
  "\<not> isEmptyEndpointConfig (ep_Config (tn_Target (spec_endpoints t)))"
  "ep_Location (tn_Target (spec_endpoints t)) = ''client''"
  "tn_ClientID t \<noteq> [] \<Longrightarrow> ep_ClientID (tn_Target (spec_endpoints t)) \<noteq> []"
  by (simp_all add: spec_endpoints_def Let_def)

lemma spec_defaults_keeps [simp]:
  "tn_ID (spec_defaults t) = tn_ID t" "tn_Name (spec_defaults t) = tn_Name t"
  "tn_Binding (spec_defaults t) = tn_Binding t" "tn_ClientID (spec_defaults t) = tn_ClientID t"
  "tn_CreatedAt (spec_defaults t) = tn_CreatedAt t" "tn_UpdatedAt (spec_defaults t) = tn_UpdatedAt t"
  "tn_Revision (spec_defaults t) = tn_Revision t" "tn_DesiredState (spec_defaults t) = tn_DesiredState t"
  "tn_RuntimeState (spec_defaults t) = tn_RuntimeState t" "tn_Error (spec_defaults t) = tn_Error t"
  "tn_Topology (spec_defaults t) = or_else (tn_Topology t) TunnelTopologyServerExpose"
  "tn_OwnerClientID (spec_defaults t) = or_else (tn_OwnerClientID t) (tn_ClientID t)"
  "tn_TransportPolicy (spec_defaults t) = or_else (tn_TransportPolicy t) TunnelTransportServerRelayOnly"
  "tn_ActualTransport (spec_defaults t) = or_else (tn_ActualTransport t) TunnelActualTransportUnknown"
  "p2p_State (tn_P2P (spec_defaults t)) \<noteq> []" "tn_Type (spec_defaults t) \<noteq> []"
  "tn_OwnerUserID (spec_defaults t) = tn_OwnerUserID t"
  "tn_Hostname (spec_defaults t) = tn_Hostname t" "tn_CreatedByUserID (spec_defaults t) = tn_CreatedByUserID t"
  by (simp_all add: spec_defaults_def)

lemma normalize_unified_eq:
  "tn_ClientID t \<noteq> [] \<Longrightarrow> normalizeUnifiedTunnelSpec t = spec_endpoints (spec_defaults t)"
  by (simp add: normalizeUnifiedTunnelSpec_def Let_def)

lemma validate_spec_None:
  assumes "validateUnifiedTunnelSpec ul t = None"
  shows "tn_Topology t \<in> {TunnelTopologyServerExpose, TunnelTopologyClientToClient}"
    and "tn_OwnerClientID t \<noteq> []" and "tn_OwnerClientID t = ep_ClientID (tn_Target t)"
    and "tn_Topology t = TunnelTopologyClientToClient \<Longrightarrow>
        ep_ClientID (tn_Ingress t) \<noteq> [] \<and> ep_ClientID (tn_Ingress t) \<noteq> ep_ClientID (tn_Target t)"
    and "is_listener (ep_Type (tn_Ingress t)) \<or> ep_Type (tn_Ingress t) = TunnelIngressTypeHTTPHost"
    and "json_valid (ep_Config (tn_Ingress t))" and "json_valid (ep_Config (tn_Target t))"
  using assms by (auto simp: validateUnifiedTunnelSpec_def Let_def split: option.split_asm if_split_asm)

lemma normalize_normal_form:
  assumes "normalize ul now t = Inr t'" and "now \<noteq> 0"
  shows "normal_form t' \<and> validateUnifiedTunnelSpec ul t' = None"
proof -
  define t3 where "t3 = t\<lparr>tn_Binding := TunnelBindingClientID,
    tn_CreatedAt := (if tn_CreatedAt t = 0 then now else tn_CreatedAt t),
    tn_UpdatedAt := (if tn_UpdatedAt t = 0 then (if tn_CreatedAt t = 0 then now else tn_CreatedAt t)
      else tn_UpdatedAt t),
    tn_Revision := (if tn_Revision t = 0 then 1 else tn_Revision t),
    tn_DesiredState := canonicalDesiredState (tn_DesiredState t),
    tn_Error := tunnelErrorForRuntimeState (tn_RuntimeState t) (tn_Error t)\<rparr>"
  from assms(1) have n: "tn_ID t \<noteq> []" "tn_ClientID t \<noteq> []"
    and st: "validateTunnelStates (tn_DesiredState t) (tn_RuntimeState t) (tn_Error t) = None"
    and t': "t' = normalizeUnifiedTunnelSpec t3" and val: "validateUnifiedTunnelSpec ul t' = None"
    by (auto simp: normalize_def Let_def time_is_zero_def t3_def same_field_updates or_else_def
        split: if_split_asm option.split_asm)
  have t3: "tn_ID t3 \<noteq> []" "tn_ClientID t3 \<noteq> []" "tn_Binding t3 = TunnelBindingClientID"
    "tn_CreatedAt t3 \<noteq> 0" "tn_UpdatedAt t3 \<noteq> 0" "tn_Revision t3 \<noteq> 0"
    "canonicalDesiredState (tn_DesiredState t3) = tn_DesiredState t3"
    "validateTunnelStates (tn_DesiredState t3) (tn_RuntimeState t3) (tn_Error t3) = None"
    using n st assms(2) by (simp_all add: t3_def error_for_state_valid)
  have e: "t' = spec_endpoints (spec_defaults t3)"
    using t' t3(2) by (simp add: normalize_unified_eq)
  from validate_spec_None(1) [OF val] have "tn_Topology t' \<in> {TunnelTopologyServerExpose, TunnelTopologyClientToClient}" .
  with t3 val show ?thesis by (auto simp: normal_form_def e)
qed

text \<open>
  C27 (equivalence). Normalisation is idempotent: a tunnel that was normalised and accepted once
  is accepted again unchanged, whatever the clock says, so rows read back from the database are
  not rewritten by reading them. The hypothesis on the clock excludes Go's zero instant.
\<close>

theorem normalize_idempotent:
  assumes "normalize ul now t = Inr t'" and "now \<noteq> 0"
  shows "normalize ul now' t' = Inr t'"
  using normalize_normal_form [OF assms] normalize_of_normal_form by blast

text \<open>A legacy row, with every default still to be filled in.\<close>

definition legacy_tunnel :: StoredTunnel where
  "legacy_tunnel =
     \<lparr>tn_ID = ''t1'', tn_Name = ''ssh'', tn_Type = ''tcp'', tn_LocalIP = ''127.0.0.1'', tn_LocalPort = 22,
      tn_RemotePort = 2222, tn_BindIP = [], tn_Domain = [], tn_RequestPolicy = [], tn_RequestTransport = [],
      tn_ProvisionRevision = 0, tn_Bandwidth = \<lparr>bw_IngressBPS = 0, bw_EgressBPS = 0, bw_TotalBPS = 0\<rparr>,
      tn_DesiredState = ''paused'', tn_RuntimeState = ''idle'', tn_Error = [], tn_ClientID = ''c1'',
      tn_Hostname = [], tn_Binding = [], tn_CreatedAt = 0, tn_Revision = 0, tn_Topology = [],
      tn_OwnerClientID = [],
      tn_Ingress = \<lparr>ep_Location = [], ep_ClientID = [], ep_Type = [], ep_Config = []\<rparr>,
      tn_Target = \<lparr>ep_Location = [], ep_ClientID = [], ep_Type = [], ep_Config = []\<rparr>,
      tn_TransportPolicy = [], tn_ActualTransport = [],
      tn_P2P = \<lparr>p2p_State = [], p2p_Error = [], p2p_SessionID = []\<rparr>,
      tn_OwnerUserID = ''u1'', tn_CreatedByUserID = [], tn_UpdatedAt = 0\<rparr>"

theorem normalize_idempotent_witness:
  "\<exists>t'. normalize id 5 legacy_tunnel = Inr t' \<and> normalize id 9 t' = Inr t' \<and>
     tn_DesiredState t' = ''stopped'' \<and> tn_OwnerClientID t' = ''c1''"
proof -
  have ok: "\<not> isl (normalize id 5 legacy_tunnel)"
    and st: "tn_DesiredState (projr (normalize id 5 legacy_tunnel)) = ''stopped'' \<and>
       tn_OwnerClientID (projr (normalize id 5 legacy_tunnel)) = ''c1''"
    by code_simp+
  then obtain t' where t': "normalize id 5 legacy_tunnel = Inr t'"
    by (cases "normalize id 5 legacy_tunnel") auto
  moreover from normalize_idempotent [OF t'] have "normalize id 9 t' = Inr t'" by simp
  ultimately show ?thesis using st by auto
qed

end
