(* ===== verification/Tunnel_Store.thy ===== *)
theory Tunnel_Store
  imports Tunnel_Model
begin

text \<open>
  The SQLite tunnel store (\<open>internal/server/store.go\<close>, \<open>http_domain_store.go\<close>,
  \<open>tunnel_activity_store.go\<close>): the tables \<open>tunnels\<close> and
  \<open>tunnel_resource_locks\<close> as lists of rows, with the primary keys, unique and check
  constraints of the migrations, and every operation of \<open>TunnelStore\<close> that changes them.
  A transaction body that fails is rolled back (\<open>run_tx\<close>). The users and registered
  clients tables are read only; the result of appending an activity event is an argument of
  the operations that append one; \<open>now\<close> is the clock reading. Failures of the database
  engine itself (I/O) are not modelled, the injected save failure is.
\<close>

section \<open>Tables\<close>

record lock_row =
  lk_key :: string
  lk_tunnel :: string
  lk_kind :: string
  lk_client :: string

record store =
  st_tunnels :: "StoredTunnel list"
  st_locks :: "lock_row list"
  st_clients :: "string \<rightharpoonup> string option"
  st_users :: "string \<rightharpoonup> string"
  st_traffic :: "string list"
  st_failErr :: "string option"
  st_failCount :: nat

datatype store_error =
    Invalid tunnel_error
  | PanicStates state_error
  | SaveFailed string
  | NoUUID
  | NotBound
  | AlreadyExists string string
  | DoesNotExist string string
  | ErrTunnelNotFound
  | ErrTunnelRevisionConflict
  | ErrTunnelOwnerNameConflict
  | ErrTunnelMigrationPending
  | ErrTunnelTargetClientNotFound
  | ExpectedRevisionRequired
  | ClientIDCannotChange
  | OwnerCannotChange
  | OwnerUserMissing
  | OwnerClientEmpty
  | ClientHasNoOwner string
  | ClientOfAnotherUser string
  | ErrUserNotFound
  | ErrUserDisabled
  | UniqueViolation
  | CheckViolation
  | IngressResourceConflict string
  | HTTPDomainConflict
  | ActivityFailed string
  | UnsupportedAction string

section \<open>Rows\<close>

definition storageRuntimeStateFromProtocol :: "string \<Rightarrow> string" where
  "storageRuntimeStateFromProtocol r = (if r = ProxyRuntimeStateExposed then ''active'' else r)"

definition protocolRuntimeStateFromStorage :: "string \<Rightarrow> string" where
  "protocolRuntimeStateFromStorage r = (if r = ''active'' then ProxyRuntimeStateExposed else r)"

definition storageActualTransport :: "StoredTunnel \<Rightarrow> string" where
  "storageActualTransport t =
     (if tn_ActualTransport t \<noteq> [] \<and> tn_ActualTransport t \<noteq> TunnelActualTransportUnknown
      then tn_ActualTransport t
      else if storageRuntimeStateFromProtocol (tn_RuntimeState t) = ''active''
      then TunnelActualTransportServerRelay
      else TunnelActualTransportUnknown)"

text \<open>The columns of a row; the fields of the request that have no column are empty.\<close>

definition row_of :: "StoredTunnel \<Rightarrow> StoredTunnel" where
  "row_of t = t\<lparr>tn_RuntimeState := storageRuntimeStateFromProtocol (tn_RuntimeState t),
     tn_ActualTransport := storageActualTransport t,
     tn_BindIP := [], tn_RequestPolicy := [], tn_RequestTransport := [], tn_ProvisionRevision := 0\<rparr>"

definition load_row :: "StoredTunnel \<Rightarrow> StoredTunnel" where
  "load_row r = r\<lparr>tn_RuntimeState := protocolRuntimeStateFromStorage (tn_RuntimeState r)\<rparr>"

definition scanStoredTunnel ::
  "(string \<Rightarrow> string) \<Rightarrow> gotime \<Rightarrow> StoredTunnel \<Rightarrow> store_error + StoredTunnel" where
  "scanStoredTunnel ul now r =
     (case normalize ul now (load_row r) of
        Inl e \<Rightarrow> Inl (Invalid e)
      | Inr t \<Rightarrow> Inr (t\<lparr>tn_BindIP := tunnelIngressBindIP t\<rparr>))"

fun scanStoredTunnelRows ::
  "(string \<Rightarrow> string) \<Rightarrow> gotime \<Rightarrow> StoredTunnel list \<Rightarrow> store_error + StoredTunnel list" where
  "scanStoredTunnelRows ul now [] = Inr []"
| "scanStoredTunnelRows ul now (r # rs) =
     bind_res (scanStoredTunnel ul now r) (\<lambda>t.
     bind_res (scanStoredTunnelRows ul now rs) (\<lambda>ts. Inr (t # ts)))"

text \<open>The check constraints of the table (migration 012).\<close>

definition row_checks :: "StoredTunnel \<Rightarrow> bool" where
  "row_checks r \<longleftrightarrow>
     (tn_Topology r = TunnelTopologyServerExpose \<and> ep_Location (tn_Ingress r) = ''server'' \<and>
        ep_ClientID (tn_Ingress r) = [] \<or>
      tn_Topology r = TunnelTopologyClientToClient \<and> ep_Location (tn_Ingress r) = ''client'' \<and>
        ep_ClientID (tn_Ingress r) \<noteq> []) \<and>
     ep_Location (tn_Target r) = ''client'' \<and> ep_ClientID (tn_Target r) \<noteq> [] \<and>
     (is_listener (ep_Type (tn_Ingress r)) \<or> ep_Type (tn_Ingress r) = TunnelIngressTypeHTTPHost) \<and>
     ep_Type (tn_Target r) \<in> {TunnelTargetTypeTCPService, TunnelTargetTypeUDPService,
       TunnelTargetTypeSOCKS5ConnectHandler} \<and>
     tn_TransportPolicy r \<in> {TunnelTransportServerRelayOnly, TunnelTransportDirectPreferred,
       TunnelTransportDirectOnly} \<and>
     tn_ActualTransport r \<in> {''unknown'', ''server_relay'', ''peer_direct'', ''turn_relay''} \<and>
     p2p_State (tn_P2P r) \<in> {''idle'', ''gathering'', ''checking'', ''connected'', ''failed'', ''fallback'', ''closed''} \<and>
     tn_DesiredState r \<in> {''running'', ''stopped''} \<and>
     tn_RuntimeState r \<in> {''pending'', ''active'', ''offline'', ''idle'', ''error''} \<and>
     0 \<le> bw_TotalBPS (tn_Bandwidth r)"

text \<open>Primary key and the two unique constraints, against the other rows.\<close>

definition row_unique :: "StoredTunnel list \<Rightarrow> StoredTunnel \<Rightarrow> bool" where
  "row_unique rs r \<longleftrightarrow>
     list_all (\<lambda>x. tn_ID x \<noteq> tn_ID r \<and>
       \<not> (tn_ClientID x = tn_ClientID r \<and> tn_Name x = tn_Name r) \<and>
       \<not> (tn_OwnerClientID x = tn_OwnerClientID r \<and> tn_Name x = tn_Name r)) rs"

text \<open>
  \<open>UPDATE tunnels SET f WHERE p\<close>: the changed rows have to satisfy the constraints. The
  result is the number of changed rows and the table.
\<close>

definition sql_update ::
  "(StoredTunnel \<Rightarrow> bool) \<Rightarrow> (StoredTunnel \<Rightarrow> StoredTunnel) \<Rightarrow> store \<Rightarrow> store_error + nat \<times> store" where
  "sql_update p f st =
     (let rs = st_tunnels st; rs' = map (\<lambda>r. if p r then f r else r) rs in
      if \<not> list_all (\<lambda>r. p r \<longrightarrow> row_checks (f r)) rs then Inl CheckViolation
      else if \<not> list_all (\<lambda>i. p (rs ! i) \<longrightarrow> row_unique (take i rs' @ drop (Suc i) rs') (rs' ! i)) [0 ..< length rs]
      then Inl UniqueViolation
      else Inr (length (filter p rs), st\<lparr>st_tunnels := rs'\<rparr>))"

definition insertTunnelTx :: "StoredTunnel \<Rightarrow> store \<Rightarrow> store_error + store" where
  "insertTunnelTx t st =
     (if tn_OwnerUserID t = [] then Inl OwnerUserMissing
      else if \<not> row_checks (row_of t) then Inl CheckViolation
      else if \<not> row_unique (st_tunnels st) (row_of t) then Inl UniqueViolation
      else Inr (st\<lparr>st_tunnels := st_tunnels st @ [row_of t]\<rparr>))"

section \<open>Conflicts of ingress resources\<close>

text \<open>The SQL operator \<open>LIKE\<close>: ASCII case is ignored, percent and underscore are wildcards.\<close>

fun like_match :: "string \<Rightarrow> string \<Rightarrow> bool" where
  "like_match [] s = (s = [])"
| "like_match (c # p) [] = (c = CHR ''%'' \<and> like_match p [])"
| "like_match (c # p) (d # s) =
     (if c = CHR ''%'' then like_match p (d # s) \<or> like_match (c # p) s
      else (c = CHR ''_'' \<or> ascii_lower c = ascii_lower d) \<and> like_match p s)"

text \<open>
  The loop over the scanned rows, in the order of their ids: the first conflicting tunnel.
\<close>

fun first_http_conflict ::
  "(string \<Rightarrow> string) \<Rightarrow> gotime \<Rightarrow> StoredTunnel \<Rightarrow> StoredTunnel list \<Rightarrow> store_error + StoredTunnel option" where
  "first_http_conflict ul now c [] = Inr None"
| "first_http_conflict ul now c (r # rs) =
     bind_res (scanStoredTunnel ul now r) (\<lambda>t.
       if httpDomainsConflict ul (tunnelIngressDomain ul c) (tn_OwnerUserID c)
            (tunnelIngressDomain ul t) (tn_OwnerUserID t)
       then Inr (Some t)
       else first_http_conflict ul now c rs)"

definition findHTTPIngressConflict ::
  "(string \<Rightarrow> string) \<Rightarrow> gotime \<Rightarrow> store \<Rightarrow> StoredTunnel \<Rightarrow> string \<Rightarrow> store_error + StoredTunnel option" where
  "findHTTPIngressConflict ul now st c exclude0 =
     (let exclude = (if exclude0 = [] then tn_ID c else exclude0);
          location = (if ep_Location (tn_Ingress c) = [] then EndpointLocationServer
                      else ep_Location (tn_Ingress c)) in
      first_http_conflict ul now c
        (sort_key tn_ID (filter (\<lambda>r. ep_Type (tn_Ingress r) = TunnelIngressTypeHTTPHost \<and>
            ep_Location (tn_Ingress r) = location \<and>
            ep_ClientID (tn_Ingress r) = ep_ClientID (tn_Ingress c) \<and> tn_ID r \<noteq> exclude)
          (st_tunnels st))))"

definition lock_hit :: "(string \<Rightarrow> string) \<Rightarrow> StoredTunnel \<Rightarrow> lock_row \<Rightarrow> bool" where
  "lock_hit ul t l \<longleftrightarrow>
     lk_key l \<in> set (tunnelIngressConflictKeys ul t) \<or>
     list_ex (\<lambda>p. like_match p (lk_key l)) (tunnelIngressConflictPatterns t)"

definition checkTunnelIngressResourceConflictTx ::
  "(string \<Rightarrow> string) \<Rightarrow> gotime \<Rightarrow> StoredTunnel \<Rightarrow> store \<Rightarrow> store_error + unit" where
  "checkTunnelIngressResourceConflictTx ul now t st =
     (if ep_Type (tn_Ingress t) = TunnelIngressTypeHTTPHost then
        bind_res (findHTTPIngressConflict ul now st t (tn_ID t)) (\<lambda>c.
          if c \<noteq> None then Inl HTTPDomainConflict else Inr ())
      else if tunnelIngressConflictKeys ul t = [] \<and> tunnelIngressConflictPatterns t = [] then Inr ()
      else (case find (\<lambda>l. lock_hit ul t l \<and> lk_tunnel l \<noteq> tn_ID t) (st_locks st) of
              None \<Rightarrow> Inr ()
            | Some l \<Rightarrow> Inl (IngressResourceConflict (lk_key l))))"

definition replaceTunnelResourceLocksTx ::
  "(string \<Rightarrow> string) \<Rightarrow> gotime \<Rightarrow> StoredTunnel \<Rightarrow> store \<Rightarrow> store_error + store" where
  "replaceTunnelResourceLocksTx ul now t st0 =
     (let st = st0\<lparr>st_locks := filter (\<lambda>l. lk_tunnel l \<noteq> tn_ID t) (st_locks st0)\<rparr>;
          (key, kind, client) = tunnelIngressResourceLock ul t in
      if key = [] then Inr st
      else bind_res (checkTunnelIngressResourceConflictTx ul now t st) (\<lambda>_.
        if list_ex (\<lambda>l. lk_key l = key) (st_locks st) then Inl UniqueViolation
        else Inr (st\<lparr>st_locks := st_locks st @
               [\<lparr>lk_key = key, lk_tunnel = tn_ID t, lk_kind = kind, lk_client = client\<rparr>]\<rparr>)))"

text \<open>The preflight version: the tunnel that holds the conflicting lock, newest first.\<close>

definition newest_first :: "StoredTunnel list \<Rightarrow> StoredTunnel list" where
  "newest_first rs = sort_key (\<lambda>r. - tn_CreatedAt r) (sort_key tn_Name rs)"

definition findIngressResourceConflict ::
  "(string \<Rightarrow> string) \<Rightarrow> gotime \<Rightarrow> store \<Rightarrow> StoredTunnel \<Rightarrow> string \<Rightarrow> store_error + StoredTunnel option" where
  "findIngressResourceConflict ul now st c exclude0 =
     (if ep_Type (tn_Ingress c) = TunnelIngressTypeHTTPHost then findHTTPIngressConflict ul now st c exclude0
      else if tunnelIngressConflictKeys ul c = [] \<and> tunnelIngressConflictPatterns c = [] then Inr None
      else let exclude = (if exclude0 = [] then tn_ID c else exclude0);
               hits = filter (\<lambda>r. list_ex (\<lambda>l. lk_tunnel l = tn_ID r \<and> lock_hit ul c l \<and>
                        (exclude \<noteq> [] \<longrightarrow> lk_tunnel l \<noteq> exclude)) (st_locks st)) (st_tunnels st) in
        (case newest_first hits of
           [] \<Rightarrow> Inr None
         | r # _ \<Rightarrow> bind_res (scanStoredTunnel ul now r) (\<lambda>t. Inr (Some t))))"

section \<open>Ownership\<close>

definition tunnelOwnerUserIDInTx :: "store \<Rightarrow> string \<Rightarrow> store_error + string" where
  "tunnelOwnerUserIDInTx st client =
     (if client = [] then Inl OwnerClientEmpty
      else (case st_clients st client of
              None \<Rightarrow> Inl ErrTunnelTargetClientNotFound
            | Some None \<Rightarrow> Inl (ClientHasNoOwner client)
            | Some (Some u) \<Rightarrow> if u = [] then Inl (ClientHasNoOwner client) else Inr u))"

fun check_client_owners :: "store \<Rightarrow> string \<Rightarrow> string list \<Rightarrow> store_error + unit" where
  "check_client_owners st owner [] = Inr ()"
| "check_client_owners st owner (c # cs) =
     bind_res (tunnelOwnerUserIDInTx st c) (\<lambda>u.
       if u \<noteq> owner then Inl (ClientOfAnotherUser c) else check_client_owners st owner cs)"

definition validateTunnelClientOwnershipInTx :: "store \<Rightarrow> StoredTunnel \<Rightarrow> store_error + unit" where
  "validateTunnelClientOwnershipInTx st t =
     (if tn_OwnerUserID t = [] then Inl OwnerUserMissing
      else check_client_owners st (tn_OwnerUserID t)
        (ep_ClientID (tn_Target t) #
         (if ep_Location (tn_Ingress t) = ''client'' then [ep_ClientID (tn_Ingress t)] else [])))"

definition ensureOperationalUserInTx :: "store \<Rightarrow> string \<Rightarrow> store_error + unit" where
  "ensureOperationalUserInTx st u =
     (if u = [] then Inl ErrUserNotFound
      else (case st_users st u of
              None \<Rightarrow> Inl ErrUserNotFound
            | Some s \<Rightarrow> if s \<noteq> ''active'' then Inl ErrUserDisabled else Inr ()))"

section \<open>Operations\<close>

text \<open>\<open>maybeFailSave\<close>: the injected failure is consumed whether or not the caller goes on.\<close>

definition maybeFailSave :: "store \<Rightarrow> store_error option \<times> store" where
  "maybeFailSave st =
     (case st_failErr st of
        Some e \<Rightarrow>
          if 0 < st_failCount st then
            (Some (SaveFailed e),
             st\<lparr>st_failCount := st_failCount st - 1,
                st_failErr := (if st_failCount st = 1 then None else Some e)\<rparr>)
          else (None, st)
      | None \<Rightarrow> (None, st))"

text \<open>Begin, run, and commit or roll back.\<close>

definition run_tx :: "store \<Rightarrow> (store \<Rightarrow> store_error + 'a \<times> store) \<Rightarrow> (store_error + 'a) \<times> store" where
  "run_tx st body = (case body st of Inl e \<Rightarrow> (Inl e, st) | Inr (x, st') \<Rightarrow> (Inr x, st'))"

definition save_tx :: "store \<Rightarrow> (store \<Rightarrow> store_error + 'a \<times> store) \<Rightarrow> (store_error + 'a) \<times> store" where
  "save_tx st body =
     (case maybeFailSave st of
        (Some e, st1) \<Rightarrow> (Inl e, st1)
      | (None, st1) \<Rightarrow> run_tx st1 body)"

text \<open>
  An activity event is appended when there is an actor; \<open>None\<close> stands for no actor, a
  left value for a failed append.
\<close>

definition append_activity :: "(string + int) option \<Rightarrow> store_error + int" where
  "append_activity actor =
     (case actor of None \<Rightarrow> Inr 0 | Some (Inr i) \<Rightarrow> Inr i | Some (Inl e) \<Rightarrow> Inl (ActivityFailed e))"

definition addTunnelTx ::
  "(string \<Rightarrow> string) \<Rightarrow> gotime \<Rightarrow> (string + int) option \<Rightarrow> StoredTunnel \<Rightarrow> store \<Rightarrow> store_error + int \<times> store" where
  "addTunnelTx ul now actor t st =
     bind_res (if tn_OwnerUserID t = [] then tunnelOwnerUserIDInTx st (tn_OwnerClientID t)
               else Inr (tn_OwnerUserID t)) (\<lambda>owner.
     let t = t\<lparr>tn_OwnerUserID := owner\<rparr> in
     bind_res (ensureOperationalUserInTx st owner) (\<lambda>_.
     bind_res (validateTunnelClientOwnershipInTx st t) (\<lambda>_.
     bind_res (insertTunnelTx t st) (\<lambda>st1.
     bind_res (replaceTunnelResourceLocksTx ul now t st1) (\<lambda>st2.
     bind_res (append_activity actor) (\<lambda>a. Inr (a, st2)))))))"

definition addTunnel ::
  "(string \<Rightarrow> string) \<Rightarrow> gotime \<Rightarrow> string option \<Rightarrow> (string + int) option \<Rightarrow> StoredTunnel \<Rightarrow> store \<Rightarrow>
     (store_error + int) \<times> store" where
  "addTunnel ul now uuid actor t0 st =
     (if tn_ID t0 = [] \<and> uuid = None then (Inl NoUUID, st)
      else let t1 = (if tn_ID t0 = [] then t0\<lparr>tn_ID := the uuid\<rparr> else t0) in
      case normalize ul now t1 of
        Inl e \<Rightarrow> (Inl (Invalid e), st)
      | Inr t \<Rightarrow>
          if tn_ClientID t = [] \<or> tn_Binding t \<noteq> TunnelBindingClientID then (Inl NotBound, st)
          else if list_ex (\<lambda>r. tn_ClientID r = tn_ClientID t \<and> tn_Name r = tn_Name t) (st_tunnels st)
          then (Inl (AlreadyExists (tn_Name t) (tn_ClientID t)), st)
          else save_tx st (addTunnelTx ul now actor t))"

definition AddTunnelForUser ::
  "(string \<Rightarrow> string) \<Rightarrow> gotime \<Rightarrow> string option \<Rightarrow> (string + int) option \<Rightarrow> string \<Rightarrow> StoredTunnel \<Rightarrow> store \<Rightarrow>
     (store_error + int) \<times> store" where
  "AddTunnelForUser ul now uuid actor owner t st =
     (if owner = [] then (Inl OwnerUserMissing, st)
      else addTunnel ul now uuid actor (t\<lparr>tn_OwnerUserID := owner\<rparr>) st)"

text \<open>\<open>DELETE FROM tunnels WHERE p\<close>, after the lock rows of the same tunnels.\<close>

definition delete_tunnels :: "(StoredTunnel \<Rightarrow> bool) \<Rightarrow> store \<Rightarrow> store" where
  "delete_tunnels p st =
     (let ids = map tn_ID (filter p (st_tunnels st)) in
      st\<lparr>st_locks := filter (\<lambda>l. lk_tunnel l \<notin> set ids) (st_locks st),
         st_tunnels := filter (\<lambda>r. \<not> p r) (st_tunnels st)\<rparr>)"

definition RemoveTunnel :: "string \<Rightarrow> string \<Rightarrow> store \<Rightarrow> (store_error + unit) \<times> store" where
  "RemoveTunnel client name st =
     (let p = (\<lambda>r. tn_ClientID r = client \<and> tn_Name r = name) in
      if \<not> list_ex p (st_tunnels st) then (Inl (DoesNotExist client name), st)
      else save_tx st (\<lambda>st1. Inr ((), delete_tunnels p st1)))"

definition RemoveTunnelByID :: "string \<Rightarrow> string \<Rightarrow> store \<Rightarrow> (store_error + unit) \<times> store" where
  "RemoveTunnelByID client i st =
     (let p = (\<lambda>r. tn_ClientID r = client \<and> tn_ID r = i) in
      if \<not> list_ex p (st_tunnels st) then (Inl (DoesNotExist client i), st)
      else save_tx st (\<lambda>st1.
        Inr ((), st1\<lparr>st_locks := filter (\<lambda>l. lk_tunnel l \<noteq> i) (st_locks st1),
                     st_tunnels := filter (\<lambda>r. \<not> p r) (st_tunnels st1)\<rparr>)))"

definition RemoveTunnelByIDWithActivity ::
  "(string \<Rightarrow> string) \<Rightarrow> gotime \<Rightarrow> (string + int) \<Rightarrow> string \<Rightarrow> string \<Rightarrow> store \<Rightarrow> (store_error + int) \<times> store" where
  "RemoveTunnelByIDWithActivity ul now act client i st =
     (let p = (\<lambda>r. tn_ClientID r = client \<and> tn_ID r = i) in
      save_tx st (\<lambda>st1.
        case find p (st_tunnels st1) of
          None \<Rightarrow> Inl (DoesNotExist client i)
        | Some r \<Rightarrow>
            bind_res (scanStoredTunnel ul now r) (\<lambda>_.
            bind_res (append_activity (Some act)) (\<lambda>a.
              Inr (a, st1\<lparr>st_locks := filter (\<lambda>l. lk_tunnel l \<noteq> i) (st_locks st1),
                          st_tunnels := filter (\<lambda>r. \<not> p r) (st_tunnels st1)\<rparr>)))))"

definition DeleteTunnelsByClientIDReturningDeleted ::
  "(string \<Rightarrow> string) \<Rightarrow> gotime \<Rightarrow> string \<Rightarrow> store \<Rightarrow> (store_error + StoredTunnel list) \<times> store" where
  "DeleteTunnelsByClientIDReturningDeleted ul now client st =
     (let p = (\<lambda>r. tn_ClientID r = client \<or> tn_OwnerClientID r = client \<or>
                ep_ClientID (tn_Ingress r) = client \<or> ep_ClientID (tn_Target r) = client) in
      save_tx st (\<lambda>st1.
        bind_res (scanStoredTunnelRows ul now (newest_first (filter p (st_tunnels st1)))) (\<lambda>ts.
          Inr (ts, delete_tunnels p st1))))"

subsection \<open>State updates\<close>

text \<open>The blank tunnel on which \<open>UpdateStates\<close> validates the new states.\<close>

definition blank_tunnel :: "string \<Rightarrow> StoredTunnel" where
  "blank_tunnel client = legacy_tunnel\<lparr>tn_ID := [], tn_Name := [], tn_Type := [], tn_LocalIP := [],
     tn_LocalPort := 0, tn_RemotePort := 0, tn_DesiredState := [], tn_RuntimeState := [],
     tn_ClientID := client, tn_Binding := TunnelBindingClientID, tn_OwnerUserID := []\<rparr>"

definition relay_or_unknown :: "string \<Rightarrow> string" where
  "relay_or_unknown storageState =
     (if storageState = ''active'' then TunnelActualTransportServerRelay else TunnelActualTransportUnknown)"

definition set_state_columns :: "StoredTunnel \<Rightarrow> gotime \<Rightarrow> StoredTunnel \<Rightarrow> StoredTunnel" where
  "set_state_columns n now r =
     (let s = storageRuntimeStateFromProtocol (tn_RuntimeState n) in
      r\<lparr>tn_DesiredState := tn_DesiredState n, tn_RuntimeState := s, tn_Error := tn_Error n,
        tn_ActualTransport := relay_or_unknown s, tn_UpdatedAt := now\<rparr>)"

definition UpdateStates ::
  "gotime \<Rightarrow> string \<Rightarrow> string \<Rightarrow> string \<Rightarrow> string \<Rightarrow> string \<Rightarrow> store \<Rightarrow> (store_error + unit) \<times> store" where
  "UpdateStates now client name desired runtime err st =
     (let p = (\<lambda>r. tn_ClientID r = client \<and> tn_Name r = name) in
      if \<not> list_ex p (st_tunnels st) then (Inl (DoesNotExist client name), st)
      else (case setStoredTunnelStates (blank_tunnel client) desired runtime err of
         Inl e \<Rightarrow> (Inl (PanicStates e), st)
       | Inr n \<Rightarrow>
           save_tx st (\<lambda>st1.
             bind_res (sql_update p (set_state_columns n now) st1) (\<lambda>(k, st2).
               if k = 0 then Inl (DoesNotExist client name) else Inr ((), st2)))))"

text \<open>The conditional updates: the guard is the \<open>WHERE\<close> clause, the result whether a row changed.\<close>

definition UpdateStatesIfCurrent ::
  "gotime \<Rightarrow> string \<Rightarrow> string \<Rightarrow> int \<Rightarrow> string \<Rightarrow> string \<Rightarrow> string \<Rightarrow> store \<Rightarrow> (store_error + bool) \<times> store" where
  "UpdateStatesIfCurrent now client i revision desired runtime err st =
     (case setStoredTunnelStates (blank_tunnel client) desired runtime err of
        Inl e \<Rightarrow> (Inl (PanicStates e), st)
      | Inr n \<Rightarrow>
          save_tx st (\<lambda>st1.
            bind_res (sql_update (\<lambda>r. tn_ClientID r = client \<and> tn_ID r = i \<and> tn_Revision r = revision \<and>
                tn_DesiredState r = tn_DesiredState n) (set_state_columns n now) st1) (\<lambda>(k, st2).
              Inr (0 < k, st2))))"

definition TransitionRuntimeStateIfCurrent ::
  "gotime \<Rightarrow> string \<Rightarrow> string \<Rightarrow> int \<Rightarrow> string \<Rightarrow> string \<Rightarrow> string \<Rightarrow> string \<Rightarrow> store \<Rightarrow>
     (store_error + bool) \<times> store" where
  "TransitionRuntimeStateIfCurrent now client i revision desired expected runtime err st =
     (case setStoredTunnelStates (blank_tunnel client) desired runtime err of
        Inl e \<Rightarrow> (Inl (PanicStates e), st)
      | Inr n \<Rightarrow>
          save_tx st (\<lambda>st1.
            bind_res (sql_update (\<lambda>r. tn_ClientID r = client \<and> tn_ID r = i \<and> tn_Revision r = revision \<and>
                tn_DesiredState r = tn_DesiredState n \<and>
                tn_RuntimeState r = storageRuntimeStateFromProtocol expected)
              (set_state_columns n now) st1) (\<lambda>(k, st2). Inr (0 < k, st2))))"

text \<open>The stop and resume actions of the console.\<close>

definition UpdateTunnelStatesWithActivity ::
  "(string \<Rightarrow> string) \<Rightarrow> gotime \<Rightarrow> (string + int) \<Rightarrow> string \<Rightarrow> string \<Rightarrow> string \<Rightarrow> string \<Rightarrow> string \<Rightarrow> string \<Rightarrow>
     store \<Rightarrow> (store_error + StoredTunnel \<times> int) \<times> store" where
  "UpdateTunnelStatesWithActivity ul now act client i desired runtime err action st =
     (if action \<noteq> ''stopped'' \<and> action \<noteq> ''resumed'' then (Inl (UnsupportedAction action), st)
      else (case find (\<lambda>r. tn_ClientID r = client \<and> tn_ID r = i) (st_tunnels st) of
        None \<Rightarrow> (Inl ErrTunnelNotFound, st)
      | Some row \<Rightarrow>
        (case scanStoredTunnel ul now row of
           Inl e \<Rightarrow> (Inl e, st)
         | Inr before \<Rightarrow>
          (case (if action = ''resumed'' then ensureOperationalUserInTx st (tn_OwnerUserID before) else Inr ()) of
             Inl e \<Rightarrow> (Inl e, st)
           | Inr _ \<Rightarrow>
            (case setStoredTunnelStates before desired runtime err of
               Inl e \<Rightarrow> (Inl (PanicStates e), st)
             | Inr after0 \<Rightarrow>
                let s = storageRuntimeStateFromProtocol (tn_RuntimeState after0);
                    after1 = after0\<lparr>tn_ActualTransport := relay_or_unknown s\<rparr> in
                if tn_DesiredState before = tn_DesiredState after1 \<and>
                   storageRuntimeStateFromProtocol (tn_RuntimeState before) = s \<and>
                   tn_Error before = tn_Error after1 \<and> tn_ActualTransport before = tn_ActualTransport after1
                then (Inr (before, 0), st)
                else save_tx st (\<lambda>st1.
                  bind_res (sql_update (\<lambda>r. tn_ClientID r = client \<and> tn_ID r = i \<and>
                      tn_Revision r = tn_Revision before \<and> tn_DesiredState r = tn_DesiredState before \<and>
                      tn_RuntimeState r = storageRuntimeStateFromProtocol (tn_RuntimeState before) \<and>
                      tn_Error r = tn_Error before \<and> tn_ActualTransport r = tn_ActualTransport before)
                    (set_state_columns after1 now) st1) (\<lambda>(k, st2).
                  if k = 0 then Inl ErrTunnelRevisionConflict
                  else bind_res (append_activity (Some act)) (\<lambda>a.
                    Inr ((after1\<lparr>tn_UpdatedAt := now\<rparr>, a), st2)))))))))"

subsection \<open>Configuration updates\<close>

record tunnel_edit =
  ed_name :: string
  ed_localIP :: string
  ed_localPort :: int
  ed_remotePort :: int
  ed_domain :: string
  ed_ingressBPS :: int
  ed_egressBPS :: int

definition apply_edit :: "tunnel_edit \<Rightarrow> gotime \<Rightarrow> StoredTunnel \<Rightarrow> StoredTunnel" where
  "apply_edit e now t =
     t\<lparr>tn_Name := ed_name e, tn_LocalIP := ed_localIP e, tn_LocalPort := ed_localPort e,
       tn_RemotePort := ed_remotePort e, tn_Domain := ed_domain e,
       tn_Bandwidth := (tn_Bandwidth t)\<lparr>bw_IngressBPS := ed_ingressBPS e, bw_EgressBPS := ed_egressBPS e\<rparr>,
       tn_UpdatedAt := now\<rparr>"

text \<open>The columns an edit writes, taken from the normalised tunnel.\<close>

definition set_edit_columns :: "StoredTunnel \<Rightarrow> StoredTunnel \<Rightarrow> StoredTunnel" where
  "set_edit_columns t r =
     r\<lparr>tn_Name := tn_Name t, tn_LocalIP := tn_LocalIP t, tn_LocalPort := tn_LocalPort t,
       tn_RemotePort := tn_RemotePort t, tn_Domain := tn_Domain t,
       tn_Bandwidth := (tn_Bandwidth r)\<lparr>bw_IngressBPS := bw_IngressBPS (tn_Bandwidth t),
                                        bw_EgressBPS := bw_EgressBPS (tn_Bandwidth t)\<rparr>,
       tn_Ingress := (tn_Ingress r)\<lparr>ep_Config := ep_Config (tn_Ingress t)\<rparr>,
       tn_Target := (tn_Target r)\<lparr>ep_Config := ep_Config (tn_Target t)\<rparr>,
       tn_UpdatedAt := tn_UpdatedAt t\<rparr>"

text \<open>
  The common part of the three edit operations: the row is read, changed, normalised, written
  under the operation's \<open>WHERE\<close> clause, and its lock replaced.
\<close>

definition edit_tx ::
  "(string \<Rightarrow> string) \<Rightarrow> gotime \<Rightarrow> (StoredTunnel \<Rightarrow> bool) \<Rightarrow> store_error \<Rightarrow>
     (StoredTunnel \<Rightarrow> StoredTunnel) \<Rightarrow> StoredTunnel \<Rightarrow> store \<Rightarrow> store_error + StoredTunnel \<times> store" where
  "edit_tx ul now p missing columns stored0 st =
     bind_res (case normalize ul now stored0 of Inl e \<Rightarrow> Inl (Invalid e) | Inr t \<Rightarrow> Inr t) (\<lambda>stored.
     bind_res (sql_update p (\<lambda>r. set_edit_columns stored (columns r)) st) (\<lambda>(k, st1).
       if k = 0 then Inl missing
       else bind_res (replaceTunnelResourceLocksTx ul now stored st1) (\<lambda>st2. Inr (stored, st2))))"

definition UpdateTunnel ::
  "(string \<Rightarrow> string) \<Rightarrow> gotime \<Rightarrow> string \<Rightarrow> string \<Rightarrow> tunnel_edit \<Rightarrow> store \<Rightarrow> (store_error + unit) \<times> store" where
  "UpdateTunnel ul now client name e st =
     (let p = (\<lambda>r. tn_ClientID r = client \<and> tn_Name r = name) in
      case find p (st_tunnels st) of
        None \<Rightarrow> (Inl (DoesNotExist client name), st)
      | Some row \<Rightarrow>
          save_tx st (\<lambda>st1.
            bind_res (scanStoredTunnel ul now row) (\<lambda>stored.
            bind_res (edit_tx ul now p (DoesNotExist client name) id
                (apply_edit (e\<lparr>ed_name := tn_Name stored\<rparr>) now stored) st1) (\<lambda>(_, st2). Inr ((), st2)))))"

definition UpdateTunnelByID ::
  "(string \<Rightarrow> string) \<Rightarrow> gotime \<Rightarrow> string \<Rightarrow> string \<Rightarrow> tunnel_edit \<Rightarrow> store \<Rightarrow> (store_error + unit) \<times> store" where
  "UpdateTunnelByID ul now client i e st =
     (let p = (\<lambda>r. tn_ClientID r = client \<and> tn_ID r = i) in
      case find p (st_tunnels st) of
        None \<Rightarrow> (Inl (DoesNotExist client i), st)
      | Some row \<Rightarrow>
          save_tx st (\<lambda>st1.
            bind_res (scanStoredTunnel ul now row) (\<lambda>stored.
            bind_res (edit_tx ul now p (DoesNotExist client i) id (apply_edit e now stored) st1)
              (\<lambda>(_, st2). Inr ((), st2)))))"

text \<open>\<open>Revision++\<close> on an \<open>int64\<close> wraps around.\<close>

definition next_revision :: "int \<Rightarrow> int" where
  "next_revision n = (n + 1 + 2 ^ 63) mod 2 ^ 64 - 2 ^ 63"

definition UpdateTunnelByIDWithRevision ::
  "(string \<Rightarrow> string) \<Rightarrow> gotime \<Rightarrow> string \<Rightarrow> string \<Rightarrow> int \<Rightarrow> tunnel_edit \<Rightarrow> store \<Rightarrow>
     (store_error + StoredTunnel) \<times> store" where
  "UpdateTunnelByIDWithRevision ul now client i expected e st =
     (let p = (\<lambda>r. tn_ClientID r = client \<and> tn_ID r = i) in
      case find p (st_tunnels st) of
        None \<Rightarrow> (Inl (DoesNotExist client i), st)
      | Some row \<Rightarrow>
          save_tx st (\<lambda>st1.
            bind_res (scanStoredTunnel ul now row) (\<lambda>stored.
              if expected \<le> 0 then Inl ExpectedRevisionRequired
              else if tn_Revision stored \<noteq> expected then Inl ErrTunnelRevisionConflict
              else let stored1 = (apply_edit e now stored)\<lparr>tn_Revision := next_revision (tn_Revision stored)\<rparr> in
                edit_tx ul now (\<lambda>r. p r \<and> tn_Revision r = expected) ErrTunnelRevisionConflict
                  (\<lambda>r. r\<lparr>tn_Revision := tn_Revision stored1\<rparr>) stored1 st1)))"

text \<open>The columns of the full replacement; the migration also writes the client.\<close>

definition set_spec_columns :: "StoredTunnel \<Rightarrow> StoredTunnel \<Rightarrow> StoredTunnel" where
  "set_spec_columns t r =
     (row_of t)\<lparr>tn_ID := tn_ID r, tn_ClientID := tn_ClientID r, tn_Hostname := tn_Hostname r,
        tn_Binding := tn_Binding r, tn_CreatedAt := tn_CreatedAt r,
        tn_CreatedByUserID := tn_CreatedByUserID r, tn_OwnerUserID := tn_OwnerUserID r\<rparr>"

definition replaceTx ::
  "(string \<Rightarrow> string) \<Rightarrow> gotime \<Rightarrow> (string + int) option \<Rightarrow> string \<Rightarrow> string \<Rightarrow> int \<Rightarrow> StoredTunnel \<Rightarrow> StoredTunnel \<Rightarrow>
     store \<Rightarrow> store_error + int \<times> store" where
  "replaceTx ul now actor client i expected existing r st1 =
     bind_res (ensureOperationalUserInTx st1 (tn_OwnerUserID existing)) (\<lambda>_.
     bind_res (validateTunnelClientOwnershipInTx st1 r) (\<lambda>_.
     bind_res (sql_update (\<lambda>x. tn_ClientID x = client \<and> tn_ID x = i \<and> tn_Revision x = expected)
         (set_spec_columns r) st1) (\<lambda>(k, st2).
       if k = 0 then Inl ErrTunnelRevisionConflict
       else bind_res (replaceTunnelResourceLocksTx ul now r st2) (\<lambda>st3.
         bind_res (append_activity actor) (\<lambda>a. Inr (a, st3))))))"

text \<open>The replacement with its identity, revision, owner and times filled in.\<close>

definition prepared_replacement ::
  "gotime \<Rightarrow> string \<Rightarrow> string \<Rightarrow> int \<Rightarrow> StoredTunnel \<Rightarrow> StoredTunnel \<Rightarrow> StoredTunnel" where
  "prepared_replacement now client i expected existing repl =
     repl\<lparr>tn_ID := i, tn_ClientID := or_else (tn_ClientID repl) client,
       tn_Revision := next_revision expected,
       tn_CreatedAt := (if time_is_zero (tn_CreatedAt repl) then tn_CreatedAt existing else tn_CreatedAt repl),
       tn_OwnerUserID := or_else (tn_OwnerUserID repl) (tn_OwnerUserID existing),
       tn_UpdatedAt := (if time_is_zero (tn_UpdatedAt repl) then now else tn_UpdatedAt repl)\<rparr>"

definition replaceTunnelByID ::
  "(string \<Rightarrow> string) \<Rightarrow> gotime \<Rightarrow> (string + int) option \<Rightarrow> string \<Rightarrow> string \<Rightarrow> int \<Rightarrow> StoredTunnel \<Rightarrow> store \<Rightarrow>
     (store_error + int) \<times> store" where
  "replaceTunnelByID ul now actor client i expected repl st =
     (if expected \<le> 0 then (Inl ExpectedRevisionRequired, st)
      else (case find (\<lambda>r. tn_ClientID r = client \<and> tn_ID r = i) (st_tunnels st) of
        None \<Rightarrow> (Inl ErrTunnelNotFound, st)
      | Some row \<Rightarrow>
       (case scanStoredTunnel ul now row of
          Inl e \<Rightarrow> (Inl e, st)
        | Inr existing \<Rightarrow>
          if tn_Revision existing \<noteq> expected then (Inl ErrTunnelRevisionConflict, st)
          else let r1 = prepared_replacement now client i expected existing repl in
          if tn_ClientID r1 \<noteq> client then (Inl ClientIDCannotChange, st)
          else if tn_OwnerUserID r1 \<noteq> tn_OwnerUserID existing then (Inl OwnerCannotChange, st)
          else (case normalize ul now r1 of
             Inl e \<Rightarrow> (Inl (Invalid e), st)
           | Inr r \<Rightarrow>
             save_tx st (replaceTx ul now actor client i expected existing r)))))"

definition migrateTx ::
  "(string \<Rightarrow> string) \<Rightarrow> gotime \<Rightarrow> (string + int) option \<Rightarrow> string \<Rightarrow> int \<Rightarrow> StoredTunnel \<Rightarrow> StoredTunnel \<Rightarrow>
     store \<Rightarrow> store_error + int \<times> store" where
  "migrateTx ul now actor i expected existing r st1 =
     (if st_clients st1 (ep_ClientID (tn_Target r)) = None then Inl ErrTunnelTargetClientNotFound
      else
        bind_res (ensureOperationalUserInTx st1 (tn_OwnerUserID existing)) (\<lambda>_.
        bind_res (validateTunnelClientOwnershipInTx st1 r) (\<lambda>_.
        bind_res (sql_update (\<lambda>x. tn_ID x = i \<and> tn_Revision x = expected)
            (\<lambda>x. (set_spec_columns r x)\<lparr>tn_ClientID := tn_ClientID r\<rparr>) st1) (\<lambda>(k, st2).
          if k = 0 then Inl ErrTunnelRevisionConflict
          else bind_res (replaceTunnelResourceLocksTx ul now r st2) (\<lambda>st3.
            let st4 = st3\<lparr>st_traffic := filter (\<lambda>x. x \<noteq> i) (st_traffic st3)\<rparr> in
            bind_res (append_activity actor) (\<lambda>a. Inr (a, st4)))))))"

definition migrateTunnelTargetByID ::
  "(string \<Rightarrow> string) \<Rightarrow> gotime \<Rightarrow> (string + int) option \<Rightarrow> string \<Rightarrow> int \<Rightarrow> StoredTunnel \<Rightarrow> store \<Rightarrow>
     (store_error + StoredTunnel \<times> StoredTunnel \<times> int) \<times> store" where
  "migrateTunnelTargetByID ul now actor i expected repl st =
     (if expected \<le> 0 then (Inl ExpectedRevisionRequired, st)
      else (case find (\<lambda>r. tn_ID r = i) (st_tunnels st) of
        None \<Rightarrow> (Inl ErrTunnelNotFound, st)
      | Some row \<Rightarrow>
       (case scanStoredTunnel ul now row of
          Inl e \<Rightarrow> (Inl e, st)
        | Inr existing \<Rightarrow>
          if tn_Revision existing \<noteq> expected then (Inl ErrTunnelRevisionConflict, st)
          else if tn_RuntimeState existing = ProxyRuntimeStatePending then (Inl ErrTunnelMigrationPending, st)
          else let r1 = repl\<lparr>tn_ID := i, tn_Revision := next_revision expected,
                  tn_CreatedAt := tn_CreatedAt existing, tn_CreatedByUserID := tn_CreatedByUserID existing,
                  tn_OwnerUserID := tn_OwnerUserID existing, tn_Hostname := tn_Hostname existing,
                  tn_Binding := tn_Binding existing,
                  tn_UpdatedAt := (if time_is_zero (tn_UpdatedAt repl) then now else tn_UpdatedAt repl)\<rparr> in
          (case normalize ul now r1 of
             Inl e \<Rightarrow> (Inl (Invalid e), st)
           | Inr r \<Rightarrow>
             if list_ex (\<lambda>x. tn_OwnerClientID x = tn_OwnerClientID r \<and> tn_Name x = tn_Name r \<and> tn_ID x \<noteq> i)
                  (st_tunnels st)
             then (Inl ErrTunnelOwnerNameConflict, st)
             else
               (case save_tx st (migrateTx ul now actor i expected existing r) of
                  (Inl e, st') \<Rightarrow> (Inl e, st')
                | (Inr a, st') \<Rightarrow>
                    (case find (\<lambda>x. tn_ID x = i) (st_tunnels st') of
                       None \<Rightarrow> (Inl ErrTunnelNotFound, st')
                     | Some x \<Rightarrow>
                         (case scanStoredTunnel ul now x of
                            Inl e \<Rightarrow> (Inl e, st')
                          | Inr after \<Rightarrow> (Inr (existing, after, a), st'))))))))"

definition UpdateHostname :: "gotime \<Rightarrow> string \<Rightarrow> string \<Rightarrow> store \<Rightarrow> (store_error + unit) \<times> store" where
  "UpdateHostname now client hostname st =
     (let p = (\<lambda>r. tn_ClientID r = client \<and> tn_Hostname r \<noteq> hostname) in
      if \<not> list_ex p (st_tunnels st) then (Inr (), st)
      else save_tx st (\<lambda>st1.
        bind_res (sql_update p (\<lambda>r. r\<lparr>tn_Hostname := hostname, tn_UpdatedAt := now\<rparr>) st1)
          (\<lambda>(_, st2). Inr ((), st2))))"

subsection \<open>Projection of peer-to-peer sessions\<close>

datatype P2PProjectionMode = P2PProjectionGathering | P2PProjectionReady | P2PProjectionFailed
  | P2PProjectionClosed | P2PProjectionOther string

text \<open>State, message, session and actual transport of a tunnel after a transition.\<close>

definition p2pProjectionValues ::
  "StoredTunnel \<Rightarrow> P2PProjectionMode \<Rightarrow> string \<Rightarrow> P2PState \<times> string" where
  "p2pProjectionValues t mode session =
     (let preferred = (tn_TransportPolicy t = TunnelTransportDirectPreferred);
          val = (\<lambda>state sid. \<lparr>p2p_State = state, p2p_Error = [], p2p_SessionID = sid\<rparr>) in
      case mode of
        P2PProjectionGathering \<Rightarrow>
          (val ''gathering'' session,
           if preferred then TunnelActualTransportServerRelay else TunnelActualTransportUnknown)
      | P2PProjectionReady \<Rightarrow> (val ''connected'' session, TunnelActualTransportPeerDirect)
      | P2PProjectionFailed \<Rightarrow>
          if preferred then (val ''fallback'' session, TunnelActualTransportServerRelay)
          else (val ''failed'' session, TunnelActualTransportUnknown)
      | P2PProjectionClosed \<Rightarrow>
          (val ''closed'' [],
           if preferred \<and> tn_DesiredState t \<noteq> ProxyDesiredStateStopped
           then TunnelActualTransportServerRelay else TunnelActualTransportUnknown)
      | P2PProjectionOther _ \<Rightarrow>
          (\<lparr>p2p_State = p2p_State (tn_P2P t), p2p_Error = p2p_Error (tn_P2P t), p2p_SessionID = session\<rparr>,
           tn_ActualTransport t))"

record p2p_projection =
  pr_changes :: "(StoredTunnel \<times> StoredTunnel) list"
  pr_stale :: "(string \<times> int) list"

text \<open>One grant, a tunnel id with a revision; a grant without its row or session is stale.\<close>

definition apply_p2p_grant ::
  "(string \<Rightarrow> string) \<Rightarrow> gotime \<Rightarrow> string \<Rightarrow> P2PProjectionMode \<Rightarrow> string \<Rightarrow> string \<times> int \<Rightarrow>
     p2p_projection \<times> store \<Rightarrow> store_error + p2p_projection \<times> store" where
  "apply_p2p_grant ul now expected mode session g acc =
     (case (g, acc) of ((i, revision), (res, st)) \<Rightarrow>
        let p = (\<lambda>r. tn_ID r = i \<and> tn_Revision r = revision);
            stale = res\<lparr>pr_stale := pr_stale res @ [g]\<rparr> in
        (case find p (st_tunnels st) of
           None \<Rightarrow> Inr (stale, st)
         | Some row \<Rightarrow>
             bind_res (scanStoredTunnel ul now row) (\<lambda>before.
               if expected \<noteq> [] \<and> p2p_SessionID (tn_P2P before) \<noteq> expected then Inr (stale, st)
               else case p2pProjectionValues before mode session of (ps, actual) \<Rightarrow>
                 if tn_P2P before = ps \<and> tn_ActualTransport before = actual then Inr (res, st)
                 else bind_res (sql_update
                     (\<lambda>r. p r \<and> (expected \<noteq> [] \<longrightarrow> p2p_SessionID (tn_P2P r) = expected))
                     (\<lambda>r. r\<lparr>tn_P2P := ps, tn_ActualTransport := actual, tn_UpdatedAt := now\<rparr>) st) (\<lambda>(k, st1).
                   if k = 0 then Inr (stale, st1)
                   else Inr (res\<lparr>pr_changes := pr_changes res @
                     [(before, before\<lparr>tn_P2P := ps, tn_ActualTransport := actual\<rparr>)]\<rparr>, st1)))))"

fun apply_p2p_grants ::
  "(string \<Rightarrow> string) \<Rightarrow> gotime \<Rightarrow> string \<Rightarrow> P2PProjectionMode \<Rightarrow> string \<Rightarrow> (string \<times> int) list \<Rightarrow>
     p2p_projection \<times> store \<Rightarrow> store_error + p2p_projection \<times> store" where
  "apply_p2p_grants ul now expected mode session [] acc = Inr acc"
| "apply_p2p_grants ul now expected mode session (g # gs) acc =
     bind_res (apply_p2p_grant ul now expected mode session g acc)
       (\<lambda>acc'. apply_p2p_grants ul now expected mode session gs acc')"

definition ApplyP2PLifecycle ::
  "(string \<Rightarrow> string) \<Rightarrow> gotime \<Rightarrow> (string \<times> int) list \<Rightarrow> string \<Rightarrow> P2PProjectionMode \<Rightarrow> string \<Rightarrow> store \<Rightarrow>
     (store_error + p2p_projection) \<times> store" where
  "ApplyP2PLifecycle ul now grants expected mode session st =
     (if grants = [] then (Inr \<lparr>pr_changes = [], pr_stale = []\<rparr>, st)
      else save_tx st (\<lambda>st1.
        apply_p2p_grants ul now expected mode session grants (\<lparr>pr_changes = [], pr_stale = []\<rparr>, st1)))"

subsection \<open>Start-up\<close>

definition GetAllTunnels :: "(string \<Rightarrow> string) \<Rightarrow> gotime \<Rightarrow> store \<Rightarrow> store_error + StoredTunnel list" where
  "GetAllTunnels ul now st =
     scanStoredTunnelRows ul now (sort_key tn_ClientID (newest_first (st_tunnels st)))"

definition validateLoadedState :: "(string \<Rightarrow> string) \<Rightarrow> gotime \<Rightarrow> store \<Rightarrow> store_error + unit" where
  "validateLoadedState ul now st =
     bind_res (scanStoredTunnelRows ul now (sort_key tn_ClientID (newest_first (st_tunnels st))))
       (\<lambda>_. Inr ())"

text \<open>
  A configuration without a list of source networks gets the explicit allow-all list. The
  result is \<open>Inl\<close> for undecodable JSON, \<open>Inr None\<close> for no change.
\<close>

definition backfillIngressSourceCIDRsConfig :: "string \<Rightarrow> string \<Rightarrow> unit + string option" where
  "backfillIngressSourceCIDRsConfig ty raw =
     (if ty = TunnelIngressTypeTCPListen \<or> ty = TunnelIngressTypeUDPListen then
        (case decode_tcpListen raw of
           None \<Rightarrow> Inl ()
         | Some c \<Rightarrow>
             if tl_AllowedSourceCIDRs c \<noteq> None then Inr None
             else Inr (Some (json_print (json_tcpListen (c\<lparr>tl_AllowedSourceCIDRs := Some allowAllSourceCIDRs\<rparr>)))))
      else if ty = TunnelIngressTypeSOCKS5Listen then
        (case decode_socks5Listen raw of
           None \<Rightarrow> Inl ()
         | Some c \<Rightarrow>
             if tl_AllowedSourceCIDRs c \<noteq> None then Inr None
             else Inr (Some (json_print (json_socks5Listen (c\<lparr>tl_AllowedSourceCIDRs := Some allowAllSourceCIDRs\<rparr>)))))
      else if ty = TunnelIngressTypeHTTPHost then
        (case decode_httpHost raw of
           None \<Rightarrow> Inl ()
         | Some c \<Rightarrow>
             let c1 = (if hh_AllowedSourceCIDRs c = None
                       then c\<lparr>hh_AllowedSourceCIDRs := Some allowAllSourceCIDRs\<rparr> else c);
                 c2 = (if auth_Type (hh_Auth c) = [] then c1\<lparr>hh_Auth := (hh_Auth c1)\<lparr>auth_Type := ''none''\<rparr>\<rparr>
                       else c1) in
             if hh_AllowedSourceCIDRs c \<noteq> None \<and> auth_Type (hh_Auth c) \<noteq> [] then Inr None
             else Inr (Some (json_print (json_httpHost c2))))
      else Inr None)"

subsection \<open>Queries\<close>

definition get_one ::
  "(string \<Rightarrow> string) \<Rightarrow> gotime \<Rightarrow> (StoredTunnel \<Rightarrow> bool) \<Rightarrow> store \<Rightarrow> store_error + StoredTunnel" where
  "get_one ul now p st =
     (case find p (st_tunnels st) of None \<Rightarrow> Inl ErrTunnelNotFound | Some r \<Rightarrow> scanStoredTunnel ul now r)"

definition GetTunnelE :: "(string \<Rightarrow> string) \<Rightarrow> gotime \<Rightarrow> string \<Rightarrow> string \<Rightarrow> store \<Rightarrow> store_error + StoredTunnel" where
  "GetTunnelE ul now client name = get_one ul now (\<lambda>r. tn_ClientID r = client \<and> tn_Name r = name)"

definition GetTunnelByIDE :: "(string \<Rightarrow> string) \<Rightarrow> gotime \<Rightarrow> string \<Rightarrow> string \<Rightarrow> store \<Rightarrow> store_error + StoredTunnel" where
  "GetTunnelByIDE ul now client i = get_one ul now (\<lambda>r. tn_ClientID r = client \<and> tn_ID r = i)"

definition GetTunnelByID :: "(string \<Rightarrow> string) \<Rightarrow> gotime \<Rightarrow> string \<Rightarrow> store \<Rightarrow> store_error + StoredTunnel" where
  "GetTunnelByID ul now i = get_one ul now (\<lambda>r. tn_ID r = i)"

definition GetTunnelByIDForUser ::
  "(string \<Rightarrow> string) \<Rightarrow> gotime \<Rightarrow> string \<Rightarrow> string \<Rightarrow> store \<Rightarrow> store_error + StoredTunnel" where
  "GetTunnelByIDForUser ul now owner i = get_one ul now (\<lambda>r. tn_ID r = i \<and> tn_OwnerUserID r = owner)"

definition GetTunnelsByClientID ::
  "(string \<Rightarrow> string) \<Rightarrow> gotime \<Rightarrow> string \<Rightarrow> store \<Rightarrow> store_error + StoredTunnel list" where
  "GetTunnelsByClientID ul now client st =
     scanStoredTunnelRows ul now (newest_first (filter (\<lambda>r. tn_ClientID r = client) (st_tunnels st)))"

definition GetTunnelsByUserID ::
  "(string \<Rightarrow> string) \<Rightarrow> gotime \<Rightarrow> string \<Rightarrow> store \<Rightarrow> store_error + StoredTunnel list" where
  "GetTunnelsByUserID ul now owner st =
     scanStoredTunnelRows ul now (newest_first (filter (\<lambda>r. tn_OwnerUserID r = owner) (st_tunnels st)))"

text \<open>The routing claim of a host: the loop keeps the row of the most specific candidate.\<close>

fun best_rank :: "string \<Rightarrow> nat \<Rightarrow> string list \<Rightarrow> nat \<Rightarrow> nat" where
  "best_rank domain rank [] best = best"
| "best_rank domain rank (c # cs) best =
     best_rank domain (Suc rank) cs (if c = domain \<and> rank < best then rank else best)"

fun claim_loop ::
  "(string \<Rightarrow> string) \<Rightarrow> gotime \<Rightarrow> string list \<Rightarrow> StoredTunnel list \<Rightarrow> StoredTunnel option \<times> nat \<Rightarrow>
     store_error + StoredTunnel option \<times> nat" where
  "claim_loop ul now cands [] best = Inr best"
| "claim_loop ul now cands (r # rs) best =
     bind_res (scanStoredTunnel ul now r) (\<lambda>t.
       if ep_Type (tn_Ingress t) \<noteq> TunnelIngressTypeHTTPHost \<or>
          ep_Location (tn_Ingress t) \<noteq> EndpointLocationServer
       then claim_loop ul now cands rs best
       else let k = best_rank (canonicalHTTPDomain ul (tunnelIngressDomain ul t)) 0 cands (snd best) in
         claim_loop ul now cands rs (if k < snd best then (Some t, k) else best))"

definition claim_keys :: "string list \<Rightarrow> string list" where
  "claim_keys cands =
     concat (map (\<lambda>c. [''ingress:server:http_host:'' @ c, ''ingress:server:http_host:'' @ c @ ''.'']) cands)"

definition findHTTPDomainClaim ::
  "(string \<Rightarrow> string) \<Rightarrow> gotime \<Rightarrow> string \<Rightarrow> store \<Rightarrow> store_error + StoredTunnel option" where
  "findHTTPDomainClaim ul now host st =
     (let cands = httpDomainCandidates ul host in
      if cands = [] then Inr None
      else let rows = filter (\<lambda>r. list_ex (\<lambda>l. lk_tunnel l = tn_ID r \<and> lk_key l \<in> set (claim_keys cands))
                        (st_locks st)) (st_tunnels st) in
        bind_res (claim_loop ul now cands (sort_key tn_ID rows) (None, length cands)) (\<lambda>(t, k).
          Inr (if k < length cands then t else None)))"

section \<open>Tables without clashes\<close>

text \<open>
  A table is exclusive for a relation when no two rows with different ids clash. Two such
  relations are used below: rows that share a name within a client, and rows that claim the
  same ingress resource. The operations reach the table through these four laws.
\<close>

definition exclusive :: "('r \<Rightarrow> 'k) \<Rightarrow> ('r \<Rightarrow> 'r \<Rightarrow> bool) \<Rightarrow> 'r list \<Rightarrow> bool" where
  "exclusive ident clash rs \<longleftrightarrow>
     (\<forall>a \<in> set rs. \<forall>b \<in> set rs. ident a \<noteq> ident b \<longrightarrow> \<not> clash a b)"

locale exclusive_table =
  fixes ident :: "'r \<Rightarrow> 'k" and clash :: "'r \<Rightarrow> 'r \<Rightarrow> bool" and part :: "'r \<Rightarrow> 'p"
  assumes clash_sym: "clash a b \<Longrightarrow> clash b a"
    and clash_part: "part a = part a' \<Longrightarrow> part b = part b' \<Longrightarrow> clash a b = clash a' b'"
begin

lemma empty_ok: "exclusive ident clash []"
  by (simp add: exclusive_def)

lemma delete_ok: "exclusive ident clash rs \<Longrightarrow> exclusive ident clash (filter p rs)"
  by (auto simp: exclusive_def)

lemma quiet_update_ok:
  assumes "exclusive ident clash rs"
    and "\<And>r. r \<in> set rs \<Longrightarrow> ident (f r) = ident r" and "\<And>r. r \<in> set rs \<Longrightarrow> part (f r) = part r"
  shows "exclusive ident clash (map f rs)"
proof -
  have "\<not> clash (f a) (f b)" if "a \<in> set rs" "b \<in> set rs" "ident (f a) \<noteq> ident (f b)" for a b
    using assms that clash_part [of "f a" a "f b" b] by (auto simp: exclusive_def)
  then show ?thesis by (auto simp: exclusive_def)
qed

text \<open>A row may be changed when the new row clashes with no other one.\<close>

lemma checked_update_ok:
  assumes "exclusive ident clash (filter (\<lambda>r. ident r \<noteq> k) rs)"
    and "\<And>a b. a \<in> set rs \<Longrightarrow> b \<in> set rs \<Longrightarrow> ident a = k \<Longrightarrow> ident b \<noteq> k \<Longrightarrow> \<not> clash a b"
  shows "exclusive ident clash rs"
  using assms clash_sym unfolding exclusive_def by auto metis

end

definition name_clash :: "StoredTunnel \<Rightarrow> StoredTunnel \<Rightarrow> bool" where
  "name_clash a b \<longleftrightarrow>
     tn_Name a = tn_Name b \<and> (tn_ClientID a = tn_ClientID b \<or> tn_OwnerClientID a = tn_OwnerClientID b)"

definition wildcard_ip :: "StoredTunnel \<Rightarrow> bool" where
  "wildcard_ip t \<longleftrightarrow> tunnelIngressBindIP t = ''0.0.0.0''"

text \<open>Two listeners would bind the same socket, up to the wildcard address.\<close>

definition listener_clash :: "StoredTunnel \<Rightarrow> StoredTunnel \<Rightarrow> bool" where
  "listener_clash a b \<longleftrightarrow>
     is_listener (ep_Type (tn_Ingress a)) \<and> is_listener (ep_Type (tn_Ingress b)) \<and>
     ingress_location_id a = ingress_location_id b \<and>
     listener_proto (ep_Type (tn_Ingress a)) = listener_proto (ep_Type (tn_Ingress b)) \<and>
     0 < tunnelIngressPort a \<and> tunnelIngressPort a = tunnelIngressPort b \<and>
     (tunnelIngressBindIP a = tunnelIngressBindIP b \<or> wildcard_ip a \<or> wildcard_ip b)"

text \<open>Two HTTP hosts of one location conflict.\<close>

definition http_clash :: "(string \<Rightarrow> string) \<Rightarrow> StoredTunnel \<Rightarrow> StoredTunnel \<Rightarrow> bool" where
  "http_clash ul a b \<longleftrightarrow>
     ep_Type (tn_Ingress a) = TunnelIngressTypeHTTPHost \<and> ep_Type (tn_Ingress b) = TunnelIngressTypeHTTPHost \<and>
     ep_Location (tn_Ingress a) = ep_Location (tn_Ingress b) \<and>
     ep_ClientID (tn_Ingress a) = ep_ClientID (tn_Ingress b) \<and>
     canonicalHTTPDomain ul (tunnelIngressDomain ul a) \<noteq> [] \<and>
     canonicalHTTPDomain ul (tunnelIngressDomain ul b) \<noteq> [] \<and>
     httpDomainsConflict ul (tunnelIngressDomain ul a) (tn_OwnerUserID a)
       (tunnelIngressDomain ul b) (tn_OwnerUserID b)"

definition claim_clash :: "(string \<Rightarrow> string) \<Rightarrow> StoredTunnel \<Rightarrow> StoredTunnel \<Rightarrow> bool" where
  "claim_clash ul a b \<longleftrightarrow> listener_clash a b \<or> http_clash ul a b"

text \<open>The part of a row its claim depends on.\<close>

definition ingress_part :: "StoredTunnel \<Rightarrow> EndpointSpec \<times> int \<times> string \<times> string" where
  "ingress_part t = (tn_Ingress t, tn_RemotePort t, tn_Domain t, tn_OwnerUserID t)"

lemma ingress_part_eq:
  "ingress_part a = ingress_part b \<longleftrightarrow>
     tn_Ingress a = tn_Ingress b \<and> tn_RemotePort a = tn_RemotePort b \<and> tn_Domain a = tn_Domain b \<and>
     tn_OwnerUserID a = tn_OwnerUserID b"
  by (simp add: ingress_part_def)

lemma ingress_accessors_part:
  assumes "ingress_part a = ingress_part b"
  shows "tunnelIngressBindIP a = tunnelIngressBindIP b" "tunnelIngressPort a = tunnelIngressPort b"
    "tunnelIngressDomain ul a = tunnelIngressDomain ul b" "ingress_location_id a = ingress_location_id b"
    "ingress_location a = ingress_location b" "tn_Ingress a = tn_Ingress b"
    "tn_OwnerUserID a = tn_OwnerUserID b"
  using assms
  by (simp_all add: ingress_part_eq tunnelIngressBindIP_def tunnelIngressPort_def tunnelIngressDomain_def
      ingress_location_id_def ingress_location_def split: option.split)

lemma lock_part:
  assumes "ingress_part a = ingress_part b"
  shows "tunnelIngressResourceLock ul a = tunnelIngressResourceLock ul b"
  by (simp only: tunnelIngressResourceLock_def ingress_accessors_part [OF assms])

lemma httpDomainsConflict_sym: "httpDomainsConflict ul a u b v \<Longrightarrow> httpDomainsConflict ul b v a u"
  by (auto simp: httpDomainsConflict_def httpDomainsOverlap_def Let_def list_all2_conv_all_nth
      labels_compatible_def)

lemma claim_clash_sym: "claim_clash ul a b \<Longrightarrow> claim_clash ul b a"
  unfolding claim_clash_def listener_clash_def http_clash_def
  using httpDomainsConflict_sym by auto

lemma claim_clash_part:
  assumes "ingress_part a = ingress_part a'" and "ingress_part b = ingress_part b'"
  shows "claim_clash ul a b = claim_clash ul a' b'"
  using assms [THEN ingress_accessors_part(1)] assms [THEN ingress_accessors_part(2)]
    assms [THEN ingress_accessors_part(3)] assms [THEN ingress_accessors_part(4)]
    assms [THEN ingress_accessors_part(6)] assms [THEN ingress_accessors_part(7)]
  by (simp add: claim_clash_def listener_clash_def http_clash_def wildcard_ip_def)

interpretation names: exclusive_table tn_ID name_clash
  "\<lambda>t. (tn_Name t, tn_ClientID t, tn_OwnerClientID t)"
  by unfold_locales (auto simp: name_clash_def)

interpretation claims: exclusive_table tn_ID "claim_clash ul" ingress_part for ul
  by unfold_locales (erule claim_clash_sym, erule claim_clash_part, assumption)

section \<open>Rows that can be read back\<close>

definition row_ok :: "(string \<Rightarrow> string) \<Rightarrow> StoredTunnel \<Rightarrow> bool" where
  "row_ok ul r \<longleftrightarrow> normal_form (load_row r) \<and> validateUnifiedTunnelSpec ul (load_row r) = None"

lemma load_row_keeps [simp]:
  "tn_ID (load_row r) = tn_ID r" "tn_Name (load_row r) = tn_Name r" "tn_ClientID (load_row r) = tn_ClientID r"
  "tn_Ingress (load_row r) = tn_Ingress r" "tn_Target (load_row r) = tn_Target r"
  "tn_Revision (load_row r) = tn_Revision r" "tn_OwnerUserID (load_row r) = tn_OwnerUserID r"
  "tn_OwnerClientID (load_row r) = tn_OwnerClientID r" "tn_Domain (load_row r) = tn_Domain r"
  "tn_RemotePort (load_row r) = tn_RemotePort r" "tn_DesiredState (load_row r) = tn_DesiredState r"
  "tn_Error (load_row r) = tn_Error r" "tn_P2P (load_row r) = tn_P2P r"
  "tn_ActualTransport (load_row r) = tn_ActualTransport r" "tn_Topology (load_row r) = tn_Topology r"
  "tn_TransportPolicy (load_row r) = tn_TransportPolicy r" "tn_Type (load_row r) = tn_Type r"
  "tn_Binding (load_row r) = tn_Binding r" "tn_CreatedAt (load_row r) = tn_CreatedAt r"
  "tn_UpdatedAt (load_row r) = tn_UpdatedAt r" "tn_Bandwidth (load_row r) = tn_Bandwidth r"
  "ingress_part (load_row r) = ingress_part r"
  by (simp_all add: load_row_def ingress_part_def)

lemma normalize_on_normal_form:
  assumes "normal_form t"
  shows "normalize ul now t = (case validateUnifiedTunnelSpec ul t of None \<Rightarrow> Inr t | Some e \<Rightarrow> Inl e)"
proof -
  have st: "validateTunnelStates (tn_DesiredState t) (tn_RuntimeState t) (tn_Error t) = None"
    and er: "tunnelErrorForRuntimeState (tn_RuntimeState t) (tn_Error t) = tn_Error t"
    using assms error_for_state_valid by (auto simp: normal_form_def)
  with assms normal_form_fixed [OF assms] show ?thesis
    by (simp add: normalize_def normal_form_def time_is_zero_def same_field_updates)
qed

lemma scan_ok:
  "row_ok ul r \<Longrightarrow> scanStoredTunnel ul now r = Inr ((load_row r)\<lparr>tn_BindIP := tunnelIngressBindIP (load_row r)\<rparr>)"
  by (simp add: scanStoredTunnel_def row_ok_def normalize_on_normal_form)

lemma scan_rows_ok:
  "\<forall>r \<in> set rs. row_ok ul r \<Longrightarrow> \<exists>ts. scanStoredTunnelRows ul now rs = Inr ts \<and> length ts = length rs"
  by (induction rs) (auto simp: scan_ok)

text \<open>Validation and normal form only look at some of the fields.\<close>

lemma chained_error_None:
  "(case e of Some x \<Rightarrow> Some x | None \<Rightarrow> y) = None \<longleftrightarrow> e = None \<and> y = None"
  by (cases e) auto

lemma validate_spec_cong:
  assumes "tn_Topology a = tn_Topology b" "tn_OwnerClientID a = tn_OwnerClientID b"
    "tn_Ingress a = tn_Ingress b" "tn_Target a = tn_Target b" "tn_TransportPolicy a = tn_TransportPolicy b"
    "tn_Domain a = tn_Domain b" "validateUnifiedTunnelSpec ul a = None"
  shows "validateUnifiedTunnelSpec ul b = None"
proof -
  have d: "tunnelIngressDomain ul a = tunnelIngressDomain ul b"
    using assms by (simp add: tunnelIngressDomain_def split: option.split)
  from assms(7) show ?thesis
    unfolding validateUnifiedTunnelSpec_def Let_def chained_error_None first_error_None_iff
    by (simp add: assms(1-6) d split: if_split_asm) blast
qed

lemma runtime_storage_roundtrip [simp]:
  "r \<noteq> ''active'' \<Longrightarrow> protocolRuntimeStateFromStorage (storageRuntimeStateFromProtocol r) = r"
  by (simp add: protocolRuntimeStateFromStorage_def storageRuntimeStateFromProtocol_def)

lemma valid_states_not_active:
  "validateTunnelStates d r e = None \<Longrightarrow> r \<noteq> ''active''"
  by (auto simp: state_defs split: if_splits)

lemma storageActualTransport_nonempty [simp]: "storageActualTransport t \<noteq> []"
  by (simp add: storageActualTransport_def)

lemma row_of_ok:
  assumes "normal_form t" and "validateUnifiedTunnelSpec ul t = None"
  shows "row_ok ul (row_of t)"
proof -
  have "tn_RuntimeState t \<noteq> ''active''"
    using assms(1) valid_states_not_active by (auto simp: normal_form_def)
  then have "normal_form (load_row (row_of t))"
    using assms(1) by (simp add: normal_form_def load_row_def row_of_def)
  moreover have "validateUnifiedTunnelSpec ul (load_row (row_of t)) = None"
    by (rule validate_spec_cong [OF _ _ _ _ _ _ assms(2)]) (simp_all add: row_of_def)
  ultimately show ?thesis by (simp add: row_ok_def)
qed

lemma row_of_keeps [simp]:
  "tn_ID (row_of t) = tn_ID t" "tn_Name (row_of t) = tn_Name t" "tn_ClientID (row_of t) = tn_ClientID t"
  "tn_OwnerClientID (row_of t) = tn_OwnerClientID t" "ingress_part (row_of t) = ingress_part t"
  "tn_Revision (row_of t) = tn_Revision t" "tn_Ingress (row_of t) = tn_Ingress t"
  by (simp_all add: row_of_def ingress_part_def)

section \<open>The invariant of the store\<close>

text \<open>
  Every row can be read back, ids and names are unique, every claim has its lock row, and no
  two tunnels claim the same ingress resource.
\<close>

definition locks_cover :: "(string \<Rightarrow> string) \<Rightarrow> StoredTunnel list \<Rightarrow> lock_row list \<Rightarrow> bool" where
  "locks_cover ul rs ls \<longleftrightarrow>
     (\<forall>r \<in> set rs. fst (tunnelIngressResourceLock ul r) \<noteq> [] \<longrightarrow>
        (\<exists>l \<in> set ls. lk_key l = fst (tunnelIngressResourceLock ul r) \<and> lk_tunnel l = tn_ID r))"

definition tables_ok :: "(string \<Rightarrow> string) \<Rightarrow> StoredTunnel list \<Rightarrow> bool" where
  "tables_ok ul rs \<longleftrightarrow>
     (\<forall>r \<in> set rs. row_ok ul r) \<and> distinct (map tn_ID rs) \<and> exclusive tn_ID name_clash rs"

definition store_inv :: "(string \<Rightarrow> string) \<Rightarrow> store \<Rightarrow> bool" where
  "store_inv ul st \<longleftrightarrow>
     tables_ok ul (st_tunnels st) \<and> locks_cover ul (st_tunnels st) (st_locks st) \<and>
     exclusive tn_ID (claim_clash ul) (st_tunnels st)"

lemma like_match_percent: "like_match p s \<Longrightarrow> like_match (CHR ''%'' # p) (x @ s)"
  by (induction x) (cases s; simp)+

lemma like_match_refl: "like_match p p"
proof (induction p)
  case (Cons c p)
  then show ?case using like_match_percent [of p p "[]"] by auto
qed simp

lemma like_match_prefix: "like_match p s \<Longrightarrow> like_match (x @ p) (x @ s)"
proof (induction x)
  case (Cons c x)
  then show ?case by (cases "x @ s") auto
qed simp

lemma socket_pattern_matches:
  "like_match (socket_key loc proto ''%'' port) (socket_key loc proto ip port)"
proof -
  have "like_match (''%'' @ '':'' @ itoa port) (ip @ '':'' @ itoa port)"
    using like_match_percent [OF like_match_refl, of "'':'' @ itoa port" ip] by simp
  from like_match_prefix [OF this, of "''ingress:'' @ loc @ '':'' @ proto @ '':''"]
  show ?thesis by (simp add: socket_key_def)
qed

lemma socket_key_nonempty [simp]: "socket_key loc proto ip port \<noteq> []"
  by (simp add: socket_key_def)

text \<open>The conflict query finds the lock of every listener the candidate would collide with.\<close>

lemma listener_clash_hit:
  assumes "listener_clash t b"
  shows "fst (tunnelIngressResourceLock ul t) \<noteq> []" "fst (tunnelIngressResourceLock ul b) \<noteq> []"
    "lk_key l = fst (tunnelIngressResourceLock ul b) \<Longrightarrow> lock_hit ul t l"
proof -
  note a = assms [unfolded listener_clash_def wildcard_ip_def]
  have key: "fst (tunnelIngressResourceLock ul x) =
      socket_key (ingress_location_id x) (listener_proto (ep_Type (tn_Ingress x))) (tunnelIngressBindIP x)
        (tunnelIngressPort x)"
    if "is_listener (ep_Type (tn_Ingress x))" "0 < tunnelIngressPort x" for x
    using that by (simp add: tunnelIngressResourceLock_def Let_def)
  have kt: "fst (tunnelIngressResourceLock ul t) = socket_key (ingress_location_id t)
      (listener_proto (ep_Type (tn_Ingress t))) (tunnelIngressBindIP t) (tunnelIngressPort t)"
    and kb: "fst (tunnelIngressResourceLock ul b) = socket_key (ingress_location_id t)
      (listener_proto (ep_Type (tn_Ingress t))) (tunnelIngressBindIP b) (tunnelIngressPort t)"
    using a key [of t] key [of b] by simp_all
  from kt kb show "fst (tunnelIngressResourceLock ul t) \<noteq> []" "fst (tunnelIngressResourceLock ul b) \<noteq> []"
    by simp_all
  assume l: "lk_key l = fst (tunnelIngressResourceLock ul b)"
  from a have "tunnelIngressBindIP t = ''0.0.0.0'' \<or> tunnelIngressBindIP t = tunnelIngressBindIP b \<or>
      (tunnelIngressBindIP t \<noteq> ''0.0.0.0'' \<and> tunnelIngressBindIP b = ''0.0.0.0'')" by blast
  then show "lock_hit ul t l"
  proof (elim disjE)
    assume "tunnelIngressBindIP t = ''0.0.0.0''"
    then have "tunnelIngressConflictPatterns t = [socket_key (ingress_location_id t)
        (listener_proto (ep_Type (tn_Ingress t))) ''%'' (tunnelIngressPort t)]"
      using a by (simp add: tunnelIngressConflictPatterns_def Let_def)
    then show ?thesis by (simp add: lock_hit_def l kb socket_pattern_matches)
  next
    assume "tunnelIngressBindIP t = tunnelIngressBindIP b"
    then show ?thesis
      using a by (simp add: lock_hit_def l kb kt tunnelIngressConflictKeys_def Let_def)
  next
    assume "tunnelIngressBindIP t \<noteq> ''0.0.0.0'' \<and> tunnelIngressBindIP b = ''0.0.0.0''"
    then show ?thesis
      using a by (simp add: lock_hit_def l kb kt tunnelIngressConflictKeys_def Let_def)
  qed
qed

lemma first_http_conflict_None:
  assumes "first_http_conflict ul now c rs = Inr None" and "r \<in> set rs" and "\<forall>r \<in> set rs. row_ok ul r"
  shows "\<not> httpDomainsConflict ul (tunnelIngressDomain ul c) (tn_OwnerUserID c)
     (tunnelIngressDomain ul r) (tn_OwnerUserID r)"
  using assms
proof (induction rs)
  case (Cons x rs)
  have part: "ingress_part ((load_row x)\<lparr>tn_BindIP := tunnelIngressBindIP (load_row x)\<rparr>) = ingress_part x"
    by (simp add: ingress_part_def)
  note acc = ingress_accessors_part(3) [OF part] ingress_accessors_part(7) [OF part]
  from Cons show ?case
    by (auto simp: scan_ok acc split: if_splits)
qed simp

text \<open>Replacing the lock of a tunnel restores the invariant around its changed row.\<close>

lemma replace_locks_fields:
  assumes "replaceTunnelResourceLocksTx ul now t st = Inr st'"
  shows "st_tunnels st' = st_tunnels st" "st_clients st' = st_clients st" "st_users st' = st_users st"
  using assms by (auto simp: replaceTunnelResourceLocksTx_def Let_def bind_res_eq_Inr
      split: prod.splits if_splits)

lemma replace_locks_result:
  assumes "replaceTunnelResourceLocksTx ul now t st = Inr st'"
  defines "st1 \<equiv> st\<lparr>st_locks := filter (\<lambda>l. lk_tunnel l \<noteq> tn_ID t) (st_locks st)\<rparr>"
  shows "fst (tunnelIngressResourceLock ul t) = [] \<and> st' = st1 \<or>
     checkTunnelIngressResourceConflictTx ul now t st1 = Inr () \<and>
     (\<exists>kind client. st_locks st' = st_locks st1 @
        [\<lparr>lk_key = fst (tunnelIngressResourceLock ul t), lk_tunnel = tn_ID t, lk_kind = kind, lk_client = client\<rparr>])"
  using assms(1) unfolding replaceTunnelResourceLocksTx_def Let_def st1_def [symmetric]
  by (auto simp: bind_res_eq_Inr split: prod.splits if_splits)

lemma replace_locks_no_clash:
  assumes rep: "replaceTunnelResourceLocksTx ul now t st = Inr st'"
    and rows: "\<forall>r \<in> set (st_tunnels st). row_ok ul r"
    and cover: "locks_cover ul (filter (\<lambda>r. tn_ID r \<noteq> tn_ID t) (st_tunnels st)) (st_locks st)"
    and loc: "ep_Location (tn_Ingress t) \<noteq> []"
    and b: "b \<in> set (st_tunnels st)" "tn_ID b \<noteq> tn_ID t"
  shows "\<not> claim_clash ul t b"
proof
  define st1 where "st1 = st\<lparr>st_locks := filter (\<lambda>l. lk_tunnel l \<noteq> tn_ID t) (st_locks st)\<rparr>"
  assume "claim_clash ul t b"
  then consider (l) "listener_clash t b" | (h) "http_clash ul t b" by (auto simp: claim_clash_def)
  then show False
  proof cases
    case l
    have nh: "ep_Type (tn_Ingress t) \<noteq> TunnelIngressTypeHTTPHost"
      using l by (auto simp: listener_clash_def is_listener_def)
    from listener_clash_hit(1) [OF l] replace_locks_result [OF rep, folded st1_def]
    have ok: "checkTunnelIngressResourceConflictTx ul now t st1 = Inr ()" by auto
    from cover b listener_clash_hit(2) [OF l, of ul] obtain k where k: "k \<in> set (st_locks st)"
        "lk_key k = fst (tunnelIngressResourceLock ul b)" "lk_tunnel k = tn_ID b"
      by (auto simp: locks_cover_def)
    then have hit: "k \<in> set (st_locks st1)" "lock_hit ul t k" "lk_tunnel k \<noteq> tn_ID t"
      using listener_clash_hit(3) [OF l] b by (auto simp: st1_def)
    then have "tunnelIngressConflictKeys ul t \<noteq> [] \<or> tunnelIngressConflictPatterns t \<noteq> []"
      by (auto simp: lock_hit_def)
    moreover have "find (\<lambda>l. lock_hit ul t l \<and> lk_tunnel l \<noteq> tn_ID t) (st_locks st1) \<noteq> None"
      using hit by (auto simp: find_None_iff)
    ultimately show False
      using ok nh by (auto simp: checkTunnelIngressResourceConflictTx_def split: if_splits option.splits)
  next
    case h
    note hc = h [unfolded http_clash_def]
    have "fst (tunnelIngressResourceLock ul t) \<noteq> []"
      using hc by (simp add: tunnelIngressResourceLock_def Let_def is_listener_def)
    with replace_locks_result [OF rep, folded st1_def]
    have ok: "checkTunnelIngressResourceConflictTx ul now t st1 = Inr ()" by auto
    then have "findHTTPIngressConflict ul now st1 t (tn_ID t) = Inr None"
      using hc by (auto simp: checkTunnelIngressResourceConflictTx_def bind_res_eq_Inr split: if_splits)
    then have "first_http_conflict ul now t (sort_key tn_ID (filter (\<lambda>r.
        ep_Type (tn_Ingress r) = TunnelIngressTypeHTTPHost \<and>
        ep_Location (tn_Ingress r) = ep_Location (tn_Ingress t) \<and>
        ep_ClientID (tn_Ingress r) = ep_ClientID (tn_Ingress t) \<and> tn_ID r \<noteq> tn_ID t) (st_tunnels st))) = Inr None"
      using loc by (simp add: findHTTPIngressConflict_def st1_def cong: conj_cong split: if_splits)
    from first_http_conflict_None [OF this, of b] b rows hc show False by auto
  qed
qed

lemma replace_locks_inv:
  assumes rep: "replaceTunnelResourceLocksTx ul now t st = Inr st'"
    and tab: "tables_ok ul (st_tunnels st)"
    and cover: "locks_cover ul (filter (\<lambda>r. tn_ID r \<noteq> tn_ID t) (st_tunnels st)) (st_locks st)"
    and excl: "exclusive tn_ID (claim_clash ul) (filter (\<lambda>r. tn_ID r \<noteq> tn_ID t) (st_tunnels st))"
    and part: "\<And>r. r \<in> set (st_tunnels st) \<Longrightarrow> tn_ID r = tn_ID t \<Longrightarrow> ingress_part r = ingress_part t"
    and loc: "ep_Location (tn_Ingress t) \<noteq> []"
  shows "store_inv ul st'"
proof -
  note tun = replace_locks_fields(1) [OF rep]
  have rows: "\<forall>r \<in> set (st_tunnels st). row_ok ul r" using tab by (simp add: tables_ok_def)
  have "exclusive tn_ID (claim_clash ul) (st_tunnels st)"
  proof (rule claims.checked_update_ok [OF excl])
    fix a b assume "a \<in> set (st_tunnels st)" "b \<in> set (st_tunnels st)" "tn_ID a = tn_ID t" "tn_ID b \<noteq> tn_ID t"
    then show "\<not> claim_clash ul a b"
      using replace_locks_no_clash [OF rep rows cover loc] claim_clash_part [OF part refl] by blast
  qed
  moreover have "locks_cover ul (st_tunnels st) (st_locks st')"
    unfolding locks_cover_def
  proof (intro ballI impI)
    fix r assume r: "r \<in> set (st_tunnels st)" and k: "fst (tunnelIngressResourceLock ul r) \<noteq> []"
    show "\<exists>l\<in>set (st_locks st'). lk_key l = fst (tunnelIngressResourceLock ul r) \<and> lk_tunnel l = tn_ID r"
    proof (cases "tn_ID r = tn_ID t")
      case True
      with part [OF r] lock_part [of r t ul] k replace_locks_result [OF rep] show ?thesis by auto
    next
      case False
      with cover r k obtain l where "l \<in> set (st_locks st)" "lk_key l = fst (tunnelIngressResourceLock ul r)"
        "lk_tunnel l = tn_ID r" by (auto simp: locks_cover_def)
      with False replace_locks_result [OF rep] show ?thesis by (intro bexI [of _ l]) auto
    qed
  qed
  ultimately show ?thesis using tab by (simp add: store_inv_def tun)
qed

section \<open>Every operation keeps the invariant\<close>

lemma nth_other_mem: "j \<noteq> i \<Longrightarrow> j < length xs \<Longrightarrow> xs ! j \<in> set (take i xs @ drop (Suc i) xs)"
proof -
  assume j: "j \<noteq> i" "j < length xs"
  then consider "j < i" | "Suc i \<le> j" by linarith
  then show ?thesis
  proof cases
    case 1
    then have "xs ! j = take i xs ! j" "j < length (take i xs)" using j by simp_all
    then show ?thesis by (metis Un_iff nth_mem set_append)
  next
    case 2
    then have "xs ! j = drop (Suc i) xs ! (j - Suc i)" "j - Suc i < length (drop (Suc i) xs)" using j by simp_all
    then show ?thesis by (metis Un_iff nth_mem set_append)
  qed
qed

lemma sql_update_result:
  "sql_update p f st = Inr (k, st') \<Longrightarrow>
     st' = st\<lparr>st_tunnels := map (\<lambda>r. if p r then f r else r) (st_tunnels st)\<rparr> \<and>
     k = length (filter p (st_tunnels st))"
  by (auto simp: sql_update_def Let_def split: if_splits)

lemma sql_update_tables:
  assumes upd: "sql_update p f st = Inr (k, st')" and tab: "tables_ok ul (st_tunnels st)"
    and rows: "\<And>r. r \<in> set (st_tunnels st) \<Longrightarrow> p r \<Longrightarrow> row_ok ul (f r)"
  shows "tables_ok ul (st_tunnels st')"
proof -
  define rs where "rs = st_tunnels st"
  define rs' where "rs' = map (\<lambda>r. if p r then f r else r) rs"
  have rs': "st_tunnels st' = rs'" using sql_update_result [OF upd] by (simp add: rs'_def rs_def)
  have uniq: "row_unique (take i rs' @ drop (Suc i) rs') (rs' ! i)" if "i < length rs" "p (rs ! i)" for i
    using upd that by (auto simp: sql_update_def Let_def rs_def [symmetric] rs'_def [symmetric] list_all_iff
        split: if_splits)
  have pair: "tn_ID (rs' ! i) \<noteq> tn_ID (rs' ! j) \<and> \<not> name_clash (rs' ! i) (rs' ! j)"
    if ij: "i < length rs" "j < length rs" "i \<noteq> j" for i j
  proof -
    consider "p (rs ! i)" | "p (rs ! j)" | "rs' ! i = rs ! i" "rs' ! j = rs ! j"
      using ij by (cases "p (rs ! i)"; cases "p (rs ! j)") (auto simp: rs'_def)
    then show ?thesis
    proof cases
      case 1
      with uniq [of i] nth_other_mem [of j i rs'] ij show ?thesis
        by (auto simp: row_unique_def list_all_iff name_clash_def rs'_def)
    next
      case 2
      with uniq [of j] nth_other_mem [of i j rs'] ij show ?thesis
        by (auto simp: row_unique_def list_all_iff name_clash_def rs'_def)
    next
      case 3
      with tab ij show ?thesis
        by (auto simp: tables_ok_def rs_def [symmetric] exclusive_def distinct_conv_nth)
    qed
  qed
  have "distinct (map tn_ID rs')" using pair by (auto simp: distinct_conv_nth rs'_def)
  moreover have "exclusive tn_ID name_clash rs'"
    unfolding exclusive_def
  proof (intro ballI impI)
    fix a b assume "a \<in> set rs'" "b \<in> set rs'" and ne: "tn_ID a \<noteq> tn_ID b"
    moreover have "length rs' = length rs" by (simp add: rs'_def)
    ultimately obtain i j where "a = rs' ! i" "i < length rs" "b = rs' ! j" "j < length rs"
      by (metis in_set_conv_nth)
    with pair [of i j] ne show "\<not> name_clash a b" by auto
  qed
  moreover have "\<forall>r \<in> set rs'. row_ok ul r"
    using rows tab by (auto simp: rs'_def rs_def tables_ok_def)
  ultimately show ?thesis by (simp add: tables_ok_def rs')
qed

lemma sql_update_quiet:
  assumes upd: "sql_update p f st = Inr (k, st')" and inv: "store_inv ul st"
    and rows: "\<And>r. r \<in> set (st_tunnels st) \<Longrightarrow> p r \<Longrightarrow> row_ok ul (f r)"
    and keep: "\<And>r. tn_ID (f r) = tn_ID r" "\<And>r. ingress_part (f r) = ingress_part r"
  shows "store_inv ul st'"
proof -
  define g where "g = (\<lambda>r. if p r then f r else r)"
  have st': "st_tunnels st' = map g (st_tunnels st)" "st_locks st' = st_locks st"
    using sql_update_result [OF upd] by (simp_all add: g_def)
  have g: "tn_ID (g r) = tn_ID r" "ingress_part (g r) = ingress_part r" for r
    by (simp_all add: g_def keep)
  have "exclusive tn_ID (claim_clash ul) (map g (st_tunnels st))"
    using inv g by (intro claims.quiet_update_ok) (simp_all add: store_inv_def)
  moreover have "locks_cover ul (map g (st_tunnels st)) (st_locks st)"
    using inv lock_part [OF g(2)] by (simp add: store_inv_def locks_cover_def g)
  ultimately show ?thesis
    using sql_update_tables [OF upd _ rows] inv by (simp add: store_inv_def st')
qed

lemma delete_inv:
  assumes inv: "store_inv ul st" and "st_tunnels st' = filter q (st_tunnels st)"
    and locks: "\<And>l. l \<in> set (st_locks st) \<Longrightarrow> l \<notin> set (st_locks st') \<Longrightarrow>
        lk_tunnel l \<notin> tn_ID ` {r \<in> set (st_tunnels st). q r}"
  shows "store_inv ul st'"
proof -
  have "tables_ok ul (filter q (st_tunnels st))"
    using inv by (auto simp: store_inv_def tables_ok_def distinct_map_filter intro: names.delete_ok)
  moreover have "locks_cover ul (filter q (st_tunnels st)) (st_locks st')"
    unfolding locks_cover_def
  proof (intro ballI impI)
    fix r assume r: "r \<in> set (filter q (st_tunnels st))" "fst (tunnelIngressResourceLock ul r) \<noteq> []"
    with inv obtain l where "l \<in> set (st_locks st)" "lk_key l = fst (tunnelIngressResourceLock ul r)"
      "lk_tunnel l = tn_ID r" by (auto simp: store_inv_def locks_cover_def)
    with locks [of l] r show "\<exists>l\<in>set (st_locks st'). lk_key l = fst (tunnelIngressResourceLock ul r) \<and>
        lk_tunnel l = tn_ID r" by (intro bexI [of _ l]) auto
  qed
  ultimately show ?thesis
    using inv assms(2) by (auto simp: store_inv_def intro: claims.delete_ok)
qed

lemma fail_hook_inv: "store_inv ul st \<Longrightarrow> store_inv ul (snd (maybeFailSave st))"
  by (auto simp: maybeFailSave_def store_inv_def split: option.splits)

lemma save_tx_inv:
  assumes "store_inv ul st" and "\<And>x st2. body st = Inr (x, st2) \<Longrightarrow> store_inv ul st2"
  shows "store_inv ul (snd (save_tx st body))"
proof (cases "maybeFailSave st")
  case (Pair e st1)
  show ?thesis
  proof (cases e)
    case None
    with Pair have "st1 = st" by (auto simp: maybeFailSave_def split: option.splits if_splits)
    with Pair None assms show ?thesis
      by (auto simp: save_tx_def run_tx_def split: sum.splits)
  next
    case (Some a)
    with Pair fail_hook_inv [OF assms(1)] show ?thesis by (simp add: save_tx_def)
  qed
qed

lemmas inv_rows = store_inv_def tables_ok_def

lemma store_inv_row: "store_inv ul st \<Longrightarrow> r \<in> set (st_tunnels st) \<Longrightarrow> row_ok ul r"
  by (simp add: inv_rows)

lemma find_row: "find p rs = Some r \<Longrightarrow> r \<in> set rs \<and> p r"
  by (auto simp: find_Some_iff in_set_conv_nth)

subsection \<open>Deletions\<close>

lemma delete_tunnels_inv:
  assumes "store_inv ul st" shows "store_inv ul (delete_tunnels p st)"
proof (rule delete_inv [OF assms])
  show "st_tunnels (delete_tunnels p st) = filter (\<lambda>r. \<not> p r) (st_tunnels st)"
    by (simp add: delete_tunnels_def Let_def)
  fix l assume "l \<in> set (st_locks st)" "l \<notin> set (st_locks (delete_tunnels p st))"
  then obtain r where "r \<in> set (st_tunnels st)" "p r" "tn_ID r = lk_tunnel l"
    by (auto simp: delete_tunnels_def Let_def)
  moreover have "inj_on tn_ID (set (st_tunnels st))"
    using assms by (simp add: inv_rows distinct_map)
  ultimately show "lk_tunnel l \<notin> tn_ID ` {r \<in> set (st_tunnels st). \<not> p r}"
    by (auto dest: inj_onD)
qed

lemma delete_by_id_inv:
  assumes "store_inv ul st" and "list_ex (\<lambda>r. tn_ClientID r = client \<and> tn_ID r = i) (st_tunnels st)"
  shows "store_inv ul (st\<lparr>st_locks := filter (\<lambda>l. lk_tunnel l \<noteq> i) (st_locks st),
     st_tunnels := filter (\<lambda>r. \<not> (tn_ClientID r = client \<and> tn_ID r = i)) (st_tunnels st)\<rparr>)"
proof (rule delete_inv [OF assms(1)])
  have "inj_on tn_ID (set (st_tunnels st))" using assms(1) by (simp add: inv_rows distinct_map)
  moreover obtain r where "r \<in> set (st_tunnels st)" "tn_ClientID r = client" "tn_ID r = i"
    using assms(2) by (auto simp: list_ex_iff)
  ultimately have "\<And>x. x \<in> set (st_tunnels st) \<Longrightarrow> tn_ID x = i \<Longrightarrow> tn_ClientID x = client"
    by (auto dest: inj_onD)
  then show "lk_tunnel l \<notin> tn_ID ` {r \<in> set (st_tunnels st). \<not> (tn_ClientID r = client \<and> tn_ID r = i)}"
    if "l \<in> set (st_locks st)" "l \<notin> set (st_locks (st\<lparr>st_locks := filter (\<lambda>l. lk_tunnel l \<noteq> i) (st_locks st),
     st_tunnels := filter (\<lambda>r. \<not> (tn_ClientID r = client \<and> tn_ID r = i)) (st_tunnels st)\<rparr>))" for l
    using that by auto
qed simp

lemma RemoveTunnel_inv [step_inv_intros]:
  "store_inv ul st \<Longrightarrow> store_inv ul (snd (RemoveTunnel client name st))"
  by (auto simp: RemoveTunnel_def Let_def intro!: save_tx_inv delete_tunnels_inv)

lemma RemoveTunnelByID_inv [step_inv_intros]:
  "store_inv ul st \<Longrightarrow> store_inv ul (snd (RemoveTunnelByID client i st))"
  using delete_by_id_inv by (auto simp: RemoveTunnelByID_def Let_def intro!: save_tx_inv)

lemma RemoveTunnelByIDWithActivity_inv [step_inv_intros]:
  "store_inv ul st \<Longrightarrow> store_inv ul (snd (RemoveTunnelByIDWithActivity ul now act client i st))"
  unfolding RemoveTunnelByIDWithActivity_def Let_def
  by (rule save_tx_inv, assumption)
    (auto simp: bind_res_eq_Inr list_ex_iff split: option.splits dest: find_row
      intro!: delete_by_id_inv [simplified])

lemma DeleteTunnelsByClientID_inv [step_inv_intros]:
  "store_inv ul st \<Longrightarrow> store_inv ul (snd (DeleteTunnelsByClientIDReturningDeleted ul now client st))"
  unfolding DeleteTunnelsByClientIDReturningDeleted_def Let_def
  by (rule save_tx_inv, assumption) (auto simp: bind_res_eq_Inr intro!: delete_tunnels_inv)

subsection \<open>State updates\<close>

lemma set_state_columns_ok:
  assumes "row_ok ul r" and "setStoredTunnelStates b d ru e = Inr n" and "now \<noteq> 0"
  shows "row_ok ul (set_state_columns n now r)"
proof -
  from assms(2) have v: "validateTunnelStates d ru e = None"
    and n: "tn_DesiredState n = canonicalDesiredState d" "tn_RuntimeState n = ru" "tn_Error n = e"
    by (auto simp: setStoredTunnelStates_Inr)
  have "normal_form (load_row (set_state_columns n now r))"
    using assms(1,3) v valid_states_not_active [OF v]
    by (simp add: row_ok_def normal_form_def load_row_def set_state_columns_def Let_def n relay_or_unknown_def)
  moreover have "validateUnifiedTunnelSpec ul (load_row r) = None" using assms(1) by (simp add: row_ok_def)
  then have "validateUnifiedTunnelSpec ul (load_row (set_state_columns n now r)) = None"
    by (rule validate_spec_cong [rotated -1]) (simp_all add: set_state_columns_def Let_def)
  ultimately show ?thesis by (simp add: row_ok_def)
qed

lemma set_state_columns_keeps [simp]:
  "tn_ID (set_state_columns n now r) = tn_ID r"
  "ingress_part (set_state_columns n now r) = ingress_part r"
  "tn_Revision (set_state_columns n now r) = tn_Revision r"
  by (simp_all add: set_state_columns_def Let_def ingress_part_def)

lemma state_update_inv:
  assumes "store_inv ul st" and "setStoredTunnelStates b d ru e = Inr n" and "now \<noteq> 0"
    and "sql_update p (set_state_columns n now) st = Inr (k, st')"
  shows "store_inv ul st'"
  using assms by (intro sql_update_quiet [OF assms(4,1)]) (auto intro: set_state_columns_ok store_inv_row)

lemma UpdateStates_inv [step_inv_intros]:
  "store_inv ul st \<Longrightarrow> now \<noteq> 0 \<Longrightarrow> store_inv ul (snd (UpdateStates now client name d ru e st))"
  by (auto simp: UpdateStates_def Let_def bind_res_eq_Inr split: sum.splits if_splits
      intro!: save_tx_inv intro: state_update_inv)

lemma UpdateStatesIfCurrent_inv [step_inv_intros]:
  "store_inv ul st \<Longrightarrow> now \<noteq> 0 \<Longrightarrow> store_inv ul (snd (UpdateStatesIfCurrent now client i rv d ru e st))"
  by (auto simp: UpdateStatesIfCurrent_def bind_res_eq_Inr split: sum.splits
      intro!: save_tx_inv intro: state_update_inv)

lemma TransitionRuntimeStateIfCurrent_inv [step_inv_intros]:
  "store_inv ul st \<Longrightarrow> now \<noteq> 0 \<Longrightarrow>
     store_inv ul (snd (TransitionRuntimeStateIfCurrent now client i rv d ex ru e st))"
  by (auto simp: TransitionRuntimeStateIfCurrent_def bind_res_eq_Inr split: sum.splits
      intro!: save_tx_inv intro: state_update_inv)

lemma set_state_columns_transport [simp]:
  "set_state_columns (t\<lparr>tn_ActualTransport := a\<rparr>) now = set_state_columns t now"
  by (simp add: set_state_columns_def fun_eq_iff)

lemma UpdateTunnelStatesWithActivity_inv [step_inv_intros]:
  assumes inv: "store_inv ul st" and now: "now \<noteq> 0"
  shows "store_inv ul (snd (UpdateTunnelStatesWithActivity ul now act client i d ru e action st))"
proof -
  have upd: "store_inv ul (snd (save_tx st (\<lambda>st1.
      bind_res (sql_update p (set_state_columns n now) st1) (\<lambda>(k, st2). g k st2))))"
    if "setStoredTunnelStates b d ru e = Inr n" and g: "\<And>k st2 x st3. g k st2 = Inr (x, st3) \<Longrightarrow> st3 = st2"
    for b n p and g :: "nat \<Rightarrow> store \<Rightarrow> store_error + (StoredTunnel \<times> int) \<times> store"
  proof (rule save_tx_inv [OF inv])
    fix x st2
    assume "bind_res (sql_update p (set_state_columns n now) st) (\<lambda>(k, st2). g k st2) = Inr (x, st2)"
    then obtain k st1 where u: "sql_update p (set_state_columns n now) st = Inr (k, st1)" and "g k st1 = Inr (x, st2)"
      by (auto simp: bind_res_eq_Inr)
    with g state_update_inv [OF inv that(1) now u] show "store_inv ul st2" by blast
  qed
  have g: "(if k = 0 then Inl ErrTunnelRevisionConflict
      else bind_res (append_activity (Some act)) (\<lambda>a. Inr ((t, a), st2))) = Inr (x, st3) \<Longrightarrow> st3 = st2"
    for k :: nat and t x and st2 st3 :: store
    by (auto simp: bind_res_eq_Inr split: if_splits)
  show ?thesis
    unfolding UpdateTunnelStatesWithActivity_def Let_def set_state_columns_transport
    using inv g by (simp split: option.split sum.split) (intro allI impI conjI upd; assumption?; blast)
qed

lemma UpdateHostname_inv [step_inv_intros]:
  assumes "store_inv ul st" and "now \<noteq> 0"
  shows "store_inv ul (snd (UpdateHostname now client hostname st))"
proof -
  have ok: "row_ok ul (r\<lparr>tn_Hostname := hostname, tn_UpdatedAt := now\<rparr>)" if "row_ok ul r" for r
  proof -
    have v: "validateUnifiedTunnelSpec ul (load_row r) = None" using that by (simp add: row_ok_def)
    have "validateUnifiedTunnelSpec ul (load_row (r\<lparr>tn_Hostname := hostname, tn_UpdatedAt := now\<rparr>)) = None"
      by (rule validate_spec_cong [OF _ _ _ _ _ _ v]) simp_all
    then show ?thesis using that assms(2) by (simp add: row_ok_def normal_form_def load_row_def)
  qed
  show ?thesis
    using assms(1) ok store_inv_row [OF assms(1)]
    by (auto simp: UpdateHostname_def Let_def bind_res_eq_Inr ingress_part_def intro!: save_tx_inv
        elim!: sql_update_quiet)
qed

subsection \<open>Peer-to-peer projection\<close>

lemma p2p_columns_ok:
  assumes "row_ok ul r" and "now \<noteq> 0" and "p2p_State ps \<noteq> []" and "actual \<noteq> []"
  shows "row_ok ul (r\<lparr>tn_P2P := ps, tn_ActualTransport := actual, tn_UpdatedAt := now\<rparr>)"
proof -
  have v: "validateUnifiedTunnelSpec ul (load_row r) = None" using assms by (simp add: row_ok_def)
  have "validateUnifiedTunnelSpec ul
      (load_row (r\<lparr>tn_P2P := ps, tn_ActualTransport := actual, tn_UpdatedAt := now\<rparr>)) = None"
    by (rule validate_spec_cong [OF _ _ _ _ _ _ v]) simp_all
  then show ?thesis using assms by (simp add: row_ok_def normal_form_def load_row_def)
qed

lemma p2pProjectionValues_nonempty:
  "p2pProjectionValues t mode session = (ps, actual) \<Longrightarrow> normal_form t \<Longrightarrow>
     p2p_State ps \<noteq> [] \<and> actual \<noteq> []"
  by (auto simp: p2pProjectionValues_def normal_form_def Let_def
      split: P2PProjectionMode.splits if_splits)

lemma normal_form_bind_ip [simp]: "normal_form (t\<lparr>tn_BindIP := x\<rparr>) = normal_form t"
  by (simp add: normal_form_def)

lemma apply_p2p_grant_inv:
  assumes "apply_p2p_grant ul now expected mode session g (res, st) = Inr (res', st')"
    and inv: "store_inv ul st" and "now \<noteq> 0"
  shows "store_inv ul st'"
proof (cases g)
  case (Pair i revision)
  show ?thesis
  proof (cases "find (\<lambda>r. tn_ID r = i \<and> tn_Revision r = revision) (st_tunnels st)")
    case None
    with assms Pair show ?thesis by (simp add: apply_p2p_grant_def)
  next
    case (Some row)
    note ok = store_inv_row [OF inv conjunct1 [OF find_row [OF Some]]]
    define before where "before = (load_row row)\<lparr>tn_BindIP := tunnelIngressBindIP (load_row row)\<rparr>"
    obtain ps actual where v: "p2pProjectionValues before mode session = (ps, actual)" by force
    have ne: "p2p_State ps \<noteq> []" "actual \<noteq> []"
      using p2pProjectionValues_nonempty [OF v] ok by (auto simp: before_def row_ok_def)
    have scan: "scanStoredTunnel ul now row = Inr before" using scan_ok [OF ok] by (simp add: before_def)
    from assms(1) Pair Some scan v
    consider "st' = st" | k p where "sql_update p
        (\<lambda>r. r\<lparr>tn_P2P := ps, tn_ActualTransport := actual, tn_UpdatedAt := now\<rparr>) st = Inr (k, st')"
      by (auto simp: apply_p2p_grant_def Let_def bind_res_eq_Inr split: if_splits)
    then show ?thesis
    proof cases
      case 2
      then show ?thesis
        using ne assms(3) store_inv_row [OF inv]
        by (intro sql_update_quiet [OF 2 inv]) (simp_all add: ingress_part_def p2p_columns_ok)
    qed (use inv in simp)
  qed
qed

lemma apply_p2p_grants_inv:
  "apply_p2p_grants ul now expected mode session gs acc = Inr acc' \<Longrightarrow> store_inv ul (snd acc) \<Longrightarrow>
     now \<noteq> 0 \<Longrightarrow> store_inv ul (snd acc')"
proof (induction gs arbitrary: acc)
  case (Cons g gs)
  from Cons.prems(1) obtain acc1 where a: "apply_p2p_grant ul now expected mode session g acc = Inr acc1"
    and rest: "apply_p2p_grants ul now expected mode session gs acc1 = Inr acc'"
    by (auto simp: bind_res_eq_Inr)
  have "store_inv ul (snd acc1)"
    using apply_p2p_grant_inv [of ul now expected mode session g "fst acc" "snd acc" "fst acc1" "snd acc1"] a
      Cons.prems by simp
  with Cons rest show ?case by blast
qed simp

lemma ApplyP2PLifecycle_inv [step_inv_intros]:
  "store_inv ul st \<Longrightarrow> now \<noteq> 0 \<Longrightarrow>
     store_inv ul (snd (ApplyP2PLifecycle ul now grants expected mode session st))"
  by (auto simp: ApplyP2PLifecycle_def intro!: save_tx_inv dest: apply_p2p_grants_inv)

subsection \<open>Creation and configuration changes\<close>

lemma store_inv_same_id:
  "store_inv ul st \<Longrightarrow> a \<in> set (st_tunnels st) \<Longrightarrow> b \<in> set (st_tunnels st) \<Longrightarrow> tn_ID a = tn_ID b \<Longrightarrow> a = b"
  by (auto simp: inv_rows distinct_map dest: inj_onD)

lemma rest_of_table:
  assumes inv: "store_inv ul st" and rest: "set (filter (\<lambda>r. tn_ID r \<noteq> i) rs) \<subseteq> set (st_tunnels st)"
  shows "locks_cover ul (filter (\<lambda>r. tn_ID r \<noteq> i) rs) (st_locks st)"
    "exclusive tn_ID (claim_clash ul) (filter (\<lambda>r. tn_ID r \<noteq> i) rs)"
proof -
  show "locks_cover ul (filter (\<lambda>r. tn_ID r \<noteq> i) rs) (st_locks st)"
    using inv rest unfolding store_inv_def locks_cover_def by blast
  show "exclusive tn_ID (claim_clash ul) (filter (\<lambda>r. tn_ID r \<noteq> i) rs)"
    using inv rest unfolding store_inv_def exclusive_def by blast
qed

lemma update_and_lock_inv:
  assumes inv: "store_inv ul st" and upd: "sql_update p f st = Inr (k, st1)" and k: "k \<noteq> 0"
    and f: "\<And>r. r \<in> set (st_tunnels st) \<Longrightarrow> p r \<Longrightarrow> tn_ID r = tn_ID t \<and> tn_ID (f r) = tn_ID t \<and>
       ingress_part (f r) = ingress_part t \<and> row_ok ul (f r)"
    and rep: "replaceTunnelResourceLocksTx ul now t st1 = Inr st2"
    and loc: "ep_Location (tn_Ingress t) \<noteq> []"
  shows "store_inv ul st2"
proof -
  have rows: "st_tunnels st1 = map (\<lambda>r. if p r then f r else r) (st_tunnels st)" "st_locks st1 = st_locks st"
    and kf: "k = length (filter p (st_tunnels st))"
    using sql_update_result [OF upd] by simp_all
  from k kf have "filter p (st_tunnels st) \<noteq> []" by auto
  then obtain r1 where r1: "r1 \<in> set (st_tunnels st)" "p r1"
    by (auto simp: filter_empty_conv)
  have rest: "set (filter (\<lambda>r. tn_ID r \<noteq> tn_ID t) (st_tunnels st1)) \<subseteq> set (st_tunnels st)"
    using f by (auto simp: rows)
  have tab: "tables_ok ul (st_tunnels st1)"
    using sql_update_tables [OF upd] f inv by (auto simp: store_inv_def)
  show ?thesis
  proof (rule replace_locks_inv [OF rep tab _ _ _ loc])
    fix r assume r: "r \<in> set (st_tunnels st1)" "tn_ID r = tn_ID t"
    then obtain r0 where r0: "r0 \<in> set (st_tunnels st)" "r = (if p r0 then f r0 else r0)" by (auto simp: rows)
    show "ingress_part r = ingress_part t"
    proof (cases "p r0")
      case True
      with f [OF r0(1)] r0 show ?thesis by simp
    next
      case False
      with r0 r have "tn_ID r0 = tn_ID r1" using f [OF r1] by simp
      with store_inv_same_id [OF inv r0(1) r1(1)] r1(2) False show ?thesis by simp
    qed
  qed (use rest_of_table [OF inv rest] rows in simp_all)
qed

lemma normal_form_location: "normal_form t \<Longrightarrow> ep_Location (tn_Ingress t) \<noteq> []"
  by (auto simp: normal_form_def)

lemma normal_form_owner [simp]: "normal_form (t\<lparr>tn_OwnerUserID := u\<rparr>) = normal_form t"
  by (simp add: normal_form_def)

lemma validate_spec_owner:
  "validateUnifiedTunnelSpec ul t = None \<Longrightarrow> validateUnifiedTunnelSpec ul (t\<lparr>tn_OwnerUserID := u\<rparr>) = None"
  by (erule validate_spec_cong [rotated -1]) simp_all

lemma addTunnelTx_inv:
  assumes inv: "store_inv ul st" and tx: "addTunnelTx ul now actor t0 st = Inr (x, st')"
    and nf: "normal_form t0" "validateUnifiedTunnelSpec ul t0 = None"
  shows "store_inv ul st'"
proof -
  from tx obtain owner st1 where
    ins: "insertTunnelTx (t0\<lparr>tn_OwnerUserID := owner\<rparr>) st = Inr st1" and
    rep: "replaceTunnelResourceLocksTx ul now (t0\<lparr>tn_OwnerUserID := owner\<rparr>) st1 = Inr st'"
    by (auto simp: addTunnelTx_def Let_def bind_res_eq_Inr)
  define t where "t = t0\<lparr>tn_OwnerUserID := owner\<rparr>"
  have nt: "normal_form t" "validateUnifiedTunnelSpec ul t = None"
    using nf by (simp_all add: t_def validate_spec_owner)
  from ins have st1: "st1 = st\<lparr>st_tunnels := st_tunnels st @ [row_of t]\<rparr>"
    and uniq: "row_unique (st_tunnels st) (row_of t)"
    by (auto simp: insertTunnelTx_def t_def split: if_splits)
  have tab: "tables_ok ul (st_tunnels st1)"
    using inv uniq row_of_ok [OF nt]
    by (auto simp: st1 store_inv_def tables_ok_def row_unique_def list_all_iff exclusive_def name_clash_def)
  have rest: "set (filter (\<lambda>r. tn_ID r \<noteq> tn_ID t) (st_tunnels st1)) \<subseteq> set (st_tunnels st)"
    by (auto simp: st1)
  show ?thesis
  proof (rule replace_locks_inv [OF rep [folded t_def] tab _ _ _ normal_form_location [OF nt(1)]])
    fix r assume "r \<in> set (st_tunnels st1)" "tn_ID r = tn_ID t"
    with uniq show "ingress_part r = ingress_part t" by (auto simp: st1 row_unique_def list_all_iff)
  qed (use rest_of_table [OF inv rest] st1 in simp_all)
qed

lemma addTunnel_inv [step_inv_intros]:
  assumes "store_inv ul st" and "now \<noteq> 0"
  shows "store_inv ul (snd (addTunnel ul now uuid actor t st))"
proof -
  have "store_inv ul (snd (save_tx st (addTunnelTx ul now actor t')))" if "normalize ul now t1 = Inr t'" for t1 t'
    using normalize_normal_form [OF that assms(2)] addTunnelTx_inv [OF assms(1)] by (intro save_tx_inv [OF assms(1)]) auto
  then show ?thesis
    using assms(1) by (simp add: addTunnel_def Let_def split: sum.split)
qed

lemma AddTunnelForUser_inv [step_inv_intros]:
  "store_inv ul st \<Longrightarrow> now \<noteq> 0 \<Longrightarrow> store_inv ul (snd (AddTunnelForUser ul now uuid actor owner t st))"
  by (simp add: AddTunnelForUser_def addTunnel_inv)

text \<open>Editing a row: the normalised edit is the edit itself, and the columns agree with it.\<close>

lemma apply_edit_normal_form: "normal_form t \<Longrightarrow> now \<noteq> 0 \<Longrightarrow> normal_form (apply_edit e now t)"
  by (simp add: normal_form_def apply_edit_def)

lemma edit_row_ok:
  assumes "row_ok ul r" and "now \<noteq> 0" and "rv \<noteq> 0"
    and "validateUnifiedTunnelSpec ul ((apply_edit e now (load_row r))\<lparr>tn_Revision := rv, tn_BindIP := ip\<rparr>) = None"
  shows "row_ok ul (set_edit_columns ((apply_edit e now (load_row r))\<lparr>tn_Revision := rv, tn_BindIP := ip\<rparr>)
     (r\<lparr>tn_Revision := rv\<rparr>))"
proof -
  let ?t = "(apply_edit e now (load_row r))\<lparr>tn_Revision := rv, tn_BindIP := ip\<rparr>"
  have "normal_form (load_row (set_edit_columns ?t (r\<lparr>tn_Revision := rv\<rparr>)))"
    using assms(1-3) by (simp add: row_ok_def normal_form_def load_row_def set_edit_columns_def apply_edit_def)
  moreover have "validateUnifiedTunnelSpec ul (load_row (set_edit_columns ?t (r\<lparr>tn_Revision := rv\<rparr>))) = None"
    by (rule validate_spec_cong [OF _ _ _ _ _ _ assms(4)])
      (simp_all add: set_edit_columns_def apply_edit_def load_row_def)
  ultimately show ?thesis by (simp add: row_ok_def)
qed

lemma edit_tx_inv:
  assumes inv: "store_inv ul st" and now: "now \<noteq> 0" and rv: "rv \<noteq> 0"
    and row: "row \<in> set (st_tunnels st)" and p: "\<And>r. r \<in> set (st_tunnels st) \<Longrightarrow> p r \<Longrightarrow> r = row"
    and col: "columns row = row\<lparr>tn_Revision := rv\<rparr>"
    and stored0: "stored0 = (apply_edit e now (load_row row))\<lparr>tn_Revision := rv, tn_BindIP := ip\<rparr>"
    and tx: "edit_tx ul now p missing columns stored0 st = Inr (x, st')"
  shows "store_inv ul st'"
proof -
  have ok: "row_ok ul row" by (rule store_inv_row [OF inv row])
  have nf: "normal_form stored0"
    using ok now rv apply_edit_normal_form [of "load_row row" now e]
    by (simp add: stored0 row_ok_def normal_form_def)
  from tx obtain k st1 where st: "normalize ul now stored0 = Inr x"
    and upd: "sql_update p (\<lambda>r. set_edit_columns x (columns r)) st = Inr (k, st1)" and k: "k \<noteq> 0"
    and rep: "replaceTunnelResourceLocksTx ul now x st1 = Inr st'"
    by (auto simp: edit_tx_def bind_res_eq_Inr split: sum.splits if_splits)
  from st nf have x: "x = stored0" and val: "validateUnifiedTunnelSpec ul stored0 = None"
    by (auto simp: normalize_on_normal_form split: option.splits)
  have f: "tn_ID row = tn_ID stored0 \<and> tn_ID (set_edit_columns x (columns row)) = tn_ID stored0 \<and>
      ingress_part (set_edit_columns x (columns row)) = ingress_part stored0 \<and>
      row_ok ul (set_edit_columns x (columns row))"
    using edit_row_ok [OF ok now rv] val
    by (simp add: x col stored0) (simp add: set_edit_columns_def apply_edit_def ingress_part_def load_row_def)
  show ?thesis
    by (rule update_and_lock_inv [OF inv upd k _ rep]) (use f p x nf normal_form_location in auto)
qed

lemma apply_edit_bind_ip:
  "apply_edit e now (t\<lparr>tn_BindIP := ip\<rparr>) =
     (apply_edit e now t)\<lparr>tn_Revision := tn_Revision t, tn_BindIP := ip\<rparr>"
  by (simp add: apply_edit_def)

lemma same_name_row:
  assumes "store_inv ul st" "a \<in> set (st_tunnels st)" "b \<in> set (st_tunnels st)"
    "tn_ClientID a = tn_ClientID b" "tn_Name a = tn_Name b"
  shows "a = b"
proof -
  have "tn_ID a = tn_ID b"
    using assms by (auto simp: inv_rows exclusive_def name_clash_def)
  then show ?thesis by (rule store_inv_same_id [OF assms(1-3)])
qed

lemma store_inv_revision: "store_inv ul st \<Longrightarrow> r \<in> set (st_tunnels st) \<Longrightarrow> tn_Revision r \<noteq> 0"
  using store_inv_row [of ul st r] by (simp add: row_ok_def normal_form_def)

lemma UpdateTunnel_inv [step_inv_intros]:
  assumes inv: "store_inv ul st" and now: "now \<noteq> 0"
  shows "store_inv ul (snd (UpdateTunnel ul now client name e st))"
proof (cases "find (\<lambda>r. tn_ClientID r = client \<and> tn_Name r = name) (st_tunnels st)")
  case None
  with inv show ?thesis by (simp add: UpdateTunnel_def)
next
  case (Some row)
  note row = find_row [OF Some]
  have same: "r = row" if "r \<in> set (st_tunnels st)" "tn_ClientID r = client \<and> tn_Name r = name" for r
    using same_name_row [OF inv that(1), of row] that row by simp
  have ok: "row_ok ul row" using store_inv_row [OF inv] row by blast
  have "store_inv ul st2" if tx: "edit_tx ul now (\<lambda>r. tn_ClientID r = client \<and> tn_Name r = name)
      (DoesNotExist client name) id (apply_edit (e\<lparr>ed_name := tn_Name stored\<rparr>) now stored) st = Inr (x, st2)"
    and sc: "scanStoredTunnel ul now row = Inr stored" for stored x st2
    using sc row same
    by (intro edit_tx_inv [OF inv now store_inv_revision [OF inv] _ _ _ _ tx])
      (auto simp: scan_ok [OF ok] apply_edit_bind_ip)
  then show ?thesis
    using Some inv by (auto simp: UpdateTunnel_def Let_def bind_res_eq_Inr intro!: save_tx_inv)
qed

lemma same_id_row:
  "store_inv ul st \<Longrightarrow> find p (st_tunnels st) = Some row \<Longrightarrow> r \<in> set (st_tunnels st) \<Longrightarrow>
     tn_ID r = tn_ID row \<Longrightarrow> r = row"
  using store_inv_same_id [of ul st r row] find_row [of p "st_tunnels st" row] by blast

lemma UpdateTunnelByID_inv [step_inv_intros]:
  assumes inv: "store_inv ul st" and now: "now \<noteq> 0"
  shows "store_inv ul (snd (UpdateTunnelByID ul now client i e st))"
proof (cases "find (\<lambda>r. tn_ClientID r = client \<and> tn_ID r = i) (st_tunnels st)")
  case None
  with inv show ?thesis by (simp add: UpdateTunnelByID_def)
next
  case (Some row)
  note row = find_row [OF Some]
  have ok: "row_ok ul row" using store_inv_row [OF inv] row by blast
  have "store_inv ul st2" if tx: "edit_tx ul now (\<lambda>r. tn_ClientID r = client \<and> tn_ID r = i)
      (DoesNotExist client i) id (apply_edit e now stored) st = Inr (x, st2)"
    and sc: "scanStoredTunnel ul now row = Inr stored" for stored x st2
    using sc row same_id_row [OF inv Some]
    by (intro edit_tx_inv [OF inv now store_inv_revision [OF inv] _ _ _ _ tx])
      (auto simp: scan_ok [OF ok] apply_edit_bind_ip)
  then show ?thesis
    using Some inv by (auto simp: UpdateTunnelByID_def Let_def bind_res_eq_Inr intro!: save_tx_inv)
qed

lemma next_revision_small: "0 < n \<Longrightarrow> n < 2 ^ 63 - 1 \<Longrightarrow> next_revision n = n + 1"
  by (simp add: next_revision_def)

lemma next_revision_nonzero: "0 < n \<Longrightarrow> n < 2 ^ 63 \<Longrightarrow> next_revision n \<noteq> 0"
  by (cases "n = 2 ^ 63 - 1") (simp_all add: next_revision_def)

lemma UpdateTunnelByIDWithRevision_inv [step_inv_intros]:
  assumes inv: "store_inv ul st" and now: "now \<noteq> 0" and ex: "expected < 2 ^ 63"
  shows "store_inv ul (snd (UpdateTunnelByIDWithRevision ul now client i expected e st))"
proof (cases "find (\<lambda>r. tn_ClientID r = client \<and> tn_ID r = i) (st_tunnels st)")
  case None
  with inv show ?thesis by (simp add: UpdateTunnelByIDWithRevision_def)
next
  case (Some row)
  note row = find_row [OF Some]
  have ok: "row_ok ul row" using store_inv_row [OF inv] row by blast
  have "store_inv ul st2" if tx: "edit_tx ul now (\<lambda>r. (tn_ClientID r = client \<and> tn_ID r = i) \<and> tn_Revision r = expected)
      ErrTunnelRevisionConflict (\<lambda>r. r\<lparr>tn_Revision := next_revision expected\<rparr>)
      ((apply_edit e now stored)\<lparr>tn_Revision := next_revision expected\<rparr>) st = Inr (x, st2)"
    and sc: "scanStoredTunnel ul now row = Inr stored" and pos: "0 < expected" for stored x st2
    using sc row same_id_row [OF inv Some]
    by (intro edit_tx_inv [where e = e and ip = "tunnelIngressBindIP (load_row row)",
          OF inv now next_revision_nonzero [OF pos ex] _ _ _ _ tx])
      (auto simp: scan_ok [OF ok] apply_edit_bind_ip)
  then show ?thesis
    using Some inv
    by (auto simp: UpdateTunnelByIDWithRevision_def Let_def bind_res_eq_Inr not_le apply_edit_def
        split: if_split_asm intro!: save_tx_inv)
qed

text \<open>The rows written by a replacement and by a migration.\<close>

lemma spec_columns_ok:
  assumes "normal_form r" and "validateUnifiedTunnelSpec ul r = None" and "row_ok ul x"
    and "tn_OwnerUserID r = tn_OwnerUserID x" and "c \<noteq> []"
  shows "row_ok ul ((set_spec_columns r x)\<lparr>tn_ClientID := c\<rparr>)"
    and "ingress_part ((set_spec_columns r x)\<lparr>tn_ClientID := c\<rparr>) = ingress_part r"
    and "tn_ID ((set_spec_columns r x)\<lparr>tn_ClientID := c\<rparr>) = tn_ID x"
proof -
  have na: "tn_RuntimeState r \<noteq> ''active''"
    using assms(1) valid_states_not_active by (auto simp: normal_form_def)
  have "normal_form (load_row ((set_spec_columns r x)\<lparr>tn_ClientID := c\<rparr>))"
    using assms na by (simp add: normal_form_def load_row_def row_of_def set_spec_columns_def row_ok_def)
  moreover have "validateUnifiedTunnelSpec ul (load_row ((set_spec_columns r x)\<lparr>tn_ClientID := c\<rparr>)) = None"
    by (rule validate_spec_cong [OF _ _ _ _ _ _ assms(2)]) (simp_all add: row_of_def set_spec_columns_def)
  ultimately show "row_ok ul ((set_spec_columns r x)\<lparr>tn_ClientID := c\<rparr>)" by (simp add: row_ok_def)
  show "ingress_part ((set_spec_columns r x)\<lparr>tn_ClientID := c\<rparr>) = ingress_part r"
    using assms(4) by (simp add: ingress_part_def set_spec_columns_def row_of_def)
  show "tn_ID ((set_spec_columns r x)\<lparr>tn_ClientID := c\<rparr>) = tn_ID x"
    by (simp add: set_spec_columns_def)
qed

lemma normalize_keeps_ID: "normalize ul now t = Inr t' \<Longrightarrow> tn_ID t' = tn_ID t"
  by (auto simp: normalize_def Let_def normalizeUnifiedTunnelSpec_def split: if_splits option.splits)

lemma normalize_keeps_owner: "normalize ul now t = Inr t' \<Longrightarrow> tn_OwnerUserID t' = tn_OwnerUserID t"
  by (auto simp: normalize_def Let_def normalizeUnifiedTunnelSpec_def split: if_splits option.splits)

lemma normalize_keeps_revision:
  "normalize ul now t = Inr t' \<Longrightarrow> tn_Revision t \<noteq> 0 \<Longrightarrow> tn_Revision t' = tn_Revision t"
  by (auto simp: normalize_def Let_def normalizeUnifiedTunnelSpec_def split: if_splits option.splits)

lemma replaceTx_inv:
  assumes inv: "store_inv ul st" and nf: "normal_form r" "validateUnifiedTunnelSpec ul r = None"
    and row: "row \<in> set (st_tunnels st)" "tn_ID row = tn_ID r"
    and owner: "tn_OwnerUserID r = tn_OwnerUserID row"
    and tx: "replaceTx ul now actor client (tn_ID r) expected existing r st = Inr (x, st')"
  shows "store_inv ul st'"
proof -
  from tx obtain k st2 where
    upd: "sql_update (\<lambda>x. tn_ClientID x = client \<and> tn_ID x = tn_ID r \<and> tn_Revision x = expected)
      (set_spec_columns r) st = Inr (k, st2)" and k: "k \<noteq> 0"
    and rep: "replaceTunnelResourceLocksTx ul now r st2 = Inr st'"
    by (auto simp: replaceTx_def bind_res_eq_Inr split: if_splits)
  have f: "tn_ID y = tn_ID r \<and> tn_ID (set_spec_columns r y) = tn_ID r \<and>
      ingress_part (set_spec_columns r y) = ingress_part r \<and> row_ok ul (set_spec_columns r y)"
    if y: "y \<in> set (st_tunnels st)" "tn_ID y = tn_ID r" for y
  proof -
    have "y = row" using store_inv_same_id [OF inv y(1) row(1)] y row by simp
    then have own: "tn_OwnerUserID r = tn_OwnerUserID y" using owner by simp
    have ok: "row_ok ul y" by (rule store_inv_row [OF inv y(1)])
    then have ne: "tn_ClientID y \<noteq> []" by (simp add: row_ok_def normal_form_def)
    have same: "(set_spec_columns r y)\<lparr>tn_ClientID := tn_ClientID y\<rparr> = set_spec_columns r y"
      by (simp add: set_spec_columns_def)
    show ?thesis using spec_columns_ok [OF nf ok own ne] y unfolding same by simp
  qed
  show ?thesis
    by (rule update_and_lock_inv [OF inv upd k _ rep normal_form_location [OF nf(1)]]) (use f in auto)
qed

lemma migrateTx_inv:
  assumes inv: "store_inv ul st" and nf: "normal_form r" "validateUnifiedTunnelSpec ul r = None"
    and row: "row \<in> set (st_tunnels st)" "tn_ID row = tn_ID r"
    and owner: "tn_OwnerUserID r = tn_OwnerUserID row"
    and tx: "migrateTx ul now actor (tn_ID r) expected existing r st = Inr (x, st')"
  shows "store_inv ul st'"
proof -
  from tx obtain k st2 st3 where
    upd: "sql_update (\<lambda>x. tn_ID x = tn_ID r \<and> tn_Revision x = expected)
      (\<lambda>x. (set_spec_columns r x)\<lparr>tn_ClientID := tn_ClientID r\<rparr>) st = Inr (k, st2)" and k: "k \<noteq> 0"
    and rep: "replaceTunnelResourceLocksTx ul now r st2 = Inr st3"
    and st': "st_tunnels st' = st_tunnels st3" "st_locks st' = st_locks st3"
    by (auto simp: migrateTx_def bind_res_eq_Inr Let_def split: if_splits)
  have f: "tn_ID ((set_spec_columns r y)\<lparr>tn_ClientID := tn_ClientID r\<rparr>) = tn_ID r \<and>
      ingress_part ((set_spec_columns r y)\<lparr>tn_ClientID := tn_ClientID r\<rparr>) = ingress_part r \<and>
      row_ok ul ((set_spec_columns r y)\<lparr>tn_ClientID := tn_ClientID r\<rparr>)"
    if y: "y \<in> set (st_tunnels st)" "tn_ID y = tn_ID r" for y
  proof -
    have "y = row" using store_inv_same_id [OF inv y(1) row(1)] y row by simp
    then have own: "tn_OwnerUserID r = tn_OwnerUserID y" using owner by simp
    have ok: "row_ok ul y" by (rule store_inv_row [OF inv y(1)])
    have ne: "tn_ClientID r \<noteq> []" using nf(1) by (simp add: normal_form_def)
    show ?thesis using spec_columns_ok [OF nf ok own ne] y by simp
  qed
  have "store_inv ul st3"
    by (rule update_and_lock_inv [OF inv upd k _ rep normal_form_location [OF nf(1)]]) (use f in auto)
  then show ?thesis by (simp add: store_inv_def st')
qed

lemma prepared_replacement_fields [simp]:
  "tn_ID (prepared_replacement now client i expected existing repl) = i"
  "tn_Revision (prepared_replacement now client i expected existing repl) = next_revision expected"
  by (simp_all add: prepared_replacement_def)

lemma replaceTunnelByID_inv [step_inv_intros]:
  assumes inv: "store_inv ul st" and now: "now \<noteq> 0"
  shows "store_inv ul (snd (replaceTunnelByID ul now actor client i expected repl st))"
proof (cases "find (\<lambda>r. tn_ClientID r = client \<and> tn_ID r = i) (st_tunnels st)")
  case None
  with inv show ?thesis by (simp add: replaceTunnelByID_def)
next
  case (Some row)
  note row = find_row [OF Some]
  have ok: "row_ok ul row" using store_inv_row [OF inv] row by blast
  define existing where "existing = (load_row row)\<lparr>tn_BindIP := tunnelIngressBindIP (load_row row)\<rparr>"
  have ex: "tn_OwnerUserID existing = tn_OwnerUserID row" by (simp add: existing_def)
  have tx: "store_inv ul (snd (save_tx st (replaceTx ul now actor client i x existing r)))"
    if n: "normalize ul now r0 = Inr r" and r0: "tn_ID r0 = i" "tn_OwnerUserID r0 = tn_OwnerUserID existing"
    for r0 r x
  proof (rule save_tx_inv [OF inv])
    have i: "tn_ID r = i" "tn_OwnerUserID r = tn_OwnerUserID row"
      using normalize_keeps_ID [OF n] normalize_keeps_owner [OF n] r0 ex by simp_all
    show "store_inv ul st2" if "replaceTx ul now actor client i x existing r st = Inr (y, st2)" for y st2
      using replaceTx_inv [OF inv _ _ _ _ i(2)] normalize_normal_form [OF n now] row i that by auto
  qed
  show ?thesis
    unfolding replaceTunnelByID_def Let_def Some option.case scan_ok [OF ok] sum.case
      existing_def [symmetric]
    using inv by (simp split: sum.split) (auto elim!: tx)
qed

lemma migrateTunnelTargetByID_inv [step_inv_intros]:
  assumes inv: "store_inv ul st" and now: "now \<noteq> 0"
  shows "store_inv ul (snd (migrateTunnelTargetByID ul now actor i expected repl st))"
proof (cases "find (\<lambda>r. tn_ID r = i) (st_tunnels st)")
  case None
  with inv show ?thesis by (simp add: migrateTunnelTargetByID_def)
next
  case (Some row)
  note row = find_row [OF Some]
  have ok: "row_ok ul row" using store_inv_row [OF inv] row by blast
  define existing where "existing = (load_row row)\<lparr>tn_BindIP := tunnelIngressBindIP (load_row row)\<rparr>"
  have ex: "tn_OwnerUserID existing = tn_OwnerUserID row" by (simp add: existing_def)
  have tx: "store_inv ul (snd (save_tx st (migrateTx ul now actor i x existing r)))"
    if n: "normalize ul now r0 = Inr r" and r0: "tn_ID r0 = i" "tn_OwnerUserID r0 = tn_OwnerUserID existing"
    for r0 r x
  proof (rule save_tx_inv [OF inv])
    have i: "tn_ID r = i" "tn_OwnerUserID r = tn_OwnerUserID row"
      using normalize_keeps_ID [OF n] normalize_keeps_owner [OF n] r0 ex by simp_all
    show "store_inv ul st2" if "migrateTx ul now actor i x existing r st = Inr (y, st2)" for y st2
      using migrateTx_inv [OF inv _ _ _ _ i(2)] normalize_normal_form [OF n now] row i that by auto
  qed
  have post: "store_inv ul (snd (case save_tx st body of
      (Inl e, st') \<Rightarrow> (Inl e, st')
    | (Inr a, st') \<Rightarrow> (case find (\<lambda>x. tn_ID x = i) (st_tunnels st') of
         None \<Rightarrow> (Inl ErrTunnelNotFound, st')
       | Some x \<Rightarrow> (case scanStoredTunnel ul now x of Inl e \<Rightarrow> (Inl e, st')
            | Inr after \<Rightarrow> (Inr (existing, after, a), st')))))"
    if "store_inv ul (snd (save_tx st body))" for body :: "store \<Rightarrow> store_error + int \<times> store"
    using that by (auto split: prod.splits sum.splits option.splits)
  show ?thesis
    unfolding migrateTunnelTargetByID_def Let_def Some option.case scan_ok [OF ok] sum.case
      existing_def [symmetric]
    using inv by (simp split: sum.split) (auto intro!: post elim!: tx)
qed

section \<open>Runs of the store\<close>

text \<open>
  One step: any store operation with any arguments, or a change of the tables other components
  own. The clock is past Go's zero instant and an expected revision is an \<open>int64\<close>.
\<close>

inductive store_step :: "(string \<Rightarrow> string) \<Rightarrow> store \<Rightarrow> store \<Rightarrow> bool" for ul where
  step_add: "now \<noteq> 0 \<Longrightarrow> store_step ul st (snd (addTunnel ul now uuid actor t st))"
| step_add_for: "now \<noteq> 0 \<Longrightarrow> store_step ul st (snd (AddTunnelForUser ul now uuid actor owner t st))"
| step_remove: "store_step ul st (snd (RemoveTunnel client name st))"
| step_remove_id: "store_step ul st (snd (RemoveTunnelByID client i st))"
| step_remove_act: "store_step ul st (snd (RemoveTunnelByIDWithActivity ul now act client i st))"
| step_delete_client: "store_step ul st (snd (DeleteTunnelsByClientIDReturningDeleted ul now client st))"
| step_states: "now \<noteq> 0 \<Longrightarrow> store_step ul st (snd (UpdateStates now client name d ru e st))"
| step_states_current:
    "now \<noteq> 0 \<Longrightarrow> store_step ul st (snd (UpdateStatesIfCurrent now client i rv d ru e st))"
| step_transition:
    "now \<noteq> 0 \<Longrightarrow> store_step ul st (snd (TransitionRuntimeStateIfCurrent now client i rv d ex ru e st))"
| step_states_act:
    "now \<noteq> 0 \<Longrightarrow> store_step ul st (snd (UpdateTunnelStatesWithActivity ul now act client i d ru e action st))"
| step_update: "now \<noteq> 0 \<Longrightarrow> store_step ul st (snd (UpdateTunnel ul now client name ed st))"
| step_update_id: "now \<noteq> 0 \<Longrightarrow> store_step ul st (snd (UpdateTunnelByID ul now client i ed st))"
| step_update_rev: "now \<noteq> 0 \<Longrightarrow> expected < 2 ^ 63 \<Longrightarrow>
    store_step ul st (snd (UpdateTunnelByIDWithRevision ul now client i expected ed st))"
| step_replace:
    "now \<noteq> 0 \<Longrightarrow> store_step ul st (snd (replaceTunnelByID ul now actor client i expected repl st))"
| step_migrate:
    "now \<noteq> 0 \<Longrightarrow> store_step ul st (snd (migrateTunnelTargetByID ul now actor i expected repl st))"
| step_hostname: "now \<noteq> 0 \<Longrightarrow> store_step ul st (snd (UpdateHostname now client hostname st))"
| step_p2p: "now \<noteq> 0 \<Longrightarrow> store_step ul st (snd (ApplyP2PLifecycle ul now grants session0 mode session st))"
| step_environment: "store_step ul st
    (st\<lparr>st_clients := clients, st_users := users, st_traffic := traffic, st_failErr := fe, st_failCount := fc\<rparr>)"

inductive_cases store_stepE: "store_step ul st st'"

lemma store_step_inv: "store_step ul st st' \<Longrightarrow> store_inv ul st \<Longrightarrow> store_inv ul st'"
proof (induction rule: store_step.induct)
  case (step_environment st clients users traffic fe fc)
  then show ?case by (simp add: store_inv_def)
qed (blast intro: step_inv_intros)+

definition empty_store :: store where
  "empty_store = \<lparr>st_tunnels = [], st_locks = [], st_clients = Map.empty, st_users = Map.empty,
     st_traffic = [], st_failErr = None, st_failCount = 0\<rparr>"

lemma empty_store_inv: "store_inv ul empty_store"
  by (simp add: empty_store_def store_inv_def tables_ok_def locks_cover_def names.empty_ok claims.empty_ok)

lemma reachable_inv: "(store_step ul)\<^sup>*\<^sup>* empty_store st \<Longrightarrow> store_inv ul st"
  by (induction rule: rtranclp_induct) (auto intro: empty_store_inv store_step_inv)

text \<open>
  C1 (invariant). In every store reachable from an empty database by any sequence of store
  operations, whatever their arguments, no two tunnels claim the same ingress resource: not the
  same listening socket, not a specific and a wildcard address with the same port, and not two
  HTTP host patterns that could serve a common host for different owners.
\<close>

theorem ingress_claims_exclusive:
  assumes "(store_step ul)\<^sup>*\<^sup>* empty_store st"
  shows "exclusive tn_ID (claim_clash ul) (st_tunnels st)"
  using reachable_inv [OF assms] by (simp add: store_inv_def)

text \<open>
  C15 (liveness of start-up). Every reachable database can be loaded again: each row is accepted
  by validation, at any clock reading, and the server starts with all of its tunnels.
\<close>

theorem reachable_store_loads:
  assumes "(store_step ul)\<^sup>*\<^sup>* empty_store st"
  shows "validateLoadedState ul now st = Inr () \<and>
     (\<exists>ts. GetAllTunnels ul now st = Inr ts \<and> length ts = length (st_tunnels st))"
proof -
  have "\<forall>r \<in> set (sort_key tn_ClientID (newest_first (st_tunnels st))). row_ok ul r"
    using reachable_inv [OF assms] by (simp add: store_inv_def tables_ok_def newest_first_def)
  from scan_rows_ok [OF this, of now] show ?thesis
    by (auto simp: validateLoadedState_def GetAllTunnels_def newest_first_def)
qed

section \<open>Concurrent writers\<close>

lemma save_tx_Inr:
  "fst (save_tx st body) = Inr x \<Longrightarrow> body st = Inr (x, snd (save_tx st body))"
  by (auto simp: save_tx_def run_tx_def maybeFailSave_def split: sum.splits option.splits if_splits)

lemma save_tx_Inl:
  "fst (save_tx st body) = Inl e \<Longrightarrow>
     st_tunnels (snd (save_tx st body)) = st_tunnels st \<and> st_locks (snd (save_tx st body)) = st_locks st"
  by (auto simp: save_tx_def run_tx_def maybeFailSave_def split: sum.splits option.splits if_splits)

lemma replaceTx_rows:
  "replaceTx ul now actor client i expected existing r st = Inr (x, st') \<Longrightarrow>
     st_tunnels st' = map (\<lambda>x. if tn_ClientID x = client \<and> tn_ID x = i \<and> tn_Revision x = expected
       then set_spec_columns r x else x) (st_tunnels st)"
  by (auto simp: replaceTx_def bind_res_eq_Inr split: if_splits dest!: sql_update_result replace_locks_fields(1))

lemma replace_success:
  assumes "fst (replaceTunnelByID ul now actor client i expected repl st) = Inr a"
  obtains row existing r where
    "find (\<lambda>r. tn_ClientID r = client \<and> tn_ID r = i) (st_tunnels st) = Some row"
    "scanStoredTunnel ul now row = Inr existing" "tn_Revision existing = expected" "0 < expected"
    "next_revision expected \<noteq> 0 \<longrightarrow> tn_Revision r = next_revision expected"
    "replaceTx ul now actor client i expected existing r st =
       Inr (a, snd (replaceTunnelByID ul now actor client i expected repl st))"
proof -
  let ?find = "find (\<lambda>r. tn_ClientID r = client \<and> tn_ID r = i) (st_tunnels st)"
  from assms obtain row where row: "?find = Some row" and pos: "0 < expected"
    by (auto simp: replaceTunnelByID_def not_le split: option.split_asm if_split_asm)
  with assms obtain existing where sc: "scanStoredTunnel ul now row = Inr existing"
    by (auto simp: replaceTunnelByID_def split: sum.split_asm)
  define r1 where "r1 = prepared_replacement now client i expected existing repl"
  from assms row sc pos obtain r where ex: "tn_Revision existing = expected" and n: "normalize ul now r1 = Inr r"
    and eq: "replaceTunnelByID ul now actor client i expected repl st =
      save_tx st (replaceTx ul now actor client i expected existing r)"
    by (auto simp: replaceTunnelByID_def Let_def r1_def [symmetric] split: sum.split_asm if_split_asm)
  have "replaceTx ul now actor client i expected existing r st =
      Inr (a, snd (replaceTunnelByID ul now actor client i expected repl st))"
    using assms unfolding eq by (rule save_tx_Inr)
  moreover have "next_revision expected \<noteq> 0 \<longrightarrow> tn_Revision r = next_revision expected"
    using normalize_keeps_revision [OF n] by (simp add: r1_def)
  ultimately show ?thesis using that [OF row sc ex pos] by blast
qed

lemma filter_map_others:
  assumes "\<And>x. P (f x) = P x" and "\<And>x. P x \<Longrightarrow> f x = x"
  shows "filter P (map f xs) = filter P xs"
  using assms by (induction xs) auto

lemma set_spec_columns_revision [simp]: "tn_Revision (set_spec_columns r x) = tn_Revision r"
  "tn_ID (set_spec_columns r x) = tn_ID x" "tn_ClientID (set_spec_columns r x) = tn_ClientID x"
  by (simp_all add: set_spec_columns_def row_of_def)

text \<open>
  C6 (safety). Optimistic concurrency: a replacement that succeeds found the tunnel at exactly
  the expected revision, leaves it at the next revision and every other row untouched; a second
  writer with the same expected revision then gets the revision conflict and changes nothing,
  so no accepted update is ever lost.
\<close>

theorem replace_no_lost_update:
  assumes reach: "(store_step ul)\<^sup>*\<^sup>* empty_store st" and now: "now \<noteq> 0" and bound: "expected < 2 ^ 63 - 1"
    and ok: "replaceTunnelByID ul now actor client i expected repl st = (Inr a, st')"
  shows "(\<exists>r \<in> set (st_tunnels st). tn_ClientID r = client \<and> tn_ID r = i \<and> tn_Revision r = expected) \<and>
    (\<exists>r \<in> set (st_tunnels st'). tn_ClientID r = client \<and> tn_ID r = i \<and> tn_Revision r = expected + 1) \<and>
    filter (\<lambda>r. tn_ID r \<noteq> i) (st_tunnels st') = filter (\<lambda>r. tn_ID r \<noteq> i) (st_tunnels st) \<and>
    replaceTunnelByID ul now2 actor2 client i expected repl2 st' = (Inl ErrTunnelRevisionConflict, st')"
proof -
  have inv: "store_inv ul st" by (rule reachable_inv [OF reach])
  have inv': "store_inv ul st'"
    using replaceTunnelByID_inv [OF inv now, of actor client i expected repl] ok by simp
  from ok have fst: "fst (replaceTunnelByID ul now actor client i expected repl st) = Inr a"
    and snd: "snd (replaceTunnelByID ul now actor client i expected repl st) = st'" by simp_all
  from fst obtain row existing r where
    row: "find (\<lambda>r. tn_ClientID r = client \<and> tn_ID r = i) (st_tunnels st) = Some row"
    and sc: "scanStoredTunnel ul now row = Inr existing" and ex: "tn_Revision existing = expected"
    and pos: "0 < expected" and rv: "next_revision expected \<noteq> 0 \<longrightarrow> tn_Revision r = next_revision expected"
    and tx: "replaceTx ul now actor client i expected existing r st = Inr (a, st')"
    by (rule replace_success) (simp add: snd)
  note rw = find_row [OF row]
  have rok: "row_ok ul row" using store_inv_row [OF inv] rw by blast
  have cur: "tn_Revision row = expected" using sc ex by (auto simp: scan_ok [OF rok])
  have nr: "tn_Revision r = expected + 1" using rv next_revision_small [OF pos bound] pos by simp
  note rows' = replaceTx_rows [OF tx]
  have new: "set_spec_columns r row \<in> set (st_tunnels st')"
    using rw cur by (auto simp: rows' image_iff intro!: bexI [of _ row])
  have nn: "tn_ClientID (set_spec_columns r row) = client \<and> tn_ID (set_spec_columns r row) = i \<and>
      tn_Revision (set_spec_columns r row) = expected + 1"
    using rw nr by simp
  have "find (\<lambda>r. tn_ClientID r = client \<and> tn_ID r = i) (st_tunnels st') = Some (set_spec_columns r row)"
  proof (cases "find (\<lambda>r. tn_ClientID r = client \<and> tn_ID r = i) (st_tunnels st')")
    case None
    with new nn have False unfolding find_None_iff by blast
    then show ?thesis ..
  next
    case (Some y)
    with find_row [OF Some] store_inv_same_id [OF inv' _ new, of y] nn show ?thesis by auto
  qed
  then have "replaceTunnelByID ul now2 actor2 client i expected repl2 st' = (Inl ErrTunnelRevisionConflict, st')"
    using pos nn scan_ok [OF store_inv_row [OF inv' new]] by (simp add: replaceTunnelByID_def)
  moreover have "filter (\<lambda>r. tn_ID r \<noteq> i) (st_tunnels st') = filter (\<lambda>r. tn_ID r \<noteq> i) (st_tunnels st)"
    unfolding rows' by (rule filter_map_others) auto
  ultimately show ?thesis using rw cur new nn by blast
qed

text \<open>
  A late activation loses against a concurrent change: when no row has the given
  identity, revision, desired state and expected runtime state, the transition reports that
  nothing changed (or an injected failure) and the tables stay as they are.
\<close>

theorem late_transition_has_no_effect:
  assumes "\<And>r. r \<in> set (st_tunnels st) \<Longrightarrow> tn_ID r = i \<Longrightarrow>
      tn_Revision r \<noteq> revision \<or> tn_DesiredState r \<noteq> canonicalDesiredState desired \<or>
      tn_RuntimeState r \<noteq> storageRuntimeStateFromProtocol expected"
  shows "fst (TransitionRuntimeStateIfCurrent now client i revision desired expected runtime err st) \<noteq> Inr True \<and>
    st_tunnels (snd (TransitionRuntimeStateIfCurrent now client i revision desired expected runtime err st)) =
      st_tunnels st \<and>
    st_locks (snd (TransitionRuntimeStateIfCurrent now client i revision desired expected runtime err st)) =
      st_locks st"
proof (cases "setStoredTunnelStates (blank_tunnel client) desired runtime err")
  case (Inl e)
  then show ?thesis by (simp add: TransitionRuntimeStateIfCurrent_def)
next
  case (Inr n)
  define p where "p = (\<lambda>r :: StoredTunnel. tn_ClientID r = client \<and> tn_ID r = i \<and> tn_Revision r = revision \<and>
    tn_DesiredState r = tn_DesiredState n \<and> tn_RuntimeState r = storageRuntimeStateFromProtocol expected)"
  have n: "tn_DesiredState n = canonicalDesiredState desired" using Inr by (simp add: setStoredTunnelStates_Inr)
  have no: "\<not> p r" if "r \<in> set (st_tunnels st)" for r
    using assms [OF that] n by (auto simp: p_def)
  then have upd: "sql_update p f st = Inr (0, st)" for f
    by (simp add: sql_update_def list_all_iff Let_def cong: map_cong filter_cong)
  show ?thesis
    unfolding TransitionRuntimeStateIfCurrent_def Inr sum.case p_def [symmetric]
    by (auto simp: save_tx_def run_tx_def maybeFailSave_def upd split: option.splits)
qed

section \<open>Routing claims\<close>

definition rank_of :: "string list \<Rightarrow> string \<Rightarrow> nat" where
  "rank_of cs d = length (takeWhile (\<lambda>c. c \<noteq> d) cs)"

lemma best_rank_eq:
  "best_rank d k cs b = (if d \<in> set cs \<and> k + rank_of cs d < b then k + rank_of cs d else b)"
proof (induction cs arbitrary: k b)
  case (Cons c cs)
  show ?case
  proof (cases "c = d")
    case True
    then show ?thesis by (simp add: Cons.IH rank_of_def)
  next
    case False
    then show ?thesis by (auto simp: Cons.IH rank_of_def)
  qed
qed simp

definition server_http :: "StoredTunnel \<Rightarrow> bool" where
  "server_http t \<longleftrightarrow> ep_Type (tn_Ingress t) = TunnelIngressTypeHTTPHost \<and>
     ep_Location (tn_Ingress t) = EndpointLocationServer"

definition route_domain :: "(string \<Rightarrow> string) \<Rightarrow> StoredTunnel \<Rightarrow> string" where
  "route_domain ul t = canonicalHTTPDomain ul (tunnelIngressDomain ul t)"

definition read_back :: "StoredTunnel \<Rightarrow> StoredTunnel" where
  "read_back r = (load_row r)\<lparr>tn_BindIP := tunnelIngressBindIP (load_row r)\<rparr>"

lemma read_back_part: "ingress_part (read_back r) = ingress_part r"
  by (simp add: read_back_def ingress_part_def)

lemma read_back_route [simp]:
  "route_domain ul (read_back r) = route_domain ul r" "server_http (read_back r) = server_http r"
  "tn_ID (read_back r) = tn_ID r"
  using ingress_accessors_part [OF read_back_part [of r]]
  by (simp_all add: route_domain_def server_http_def) (simp add: read_back_def)

lemma claim_loop_best:
  assumes "claim_loop ul now cands rs (t0, k0) = Inr (t, k)" and "\<forall>r \<in> set rs. row_ok ul r"
  shows "k \<le> k0 \<and>
    (\<forall>r \<in> set rs. server_http r \<and> route_domain ul r \<in> set cands \<longrightarrow> k \<le> rank_of cands (route_domain ul r)) \<and>
    ((t, k) = (t0, k0) \<or> (\<exists>r \<in> set rs. server_http r \<and> route_domain ul r \<in> set cands \<and>
       t = Some (read_back r) \<and> k = rank_of cands (route_domain ul r)))"
  using assms
proof (induction rs arbitrary: t0 k0)
  case (Cons x rs)
  define b where "b = (if server_http x \<and> route_domain ul x \<in> set cands \<and> rank_of cands (route_domain ul x) < k0
    then (Some (read_back x), rank_of cands (route_domain ul x)) else (t0, k0))"
  have scan: "scanStoredTunnel ul now x = Inr (read_back x)"
    using Cons.prems by (simp add: scan_ok read_back_def)
  have step: "claim_loop ul now cands (x # rs) (t0, k0) = claim_loop ul now cands rs b"
    using read_back_route(1) [of ul x, unfolded route_domain_def] read_back_route(2) [of x, unfolded server_http_def]
    by (auto simp: scan Let_def b_def server_http_def route_domain_def best_rank_eq)
  have b: "snd b \<le> k0"
    "server_http x \<Longrightarrow> route_domain ul x \<in> set cands \<Longrightarrow> snd b \<le> rank_of cands (route_domain ul x)"
    "b = (t0, k0) \<or> (server_http x \<and> route_domain ul x \<in> set cands \<and> b = (Some (read_back x), rank_of cands (route_domain ul x)))"
    by (auto simp: b_def)
  from Cons.IH [of "fst b" "snd b"] Cons.prems step
  have IH: "k \<le> snd b \<and>
    (\<forall>r \<in> set rs. server_http r \<and> route_domain ul r \<in> set cands \<longrightarrow> k \<le> rank_of cands (route_domain ul r)) \<and>
    ((t, k) = b \<or> (\<exists>r \<in> set rs. server_http r \<and> route_domain ul r \<in> set cands \<and>
       t = Some (read_back r) \<and> k = rank_of cands (route_domain ul r)))" by simp
  then show ?case using b by (auto intro: order_trans)
qed simp

lemma claim_loop_total:
  "\<forall>r \<in> set rs. row_ok ul r \<Longrightarrow> \<exists>y. claim_loop ul now cands rs best = Inr y"
  by (induction rs arbitrary: best) (auto simp: scan_ok Let_def)

lemma server_http_lock:
  assumes "server_http r" and "row_ok ul r" and "route_domain ul r \<noteq> []"
  shows "fst (tunnelIngressResourceLock ul r) = ''ingress:server:http_host:'' @ route_domain ul r"
proof -
  have "tn_Topology r = TunnelTopologyServerExpose"
    using assms(1,2) by (auto simp: server_http_def row_ok_def normal_form_def)
  then have "ep_ClientID (tn_Ingress r) = []"
    using assms(2) by (auto simp: row_ok_def normal_form_def)
  then show ?thesis
    using assms(1,3) by (simp add: server_http_def route_domain_def tunnelIngressResourceLock_def Let_def
        is_listener_def ingress_location_id_def ingress_location_def)
qed

lemma rank_of_less: "d \<in> set cs \<longleftrightarrow> rank_of cs d < length cs"
  by (induction cs) (auto simp: rank_of_def)


section \<open>A concrete store\<close>

definition demo_base :: store where
  "demo_base = empty_store\<lparr>st_clients := [''c1'' \<mapsto> Some ''u1''], st_users := [''u1'' \<mapsto> ''active'']\<rparr>"

definition demo_http :: StoredTunnel where
  "demo_http = legacy_tunnel\<lparr>tn_ID := ''h1'', tn_Name := ''web'', tn_Type := ''http'', tn_Domain := ''*.a.io''\<rparr>"

text \<open>An HTTP tunnel, then a tunnel on port 2222, then a rejected second claim of port 2222.\<close>

definition demo_http_store :: store where
  "demo_http_store = snd (addTunnel id 5 None None demo_http demo_base)"

definition demo_store :: store where
  "demo_store = snd (addTunnel id 8 None None (legacy_tunnel\<lparr>tn_ID := ''t2'', tn_Name := ''ssh2''\<rparr>)
     (snd (addTunnel id 7 None None legacy_tunnel demo_http_store)))"

lemma demo_base_reachable: "(store_step id)\<^sup>*\<^sup>* empty_store demo_base"
proof -
  have "store_step id empty_store (empty_store\<lparr>st_clients := [''c1'' \<mapsto> Some ''u1''],
      st_users := [''u1'' \<mapsto> ''active''], st_traffic := [], st_failErr := None, st_failCount := 0\<rparr>)"
    by (rule step_environment)
  then show ?thesis by (intro r_into_rtranclp) (simp add: demo_base_def empty_store_def)
qed

lemma demo_http_reachable: "(store_step id)\<^sup>*\<^sup>* empty_store demo_http_store"
proof -
  have "store_step id demo_base demo_http_store"
    unfolding demo_http_store_def by (rule step_add) simp
  with demo_base_reachable show ?thesis by (meson rtranclp.rtrancl_into_rtrancl)
qed

lemma demo_reachable: "(store_step id)\<^sup>*\<^sup>* empty_store demo_store"
proof -
  have "store_step id demo_http_store (snd (addTunnel id 7 None None legacy_tunnel demo_http_store))"
    by (rule step_add) simp
  moreover have "store_step id (snd (addTunnel id 7 None None legacy_tunnel demo_http_store)) demo_store"
    unfolding demo_store_def by (rule step_add) simp
  ultimately show ?thesis using demo_http_reachable by (meson rtranclp.rtrancl_into_rtrancl)
qed

theorem ingress_claims_exclusive_witness:
  "exclusive tn_ID (claim_clash id) (st_tunnels demo_store) \<and> map tn_ID (st_tunnels demo_store) = [''h1'', ''t1'']"
proof
  show "exclusive tn_ID (claim_clash id) (st_tunnels demo_store)"
    by (rule ingress_claims_exclusive [OF demo_reachable])
  show "map tn_ID (st_tunnels demo_store) = [''h1'', ''t1'']" by code_simp
qed

theorem reachable_store_loads_witness:
  "validateLoadedState id 9 demo_store = Inr () \<and> (\<exists>ts. GetAllTunnels id 9 demo_store = Inr ts \<and> length ts = 2)"
proof -
  have "length (st_tunnels demo_store) = 2" by code_simp
  with reachable_store_loads [OF demo_reachable, of 9] show ?thesis by simp
qed

definition demo_ssh_store :: store where
  "demo_ssh_store = snd (addTunnel id 7 None None legacy_tunnel demo_base)"

lemma demo_ssh_reachable: "(store_step id)\<^sup>*\<^sup>* empty_store demo_ssh_store"
proof -
  have "store_step id demo_base demo_ssh_store"
    unfolding demo_ssh_store_def by (rule step_add) simp
  with demo_base_reachable show ?thesis by (meson rtranclp.rtrancl_into_rtrancl)
qed

theorem replace_no_lost_update_witness:
  "\<exists>st'. replaceTunnelByID id 9 None ''c1'' ''t1'' 1 legacy_tunnel demo_ssh_store = (Inr 0, st') \<and>
     replaceTunnelByID id 9 None ''c1'' ''t1'' 1 legacy_tunnel st' = (Inl ErrTunnelRevisionConflict, st')"
proof -
  define res where "res = replaceTunnelByID id 9 None ''c1'' ''t1'' 1 legacy_tunnel demo_ssh_store"
  have "fst res = Inr 0" unfolding res_def by code_simp
  then have res: "replaceTunnelByID id 9 None ''c1'' ''t1'' 1 legacy_tunnel demo_ssh_store = (Inr 0, snd res)"
    by (metis res_def prod.collapse)
  from replace_no_lost_update [OF demo_ssh_reachable _ _ res, of 9 None legacy_tunnel] res show ?thesis by auto
qed

theorem late_transition_has_no_effect_witness:
  "fst (TransitionRuntimeStateIfCurrent 9 ''c1'' ''t1'' 7 ''running'' ''pending'' ''exposed'' [] demo_ssh_store) \<noteq> Inr True \<and>
   st_tunnels (snd (TransitionRuntimeStateIfCurrent 9 ''c1'' ''t1'' 7 ''running'' ''pending'' ''exposed'' [] demo_ssh_store)) =
     st_tunnels demo_ssh_store"
proof -
  have "list_all (\<lambda>r. tn_Revision r \<noteq> 7) (st_tunnels demo_ssh_store)" by code_simp
  then have old: "\<And>r. r \<in> set (st_tunnels demo_ssh_store) \<Longrightarrow> tn_ID r = ''t1'' \<Longrightarrow> tn_Revision r \<noteq> 7 \<or>
      tn_DesiredState r \<noteq> canonicalDesiredState ''running'' \<or>
      tn_RuntimeState r \<noteq> storageRuntimeStateFromProtocol ''pending''"
    by (auto simp: list_all_iff)
  note late = late_transition_has_no_effect [where st = demo_ssh_store and i = "''t1''" and revision = 7
      and desired = "''running''" and expected = "''pending''"]
  from late [OF old, of 9 "''c1''" "''exposed''" "[]"] show ?thesis by simp
qed


end
