(* ===== verification/Udp_Frame.thy ===== *)
theory Udp_Frame
  imports Go_Prelude
begin

text \<open>
  \<open>pkg/mux/udp_frame.go\<close>: UDP datagrams framed on a byte stream, \<open>[2 bytes length,
  big endian][payload]\<close>, and the two copy loops of \<open>UDPRelayWithTraffic\<close>. A writer
  (\<open>io.Writer\<close>) is a function from its state and a slice to a byte count, an error and
  the next state; the code tolerates short writes, so the count is kept.

  Locales: \<open>byte_writer\<close> is the contract of \<open>io.Writer\<close> the frame writer relies on,
  \<open>reliable_writer\<close> adds progress, \<open>frame_codec\<close> is what a self-delimiting encoding
  promises to a reader of a stream of frames.
\<close>

section \<open>Definitions\<close>

definition MaxUDPPayload :: nat where
  "MaxUDPPayload = 65507"

datatype frame_error =
    PayloadTooLarge nat
  | InvalidWriteCount int
  | InvalidFrameLength nat
  | FrameIo io_error

type_synonym 'w writer = "'w \<Rightarrow> bytes \<Rightarrow> (int \<times> io_error option) \<times> 'w"

text \<open>The optional interface \<open>ReservePayload(int) error\<close> of the writer.\<close>

type_synonym 'w reserver = "('w \<Rightarrow> int \<Rightarrow> io_error option \<times> 'w) option"

function writeUDPFrameBytes :: "'w writer \<Rightarrow> 'w \<Rightarrow> bytes \<Rightarrow> frame_error option \<times> 'w" where
  "writeUDPFrameBytes wr w payload =
     (if payload = [] then (None, w)
      else (case wr w payload of ((n, err), w') \<Rightarrow>
        if n < 0 \<or> n > int (length payload) then (Some (InvalidWriteCount n), w')
        else (case err of
            Some e \<Rightarrow> (Some (FrameIo e), w')
          | None \<Rightarrow>
              if n = 0 then (Some (FrameIo ErrNoProgress), w')
              else writeUDPFrameBytes wr w' (drop (nat n) payload))))"
  by pat_completeness auto
termination
  by (relation "measure (\<lambda>(wr, w, payload). length payload)") auto

declare writeUDPFrameBytes.simps [simp del]

definition WriteUDPFrame ::
  "'w writer \<Rightarrow> 'w reserver \<Rightarrow> 'w \<Rightarrow> bytes \<Rightarrow> frame_error option \<times> 'w" where
  "WriteUDPFrame wr reserver w payload =
     (if length payload > MaxUDPPayload then (Some (PayloadTooLarge (length payload)), w)
      else (case (case reserver of
                    None \<Rightarrow> (None, w)
                  | Some reserve \<Rightarrow> reserve w (int (length payload))) of
          (Some e, w1) \<Rightarrow> (Some (FrameIo e), w1)
        | (None, w1) \<Rightarrow>
            (case writeUDPFrameBytes wr w1 (put_uint16 (of_nat (length payload))) of
               (Some e, w2) \<Rightarrow> (Some e, w2)
             | (None, w2) \<Rightarrow> writeUDPFrameBytes wr w2 payload)))"

definition ReadUDPFrame :: "bytes \<Rightarrow> frame_error + bytes \<times> bytes" where
  "ReadUDPFrame r =
     (case read_full 2 r of
        Inl e \<Rightarrow> Inl (FrameIo e)
      | Inr (lenBuf, r1) \<Rightarrow>
          (let payloadLen = unat (get_uint16 lenBuf) in
           if payloadLen > MaxUDPPayload then Inl (InvalidFrameLength payloadLen)
           else (case read_full payloadLen r1 of
               Inl e \<Rightarrow> Inl (FrameIo e)
             | Inr (payload, r2) \<Rightarrow> Inr (payload, r2))))"

text \<open>
  The two loops of \<open>UDPRelayWithTraffic\<close>. \<open>streamToUDP\<close> reads frames until a frame
  or a datagram write fails and sums what it reports to \<open>observe\<close>; \<open>udpToStream\<close>
  frames the datagrams the UDP socket delivers (each read into a buffer of
  \<open>MaxUDPPayload\<close> bytes) until the socket or the stream fails.
\<close>

function streamToUDP ::
  "('u \<Rightarrow> bytes \<Rightarrow> io_error option \<times> 'u) \<Rightarrow> 'u \<Rightarrow> bytes \<Rightarrow> nat \<Rightarrow> 'u \<times> nat" where
  "streamToUDP uw u r seen =
     (case ReadUDPFrame r of
        Inl e \<Rightarrow> (u, seen)
      | Inr (payload, r') \<Rightarrow>
          (case uw u payload of
             (Some e, u') \<Rightarrow> (u', seen)
           | (None, u') \<Rightarrow> streamToUDP uw u' r' (seen + length payload)))"
  by pat_completeness auto
termination
proof (relation "measure (\<lambda>(uw, u, r, seen). length r)")
  fix uw :: "'u \<Rightarrow> bytes \<Rightarrow> io_error option \<times> 'u" and u u' :: 'u
    and r payload r' :: bytes and seen :: nat and pr :: "bytes \<times> bytes"
    and res :: "io_error option \<times> 'u" and none :: "io_error option"
  assume "ReadUDPFrame r = Inr pr" and "(payload, r') = pr"
  then have "length r' < length r"
    by (auto simp: ReadUDPFrame_def Let_def dest!: read_full_InrD split: sum.splits if_splits)
  then show "((uw, u', r', seen + length payload), uw, u, r, seen)
      \<in> measure (\<lambda>(uw, u, r, seen). length r)"
    by simp
qed simp

declare streamToUDP.simps [simp del]

fun udpToStream ::
  "'w writer \<Rightarrow> 'w reserver \<Rightarrow> 'w \<Rightarrow> bytes list \<Rightarrow> nat \<Rightarrow> frame_error option \<times> 'w \<times> nat" where
  "udpToStream wr rsv w [] seen = (None, w, seen)"
| "udpToStream wr rsv w (d # ds) seen =
     (let buf = take MaxUDPPayload d in
      case WriteUDPFrame wr rsv w buf of
        (Some e, w') \<Rightarrow> (Some e, w', seen)
      | (None, w') \<Rightarrow> udpToStream wr rsv w' ds (seen + length buf))"

text \<open>\<open>bytes.Buffer\<close>, the in-memory writer: it takes every slice whole and never fails.\<close>

definition buffer_write :: "bytes writer" where
  "buffer_write w p = ((int (length p), None), w @ p)"

section \<open>The writer contract\<close>

locale byte_writer =
  fixes wr :: "'w writer"
    and written :: "'w \<Rightarrow> bytes"
  assumes count: "wr w p = ((n, e), w') \<Longrightarrow> 0 \<le> n \<and> n \<le> int (length p)"
    and appends: "wr w p = ((n, e), w') \<Longrightarrow> written w' = written w @ take (nat n) p"
begin

text \<open>Whatever the writer does, what reached it is a prefix of the slice, all of it on success.\<close>

lemma frame_bytes_written:
  "writeUDPFrameBytes wr w p = (res, w') \<Longrightarrow>
     \<exists>k \<le> length p. written w' = written w @ take k p \<and> (res = None \<longrightarrow> k = length p)"
proof (induction p arbitrary: w rule: length_induct)
  case (1 p)
  show ?case
  proof (cases "p = []")
    case True
    with "1.prems" show ?thesis by (auto simp: writeUDPFrameBytes.simps [of wr w "[]"])
  next
    case p: False
    obtain n err w1 where step: "wr w p = ((n, err), w1)" by (metis surj_pair)
    note n = count [OF step] and w1 = appends [OF step]
    show ?thesis
    proof (cases "err = None \<and> n \<noteq> 0")
      case True
      with "1.prems" p step n have rec: "writeUDPFrameBytes wr w1 (drop (nat n) p) = (res, w')"
        by (simp add: writeUDPFrameBytes.simps [of wr w p])
      have "length (drop (nat n) p) < length p" using True n p by simp
      with "1.IH" rec obtain k where k: "k \<le> length (drop (nat n) p)"
        and eq: "written w' = written w1 @ take k (drop (nat n) p)"
        and full: "res = None \<longrightarrow> k = length (drop (nat n) p)"
        by blast
      have "written w' = written w @ take (nat n + k) p"
        using eq w1 by (simp add: take_add)
      moreover have "nat n + k \<le> length p" and "res = None \<longrightarrow> nat n + k = length p"
        using k full n by auto
      ultimately show ?thesis by blast
    next
      case False
      with "1.prems" p step n have "res \<noteq> None \<and> w' = w1"
        by (auto simp: writeUDPFrameBytes.simps [of wr w p] split: option.splits if_splits)
      with w1 n show ?thesis by (intro exI [of _ "nat n"]) auto
    qed
  qed
qed

lemma frame_bytes_ok:
  "writeUDPFrameBytes wr w p = (None, w') \<Longrightarrow> written w' = written w @ p"
  using frame_bytes_written [of w p None w'] by auto

end

locale reliable_writer = byte_writer +
  assumes progress: "p \<noteq> [] \<Longrightarrow> \<exists>n w'. wr w p = ((n, None), w') \<and> 0 < n"
begin

text \<open>A writer that makes progress takes the whole slice: the loop ends without an error.\<close>

lemma frame_bytes_total: "\<exists>w'. writeUDPFrameBytes wr w p = (None, w') \<and> written w' = written w @ p"
proof (induction p arbitrary: w rule: length_induct)
  case (1 p)
  show ?case
  proof (cases "p = []")
    case True
    then show ?thesis by (simp add: writeUDPFrameBytes.simps [of wr w "[]"])
  next
    case False
    then obtain n w1 where step: "wr w p = ((n, None), w1)" and n: "0 < n"
      using progress by blast
    from count [OF step] have le: "n \<le> int (length p)" by simp
    with "1.IH" n False obtain w' where
      "writeUDPFrameBytes wr w1 (drop (nat n) p) = (None, w')"
      by (metis diff_less length_drop length_greater_0_conv zero_less_nat_eq)
    with step n le False have "writeUDPFrameBytes wr w p = (None, w')"
      by (simp add: writeUDPFrameBytes.simps [of wr w p])
    then show ?thesis using frame_bytes_ok by blast
  qed
qed

end

interpretation buf: reliable_writer buffer_write "\<lambda>w. w"
  by unfold_locales (auto simp: buffer_write_def)

section \<open>Self-delimiting encodings\<close>

text \<open>
  An encoding on a stream: decoding the encoding of an admissible value followed by
  anything returns the value and leaves the rest, and only encodings decode.
\<close>

locale frame_codec =
  fixes enc :: "'a \<Rightarrow> bytes"
    and dec :: "bytes \<Rightarrow> 'e + 'a \<times> bytes"
    and ok :: "'a \<Rightarrow> bool"
  assumes dec_enc: "ok a \<Longrightarrow> dec (enc a @ r) = Inr (a, r)"
    and dec_sound: "dec bs = Inr (a, r) \<Longrightarrow> ok a \<and> bs = enc a @ r"
    and enc_nonempty: "ok a \<Longrightarrow> enc a \<noteq> []"
begin

lemma prefix_free:
  "ok a \<Longrightarrow> ok b \<Longrightarrow> enc a @ r = enc b @ s \<Longrightarrow> a = b \<and> r = s"
  by (metis dec_enc Inr_inject prod.inject)

lemma enc_inject: "ok a \<Longrightarrow> ok b \<Longrightarrow> enc a = enc b \<Longrightarrow> a = b"
  using prefix_free [of a b "[]" "[]"] by simp

lemma concat_inject:
  "list_all ok as \<Longrightarrow> list_all ok bs \<Longrightarrow> concat (map enc as) = concat (map enc bs) \<Longrightarrow> as = bs"
proof (induction as arbitrary: bs)
  case Nil
  then show ?case by (cases bs) (auto simp: enc_nonempty)
next
  case (Cons a as)
  then obtain b bs' where bs: "bs = b # bs'" by (cases bs) (auto simp: enc_nonempty)
  with Cons.prems have "a = b \<and> concat (map enc as) = concat (map enc bs')"
    by (intro prefix_free) auto
  with Cons bs show ?case by auto
qed

end

definition udp_frame :: "bytes \<Rightarrow> bytes" where
  "udp_frame payload = put_uint16 (of_nat (length payload)) @ payload"

definition frame_ok :: "bytes \<Rightarrow> bool" where
  "frame_ok payload \<longleftrightarrow> length payload \<le> MaxUDPPayload"

lemma unat_frame_len: "n \<le> MaxUDPPayload \<Longrightarrow> unat (of_nat n :: u16) = n"
  by (simp only: unat_of_nat) (simp add: MaxUDPPayload_def)

lemma ReadUDPFrame_frame: "frame_ok p \<Longrightarrow> ReadUDPFrame (udp_frame p @ r) = Inr (p, r)"
  by (simp add: ReadUDPFrame_def udp_frame_def frame_ok_def unat_frame_len)

lemma ReadUDPFrame_sound:
  assumes "ReadUDPFrame bs = Inr (p, r)"
  shows "frame_ok p \<and> bs = udp_frame p @ r"
proof -
  from assms obtain lb r1 where hd: "read_full 2 bs = Inr (lb, r1)"
    and le: "unat (get_uint16 lb) \<le> MaxUDPPayload"
    and pl: "read_full (unat (get_uint16 lb)) r1 = Inr (p, r)"
    by (auto simp: ReadUDPFrame_def Let_def split: sum.splits if_splits)
  from read_full_InrD [OF hd] read_full_InrD [OF pl]
  have "bs = lb @ p @ r" "length lb = 2" "length p = unat (get_uint16 lb)" by auto
  moreover from this have "put_uint16 (of_nat (length p)) = lb"
    by (simp add: put_get_uint16)
  ultimately show ?thesis using le by (simp add: udp_frame_def frame_ok_def)
qed

interpretation uf: frame_codec udp_frame ReadUDPFrame frame_ok
proof
  show "frame_ok a \<Longrightarrow> ReadUDPFrame (udp_frame a @ r) = Inr (a, r)" for a r
    by (rule ReadUDPFrame_frame)
  show "ReadUDPFrame bs = Inr (a, r) \<Longrightarrow> frame_ok a \<and> bs = udp_frame a @ r" for bs a r
    by (rule ReadUDPFrame_sound)
  show "frame_ok a \<Longrightarrow> udp_frame a \<noteq> []" for a
    by (simp add: udp_frame_def put_uint16_def)
qed

section \<open>The relay loops\<close>

text \<open>A datagram socket that accepts every write and keeps the datagrams in order.\<close>

definition collect :: "bytes list \<Rightarrow> bytes \<Rightarrow> io_error option \<times> bytes list" where
  "collect u p = (None, u @ [p])"

lemma WriteUDPFrame_buffer:
  "frame_ok p \<Longrightarrow> WriteUDPFrame buffer_write None w p = (None, w @ udp_frame p)"
proof -
  assume "frame_ok p"
  moreover have "writeUDPFrameBytes buffer_write w q = (None, w @ q)" for w q
    using buf.frame_bytes_total [of w q] by auto
  ultimately show ?thesis
    by (simp add: WriteUDPFrame_def frame_ok_def udp_frame_def)
qed

lemma frame_ok_take [simp]: "frame_ok (take MaxUDPPayload d)"
  by (simp add: frame_ok_def)

lemma udpToStream_buffer:
  "udpToStream buffer_write None w ds n =
     (None, w @ concat (map (udp_frame \<circ> take MaxUDPPayload) ds),
      n + (\<Sum>d \<leftarrow> ds. length (take MaxUDPPayload d)))"
  by (induction ds arbitrary: w n) (auto simp: WriteUDPFrame_buffer Let_def)

lemma streamToUDP_frame:
  "frame_ok p \<Longrightarrow> streamToUDP collect u (udp_frame p @ r) n =
     streamToUDP collect (u @ [p]) r (n + length p)"
  by (subst streamToUDP.simps) (simp add: ReadUDPFrame_frame collect_def)

lemma streamToUDP_frames:
  "list_all frame_ok ps \<Longrightarrow> streamToUDP collect u (concat (map udp_frame ps) @ r) n =
     streamToUDP collect (u @ ps) r (n + (\<Sum>p \<leftarrow> ps. length p))"
  by (induction ps arbitrary: u n) (auto simp: streamToUDP_frame add.assoc)

lemma streamToUDP_end: "ReadUDPFrame r = Inl e \<Longrightarrow> streamToUDP uw u r n = (u, n)"
  by (subst streamToUDP.simps) simp

lemma ReadUDPFrame_Nil: "ReadUDPFrame [] = Inl (FrameIo EOF)"
  by (simp add: ReadUDPFrame_def read_full_def)

text \<open>
  C19 (round trip). What one relay frames onto the stream, the relay at the other end
  delivers: the same datagrams in the same order (each cut to the 65507-byte read buffer,
  as the socket read does), and both sides account the same number of payload bytes.
\<close>

theorem udp_relay_end_to_end:
  "\<exists>s n. udpToStream buffer_write None [] ds 0 = (None, s, n) \<and>
         streamToUDP collect [] s 0 = (map (take MaxUDPPayload) ds, n) \<and>
         n = (\<Sum>d \<leftarrow> ds. min (length d) MaxUDPPayload)"
proof -
  let ?ps = "map (take MaxUDPPayload) ds"
  have "list_all frame_ok ?ps" by (simp add: list_all_iff)
  from streamToUDP_frames [OF this, of "[]" "[]" 0]
  have "streamToUDP collect [] (concat (map udp_frame ?ps)) 0 =
      (?ps, \<Sum>p \<leftarrow> ?ps. length p)"
    by (simp add: streamToUDP_end [OF ReadUDPFrame_Nil])
  then show ?thesis
    by (simp add: udpToStream_buffer o_def)
qed


text \<open>
  C23 (error paths). Over any writer that keeps the \<open>io.Writer\<close> contract, short writes
  included, a frame write that reports success has put the length prefix and the whole
  payload on the stream, so that reading it back returns the payload; a failed one has
  written a prefix of that frame and nothing else.
\<close>

theorem WriteUDPFrame_contract:
  assumes "byte_writer wr written" and "WriteUDPFrame wr None w p = (res, w')"
  shows "\<exists>k. written w' = written w @ take k (udp_frame p) \<and>
     (res = None \<longrightarrow> written w' = written w @ udp_frame p \<and>
        ReadUDPFrame (udp_frame p @ r) = Inr (p, r))"
proof (cases "length p > MaxUDPPayload")
  case True
  with assms(2) show ?thesis by (auto simp: WriteUDPFrame_def)
next
  case False
  let ?h = "put_uint16 (of_nat (length p))"
  obtain res1 w1 where one: "writeUDPFrameBytes wr w ?h = (res1, w1)" by fastforce
  from byte_writer.frame_bytes_written [OF assms(1) one] obtain k where
    k: "k \<le> length ?h" "written w1 = written w @ take k ?h" "res1 = None \<longrightarrow> k = length ?h"
    by blast
  show ?thesis
  proof (cases res1)
    case (Some e)
    with assms(2) one False k show ?thesis
      by (auto simp: WriteUDPFrame_def udp_frame_def intro!: exI [of _ k])
  next
    case None
    with assms(2) one False have two: "writeUDPFrameBytes wr w1 p = (res, w')"
      by (simp add: WriteUDPFrame_def)
    from byte_writer.frame_bytes_written [OF assms(1) two] obtain j where
      j: "written w' = written w1 @ take j p" "res = None \<longrightarrow> j = length p" by blast
    from False have "ReadUDPFrame (udp_frame p @ r) = Inr (p, r)"
      by (intro ReadUDPFrame_frame) (simp add: frame_ok_def)
    with j k None show ?thesis
      by (auto simp: udp_frame_def intro!: exI [of _ "length ?h + j"])
  qed
qed

theorem WriteUDPFrame_contract_witness:
  "WriteUDPFrame buffer_write None [] [1, 2] = (None, [0, 2, 1, 2]) \<and>
   (\<exists>k. [0, 2, 1, 2] = [] @ take k (udp_frame [1, 2])) \<and>
   ReadUDPFrame (udp_frame [1, 2] @ [7]) = Inr ([1, 2], [7])"
proof -
  have w: "WriteUDPFrame buffer_write None [] [1, 2] = (None, [0, 2, 1, 2])"
    by (simp add: WriteUDPFrame_buffer frame_ok_def MaxUDPPayload_def udp_frame_def put_uint16_def)
  with WriteUDPFrame_contract [OF buf.byte_writer_axioms w, of "[7]"] show ?thesis by auto
qed

end
