(* ===== verification/Data_Channel.thy ===== *)
theory Data_Channel
  imports Udp_Frame
begin

text \<open>
  \<open>pkg/protocol/data_channel.go\<close> (the handshake payload that opens a data channel) and
  \<open>pkg/protocol/stream_header.go\<close> (the versioned header at the start of every data
  stream; \<open>pkg/mux/data_stream_header.go\<close> re-exports it). Package \<open>encoding/json\<close>
  is the parameters \<open>marshal\<close>, \<open>unmarshal\<close> and \<open>at_eof\<close>: the encoder, the decoder of
  one value with the bytes it left over, and whether those hold no further value.
\<close>

section \<open>The data handshake\<close>

definition DataHandshakeMaxClientIDLen :: nat where
  "DataHandshakeMaxClientIDLen = 1024"

definition DataHandshakeMaxTokenLen :: nat where
  "DataHandshakeMaxTokenLen = 256"

definition MaxDataHandshakePayloadLen :: nat where
  "MaxDataHandshakePayloadLen =
     2 + DataHandshakeMaxClientIDLen + 2 + DataHandshakeMaxTokenLen"

datatype handshake_error =
    HsTooShort | HsTooLarge | HsInvalidClientIDLength | HsTruncatedBeforeToken
  | HsInvalidTokenLength | HsLengthMismatch

definition EncodeDataHandshake :: "string \<Rightarrow> string \<Rightarrow> bytes" where
  "EncodeDataHandshake clientID dataToken =
     put_uint16 (of_nat (length clientID)) @ bytes_of clientID @
     put_uint16 (of_nat (length dataToken)) @ bytes_of dataToken"

definition DecodeDataHandshake :: "bytes \<Rightarrow> handshake_error + string \<times> string" where
  "DecodeDataHandshake payload =
     (if length payload < 4 then Inl HsTooShort
      else if length payload > MaxDataHandshakePayloadLen then Inl HsTooLarge
      else let clientIDLen = unat (get_uint16 (take 2 payload)) in
        if clientIDLen = 0 \<or> clientIDLen > DataHandshakeMaxClientIDLen
        then Inl HsInvalidClientIDLength
        else let offset = 2 + clientIDLen in
          if length payload < offset + 2 then Inl HsTruncatedBeforeToken
          else let clientID = string_of (take clientIDLen (drop 2 payload));
                   tokenLen = unat (get_uint16 (take 2 (drop offset payload))) in
            if tokenLen = 0 \<or> tokenLen > DataHandshakeMaxTokenLen
            then Inl HsInvalidTokenLength
            else if length payload \<noteq> offset + 2 + tokenLen then Inl HsLengthMismatch
            else Inr (clientID, string_of (drop (offset + 2) payload)))"

definition handshake_ok :: "string \<Rightarrow> string \<Rightarrow> bool" where
  "handshake_ok c t \<longleftrightarrow> 0 < length c \<and> length c \<le> DataHandshakeMaxClientIDLen \<and>
     0 < length t \<and> length t \<le> DataHandshakeMaxTokenLen"

section \<open>The data stream header\<close>

record DataStreamHeader =
  Kind :: string
  TunnelID :: string
  Revision :: int
  StreamID :: string
  OpenClientID :: string
  SourceRole :: string
  TargetRole :: string
  Direction :: string
  Transport :: string
  OpenToken :: string
  ServerAuthorized :: bool
  TargetHost :: string
  TargetPort :: int
  TargetAddrType :: string
  OriginalHost :: string

abbreviation "DataStreamHeaderMaxLen \<equiv> 16384 :: nat"
abbreviation "DataStreamHeaderMaxStringLen \<equiv> 1024 :: nat"
abbreviation "DataStreamHeaderMaxTokenLen \<equiv> 4096 :: nat"

abbreviation "DataStreamRoleServer \<equiv> ''server''"
abbreviation "DataStreamRoleIngress \<equiv> ''ingress''"
abbreviation "DataStreamRoleTarget \<equiv> ''target''"
abbreviation "DataStreamDirectionIngressToTarget \<equiv> ''ingress_to_target''"
abbreviation "ActualTransportServerRelay \<equiv> ''server_relay''"
abbreviation "ActualTransportPeerDirect \<equiv> ''peer_direct''"
abbreviation "ActualTransportTURNRelay \<equiv> ''turn_relay''"

datatype header_error =
    UnsupportedKind | RequiredField string | NonPositiveRevision | UnsupportedTransport
  | UnsupportedDirection | OpenTokenRequired | FieldTooLong string | UnsupportedRole string
  | RoleInvalidForDirection string | PortOutOfRange | UnsupportedAddrType
  | HeaderIo io_error | InvalidMagic | UnsupportedVersion u8 | InvalidLength nat
  | NotUTF8 | JsonError string | TrailingData

definition isKnownDataStreamRole :: "string \<Rightarrow> bool" where
  "isKnownDataStreamRole role \<longleftrightarrow>
     role = DataStreamRoleServer \<or> role = DataStreamRoleIngress \<or> role = DataStreamRoleTarget"

definition header_length_checks :: "DataStreamHeader \<Rightarrow> (bool \<times> header_error) list" where
  "header_length_checks h = map (\<lambda>(name, value, limit). (length value > limit, FieldTooLong name))
     [(''tunnel_id'', TunnelID h, DataStreamHeaderMaxStringLen),
      (''stream_id'', StreamID h, DataStreamHeaderMaxStringLen),
      (''open_client_id'', OpenClientID h, DataStreamHeaderMaxStringLen),
      (''source_role'', SourceRole h, DataStreamHeaderMaxStringLen),
      (''target_role'', TargetRole h, DataStreamHeaderMaxStringLen),
      (''direction'', Direction h, DataStreamHeaderMaxStringLen),
      (''transport'', Transport h, DataStreamHeaderMaxStringLen),
      (''open_token'', OpenToken h, DataStreamHeaderMaxTokenLen),
      (''target_host'', TargetHost h, DataStreamHeaderMaxStringLen),
      (''target_addr_type'', TargetAddrType h, DataStreamHeaderMaxStringLen),
      (''original_host'', OriginalHost h, DataStreamHeaderMaxStringLen)]"

definition ValidateDataStreamHeader :: "DataStreamHeader \<Rightarrow> header_error option" where
  "ValidateDataStreamHeader h = first_error (
     [(Kind h \<noteq> ''tunnel_stream'', UnsupportedKind),
      (TunnelID h = [], RequiredField ''tunnel_id''),
      (Revision h \<le> 0, NonPositiveRevision),
      (StreamID h = [], RequiredField ''stream_id''),
      (OpenClientID h = [], RequiredField ''open_client_id''),
      (Direction h = [], RequiredField ''direction''),
      (Transport h = [], RequiredField ''transport''),
      (Transport h \<noteq> ActualTransportServerRelay \<and> Transport h \<noteq> ActualTransportPeerDirect \<and>
         Transport h \<noteq> ActualTransportTURNRelay, UnsupportedTransport),
      (Direction h \<noteq> DataStreamDirectionIngressToTarget, UnsupportedDirection),
      (\<not> ServerAuthorized h \<and> OpenToken h = [], OpenTokenRequired)] @
     header_length_checks h @
     [(SourceRole h = [], RequiredField ''source_role''),
      (\<not> isKnownDataStreamRole (SourceRole h), UnsupportedRole (SourceRole h)),
      (TargetRole h = [], RequiredField ''target_role''),
      (\<not> isKnownDataStreamRole (TargetRole h), UnsupportedRole (TargetRole h)),
      (Direction h = DataStreamDirectionIngressToTarget \<and>
         SourceRole h \<noteq> DataStreamRoleServer \<and> SourceRole h \<noteq> DataStreamRoleIngress,
       RoleInvalidForDirection (SourceRole h)),
      (Direction h = DataStreamDirectionIngressToTarget \<and> TargetRole h \<noteq> DataStreamRoleTarget,
       RoleInvalidForDirection (TargetRole h)),
      (TargetPort h < 0 \<or> TargetPort h > 65535, PortOutOfRange),
      (TargetAddrType h \<noteq> [] \<and> TargetAddrType h \<noteq> ''ipv4'' \<and> TargetAddrType h \<noteq> ''domain'' \<and>
         TargetAddrType h \<noteq> ''ipv6'', UnsupportedAddrType)])"

definition DataStreamHeaderMagic :: bytes where
  "DataStreamHeaderMagic = bytes_of ''NGDS''"

definition EncodeDataStreamHeader ::
  "(DataStreamHeader \<Rightarrow> string + bytes) \<Rightarrow> 'w writer \<Rightarrow> 'w \<Rightarrow> DataStreamHeader \<Rightarrow>
     header_error option \<times> 'w" where
  "EncodeDataStreamHeader marshal wr w header =
     (case ValidateDataStreamHeader header of
        Some e \<Rightarrow> (Some e, w)
      | None \<Rightarrow> (case marshal header of
          Inl m \<Rightarrow> (Some (JsonError m), w)
        | Inr payload \<Rightarrow>
            if length payload = 0 \<or> length payload > DataStreamHeaderMaxLen
            then (Some (InvalidLength (length payload)), w)
            else (let prefix = DataStreamHeaderMagic @ [1] @ put_uint32 (of_nat (length payload)) in
              case wr w prefix of
                ((_, Some e), w1) \<Rightarrow> (Some (HeaderIo e), w1)
              | ((_, None), w1) \<Rightarrow> (case wr w1 payload of
                    ((_, Some e), w2) \<Rightarrow> (Some (HeaderIo e), w2)
                  | ((_, None), w2) \<Rightarrow> (None, w2)))))"

text \<open>
  \<open>utf8.Valid\<close>: each step consumes one well-formed encoding of a scalar value (no
  overlong forms, no surrogates, nothing above U+10FFFF).
\<close>

definition cont_byte :: "u8 \<Rightarrow> bool" where
  "cont_byte b \<longleftrightarrow> 0x80 \<le> b \<and> b \<le> 0xBF"

fun utf8_valid :: "bytes \<Rightarrow> bool" where
  "utf8_valid [] = True"
| "utf8_valid (a # bs) =
     (if a < 0x80 then utf8_valid bs
      else (case bs of
        [] \<Rightarrow> False
      | b # cs \<Rightarrow>
          if 0xC2 \<le> a \<and> a \<le> 0xDF then cont_byte b \<and> utf8_valid cs
          else (case cs of
            [] \<Rightarrow> False
          | c # ds \<Rightarrow>
              if 0xE0 \<le> a \<and> a \<le> 0xEF
              then cont_byte b \<and> cont_byte c \<and> (a = 0xE0 \<longrightarrow> 0xA0 \<le> b) \<and> (a = 0xED \<longrightarrow> b \<le> 0x9F) \<and>
                   utf8_valid ds
              else (case ds of
                [] \<Rightarrow> False
              | d # es \<Rightarrow>
                  0xF0 \<le> a \<and> a \<le> 0xF4 \<and> cont_byte b \<and> cont_byte c \<and> cont_byte d \<and>
                  (a = 0xF0 \<longrightarrow> 0x90 \<le> b) \<and> (a = 0xF4 \<longrightarrow> b \<le> 0x8F) \<and> utf8_valid es))))"

definition DecodeDataStreamHeader ::
  "(bytes \<Rightarrow> string + DataStreamHeader \<times> bytes) \<Rightarrow> (bytes \<Rightarrow> bool) \<Rightarrow> bytes \<Rightarrow>
     header_error + DataStreamHeader \<times> bytes" where
  "DecodeDataStreamHeader unmarshal at_eof r =
     (case read_full 9 r of
        Inl e \<Rightarrow> Inl (HeaderIo e)
      | Inr (prefix, r1) \<Rightarrow>
          if take 4 prefix \<noteq> DataStreamHeaderMagic then Inl InvalidMagic
          else if prefix ! 4 \<noteq> 1 then Inl (UnsupportedVersion (prefix ! 4))
          else (let n = unat (get_uint32 (drop 5 prefix)) in
            if n = 0 \<or> n > DataStreamHeaderMaxLen then Inl (InvalidLength n)
            else (case read_full n r1 of
                Inl e \<Rightarrow> Inl (HeaderIo e)
              | Inr (payload, r2) \<Rightarrow>
                  if \<not> utf8_valid payload then Inl NotUTF8
                  else (case unmarshal payload of
                      Inl m \<Rightarrow> Inl (JsonError m)
                    | Inr (header, left) \<Rightarrow>
                        if \<not> at_eof left then Inl TrailingData
                        else (case ValidateDataStreamHeader header of
                            Some e \<Rightarrow> Inl e
                          | None \<Rightarrow> Inr (header, r2))))))"

section \<open>Handshake lemmas\<close>

lemmas handshake_bounds = DataHandshakeMaxClientIDLen_def DataHandshakeMaxTokenLen_def
  MaxDataHandshakePayloadLen_def

lemma unat_handshake_len:
  "handshake_ok c t \<Longrightarrow> unat (of_nat (length c) :: u16) = length c \<and>
     unat (of_nat (length t) :: u16) = length t"
  by (auto simp: handshake_ok_def handshake_bounds intro!: unat_of_nat_small)

lemma decode_encode_handshake:
  "handshake_ok c t \<Longrightarrow> DecodeDataHandshake (EncodeDataHandshake c t) = Inr (c, t)"
  using unat_handshake_len [of c t]
  by (auto simp: DecodeDataHandshake_def EncodeDataHandshake_def handshake_ok_def handshake_bounds)

lemma decode_handshake_sound:
  assumes "DecodeDataHandshake p = Inr (c, t)"
  shows "handshake_ok c t \<and> p = EncodeDataHandshake c t"
proof -
  define n where "n = unat (get_uint16 (take 2 p))"
  define m where "m = unat (get_uint16 (take 2 (drop (2 + n) p)))"
  note dec = assms [unfolded DecodeDataHandshake_def Let_def, folded n_def, folded m_def]
  from dec have len: "length p = 2 + n + 2 + m" and n: "n \<noteq> 0" and m: "m \<noteq> 0"
    and nb: "n \<le> DataHandshakeMaxClientIDLen" and mb: "m \<le> DataHandshakeMaxTokenLen"
    and c: "c = string_of (take n (drop 2 p))" and t: "t = string_of (drop (2 + n + 2) p)"
    by (simp_all split: if_split_asm)
  have lc: "length c = n" and lt: "length t = m" using len by (simp_all add: c t)
  have h1: "put_uint16 (of_nat n) = take 2 p"
    unfolding n_def of_nat_unat ucast_id by (rule put_get_uint16) (simp add: len)
  have h2: "put_uint16 (of_nat m) = take 2 (drop (2 + n) p)"
    unfolding m_def of_nat_unat ucast_id by (rule put_get_uint16) (simp add: len)
  have "p = take 2 p @ take n (drop 2 p) @ take 2 (drop (2 + n) p) @ drop (2 + n + 2) p"
    by (rule split_four)
  then have "p = EncodeDataHandshake c t"
    unfolding EncodeDataHandshake_def lc lt h1 h2 by (simp add: c t)
  with lc lt n m nb mb show ?thesis by (simp add: handshake_ok_def)
qed

text \<open>
  C20 (round trip). The handshake decoder accepts exactly the encodings of admissible pairs:
  a payload decodes to a client id and token if and only if it is the encoding of that pair
  and both lengths are within their limits. So two different admissible pairs never share a
  payload, and no payload is accepted in a second, non-canonical form.
\<close>

theorem DecodeDataHandshake_exact:
  "DecodeDataHandshake p = Inr (c, t) \<longleftrightarrow> handshake_ok c t \<and> p = EncodeDataHandshake c t"
  using decode_encode_handshake decode_handshake_sound by blast

section \<open>Stream header lemmas\<close>

lemma validate_header_None:
  "ValidateDataStreamHeader h = None \<Longrightarrow>
     Kind h = ''tunnel_stream'' \<and> TunnelID h \<noteq> [] \<and> 0 < Revision h \<and> StreamID h \<noteq> [] \<and>
     OpenClientID h \<noteq> [] \<and> Direction h = DataStreamDirectionIngressToTarget \<and>
     Transport h \<in> {ActualTransportServerRelay, ActualTransportPeerDirect, ActualTransportTURNRelay} \<and>
     SourceRole h \<in> {DataStreamRoleServer, DataStreamRoleIngress} \<and>
     TargetRole h = DataStreamRoleTarget \<and> (ServerAuthorized h \<or> OpenToken h \<noteq> []) \<and>
     length (TunnelID h) \<le> DataStreamHeaderMaxStringLen \<and>
     length (OpenToken h) \<le> DataStreamHeaderMaxTokenLen \<and>
     0 \<le> TargetPort h \<and> TargetPort h \<le> 65535 \<and>
     TargetAddrType h \<in> {[], ''ipv4'', ''domain'', ''ipv6''}"
  unfolding ValidateDataStreamHeader_def first_error_None_iff header_length_checks_def
  by (simp add: not_less)

lemma length_header_prefix [codec_simps]:
  "length (DataStreamHeaderMagic @ [1] @ put_uint32 n) = 9"
  by (simp add: DataStreamHeaderMagic_def codec_simps)

lemma decode_header_prefix:
  assumes "0 < length payload" and "length payload \<le> DataStreamHeaderMaxLen"
    and "utf8_valid payload" and "unmarshal payload = Inr (h, left)" and "at_eof left"
    and "ValidateDataStreamHeader h = None"
  shows "DecodeDataStreamHeader unmarshal at_eof
     (DataStreamHeaderMagic @ [1] @ put_uint32 (of_nat (length payload)) @ payload @ rest)
     = Inr (h, rest)"
proof -
  define pre where "pre = DataStreamHeaderMagic @ [1] @ put_uint32 (of_nat (length payload))"
  have read: "read_full 9 (pre @ payload @ rest) = Inr (pre, payload @ rest)"
    unfolding pre_def by (rule read_full_append) (rule length_header_prefix)
  have four: "length DataStreamHeaderMagic = 4" by (simp add: DataStreamHeaderMagic_def)
  have parts: "take 4 pre = DataStreamHeaderMagic" "pre ! 4 = 1"
    "drop 5 pre = put_uint32 (of_nat (length payload))"
    using four by (simp_all add: pre_def nth_append)
  have n: "unat (of_nat (length payload) :: u32) = length payload"
    using assms(2) by (intro unat_of_nat_small) simp
  have "DecodeDataStreamHeader unmarshal at_eof (pre @ payload @ rest) = Inr (h, rest)"
    using assms by (simp add: DecodeDataStreamHeader_def read parts n)
  then show ?thesis by (simp add: pre_def)
qed

text \<open>
  C24 (round trip). A header the encoder accepts onto a stream is the header the decoder at
  the other end reads, with the bytes after it left in place, provided the JSON package
  decodes what it encoded (\<open>json_rt\<close>) and emits valid UTF-8 (\<open>json_utf8\<close>).
\<close>

theorem DataStreamHeader_roundtrip:
  assumes json_ok: "marshal h = Inr payload"
    and json_rt: "unmarshal payload = Inr (h, left)" "at_eof left"
    and json_utf8: "utf8_valid payload"
    and enc: "EncodeDataStreamHeader marshal buffer_write w h = (None, w')"
  shows "\<exists>hdr. w' = w @ hdr \<and>
     DecodeDataStreamHeader unmarshal at_eof (hdr @ rest) = Inr (h, rest)"
proof -
  from enc json_ok have v: "ValidateDataStreamHeader h = None"
    and len: "0 < length payload" "length payload \<le> DataStreamHeaderMaxLen"
    by (auto simp: EncodeDataStreamHeader_def Let_def split: option.splits if_splits)
  with enc json_ok have
    "w' = w @ DataStreamHeaderMagic @ [1] @ put_uint32 (of_nat (length payload)) @ payload"
    by (auto simp: EncodeDataStreamHeader_def buffer_write_def Let_def)
  moreover have "DecodeDataStreamHeader unmarshal at_eof (DataStreamHeaderMagic @ [1] @
      put_uint32 (of_nat (length payload)) @ payload @ rest) = Inr (h, rest)"
    using len json_utf8 json_rt v by (rule decode_header_prefix)
  ultimately show ?thesis by auto
qed

definition sample_header :: DataStreamHeader where
  "sample_header = \<lparr>Kind = ''tunnel_stream'', TunnelID = ''t1'', Revision = 3, StreamID = ''s1'',
     OpenClientID = ''c1'', SourceRole = ''ingress'', TargetRole = ''target'',
     Direction = ''ingress_to_target'', Transport = ''server_relay'', OpenToken = ''tok'',
     ServerAuthorized = False, TargetHost = [], TargetPort = 0, TargetAddrType = [],
     OriginalHost = []\<rparr>"

lemma sample_header_valid: "ValidateDataStreamHeader sample_header = None"
  by (simp add: sample_header_def ValidateDataStreamHeader_def header_length_checks_def
      isKnownDataStreamRole_def)

theorem DataStreamHeader_roundtrip_witness:
  "EncodeDataStreamHeader (\<lambda>h. Inr (bytes_of (StreamID h))) buffer_write [] sample_header =
     (None, [78, 71, 68, 83, 1, 0, 0, 0, 2, 115, 49]) \<and>
   DecodeDataStreamHeader (\<lambda>p. Inr (sample_header\<lparr>StreamID := string_of p\<rparr>, []))
     (\<lambda>l. l = []) [78, 71, 68, 83, 1, 0, 0, 0, 2, 115, 49, 5] = Inr (sample_header, [5])"
proof -
  let ?m = "\<lambda>h. Inr (bytes_of (StreamID h)) :: string + bytes"
  let ?u = "\<lambda>p. Inr (sample_header\<lparr>StreamID := string_of p\<rparr>, []) :: string + DataStreamHeader \<times> bytes"
  have pay: "?m sample_header = Inr [115, 49]"
    by (simp add: sample_header_def bytes_of_def)
  have enc: "EncodeDataStreamHeader ?m buffer_write [] sample_header =
      (None, [78, 71, 68, 83, 1, 0, 0, 0, 2, 115, 49])"
    unfolding EncodeDataStreamHeader_def sample_header_valid option.case pay sum.case
    by (simp add: buffer_write_def DataStreamHeaderMagic_def bytes_of_def put_uint32_def Let_def)
  have dec1: "?u [115, 49] = Inr (sample_header, [])"
  proof -
    have b: "[115, 49] = bytes_of ''s1''" by (simp add: bytes_of_def)
    show ?thesis unfolding b by (simp add: sample_header_def)
  qed
  obtain hdr where "[78, 71, 68, 83, 1, 0, 0, 0, 2, 115, 49] = [] @ hdr"
    "DecodeDataStreamHeader ?u (\<lambda>l. l = []) (hdr @ [5]) = Inr (sample_header, [5])"
    using DataStreamHeader_roundtrip [where marshal = ?m and unmarshal = ?u and
        at_eof = "\<lambda>l. l = []" and rest = "[5]", OF pay dec1 _ _ enc]
    by auto
  with enc show ?thesis by auto
qed



end
