(* ===== verification/P2P_Protocol.thy ===== *)
theory P2P_Protocol
  imports Data_Channel
begin

text \<open>
  The messages of the peer-to-peer control protocol and their validation, from
  \<open>pkg/protocol/p2p.go\<close>. Sequence numbers and byte counters are 64-bit words; each
  \<open>Validate\<close> is the chain of the checks of the source in their order, and returns the
  first error.
\<close>

abbreviation "P2PSignalOffer \<equiv> ''offer''"
abbreviation "P2PSignalAnswer \<equiv> ''answer''"
abbreviation "P2PSignalCandidate \<equiv> ''candidate''"
abbreviation "P2PRoleOfferer \<equiv> ''offerer''"
abbreviation "P2PRoleAnswerer \<equiv> ''answerer''"
abbreviation "P2PMaxSessionIDLen \<equiv> 128 :: nat"
abbreviation "P2PMaxClientIDLen \<equiv> 1024 :: nat"
abbreviation "P2PMaxSDPLen \<equiv> 262144 :: nat"
abbreviation "P2PMaxCandidateLen \<equiv> 16384 :: nat"
abbreviation "P2PMaxMIDLen \<equiv> 256 :: nat"
abbreviation "P2PMaxStatusErrorLen \<equiv> 4096 :: nat"
abbreviation "P2PMaxGrants \<equiv> 4096 :: nat"
abbreviation "P2PMaxCandidates \<equiv> 256 :: nat"
abbreviation "P2PStateConnected \<equiv> ''connected''"
abbreviation "P2PStateFailed \<equiv> ''failed''"
abbreviation "P2PStateClosed \<equiv> ''closed''"

datatype p2p_error =
    P2PRequired string | P2PTooLong string | P2PNotPositive string | P2PNegativeBPS
  | P2PUnsupportedState string | P2PUnsupportedRole string | P2PUnsupportedKind string
  | P2PInvalidRoles string string | P2PExpired string | P2PTooManyGrants | P2PGrantSessionMismatch
  | P2PInvalidDescription | P2PCandidateNotAllowed | P2PInvalidCandidate | P2PSdpNotAllowed
  | P2PInvalidSpec | P2POwnerIncomplete | P2PIdFailed | P2PUnknownSession | P2PUnknownGrant
  | P2PSenderMismatch | P2PStale | P2PEpochChanged | P2PDecreased | P2PRoleMismatch
  | P2PCandidateLimit | P2PCandidateRate | P2PClientClosed

section \<open>Messages\<close>

record P2PTunnelGrant =
  tg_SessionID :: string
  tg_GrantID :: string
  tg_TunnelID :: string
  tg_Revision :: int
  tg_LocalRole :: string
  tg_PeerRole :: string
  tg_LeaseSequence :: u64
  tg_ExpiresAt :: gotime
  tg_TotalBPS :: int

record P2PSessionPrepare =
  pr_SessionID :: string
  pr_PeerClientID :: string
  pr_Role :: string
  pr_LocalGeneration :: u64
  pr_PeerGeneration :: u64
  pr_LeaseSequence :: u64
  pr_ExpiresAt :: gotime
  pr_ICEServers :: "string list list"
  pr_Grants :: "P2PTunnelGrant list"

record P2PSignal =
  sg_SessionID :: string
  sg_Sequence :: u64
  sg_Kind :: string
  sg_SDP :: string
  sg_Candidate :: string
  sg_SDPMid :: string
  sg_MLine :: u16

record P2PSessionStatus =
  ss_SessionID :: string
  ss_Sequence :: u64
  ss_State :: string
  ss_Error :: string

record P2PLease =
  ls_SessionID :: string
  ls_Sequence :: u64
  ls_ExpiresAt :: gotime

record P2PTunnelRevoke =
  rv_SessionID :: string
  rv_GrantID :: string
  rv_TunnelID :: string
  rv_Revision :: int
  rv_Reason :: string

record P2PStatsReport =
  sr_SessionID :: string
  sr_GrantID :: string
  sr_TunnelID :: string
  sr_Revision :: int
  sr_Epoch :: string
  sr_Sequence :: u64
  sr_IngressBytes :: u64
  sr_EgressBytes :: u64

record P2PCreditDemand =
  cd_SessionID :: string
  cd_GrantID :: string
  cd_TunnelID :: string
  cd_Revision :: int
  cd_Sequence :: u64
  cd_DesiredBytes :: u64

record P2PCreditGrant =
  cg_SessionID :: string
  cg_GrantID :: string
  cg_TunnelID :: string
  cg_Revision :: int
  cg_Sequence :: u64
  cg_GrantedBytes :: u64

section \<open>Validation\<close>

text \<open>A chain of checks: the first error of the first failing one.\<close>

fun check_all :: "p2p_error option list \<Rightarrow> p2p_error option" where
  "check_all [] = None"
| "check_all (None # cs) = check_all cs"
| "check_all (Some e # cs) = Some e"

lemma check_all_None_iff: "check_all cs = None \<longleftrightarrow> (\<forall>c \<in> set cs. c = None)"
  by (induction cs rule: check_all.induct) auto

definition fail_if :: "bool \<Rightarrow> p2p_error \<Rightarrow> p2p_error option" where
  "fail_if b e = (if b then Some e else None)"

lemma fail_if_None [simp]: "fail_if b e = None \<longleftrightarrow> \<not> b"
  by (simp add: fail_if_def)

definition validateP2PIdentity :: "string \<Rightarrow> string \<Rightarrow> nat \<Rightarrow> p2p_error option" where
  "validateP2PIdentity name v limit =
     check_all [fail_if (trim_space v = []) (P2PRequired name), fail_if (length v > limit) (P2PTooLong name)]"

definition isP2PTunnelRole :: "string \<Rightarrow> bool" where
  "isP2PTunnelRole role \<longleftrightarrow> role = DataStreamRoleIngress \<or> role = DataStreamRoleTarget"

definition SessionStatus_Validate :: "P2PSessionStatus \<Rightarrow> p2p_error option" where
  "SessionStatus_Validate s = check_all
     [validateP2PIdentity ''session_id'' (ss_SessionID s) P2PMaxSessionIDLen,
      fail_if (ss_Sequence s = 0) (P2PNotPositive ''sequence''),
      fail_if (ss_State s \<noteq> P2PStateConnected \<and> ss_State s \<noteq> P2PStateFailed \<and> ss_State s \<noteq> P2PStateClosed)
        (P2PUnsupportedState (ss_State s)),
      fail_if (length (ss_Error s) > P2PMaxStatusErrorLen) (P2PTooLong ''error'')]"

definition validateP2PCreditIdentity :: "string \<Rightarrow> string \<Rightarrow> string \<Rightarrow> int \<Rightarrow> u64 \<Rightarrow> p2p_error option" where
  "validateP2PCreditIdentity sessionID grantID tunnelID revision sequence = check_all
     [validateP2PIdentity ''session_id'' sessionID P2PMaxSessionIDLen,
      validateP2PIdentity ''grant_id'' grantID P2PMaxSessionIDLen,
      validateP2PIdentity ''tunnel_id'' tunnelID DataStreamHeaderMaxStringLen,
      fail_if (revision \<le> 0) (P2PNotPositive ''revision''),
      fail_if (sequence = 0) (P2PNotPositive ''sequence'')]"

definition CreditDemand_Validate :: "P2PCreditDemand \<Rightarrow> p2p_error option" where
  "CreditDemand_Validate d = check_all
     [validateP2PCreditIdentity (cd_SessionID d) (cd_GrantID d) (cd_TunnelID d) (cd_Revision d) (cd_Sequence d),
      fail_if (cd_DesiredBytes d = 0) (P2PNotPositive ''desired_bytes'')]"

definition CreditGrant_Validate :: "P2PCreditGrant \<Rightarrow> p2p_error option" where
  "CreditGrant_Validate g = check_all
     [validateP2PCreditIdentity (cg_SessionID g) (cg_GrantID g) (cg_TunnelID g) (cg_Revision g) (cg_Sequence g),
      fail_if (cg_GrantedBytes g = 0) (P2PNotPositive ''granted_bytes'')]"

definition StatsReport_Validate :: "P2PStatsReport \<Rightarrow> p2p_error option" where
  "StatsReport_Validate r = check_all
     [validateP2PIdentity ''session_id'' (sr_SessionID r) P2PMaxSessionIDLen,
      validateP2PIdentity ''grant_id'' (sr_GrantID r) P2PMaxSessionIDLen,
      validateP2PIdentity ''tunnel_id'' (sr_TunnelID r) DataStreamHeaderMaxStringLen,
      validateP2PIdentity ''epoch'' (sr_Epoch r) P2PMaxSessionIDLen,
      fail_if (sr_Revision r \<le> 0) (P2PNotPositive ''revision''),
      fail_if (sr_Sequence r = 0) (P2PNotPositive ''sequence'')]"

definition TunnelGrant_Validate :: "gotime \<Rightarrow> P2PTunnelGrant \<Rightarrow> p2p_error option" where
  "TunnelGrant_Validate now g = check_all
     [validateP2PIdentity ''session_id'' (tg_SessionID g) P2PMaxSessionIDLen,
      validateP2PIdentity ''grant_id'' (tg_GrantID g) P2PMaxSessionIDLen,
      validateP2PIdentity ''tunnel_id'' (tg_TunnelID g) DataStreamHeaderMaxStringLen,
      fail_if (tg_Revision g \<le> 0) (P2PNotPositive ''revision''),
      fail_if (tg_LocalRole g = tg_PeerRole g \<or> \<not> isP2PTunnelRole (tg_LocalRole g) \<or>
               \<not> isP2PTunnelRole (tg_PeerRole g)) (P2PInvalidRoles (tg_LocalRole g) (tg_PeerRole g)),
      fail_if (tg_LeaseSequence g = 0) (P2PNotPositive ''lease_sequence''),
      fail_if (tg_TotalBPS g < 0) P2PNegativeBPS,
      fail_if (\<not> now < tg_ExpiresAt g) (P2PExpired ''grant'')]"

definition SessionPrepare_Validate :: "gotime \<Rightarrow> P2PSessionPrepare \<Rightarrow> p2p_error option" where
  "SessionPrepare_Validate now p = check_all (
     [validateP2PIdentity ''session_id'' (pr_SessionID p) P2PMaxSessionIDLen,
      validateP2PIdentity ''peer_client_id'' (pr_PeerClientID p) P2PMaxClientIDLen,
      fail_if (pr_Role p \<noteq> P2PRoleOfferer \<and> pr_Role p \<noteq> P2PRoleAnswerer) (P2PUnsupportedRole (pr_Role p)),
      fail_if (pr_LocalGeneration p = 0 \<or> pr_PeerGeneration p = 0) (P2PNotPositive ''generation''),
      fail_if (pr_LeaseSequence p = 0) (P2PNotPositive ''lease_sequence''),
      fail_if (\<not> now < pr_ExpiresAt p) (P2PExpired ''session''),
      fail_if (length (pr_Grants p) > P2PMaxGrants) P2PTooManyGrants] @
     concat (map (\<lambda>g. [TunnelGrant_Validate now g,
                       fail_if (tg_SessionID g \<noteq> pr_SessionID p) P2PGrantSessionMismatch]) (pr_Grants p)))"

definition Signal_Validate :: "P2PSignal \<Rightarrow> p2p_error option" where
  "Signal_Validate s = check_all (
     [validateP2PIdentity ''session_id'' (sg_SessionID s) P2PMaxSessionIDLen,
      fail_if (sg_Sequence s = 0) (P2PNotPositive ''sequence'')] @
     (if sg_Kind s = P2PSignalOffer \<or> sg_Kind s = P2PSignalAnswer then
        [fail_if (trim_space (sg_SDP s) = [] \<or> length (sg_SDP s) > P2PMaxSDPLen) P2PInvalidDescription,
         fail_if (sg_Candidate s \<noteq> []) P2PCandidateNotAllowed]
      else if sg_Kind s = P2PSignalCandidate then
        [fail_if (trim_space (sg_Candidate s) = [] \<or> length (sg_Candidate s) > P2PMaxCandidateLen) P2PInvalidCandidate,
         fail_if (length (sg_SDPMid s) > P2PMaxMIDLen) (P2PTooLong ''sdp_mid''),
         fail_if (sg_SDP s \<noteq> []) P2PSdpNotAllowed]
      else [Some (P2PUnsupportedKind (sg_Kind s))]))"

lemmas p2p_validate_defs = SessionStatus_Validate_def CreditDemand_Validate_def CreditGrant_Validate_def
  StatsReport_Validate_def TunnelGrant_Validate_def SessionPrepare_Validate_def Signal_Validate_def
  validateP2PCreditIdentity_def

end
