(* ===== verification/P2P_Coordinator.thy ===== *)
theory P2P_Coordinator
  imports P2P_Protocol "HOL-Library.AList"
begin

text \<open>
  The server's coordinator of peer-to-peer sessions (\<open>internal/server/p2p_coordinator.go\<close>,
  \<open>p2p_lifecycle.go\<close>): pair sessions with leases, tunnel grants, the authorisation of
  signals, statistics and credit messages, and the archive of closed grants for final
  statistics. Sessions live in \<open>byID\<close>; \<open>byPair\<close> holds the identity of the session
  instead of a second pointer to it. Maps the code iterates over are association lists whose order
  stands for the unspecified order of the iteration. Every operation runs under the
  coordinator's mutex; the clock reading of the operation and the random identities are
  arguments (\<open>None\<close> for a failing random source).
\<close>

section \<open>State\<close>

abbreviation p2pLeaseDuration :: duration where "p2pLeaseDuration \<equiv> 60 * second"
abbreviation p2pCandidateWindow :: duration where "p2pCandidateWindow \<equiv> 10 * second"
abbreviation p2pFinalStatsGrace :: duration where "p2pFinalStatsGrace \<equiv> 15 * second"
abbreviation p2pCandidatesPerWindow :: nat where "p2pCandidatesPerWindow \<equiv> 64"

record p2pCandidateRate =
  cr_windowStart :: gotime
  cr_count :: nat
  cr_total :: nat

record p2pGrantSpec =
  gs_tunnelID :: string
  gs_ingressClientID :: string
  gs_targetClientID :: string
  gs_ownerUserID :: string
  gs_revision :: int
  gs_ownerEpoch :: u64
  gs_ingressGeneration :: u64
  gs_targetGeneration :: u64
  gs_totalBPS :: int

record p2pGrant =
  gr_sessionID :: string
  gr_grantID :: string
  gr_tunnelID :: string
  gr_revision :: int
  gr_ingressClientID :: string
  gr_targetClientID :: string
  gr_sequence :: u64
  gr_expiresAt :: gotime
  gr_totalBPS :: int

record p2pStatsCursor =
  sc_epoch :: string
  sc_sequence :: u64
  sc_ingress :: u64
  sc_egress :: u64

record p2pCreditCursor =
  cc_sequence :: u64
  cc_cumulative :: u64

record p2pPairSession =
  ps_id :: string
  ps_ownerUserID :: string
  ps_ownerEpoch :: u64
  ps_clientA :: string
  ps_clientB :: string
  ps_generationA :: u64
  ps_generationB :: u64
  ps_leaseSequence :: u64
  ps_expiresAt :: gotime
  ps_grants :: "(string \<times> p2pGrant) list"
  ps_lastSignal :: "string \<Rightarrow> u64"
  ps_lastStatus :: "string \<Rightarrow> u64"
  ps_candidates :: "string \<Rightarrow> p2pCandidateRate"
  ps_ready :: "string \<Rightarrow> bool"
  ps_stats :: "string \<rightharpoonup> p2pStatsCursor"
  ps_creditDemand :: "string \<Rightarrow> p2pCreditCursor"
  ps_creditGrant :: "string \<Rightarrow> p2pCreditCursor"

record p2pClosedStatsGrant =
  cs_grant :: p2pGrant
  cs_targetGeneration :: u64
  cs_cursor :: p2pStatsCursor
  cs_expiresAt :: gotime

datatype p2p_payload =
    PrepareMsg P2PSessionPrepare | LeaseMsg P2PLease | GrantMsg P2PTunnelGrant
  | RevokeMsg P2PTunnelRevoke | ClosedMsg P2PSessionStatus

record p2pParticipant =
  pa_clientID :: string
  pa_clientGeneration :: u64
  pa_ownerUserID :: string
  pa_ownerEpoch :: u64

text \<open>An outbound message: its recipient with the pinned generation and owner, and the payload,
  whose constructor stands for the message type.\<close>

record p2pOutbound = p2pParticipant +
  ob_payload :: p2p_payload

record p2pCoordinator =
  byPair :: "string \<rightharpoonup> string"
  byID :: "(string \<times> p2pPairSession) list"
  closedStats :: "(string \<times> p2pClosedStatsGrant) list"

definition newP2PCoordinator :: p2pCoordinator where
  "newP2PCoordinator = \<lparr>byPair = Map.empty, byID = [], closedStats = []\<rparr>"

record p2pGrantSnapshot =
  gn_TunnelID :: string
  gn_Revision :: int
  gn_IngressClientID :: string
  gn_TargetClientID :: string

record p2pSessionSnapshot =
  sn_SessionID :: string
  sn_ClientA :: string
  sn_ClientB :: string
  sn_GenerationA :: u64
  sn_GenerationB :: u64
  sn_LeaseSequence :: u64
  sn_Ready :: bool
  sn_Grants :: "p2pGrantSnapshot list"

text \<open>
  The projection to the store is closing (\<open>lr_Closing\<close>) or none; the caller in
  \<open>p2p_control.go\<close> adds the other modes and the activity actions.
\<close>

record p2pLifecycleResult =
  lr_Session :: p2pSessionSnapshot
  lr_Grant :: "p2pGrantSnapshot option"
  lr_SessionCreated :: bool
  lr_GrantCreated :: bool
  lr_ReportAccepted :: bool
  lr_ReadyEdge :: bool
  lr_FailedEdge :: bool
  lr_DetachedEdge :: bool
  lr_ClosedEdge :: bool
  lr_StatusState :: string
  lr_ReasonCode :: string
  lr_Sequence :: u64
  lr_Closing :: bool
  lr_ExpectedSessionID :: string
  lr_Outbounds :: "p2pOutbound list"

section \<open>Snapshots and messages\<close>

definition snapshotP2PGrant :: "p2pGrant \<Rightarrow> p2pGrantSnapshot" where
  "snapshotP2PGrant g = \<lparr>gn_TunnelID = gr_tunnelID g, gn_Revision = gr_revision g,
     gn_IngressClientID = gr_ingressClientID g, gn_TargetClientID = gr_targetClientID g\<rparr>"

definition session_ready :: "p2pPairSession \<Rightarrow> bool" where
  "session_ready s \<longleftrightarrow> ps_ready s (ps_clientA s) \<and> ps_ready s (ps_clientB s)"

text \<open>Tunnel identities are distinct within a session, so they alone decide the order.\<close>

definition snapshotP2PSession :: "p2pPairSession \<Rightarrow> p2pSessionSnapshot" where
  "snapshotP2PSession s = \<lparr>sn_SessionID = ps_id s, sn_ClientA = ps_clientA s, sn_ClientB = ps_clientB s,
     sn_GenerationA = ps_generationA s, sn_GenerationB = ps_generationB s,
     sn_LeaseSequence = ps_leaseSequence s, sn_Ready = session_ready s,
     sn_Grants = sort_key gn_TunnelID (map (snapshotP2PGrant \<circ> snd) (ps_grants s))\<rparr>"

definition empty_result :: p2pLifecycleResult where
  "empty_result = \<lparr>lr_Session = \<lparr>sn_SessionID = [], sn_ClientA = [], sn_ClientB = [], sn_GenerationA = 0,
        sn_GenerationB = 0, sn_LeaseSequence = 0, sn_Ready = False, sn_Grants = []\<rparr>,
     lr_Grant = None, lr_SessionCreated = False, lr_GrantCreated = False, lr_ReportAccepted = False,
     lr_ReadyEdge = False, lr_FailedEdge = False, lr_DetachedEdge = False, lr_ClosedEdge = False,
     lr_StatusState = [], lr_ReasonCode = [], lr_Sequence = 0, lr_Closing = False,
     lr_ExpectedSessionID = [], lr_Outbounds = []\<rparr>"

definition forClient :: "p2pGrant \<Rightarrow> string \<Rightarrow> P2PTunnelGrant" where
  "forClient g clientID =
     (let (localRole, peerRole) =
        (if clientID = gr_ingressClientID g then (DataStreamRoleIngress, DataStreamRoleTarget)
         else (DataStreamRoleTarget, DataStreamRoleIngress)) in
      \<lparr>tg_SessionID = gr_sessionID g, tg_GrantID = gr_grantID g, tg_TunnelID = gr_tunnelID g,
       tg_Revision = gr_revision g, tg_LocalRole = localRole, tg_PeerRole = peerRole,
       tg_LeaseSequence = gr_sequence g, tg_ExpiresAt = gr_expiresAt g, tg_TotalBPS = gr_totalBPS g\<rparr>)"

definition participant :: "p2pPairSession \<Rightarrow> string \<Rightarrow> p2pParticipant" where
  "participant s clientID = \<lparr>pa_clientID = clientID,
     pa_clientGeneration = (if clientID = ps_clientB s then ps_generationB s else ps_generationA s),
     pa_ownerUserID = ps_ownerUserID s, pa_ownerEpoch = ps_ownerEpoch s\<rparr>"

definition outbound :: "p2pPairSession \<Rightarrow> string \<Rightarrow> p2p_payload \<Rightarrow> p2pOutbound" where
  "outbound s clientID payload = p2pParticipant.extend (participant s clientID) \<lparr>ob_payload = payload\<rparr>"

definition p2pClosedOutbounds :: "p2pPairSession \<Rightarrow> string \<Rightarrow> p2pOutbound list" where
  "p2pClosedOutbounds s reason =
     (let status = \<lparr>ss_SessionID = ps_id s, ss_Sequence = ps_leaseSequence s + 1,
                    ss_State = P2PStateClosed, ss_Error = reason\<rparr> in
      [outbound s (ps_clientA s) (ClosedMsg status), outbound s (ps_clientB s) (ClosedMsg status)])"

definition normalizeP2PCloseReason :: "(string \<Rightarrow> string) \<Rightarrow> string \<Rightarrow> string \<Rightarrow> string" where
  "normalizeP2PCloseReason ul raw state =
     (let reason = to_lower ul (trim_space raw); has = contains_sub reason in
      if state = P2PStateFailed then ''negotiation_failed''
      else if has ''offline'' \<or> has ''disconnect'' \<or> has ''session_released'' then ''participant_offline''
      else if has ''unhealthy'' then ''lease_unhealthy''
      else if has ''expired'' then ''lease_expired''
      else if has ''stop'' \<or> has ''disabled'' then ''tunnel_stopped''
      else if has ''delete'' then ''tunnel_deleted''
      else if has ''revision'' \<or> has ''replace'' then ''revision_replaced''
      else ''unknown'')"

definition prepare_for ::
  "p2pPairSession \<Rightarrow> string \<Rightarrow> string \<Rightarrow> string \<Rightarrow> u64 \<Rightarrow> u64 \<Rightarrow> P2PSessionPrepare" where
  "prepare_for s clientID peerID role localGen peerGen =
     \<lparr>pr_SessionID = ps_id s, pr_PeerClientID = peerID, pr_Role = role, pr_LocalGeneration = localGen,
      pr_PeerGeneration = peerGen, pr_LeaseSequence = ps_leaseSequence s, pr_ExpiresAt = ps_expiresAt s,
      pr_ICEServers = [],
      pr_Grants = sort_key tg_TunnelID (map (\<lambda>(_, g). forClient g clientID) (ps_grants s))\<rparr>"

definition prepareMessagesLocked :: "p2pPairSession \<Rightarrow> p2pOutbound list" where
  "prepareMessagesLocked s =
     [outbound s (ps_clientA s) (PrepareMsg
        (prepare_for s (ps_clientA s) (ps_clientB s) P2PRoleOfferer (ps_generationA s) (ps_generationB s))),
      outbound s (ps_clientB s) (PrepareMsg
        (prepare_for s (ps_clientB s) (ps_clientA s) P2PRoleAnswerer (ps_generationB s) (ps_generationA s)))]"

definition prepareMessages :: "string \<Rightarrow> p2pCoordinator \<Rightarrow> p2p_error + p2pOutbound list" where
  "prepareMessages sessionID c =
     (case map_of (byID c) sessionID of None \<Rightarrow> Inl P2PUnknownSession | Some s \<Rightarrow> Inr (prepareMessagesLocked s))"

section \<open>Sessions and grants\<close>

definition pair_key :: "string \<Rightarrow> string \<Rightarrow> string" where
  "pair_key a b = a @ [CHR 0x00] @ b"

definition no_cursor :: p2pStatsCursor where
  "no_cursor = \<lparr>sc_epoch = [], sc_sequence = 0, sc_ingress = 0, sc_egress = 0\<rparr>"

definition no_credit :: p2pCreditCursor where
  "no_credit = \<lparr>cc_sequence = 0, cc_cumulative = 0\<rparr>"

definition target_generation :: "p2pPairSession \<Rightarrow> p2pGrant \<Rightarrow> u64" where
  "target_generation s g = (if gr_targetClientID g = ps_clientB s then ps_generationB s else ps_generationA s)"

definition stats_cursor :: "p2pPairSession \<Rightarrow> string \<Rightarrow> p2pStatsCursor" where
  "stats_cursor s grantID = (case ps_stats s grantID of None \<Rightarrow> no_cursor | Some x \<Rightarrow> x)"

definition archiveGrantLocked :: "gotime \<Rightarrow> p2pPairSession \<Rightarrow> p2pGrant \<Rightarrow> p2pCoordinator \<Rightarrow> p2pCoordinator" where
  "archiveGrantLocked now s g c = c\<lparr>closedStats := AList.update (gr_grantID g)
     \<lparr>cs_grant = g, cs_targetGeneration = target_generation s g,
      cs_cursor = stats_cursor s (gr_grantID g), cs_expiresAt = now + p2pFinalStatsGrace\<rparr> (closedStats c)\<rparr>"

definition deleteSessionLocked :: "gotime \<Rightarrow> p2pPairSession \<Rightarrow> p2pCoordinator \<Rightarrow> p2pCoordinator" where
  "deleteSessionLocked now s c =
     (let c1 = fold (\<lambda>(_, g). archiveGrantLocked now s g) (ps_grants s) c in
      c1\<lparr>byID := AList.delete (ps_id s) (byID c1),
         byPair := (byPair c1)(pair_key (ps_clientA s) (ps_clientB s) := None)\<rparr>)"

text \<open>Writing through the pointer to a session.\<close>

definition put_session :: "p2pPairSession \<Rightarrow> p2pCoordinator \<Rightarrow> p2pCoordinator" where
  "put_session s c = c\<lparr>byID := AList.update (ps_id s) s (byID c)\<rparr>"

definition normalizeP2PPair :: "p2pGrantSpec \<Rightarrow> string \<times> string \<times> u64 \<times> u64" where
  "normalizeP2PPair spec =
     (if gs_ingressClientID spec < gs_targetClientID spec
      then (gs_ingressClientID spec, gs_targetClientID spec, gs_ingressGeneration spec, gs_targetGeneration spec)
      else (gs_targetClientID spec, gs_ingressClientID spec, gs_targetGeneration spec, gs_ingressGeneration spec))"

definition spec_error :: "p2pGrantSpec \<Rightarrow> p2p_error option" where
  "spec_error spec = check_all
     [fail_if (gs_tunnelID spec = [] \<or> gs_revision spec \<le> 0 \<or> gs_ingressClientID spec = [] \<or>
               gs_targetClientID spec = [] \<or> gs_ingressClientID spec = gs_targetClientID spec) P2PInvalidSpec,
      fail_if (gs_ingressGeneration spec = 0 \<or> gs_targetGeneration spec = 0) (P2PNotPositive ''generation''),
      fail_if ((gs_ownerUserID spec = []) \<noteq> (gs_ownerEpoch spec = 0)) P2POwnerIncomplete,
      fail_if (gs_totalBPS spec < 0) P2PNegativeBPS]"

definition new_session :: "gotime \<Rightarrow> string \<Rightarrow> p2pGrantSpec \<Rightarrow> p2pPairSession" where
  "new_session now i spec =
     (let (a, b, genA, genB) = normalizeP2PPair spec in
      \<lparr>ps_id = i, ps_ownerUserID = gs_ownerUserID spec, ps_ownerEpoch = gs_ownerEpoch spec,
       ps_clientA = a, ps_clientB = b, ps_generationA = genA, ps_generationB = genB,
       ps_leaseSequence = 1, ps_expiresAt = now + p2pLeaseDuration, ps_grants = [],
       ps_lastSignal = (\<lambda>_. 0), ps_lastStatus = (\<lambda>_. 0),
       ps_candidates = (\<lambda>_. \<lparr>cr_windowStart = 0, cr_count = 0, cr_total = 0\<rparr>),
       ps_ready = (\<lambda>_. False), ps_stats = Map.empty, ps_creditDemand = (\<lambda>_. no_credit),
       ps_creditGrant = (\<lambda>_. no_credit)\<rparr>)"

definition session_current :: "p2pGrantSpec \<Rightarrow> p2pPairSession \<Rightarrow> bool" where
  "session_current spec s \<longleftrightarrow>
     (case normalizeP2PPair spec of (a, b, genA, genB) \<Rightarrow>
        ps_generationA s = genA \<and> ps_generationB s = genB \<and> ps_ownerUserID s = gs_ownerUserID spec \<and>
        ps_ownerEpoch s = gs_ownerEpoch spec)"

definition new_grant :: "gotime \<Rightarrow> string \<Rightarrow> string \<Rightarrow> p2pGrantSpec \<Rightarrow> p2pGrant" where
  "new_grant now sessionID grantID spec =
     \<lparr>gr_sessionID = sessionID, gr_grantID = grantID, gr_tunnelID = gs_tunnelID spec,
      gr_revision = gs_revision spec, gr_ingressClientID = gs_ingressClientID spec,
      gr_targetClientID = gs_targetClientID spec, gr_sequence = 1, gr_expiresAt = now + p2pLeaseDuration,
      gr_totalBPS = gs_totalBPS spec\<rparr>"

text \<open>The second half of \<open>ensureGrant\<close>, with the session at hand.\<close>

definition add_grant ::
  "gotime \<Rightarrow> string option \<Rightarrow> p2pGrantSpec \<Rightarrow> bool \<Rightarrow> p2pPairSession \<Rightarrow> p2pCoordinator \<Rightarrow>
     (p2p_error + p2pGrant \<times> p2pLifecycleResult) \<times> p2pCoordinator" where
  "add_grant now gid spec created s c =
     (case gid of
        None \<Rightarrow> (Inl P2PIdFailed, c)
      | Some g \<Rightarrow>
          let s1 = (if created then s
                    else s\<lparr>ps_leaseSequence := ps_leaseSequence s + 1, ps_expiresAt := now + p2pLeaseDuration\<rparr>);
              grant = new_grant now (ps_id s) g spec;
              s2 = s1\<lparr>ps_grants := AList.update (gs_tunnelID spec) grant (ps_grants s1)\<rparr> in
          (Inr (grant, empty_result\<lparr>lr_Session := snapshotP2PSession s2,
                 lr_Grant := Some (snapshotP2PGrant grant), lr_SessionCreated := created,
                 lr_GrantCreated := True, lr_Sequence := ps_leaseSequence s2\<rparr>), put_session s2 c))"

definition grant_in_session ::
  "gotime \<Rightarrow> string option \<Rightarrow> p2pGrantSpec \<Rightarrow> bool \<Rightarrow> p2pPairSession \<Rightarrow> p2pCoordinator \<Rightarrow>
     (p2p_error + p2pGrant \<times> p2pLifecycleResult) \<times> p2pCoordinator" where
  "grant_in_session now gid spec created s c =
     (case map_of (ps_grants s) (gs_tunnelID spec) of
        Some current \<Rightarrow>
          if gr_revision current = gs_revision spec
          then (Inr (current, empty_result\<lparr>lr_Session := snapshotP2PSession s,
                                          lr_Grant := Some (snapshotP2PGrant current)\<rparr>), c)
          else add_grant now gid spec created s c
      | None \<Rightarrow> add_grant now gid spec created s c)"

definition ensureGrant ::
  "gotime \<Rightarrow> string option \<Rightarrow> string option \<Rightarrow> p2pGrantSpec \<Rightarrow> p2pCoordinator \<Rightarrow>
     (p2p_error + p2pGrant \<times> p2pLifecycleResult) \<times> p2pCoordinator" where
  "ensureGrant now sid gid spec c =
     (case spec_error spec of
        Some e \<Rightarrow> (Inl e, c)
      | None \<Rightarrow>
        (case normalizeP2PPair spec of (a, b, genA, genB) \<Rightarrow>
          let key = pair_key a b;
              found = (case byPair c key of None \<Rightarrow> None | Some i \<Rightarrow> map_of (byID c) i);
              (session, c1) = (case found of
                 None \<Rightarrow> (None, c)
               | Some s \<Rightarrow> if session_current spec s then (Some s, c) else (None, deleteSessionLocked now s c)) in
          (case session of
             Some s \<Rightarrow> grant_in_session now gid spec False s c1
           | None \<Rightarrow>
              (case sid of
                 None \<Rightarrow> (Inl P2PIdFailed, c1)
               | Some i \<Rightarrow>
                  let s = new_session now i spec in
                  grant_in_session now gid spec True s
                    ((put_session s c1)\<lparr>byPair := (byPair c1)(key \<mapsto> i)\<rparr>)))))"

section \<open>Signals and status reports\<close>

definition live_session :: "gotime \<Rightarrow> string \<Rightarrow> p2pCoordinator \<Rightarrow> p2pPairSession option" where
  "live_session now sessionID c =
     (case map_of (byID c) sessionID of
        None \<Rightarrow> None
      | Some s \<Rightarrow> if now < ps_expiresAt s then Some s else None)"

definition matchesGenerationLocked :: "p2pPairSession \<Rightarrow> string \<Rightarrow> u64 \<Rightarrow> bool" where
  "matchesGenerationLocked s clientID generation \<longleftrightarrow>
     (ps_clientA s = clientID \<and> ps_generationA s = generation) \<or>
     (ps_clientB s = clientID \<and> ps_generationB s = generation)"

definition peer_of :: "p2pPairSession \<Rightarrow> string \<Rightarrow> u64 \<Rightarrow> string option" where
  "peer_of s clientID generation =
     (if clientID = ps_clientA s \<and> generation = ps_generationA s then Some (ps_clientB s)
      else if clientID = ps_clientB s \<and> generation = ps_generationB s then Some (ps_clientA s)
      else None)"

text \<open>The limits on candidates: at most so many per window and so many in all.\<close>

definition count_candidate :: "gotime \<Rightarrow> p2pCandidateRate \<Rightarrow> p2p_error + p2pCandidateRate" where
  "count_candidate now r0 =
     (let r = (if time_is_zero (cr_windowStart r0) \<or> time_sub now (cr_windowStart r0) \<ge> p2pCandidateWindow
               then r0\<lparr>cr_windowStart := now, cr_count := 0\<rparr> else r0) in
      if cr_total r \<ge> P2PMaxCandidates then Inl P2PCandidateLimit
      else if cr_count r \<ge> p2pCandidatesPerWindow then Inl P2PCandidateRate
      else Inr (r\<lparr>cr_count := cr_count r + 1, cr_total := cr_total r + 1\<rparr>))"

definition signal_session ::
  "gotime \<Rightarrow> string \<Rightarrow> P2PSignal \<Rightarrow> p2pPairSession \<Rightarrow> p2p_error + p2pPairSession" where
  "signal_session now clientID signal s =
     (if sg_Sequence signal \<le> ps_lastSignal s clientID then Inl P2PStale
      else if (sg_Kind signal = P2PSignalOffer \<and> clientID \<noteq> ps_clientA s) \<or>
              (sg_Kind signal = P2PSignalAnswer \<and> clientID \<noteq> ps_clientB s) then Inl P2PRoleMismatch
      else bind_res
        (if sg_Kind signal = P2PSignalCandidate
         then bind_res (count_candidate now (ps_candidates s clientID))
                (\<lambda>r. Inr (s\<lparr>ps_candidates := (ps_candidates s)(clientID := r)\<rparr>))
         else Inr s)
        (\<lambda>s1. Inr (s1\<lparr>ps_lastSignal := (ps_lastSignal s1)(clientID := sg_Sequence signal)\<rparr>)))"

definition authorizeSignal ::
  "gotime \<Rightarrow> string \<Rightarrow> u64 \<Rightarrow> P2PSignal \<Rightarrow> p2pCoordinator \<Rightarrow> (p2p_error + p2pParticipant) \<times> p2pCoordinator" where
  "authorizeSignal now clientID generation signal c =
     (case Signal_Validate signal of
        Some e \<Rightarrow> (Inl e, c)
      | None \<Rightarrow>
        (case live_session now (sg_SessionID signal) c of
           None \<Rightarrow> (Inl P2PUnknownSession, c)
         | Some s \<Rightarrow>
           (case peer_of s clientID generation of
              None \<Rightarrow> (Inl P2PSenderMismatch, c)
            | Some peer \<Rightarrow>
              (case signal_session now clientID signal s of
                 Inl e \<Rightarrow> (Inl e, c)
               | Inr s1 \<Rightarrow> (Inr (participant s1 peer), put_session s1 c)))))"

definition recordReady ::
  "(string \<Rightarrow> string) \<Rightarrow> gotime \<Rightarrow> string \<Rightarrow> u64 \<Rightarrow> P2PSessionStatus \<Rightarrow> p2pCoordinator \<Rightarrow>
     (p2p_error + p2pLifecycleResult) \<times> p2pCoordinator" where
  "recordReady ul now clientID generation status c =
     (case SessionStatus_Validate status of
        Some e \<Rightarrow> (Inl e, c)
      | None \<Rightarrow>
        if ss_State status = P2PStateClosed then (Inl P2PClientClosed, c)
        else (case live_session now (ss_SessionID status) c of
           None \<Rightarrow> (Inl P2PUnknownSession, c)
         | Some s \<Rightarrow>
             if \<not> matchesGenerationLocked s clientID generation then (Inl P2PSenderMismatch, c)
             else if ss_Sequence status \<le> ps_lastStatus s clientID then (Inl P2PStale, c)
             else let wasReady = session_ready s;
                      s1 = s\<lparr>ps_lastStatus := (ps_lastStatus s)(clientID := ss_Sequence status),
                             ps_ready := (ps_ready s)(clientID := (ss_State status = P2PStateConnected))\<rparr> in
               (Inr (empty_result\<lparr>lr_Session := snapshotP2PSession s1, lr_ReportAccepted := True,
                  lr_ReadyEdge := \<not> wasReady \<and> session_ready s1,
                  lr_FailedEdge := (ss_State status = P2PStateFailed), lr_StatusState := ss_State status,
                  lr_ReasonCode := normalizeP2PCloseReason ul (ss_Error status) (ss_State status),
                  lr_Sequence := ss_Sequence status\<rparr>), put_session s1 c)))"

section \<open>Statistics\<close>

definition cursor_of :: "P2PStatsReport \<Rightarrow> p2pStatsCursor" where
  "cursor_of r = \<lparr>sc_epoch = sr_Epoch r, sc_sequence = sr_Sequence r, sc_ingress = sr_IngressBytes r,
     sc_egress = sr_EgressBytes r\<rparr>"

definition acceptClosedStatsLocked ::
  "gotime \<Rightarrow> string \<Rightarrow> u64 \<Rightarrow> P2PStatsReport \<Rightarrow> p2pCoordinator \<Rightarrow> (p2p_error + u64 \<times> u64) \<times> p2pCoordinator" where
  "acceptClosedStatsLocked now clientID generation r c =
     (case map_of (closedStats c) (sr_GrantID r) of
        None \<Rightarrow> (Inl P2PUnknownSession, c)
      | Some k \<Rightarrow>
          if \<not> now < cs_expiresAt k \<or> gr_sessionID (cs_grant k) \<noteq> sr_SessionID r \<or>
             gr_tunnelID (cs_grant k) \<noteq> sr_TunnelID r \<or> gr_revision (cs_grant k) \<noteq> sr_Revision r
          then (Inl P2PUnknownSession, c)
          else if clientID \<noteq> gr_targetClientID (cs_grant k) \<or> generation \<noteq> cs_targetGeneration k
          then (Inl P2PSenderMismatch, c)
          else let cur = cs_cursor k in
          if sc_sequence cur \<noteq> 0 \<and> sc_epoch cur \<noteq> sr_Epoch r then (Inl P2PEpochChanged, c)
          else if sr_Sequence r \<le> sc_sequence cur \<or> sr_IngressBytes r < sc_ingress cur \<or>
                  sr_EgressBytes r < sc_egress cur then (Inl P2PStale, c)
          else (Inr (sr_IngressBytes r - sc_ingress cur, sr_EgressBytes r - sc_egress cur),
                c\<lparr>closedStats := AList.update (sr_GrantID r) (k\<lparr>cs_cursor := cursor_of r\<rparr>) (closedStats c)\<rparr>))"

definition live_grant :: "gotime \<Rightarrow> P2PStatsReport \<Rightarrow> p2pCoordinator \<Rightarrow> (p2pPairSession \<times> p2pGrant) option" where
  "live_grant now r c =
     (case live_session now (sr_SessionID r) c of
        None \<Rightarrow> None
      | Some s \<Rightarrow>
        (case map_of (ps_grants s) (sr_TunnelID r) of
           None \<Rightarrow> None
         | Some g \<Rightarrow>
             if gr_grantID g = sr_GrantID r \<and> gr_revision g = sr_Revision r \<and> now < gr_expiresAt g
             then Some (s, g) else None))"

definition acceptStats ::
  "gotime \<Rightarrow> string \<Rightarrow> u64 \<Rightarrow> P2PStatsReport \<Rightarrow> p2pCoordinator \<Rightarrow> (p2p_error + u64 \<times> u64) \<times> p2pCoordinator" where
  "acceptStats now clientID generation r c =
     (case StatsReport_Validate r of
        Some e \<Rightarrow> (Inl e, c)
      | None \<Rightarrow>
        (case live_grant now r c of
           None \<Rightarrow> acceptClosedStatsLocked now clientID generation r c
         | Some (s, g) \<Rightarrow>
             if clientID \<noteq> gr_targetClientID g \<or> generation \<noteq> target_generation s g
             then (Inl P2PSenderMismatch, c)
             else let cur = stats_cursor s (gr_grantID g) in
             if sc_sequence cur \<noteq> 0 \<and> sc_epoch cur \<noteq> sr_Epoch r then (Inl P2PEpochChanged, c)
             else if sr_Sequence r \<le> sc_sequence cur then (Inl P2PStale, c)
             else if sr_IngressBytes r < sc_ingress cur \<or> sr_EgressBytes r < sc_egress cur
             then (Inl P2PDecreased, c)
             else (Inr (sr_IngressBytes r - sc_ingress cur, sr_EgressBytes r - sc_egress cur),
                   put_session (s\<lparr>ps_stats := (ps_stats s)(gr_grantID g \<mapsto> cursor_of r)\<rparr>) c)))"

section \<open>Credit messages\<close>

definition creditGrantLocked ::
  "gotime \<Rightarrow> string \<Rightarrow> string \<Rightarrow> string \<Rightarrow> int \<Rightarrow> p2pCoordinator \<Rightarrow> p2p_error + p2pPairSession \<times> p2pGrant" where
  "creditGrantLocked now sessionID grantID tunnelID revision c =
     (case live_session now sessionID c of
        None \<Rightarrow> Inl P2PUnknownSession
      | Some s \<Rightarrow>
        (case map_of (ps_grants s) tunnelID of
           None \<Rightarrow> Inl P2PUnknownGrant
         | Some g \<Rightarrow>
             if gr_grantID g \<noteq> grantID \<or> gr_revision g \<noteq> revision \<or> gr_totalBPS g \<le> 0 \<or> \<not> now < gr_expiresAt g
             then Inl P2PUnknownGrant else Inr (s, g)))"

definition authorizeCreditDemand ::
  "gotime \<Rightarrow> string \<Rightarrow> u64 \<Rightarrow> P2PCreditDemand \<Rightarrow> p2pCoordinator \<Rightarrow> (p2p_error + p2pParticipant) \<times> p2pCoordinator" where
  "authorizeCreditDemand now clientID generation d c =
     (case CreditDemand_Validate d of
        Some e \<Rightarrow> (Inl e, c)
      | None \<Rightarrow>
        (case creditGrantLocked now (cd_SessionID d) (cd_GrantID d) (cd_TunnelID d) (cd_Revision d) c of
           Inl e \<Rightarrow> (Inl e, c)
         | Inr (s, g) \<Rightarrow>
             if clientID \<noteq> gr_ingressClientID g \<or> \<not> matchesGenerationLocked s clientID generation
             then (Inl P2PSenderMismatch, c)
             else let cur = ps_creditDemand s (gr_grantID g) in
             if cd_Sequence d \<le> cc_sequence cur \<or> cd_DesiredBytes d < cc_cumulative cur then (Inl P2PStale, c)
             else (Inr (participant s (gr_targetClientID g)),
                   put_session (s\<lparr>ps_creditDemand := (ps_creditDemand s)(gr_grantID g :=
                     \<lparr>cc_sequence = cd_Sequence d, cc_cumulative = cd_DesiredBytes d\<rparr>)\<rparr>) c)))"

definition authorizeCreditGrant ::
  "gotime \<Rightarrow> string \<Rightarrow> u64 \<Rightarrow> P2PCreditGrant \<Rightarrow> p2pCoordinator \<Rightarrow> (p2p_error + p2pParticipant) \<times> p2pCoordinator" where
  "authorizeCreditGrant now clientID generation k c =
     (case CreditGrant_Validate k of
        Some e \<Rightarrow> (Inl e, c)
      | None \<Rightarrow>
        (case creditGrantLocked now (cg_SessionID k) (cg_GrantID k) (cg_TunnelID k) (cg_Revision k) c of
           Inl e \<Rightarrow> (Inl e, c)
         | Inr (s, g) \<Rightarrow>
             if clientID \<noteq> gr_targetClientID g \<or> \<not> matchesGenerationLocked s clientID generation
             then (Inl P2PSenderMismatch, c)
             else let cur = ps_creditGrant s (gr_grantID g) in
             if cg_Sequence k \<le> cc_sequence cur \<or> cg_GrantedBytes k < cc_cumulative cur \<or>
                cg_GrantedBytes k > cc_cumulative (ps_creditDemand s (gr_grantID g)) then (Inl P2PStale, c)
             else (Inr (participant s (gr_ingressClientID g)),
                   put_session (s\<lparr>ps_creditGrant := (ps_creditGrant s)(gr_grantID g :=
                     \<lparr>cc_sequence = cg_Sequence k, cc_cumulative = cg_GrantedBytes k\<rparr>)\<rparr>) c)))"

section \<open>Closing, revoking and renewing\<close>

definition closed_result :: "p2pPairSession \<Rightarrow> string \<Rightarrow> p2pOutbound list \<Rightarrow> p2pLifecycleResult" where
  "closed_result s code outs = empty_result\<lparr>lr_Session := snapshotP2PSession s, lr_ClosedEdge := True,
     lr_StatusState := P2PStateClosed, lr_ReasonCode := code, lr_Sequence := ps_leaseSequence s + 1,
     lr_Closing := True, lr_ExpectedSessionID := ps_id s, lr_Outbounds := outs\<rparr>"

definition closeSession ::
  "(string \<Rightarrow> string) \<Rightarrow> gotime \<Rightarrow> string \<Rightarrow> string \<Rightarrow> p2pCoordinator \<Rightarrow> p2pLifecycleResult \<times> p2pCoordinator" where
  "closeSession ul now sessionID reason c =
     (case map_of (byID c) sessionID of
        None \<Rightarrow> (empty_result, c)
      | Some s \<Rightarrow>
          (closed_result s (normalizeP2PCloseReason ul reason P2PStateClosed) (p2pClosedOutbounds s reason),
           deleteSessionLocked now s c))"

text \<open>The loops over all sessions: those that satisfy a condition are closed.\<close>

fun close_sessions ::
  "gotime \<Rightarrow> (p2pPairSession \<Rightarrow> bool) \<Rightarrow> (p2pPairSession \<Rightarrow> p2pLifecycleResult) \<Rightarrow> (string \<times> p2pPairSession) list \<Rightarrow>
     p2pLifecycleResult list \<times> p2pCoordinator \<Rightarrow> p2pLifecycleResult list \<times> p2pCoordinator" where
  "close_sessions now affected res [] acc = acc"
| "close_sessions now affected res ((i, s) # rest) (rs, c) =
     close_sessions now affected res rest
       (if affected s then (rs @ [res s], deleteSessionLocked now s c) else (rs, c))"

definition closeClient ::
  "(string \<Rightarrow> string) \<Rightarrow> gotime \<Rightarrow> string \<Rightarrow> u64 \<Rightarrow> string \<Rightarrow> p2pCoordinator \<Rightarrow> p2pLifecycleResult list \<times> p2pCoordinator" where
  "closeClient ul now clientID generation reason c =
     close_sessions now (\<lambda>s. matchesGenerationLocked s clientID generation)
       (\<lambda>s. closed_result s (normalizeP2PCloseReason ul reason P2PStateClosed)
          (let outs = p2pClosedOutbounds s reason in if ps_clientA s = clientID then drop 1 outs else take 1 outs))
       (byID c) ([], c)"

definition closeClients ::
  "(string \<Rightarrow> string) \<Rightarrow> gotime \<Rightarrow> string \<Rightarrow> (string \<rightharpoonup> u64) \<Rightarrow> string \<Rightarrow> p2pCoordinator \<Rightarrow>
     p2pLifecycleResult list \<times> p2pCoordinator" where
  "closeClients ul now ownerUserID participants reason c =
     close_sessions now (\<lambda>s. ownerUserID \<noteq> [] \<and> ps_ownerUserID s = ownerUserID \<and>
          (participants (ps_clientA s) = Some (ps_generationA s) \<or> participants (ps_clientB s) = Some (ps_generationB s)))
       (\<lambda>s. closed_result s (normalizeP2PCloseReason ul reason P2PStateClosed) (p2pClosedOutbounds s reason))
       (byID c) ([], c)"

definition revokeTunnel ::
  "(string \<Rightarrow> string) \<Rightarrow> gotime \<Rightarrow> string \<Rightarrow> int \<Rightarrow> string \<Rightarrow> p2pCoordinator \<Rightarrow> p2pLifecycleResult \<times> p2pCoordinator" where
  "revokeTunnel ul now tunnelID revision reason c =
     (case find (\<lambda>(_, s). case map_of (ps_grants s) tunnelID of
                  None \<Rightarrow> False | Some g \<Rightarrow> revision \<le> 0 \<or> gr_revision g \<le> revision) (byID c) of
        None \<Rightarrow> (empty_result, c)
      | Some (_, s) \<Rightarrow>
        (case map_of (ps_grants s) tunnelID of
           None \<Rightarrow> (empty_result, c)
         | Some g \<Rightarrow>
          let s1 = s\<lparr>ps_grants := AList.delete tunnelID (ps_grants s)\<rparr>;
              c1 = archiveGrantLocked now s1 g (put_session s1 c);
              revoke = \<lparr>rv_SessionID = ps_id s, rv_GrantID = gr_grantID g, rv_TunnelID = gr_tunnelID g,
                        rv_Revision = gr_revision g, rv_Reason = reason\<rparr>;
              outs = [outbound s1 (ps_clientA s1) (RevokeMsg revoke), outbound s1 (ps_clientB s1) (RevokeMsg revoke)];
              closed = (ps_grants s1 = []) in
          (empty_result\<lparr>lr_Session := snapshotP2PSession s, lr_Grant := Some (snapshotP2PGrant g),
             lr_DetachedEdge := True, lr_ClosedEdge := closed, lr_StatusState := P2PStateClosed,
             lr_ReasonCode := normalizeP2PCloseReason ul reason P2PStateClosed,
             lr_Sequence := ps_leaseSequence s + 1, lr_Closing := True, lr_ExpectedSessionID := ps_id s,
             lr_Outbounds := outs @ (if closed then p2pClosedOutbounds s1 reason else [])\<rparr>,
           if closed then deleteSessionLocked now s1 c1 else c1)))"

definition expireClosedStatsLocked :: "gotime \<Rightarrow> p2pCoordinator \<Rightarrow> p2pCoordinator" where
  "expireClosedStatsLocked now c = c\<lparr>closedStats := filter (\<lambda>(_, k). now < cs_expiresAt k) (closedStats c)\<rparr>"

fun delete_all :: "gotime \<Rightarrow> p2pPairSession list \<Rightarrow> p2pCoordinator \<Rightarrow> p2pCoordinator" where
  "delete_all now [] c = c"
| "delete_all now (s # rest) c = delete_all now rest (deleteSessionLocked now s c)"

definition expire :: "gotime \<Rightarrow> p2pCoordinator \<Rightarrow> string list \<times> p2pCoordinator" where
  "expire now c0 =
     (let c = expireClosedStatsLocked now c0; gone = filter (\<lambda>s. \<not> now < ps_expiresAt s) (map snd (byID c)) in
      (sort (map ps_id gone), delete_all now gone c))"

definition renew_session :: "gotime \<Rightarrow> p2pPairSession \<Rightarrow> p2pPairSession" where
  "renew_session now s = s\<lparr>ps_leaseSequence := ps_leaseSequence s + 1, ps_expiresAt := now + p2pLeaseDuration,
     ps_grants := map (\<lambda>(t, g). (t, g\<lparr>gr_sequence := gr_sequence g + 1,
                                     gr_expiresAt := now + p2pLeaseDuration\<rparr>)) (ps_grants s)\<rparr>"

definition renew_outbounds :: "p2pPairSession \<Rightarrow> p2pOutbound list" where
  "renew_outbounds s =
     (let lease = \<lparr>ls_SessionID = ps_id s, ls_Sequence = ps_leaseSequence s, ls_ExpiresAt = ps_expiresAt s\<rparr> in
      [outbound s (ps_clientA s) (LeaseMsg lease), outbound s (ps_clientB s) (LeaseMsg lease)] @
      concat (map (\<lambda>(_, g). [outbound s (ps_clientA s) (GrantMsg (forClient g (ps_clientA s))),
                            outbound s (ps_clientB s) (GrantMsg (forClient g (ps_clientB s)))]) (ps_grants s)))"

fun renew_loop ::
  "gotime \<Rightarrow> (string \<Rightarrow> u64 \<Rightarrow> bool) \<Rightarrow> (string \<times> p2pPairSession) list \<Rightarrow>
     (p2pOutbound list \<times> p2pLifecycleResult list) \<times> p2pCoordinator \<Rightarrow>
     (p2pOutbound list \<times> p2pLifecycleResult list) \<times> p2pCoordinator" where
  "renew_loop now healthy [] acc = acc"
| "renew_loop now healthy ((i, s) # rest) ((outs, closed), c) =
     renew_loop now healthy rest
       (if \<not> healthy (ps_clientA s) (ps_generationA s) \<or> \<not> healthy (ps_clientB s) (ps_generationB s)
        then ((outs, closed @ [closed_result s ''lease_unhealthy'' (p2pClosedOutbounds s ''lease_unhealthy'')]),
              deleteSessionLocked now s c)
        else if \<not> now < ps_expiresAt s
        then ((outs, closed @ [closed_result s ''lease_expired'' (p2pClosedOutbounds s ''lease_expired'')]),
              deleteSessionLocked now s c)
        else let s1 = renew_session now s in ((outs @ renew_outbounds s1, closed), put_session s1 c))"

definition renew ::
  "gotime \<Rightarrow> (string \<Rightarrow> u64 \<Rightarrow> bool) \<Rightarrow> p2pCoordinator \<Rightarrow>
     (p2pOutbound list \<times> p2pLifecycleResult list) \<times> p2pCoordinator" where
  "renew now healthy c0 =
     (let c = expireClosedStatsLocked now c0 in renew_loop now healthy (byID c) (([], []), c))"

definition sessionReady :: "gotime \<Rightarrow> string \<Rightarrow> p2pCoordinator \<Rightarrow> bool" where
  "sessionReady now sessionID c =
     (case live_session now sessionID c of None \<Rightarrow> False | Some s \<Rightarrow> session_ready s)"

definition statsForTunnel :: "string \<Rightarrow> string \<Rightarrow> p2pCoordinator \<Rightarrow> (u64 \<times> u64) option" where
  "statsForTunnel sessionID tunnelID c =
     (case map_of (byID c) sessionID of
        None \<Rightarrow> None
      | Some s \<Rightarrow>
        (case map_of (ps_grants s) tunnelID of
           None \<Rightarrow> None
         | Some g \<Rightarrow> map_option (\<lambda>x. (sc_ingress x, sc_egress x)) (ps_stats s (gr_grantID g))))"

section \<open>Well-formed coordinators\<close>

abbreviation sess :: "p2pCoordinator \<Rightarrow> string \<rightharpoonup> p2pPairSession" where
  "sess c \<equiv> map_of (byID c)"

abbreviation closed :: "p2pCoordinator \<Rightarrow> string \<rightharpoonup> p2pClosedStatsGrant" where
  "closed c \<equiv> map_of (closedStats c)"

abbreviation grants :: "p2pPairSession \<Rightarrow> string \<rightharpoonup> p2pGrant" where
  "grants s \<equiv> map_of (ps_grants s)"

definition session_key :: "p2pPairSession \<Rightarrow> string" where
  "session_key s = pair_key (ps_clientA s) (ps_clientB s)"

definition grant_ok :: "p2pPairSession \<Rightarrow> string \<Rightarrow> p2pGrant \<Rightarrow> bool" where
  "grant_ok s t g \<longleftrightarrow> gr_tunnelID g = t \<and> t \<noteq> [] \<and> gr_sessionID g = ps_id s \<and> 0 < gr_revision g \<and>
     0 \<le> gr_totalBPS g \<and>
     ((gr_ingressClientID g = ps_clientA s \<and> gr_targetClientID g = ps_clientB s) \<or>
      (gr_ingressClientID g = ps_clientB s \<and> gr_targetClientID g = ps_clientA s))"

definition session_ok :: "p2pPairSession \<Rightarrow> bool" where
  "session_ok s \<longleftrightarrow> ps_clientA s \<noteq> [] \<and> ps_clientA s < ps_clientB s \<and> CHR 0x00 \<notin> set (ps_clientA s) \<and>
     ps_generationA s \<noteq> 0 \<and> ps_generationB s \<noteq> 0 \<and> distinct (map fst (ps_grants s)) \<and>
     (\<forall>t g. grants s t = Some g \<longrightarrow> grant_ok s t g) \<and>
     (\<forall>i. cr_total (ps_candidates s i) \<le> P2PMaxCandidates) \<and>
     (\<forall>k. cc_cumulative (ps_creditGrant s k) \<le> cc_cumulative (ps_creditDemand s k))"

definition maps_ok :: "p2pCoordinator \<Rightarrow> bool" where
  "maps_ok c \<longleftrightarrow> distinct (map fst (byID c)) \<and> distinct (map fst (closedStats c)) \<and>
     (\<forall>i s. sess c i = Some s \<longrightarrow> ps_id s = i \<and> session_ok s \<and> byPair c (session_key s) = Some i) \<and>
     (\<forall>k i. byPair c k = Some i \<longrightarrow> (\<exists>s. sess c i = Some s \<and> session_key s = k))"

text \<open>
  Identities: \<open>ids\<close> are those drawn so far. A grant identity \<open>k\<close> names one grant,
  live in one session (\<open>holds\<close>, with its cursor) or archived, never both.
\<close>

definition holds :: "p2pCoordinator \<Rightarrow> string \<Rightarrow> string \<Rightarrow> string \<Rightarrow> p2pStatsCursor \<Rightarrow> bool" where
  "holds c k i t x \<longleftrightarrow>
     (\<exists>s g. sess c i = Some s \<and> grants s t = Some g \<and> gr_grantID g = k \<and> x = stats_cursor s k)"

definition ids_ok :: "string set \<Rightarrow> p2pCoordinator \<Rightarrow> bool" where
  "ids_ok ids c \<longleftrightarrow> dom (sess c) \<subseteq> ids \<and> dom (closed c) \<subseteq> ids \<and>
     (\<forall>i s. sess c i = Some s \<longrightarrow> dom (ps_stats s) \<subseteq> ids) \<and>
     (\<forall>k i t x. holds c k i t x \<longrightarrow> k \<in> ids \<and> closed c k = None) \<and>
     (\<forall>k i t x i' t' x'. holds c k i t x \<longrightarrow> holds c k i' t' x' \<longrightarrow> i = i' \<and> t = t')"

lemma ids_okD:
  assumes "ids_ok ids c"
  shows "sess c i = Some s \<Longrightarrow> i \<in> ids" and "closed c k = Some v \<Longrightarrow> k \<in> ids"
    and "sess c i = Some s \<Longrightarrow> dom (ps_stats s) \<subseteq> ids"
    and "holds c k i t x \<Longrightarrow> k \<in> ids" and "holds c k i t x \<Longrightarrow> closed c k = None"
    and "holds c k i t x \<Longrightarrow> holds c k i' t' x' \<Longrightarrow> i = i' \<and> t = t'"
  using assms unfolding ids_ok_def by blast+

lemma ids_okI:
  assumes "\<And>i s. sess c i = Some s \<Longrightarrow> i \<in> ids \<and> dom (ps_stats s) \<subseteq> ids"
    and "\<And>k v. closed c k = Some v \<Longrightarrow> k \<in> ids"
    and "\<And>k i t x. holds c k i t x \<Longrightarrow> k \<in> ids \<and> closed c k = None"
    and "\<And>k i t x i' t' x'. holds c k i t x \<Longrightarrow> holds c k i' t' x' \<Longrightarrow> i = i' \<and> t = t'"
  shows "ids_ok ids c"
  using assms unfolding ids_ok_def by (auto simp: dom_def)

text \<open>
  The books: \<open>acc\<close> gives for each grant the sum of all increments accepted for it; the
  cursor of every grant, live or archived, stands at that sum.
\<close>

definition cursor_sum :: "p2pStatsCursor \<Rightarrow> nat \<times> nat" where
  "cursor_sum x = (unat (sc_ingress x), unat (sc_egress x))"

definition books_ok :: "(string \<Rightarrow> nat \<times> nat) \<Rightarrow> p2pCoordinator \<Rightarrow> bool" where
  "books_ok acc c \<longleftrightarrow> (\<forall>k i t x. holds c k i t x \<longrightarrow> cursor_sum x = acc k) \<and>
     (\<forall>k v. closed c k = Some v \<longrightarrow> cursor_sum (cs_cursor v) = acc k)"

lemma books_okD:
  assumes "books_ok acc c"
  shows "holds c k i t x \<Longrightarrow> cursor_sum x = acc k" and "closed c k = Some v \<Longrightarrow> cursor_sum (cs_cursor v) = acc k"
  using assms unfolding books_ok_def by blast+

definition p2p_inv :: "string set \<Rightarrow> (string \<Rightarrow> nat \<times> nat) \<Rightarrow> p2pCoordinator \<Rightarrow> bool" where
  "p2p_inv ids acc c \<longleftrightarrow> maps_ok c \<and> ids_ok ids c \<and> books_ok acc c \<and> (\<forall>k. k \<notin> ids \<longrightarrow> acc k = (0, 0))"

lemma maps_okD:
  assumes "maps_ok c" and "sess c i = Some s"
  shows "ps_id s = i" and "session_ok s" and "byPair c (session_key s) = Some i"
  using assms unfolding maps_ok_def by blast+

lemma maps_ok_pair:
  assumes "maps_ok c" and "byPair c k = Some i"
  obtains s where "sess c i = Some s" and "session_key s = k"
  using assms unfolding maps_ok_def by blast

subsection \<open>Writing a session back\<close>

lemma sess_put [simp]: "sess (put_session s c) = (sess c)(ps_id s \<mapsto> s)"
  by (simp add: put_session_def update_conv')

lemma put_session_fields [simp]:
  "closedStats (put_session s c) = closedStats c" "byPair (put_session s c) = byPair c"
  by (simp_all add: put_session_def)

lemma distinct_put: "distinct (map fst (byID c)) \<Longrightarrow> distinct (map fst (byID (put_session s c)))"
  by (simp add: put_session_def distinct_update)

definition grant_ids :: "p2pPairSession \<Rightarrow> string \<rightharpoonup> string" where
  "grant_ids s = map_option gr_grantID \<circ> grants s"

text \<open>What a write must keep: the identity of the session, its clients, grants and cursors.\<close>

definition same_books :: "p2pPairSession \<Rightarrow> p2pPairSession \<Rightarrow> bool" where
  "same_books s s' \<longleftrightarrow> ps_id s' = ps_id s \<and> ps_clientA s' = ps_clientA s \<and> ps_clientB s' = ps_clientB s \<and>
     ps_stats s' = ps_stats s \<and> grant_ids s' = grant_ids s"

lemma holds_alt:
  "holds c k i t x \<longleftrightarrow> (\<exists>s. sess c i = Some s \<and> grant_ids s t = Some k \<and> x = stats_cursor s k)"
  by (auto simp: holds_def grant_ids_def)

lemma put_session_holds:
  "sess c (ps_id s) = Some s \<Longrightarrow> same_books s s' \<Longrightarrow> holds (put_session s' c) k i t x = holds c k i t x"
  by (auto simp: holds_alt same_books_def stats_cursor_def)

lemma write_maps:
  assumes ok: "maps_ok c" and s: "sess c (ps_id s) = Some s" and same: "ps_id s' = ps_id s" "ps_clientA s' = ps_clientA s" "ps_clientB s' = ps_clientB s" and new: "session_ok s'"
  shows "maps_ok (put_session s' c)"
proof -
  have key: "session_key s' = session_key s" and id: "ps_id s' = ps_id s"
    using same by (simp_all add: session_key_def)
  have "ps_id r = i \<and> session_ok r \<and> byPair c (session_key r) = Some i" if "((sess c)(ps_id s' \<mapsto> s')) i = Some r" for i r
  proof (cases "i = ps_id s")
    case True
    with that id have "r = s'" by simp
    then show ?thesis using True id key new maps_okD(3) [OF ok s] by simp
  next
    case False
    with that id have "sess c i = Some r" by simp
    then show ?thesis using maps_okD [OF ok] by blast
  qed
  moreover have "\<exists>r. ((sess c)(ps_id s' \<mapsto> s')) i = Some r \<and> session_key r = k" if pk: "byPair c k = Some i" for k i
  proof -
    obtain r where r: "sess c i = Some r" "session_key r = k" by (rule maps_ok_pair [OF ok pk])
    then show ?thesis using s key id by (cases "i = ps_id s") auto
  qed
  moreover have "distinct (map fst (byID (put_session s' c)))" "distinct (map fst (closedStats c))"
    using ok by (auto simp: maps_ok_def intro: distinct_put)
  ultimately show ?thesis unfolding maps_ok_def sess_put put_session_fields by blast
qed

lemma put_session_inv:
  assumes inv: "p2p_inv ids acc c" and s: "sess c (ps_id s) = Some s" and same: "same_books s s'" and ok: "session_ok s'"
  shows "p2p_inv ids acc (put_session s' c)"
proof -
  have id: "ps_id s' = ps_id s" and stats: "ps_stats s' = ps_stats s" using same by (simp_all add: same_books_def)
  have ids: "ids_ok ids c" using inv by (simp add: p2p_inv_def)
  then have "dom (ps_stats s) \<subseteq> ids" "ps_id s \<in> ids" using s unfolding ids_ok_def by blast+
  with ids have "ids_ok ids (put_session s' c)"
    unfolding ids_ok_def put_session_holds [OF s same] sess_put put_session_fields id
    by (simp add: stats)
  moreover have "maps_ok (put_session s' c)"
    using write_maps [OF _ s] same ok inv by (simp add: p2p_inv_def same_books_def)
  ultimately show ?thesis using inv by (simp add: p2p_inv_def books_ok_def put_session_holds [OF s same])
qed

subsection \<open>Archiving and deleting\<close>

definition archived :: "gotime \<Rightarrow> p2pPairSession \<Rightarrow> p2pGrant \<Rightarrow> p2pClosedStatsGrant" where
  "archived now s g = \<lparr>cs_grant = g, cs_targetGeneration = target_generation s g,
     cs_cursor = stats_cursor s (gr_grantID g), cs_expiresAt = now + p2pFinalStatsGrace\<rparr>"

lemma archive_fields [simp]:
  "byID (archiveGrantLocked now s g c) = byID c" "byPair (archiveGrantLocked now s g c) = byPair c"
  "closed (archiveGrantLocked now s g c) = (closed c)(gr_grantID g \<mapsto> archived now s g)"
  by (simp_all add: archiveGrantLocked_def archived_def update_conv')

lemma archive_distinct:
  "distinct (map fst (closedStats c)) \<Longrightarrow> distinct (map fst (closedStats (archiveGrantLocked now s g c)))"
  by (simp add: archiveGrantLocked_def distinct_update)

lemma archive_maps: "maps_ok c \<Longrightarrow> maps_ok (archiveGrantLocked now s g c)"
  unfolding maps_ok_def archive_fields by (blast intro: archive_distinct)

abbreviation archive_all :: "gotime \<Rightarrow> p2pPairSession \<Rightarrow> (string \<times> p2pGrant) list \<Rightarrow> p2pCoordinator \<Rightarrow> p2pCoordinator" where
  "archive_all now s gs \<equiv> fold (\<lambda>(_, g). archiveGrantLocked now s g) gs"

lemma archive_all_fields [simp]:
  "byID (archive_all now s gs c) = byID c" "byPair (archive_all now s gs c) = byPair c"
  by (induction gs arbitrary: c) auto

lemma archive_all_distinct:
  "distinct (map fst (closedStats c)) \<Longrightarrow> distinct (map fst (closedStats (archive_all now s gs c)))"
  by (induction gs arbitrary: c) (auto simp: archive_distinct)

lemma archive_all_closed:
  "closed (archive_all now s gs c) k = Some v \<Longrightarrow>
     (\<exists>g \<in> snd ` set gs. gr_grantID g = k \<and> v = archived now s g) \<or> (k \<notin> gr_grantID ` snd ` set gs \<and> closed c k = Some v)"
  by (induction gs arbitrary: c) (force split: if_splits)+

lemma archive_all_dom: "dom (closed (archive_all now s gs c)) = dom (closed c) \<union> gr_grantID ` snd ` set gs"
  by (induction gs arbitrary: c) auto

lemma delete_fields:
  "sess (deleteSessionLocked now s c) = (sess c)(ps_id s := None)"
  "byPair (deleteSessionLocked now s c) = (byPair c)(session_key s := None)"
  "closed (deleteSessionLocked now s c) = closed (archive_all now s (ps_grants s) c)"
  by (simp_all add: deleteSessionLocked_def delete_conv' session_key_def)

lemma delete_holds: "holds (deleteSessionLocked now s c) k i t x \<longleftrightarrow> holds c k i t x \<and> i \<noteq> ps_id s"
  by (auto simp: holds_def delete_fields)

lemma delete_maps:
  assumes ok: "maps_ok c" and s: "sess c (ps_id s) = Some s"
  shows "maps_ok (deleteSessionLocked now s c)"
proof -
  have other: "session_key r \<noteq> session_key s" if "sess c i = Some r" "i \<noteq> ps_id s" for i r
    using maps_okD(3) [OF ok that(1)] maps_okD(3) [OF ok s] that(2) by auto
  have "distinct (map fst (byID (deleteSessionLocked now s c)))"
    "distinct (map fst (closedStats (deleteSessionLocked now s c)))"
    using ok by (simp_all add: deleteSessionLocked_def maps_ok_def distinct_delete archive_all_distinct)
  moreover have "ps_id r = i \<and> session_ok r \<and> ((byPair c)(session_key s := None)) (session_key r) = Some i"
    if "((sess c)(ps_id s := None)) i = Some r" for i r
  proof -
    have r: "sess c i = Some r" "i \<noteq> ps_id s" using that by (auto split: if_splits)
    then show ?thesis using maps_okD [OF ok r(1)] other [OF r] by simp
  qed
  moreover have "\<exists>r. ((sess c)(ps_id s := None)) i = Some r \<and> session_key r = k"
    if pk: "((byPair c)(session_key s := None)) k = Some i" for k i
  proof -
    have pk': "byPair c k = Some i" "k \<noteq> session_key s" using pk by (auto split: if_splits)
    obtain r where r: "sess c i = Some r" "session_key r = k" by (rule maps_ok_pair [OF ok pk'(1)])
    with pk'(2) s show ?thesis by auto
  qed
  ultimately show ?thesis unfolding maps_ok_def delete_fields by blast
qed

lemma grants_holds:
  assumes "maps_ok c" and "sess c (ps_id s) = Some s" and "g \<in> snd ` set (ps_grants s)"
  shows "\<exists>t. holds c (gr_grantID g) (ps_id s) t (stats_cursor s (gr_grantID g))"
proof -
  have "distinct (map fst (ps_grants s))" using maps_okD(2) [OF assms(1,2)] by (simp add: session_ok_def)
  with assms(3) obtain t where "grants s t = Some g" by force
  with assms(2) show ?thesis by (auto simp: holds_def)
qed

lemma delete_session_inv:
  assumes inv: "p2p_inv ids acc c" and s: "sess c (ps_id s) = Some s"
  shows "p2p_inv ids acc (deleteSessionLocked now s c)"
proof -
  let ?c = "deleteSessionLocked now s c"
  have maps: "maps_ok c" and ids: "ids_ok ids c" and books: "books_ok acc c" using inv by (simp_all add: p2p_inv_def)
  have live: "k \<in> ids \<and> (\<forall>i t x. holds c k i t x \<longrightarrow> i = ps_id s)" if k: "k \<in> gr_grantID ` snd ` set (ps_grants s)" for k
  proof -
    from k obtain g where g: "g \<in> snd ` set (ps_grants s)" "k = gr_grantID g" by (rule imageE)
    obtain t x where "holds c k (ps_id s) t x" using grants_holds [OF maps s g(1)] g(2) by auto
    then show ?thesis using ids_okD(4) [OF ids] ids_okD(6) [OF ids] by blast
  qed
  have "ids_ok ids ?c"
  proof (rule ids_okI)
    show "i \<in> ids \<and> dom (ps_stats r) \<subseteq> ids" if "sess ?c i = Some r" for i r
      using that ids_okD(1,3) [OF ids] by (simp add: delete_fields split: if_splits)
    show "k \<in> ids" if "closed ?c k = Some v" for k v
    proof -
      have "k \<in> dom (closed c) \<union> gr_grantID ` snd ` set (ps_grants s)"
        using domI [of "closed ?c", OF that] by (simp only: delete_fields archive_all_dom)
      then show ?thesis using live ids_okD(2) [OF ids] by blast
    qed
    show "k \<in> ids \<and> closed ?c k = None" if h: "holds ?c k i t x" for k i t x
    proof -
      have h': "holds c k i t x" "i \<noteq> ps_id s" using h by (simp_all add: delete_holds)
      then have "k \<notin> gr_grantID ` snd ` set (ps_grants s)" using live by blast
      with ids_okD(5) [OF ids h'(1)] have "k \<notin> dom (closed ?c)"
        by (simp add: delete_fields archive_all_dom domIff)
      with ids_okD(4) [OF ids h'(1)] show ?thesis by (simp add: domIff)
    qed
    show "i = i' \<and> t = t'" if "holds ?c k i t x" "holds ?c k i' t' x'" for k i t x i' t' x'
      using ids_okD(6) [OF ids] that unfolding delete_holds by blast
  qed
  moreover have "cursor_sum (cs_cursor v) = acc k" if v: "closed ?c k = Some v" for k v
    using archive_all_closed [OF v [unfolded delete_fields]]
  proof
    assume "\<exists>g\<in>snd ` set (ps_grants s). gr_grantID g = k \<and> v = archived now s g"
    then obtain g where g: "g \<in> snd ` set (ps_grants s)" "gr_grantID g = k" "v = archived now s g" by blast
    then show ?thesis using grants_holds [OF maps s g(1)] books_okD(1) [OF books] by (auto simp: archived_def)
  qed (use books_okD(2) [OF books] in blast)
  then have "books_ok acc ?c" using books_okD(1) [OF books] unfolding books_ok_def delete_holds by blast
  ultimately show ?thesis using inv delete_maps [OF maps s] by (simp add: p2p_inv_def)
qed

subsection \<open>New sessions and grants\<close>

lemma p2p_inv_mono:
  assumes inv: "p2p_inv ids acc c" and sub: "ids \<subseteq> ids'"
  shows "p2p_inv ids' acc c"
proof -
  have "ids_ok ids c" using inv by (simp add: p2p_inv_def)
  with sub have "ids_ok ids' c" unfolding ids_ok_def by blast
  then show ?thesis using inv sub by (auto simp: p2p_inv_def)
qed

lemma create_inv:
  assumes inv: "p2p_inv ids acc c" and fresh: "ps_id s \<notin> ids" and free: "byPair c (session_key s) = None"
    and ok: "session_ok s" and new: "ps_grants s = []" "ps_stats s = Map.empty"
  shows "p2p_inv (insert (ps_id s) ids) acc ((put_session s c)\<lparr>byPair := (byPair c)(session_key s \<mapsto> ps_id s)\<rparr>)"
    (is "p2p_inv ?ids acc ?c")
proof -
  have maps: "maps_ok c" and ids: "ids_ok ids c" and books: "books_ok acc c" using inv by (simp_all add: p2p_inv_def)
  have s: "sess ?c = (sess c)(ps_id s \<mapsto> s)" "closed ?c = closed c" by simp_all
  have holds: "holds ?c k i t x = holds c k i t x" for k i t x
    using ids_okD(1) [OF ids] fresh by (auto simp: holds_def s(1) new)
  have "ids_ok ?ids ?c"
    by (rule ids_okI) (auto simp: holds new split: if_splits dest: ids_okD(1-5) [OF ids] ids_okD(6) [OF ids])
  moreover have "books_ok acc ?c" using books by (simp add: books_ok_def holds s(2))
  moreover have "maps_ok ?c"
  proof -
    have "distinct (map fst (byID ?c))" "distinct (map fst (closedStats ?c))"
      using maps by (auto simp: maps_ok_def intro: distinct_put)
    moreover have "ps_id r = i \<and> session_ok r \<and> byPair ?c (session_key r) = Some i" if r: "sess ?c i = Some r" for i r
    proof (cases "i = ps_id s")
      case True
      with r ok show ?thesis by simp
    next
      case False
      with r have "sess c i = Some r" by simp
      from maps_okD [OF maps this] free show ?thesis by auto
    qed
    moreover have "\<exists>r. sess ?c i = Some r \<and> session_key r = k" if pk: "byPair ?c k = Some i" for k i
    proof (cases "k = session_key s")
      case True
      with pk show ?thesis by simp
    next
      case False
      then have pk': "byPair c k = Some i" using pk by simp
      obtain r where "sess c i = Some r" "session_key r = k" by (rule maps_ok_pair [OF maps pk'])
      then show ?thesis using ids_okD(1) [OF ids] fresh by auto
    qed
    ultimately show ?thesis unfolding maps_ok_def by blast
  qed
  ultimately show ?thesis using inv by (simp add: p2p_inv_def)
qed

definition grants_by :: "string \<Rightarrow> p2pGrant option \<Rightarrow> p2pPairSession \<Rightarrow> p2pPairSession \<Rightarrow> bool" where
  "grants_by t go s s' \<longleftrightarrow> ps_id s' = ps_id s \<and> ps_clientA s' = ps_clientA s \<and> ps_clientB s' = ps_clientB s \<and>
     ps_stats s' = ps_stats s \<and> grants s' = (grants s)(t := go)"

lemma regrant_maps:
  assumes "maps_ok c" and "sess c (ps_id s) = Some s" and "grants_by t go s s'" and "session_ok s'"
  shows "maps_ok (put_session s' c)"
  using write_maps [OF assms(1,2)] assms(3,4) by (simp add: grants_by_def)

lemma regrant_holds:
  assumes s: "sess c (ps_id s) = Some s" and s': "grants_by t go s s'"
  shows "holds (put_session s' c) k i u x \<longleftrightarrow>
    (if i = ps_id s \<and> u = t then (\<exists>g. go = Some g \<and> gr_grantID g = k \<and> x = stats_cursor s k) else holds c k i u x)"
  using s s' by (auto simp: holds_def grants_by_def stats_cursor_def)

lemma add_grant_inv:
  assumes inv: "p2p_inv ids acc c" and s: "sess c (ps_id s) = Some s" and fresh: "gr_grantID g \<notin> ids"
    and s': "grants_by t (Some g) s s'" and new: "session_ok s'"
  shows "p2p_inv (insert (gr_grantID g) ids) acc (put_session s' c)" (is "p2p_inv ?ids acc ?c")
proof -
  have maps: "maps_ok c" and ids: "ids_ok ids c" and books: "books_ok acc c" using inv by (simp_all add: p2p_inv_def)
  note holds = regrant_holds [OF s s']
  have stats: "ps_stats s' = ps_stats s" "ps_id s' = ps_id s" using s' by (simp_all add: grants_by_def)
  have cur: "cursor_sum (stats_cursor s (gr_grantID g)) = (0, 0)"
  proof -
    have "ps_stats s (gr_grantID g) = None" using ids_okD(3) [OF ids s] fresh by blast
    then show ?thesis by (simp add: stats_cursor_def no_cursor_def cursor_sum_def)
  qed
  have "ids_ok ?ids ?c"
  proof (rule ids_okI)
    show "i \<in> ?ids \<and> dom (ps_stats r) \<subseteq> ?ids" if r: "sess ?c i = Some r" for i r
    proof -
      have "i \<in> ids \<and> dom (ps_stats r) \<subseteq> ids"
        using r ids_okD(1,3) [OF ids] s stats by (simp split: if_splits)
      then show ?thesis by blast
    qed
    show "k \<in> ?ids" if "closed ?c k = Some v" for k v using that ids_okD(2) [OF ids] by simp
    show "k \<in> ?ids \<and> closed ?c k = None" if h: "holds ?c k i u x" for k i u x
    proof (cases "i = ps_id s \<and> u = t")
      case True
      then have "k = gr_grantID g" using h holds by auto
      then show ?thesis using ids_okD(2) [OF ids] fresh by (cases "closed c k") auto
    next
      case False
      then have h': "holds c k i u x" using h holds by simp
      show ?thesis using ids_okD(4,5) [OF ids h'] by simp
    qed
    show "i = i' \<and> u = u'" if h: "holds ?c k i u x" "holds ?c k i' u' x'" for k i u x i' u' x'
      using h fresh ids_okD(4) [OF ids] ids_okD(6) [OF ids] unfolding holds by (metis option.inject)
  qed
  moreover have "books_ok acc ?c"
    using books_okD [OF books] inv fresh cur unfolding books_ok_def holds by (auto simp: p2p_inv_def split: if_splits)
  ultimately show ?thesis using inv regrant_maps [OF maps s s' new] by (simp add: p2p_inv_def)
qed

lemma remove_grant_inv:
  assumes inv: "p2p_inv ids acc c" and s: "sess c (ps_id s) = Some s" and g: "grants s t = Some g"
    and s': "grants_by t None s s'" and new: "session_ok s'"
  shows "p2p_inv ids acc (archiveGrantLocked now s' g (put_session s' c))" (is "p2p_inv ids acc ?c")
proof -
  have maps: "maps_ok c" and ids: "ids_ok ids c" and books: "books_ok acc c" using inv by (simp_all add: p2p_inv_def)
  have stats: "ps_stats s' = ps_stats s" "ps_id s' = ps_id s" using s' by (simp_all add: grants_by_def)
  have old: "holds c (gr_grantID g) (ps_id s) t (stats_cursor s (gr_grantID g))" using s g by (auto simp: holds_def)
  have holds: "holds ?c k i u x \<longleftrightarrow> \<not> (i = ps_id s \<and> u = t) \<and> holds c k i u x" for k i u x
    using regrant_holds [OF s s', of k i u x] by (simp add: holds_def)
  have "ids_ok ids ?c"
  proof (rule ids_okI)
    show "i \<in> ids \<and> dom (ps_stats r) \<subseteq> ids" if "sess ?c i = Some r" for i r
      using that ids_okD(1,3) [OF ids] s stats by (auto split: if_splits)
    show "k \<in> ids" if "closed ?c k = Some v" for k v
      using that ids_okD(2) [OF ids] ids_okD(4) [OF ids old] by (auto split: if_splits)
    show "k \<in> ids \<and> closed ?c k = None" if h: "holds ?c k i u x" for k i u x
    proof -
      have h': "holds c k i u x" "\<not> (i = ps_id s \<and> u = t)" using h by (simp_all add: holds)
      then have "k \<noteq> gr_grantID g" using ids_okD(6) [OF ids old, of i u x] by auto
      then show ?thesis using ids_okD(4,5) [OF ids h'(1)] by simp
    qed
    show "i = i' \<and> u = u'" if "holds ?c k i u x" "holds ?c k i' u' x'" for k i u x i' u' x'
      using ids_okD(6) [OF ids] that unfolding holds by blast
  qed
  moreover have "cursor_sum (cs_cursor v) = acc k" if "closed ?c k = Some v" for k v
    using that books_okD(2) [OF books] books_okD(1) [OF books old] stats
    by (auto simp: archived_def stats_cursor_def split: if_splits)
  then have "books_ok acc ?c" using books_okD(1) [OF books] unfolding books_ok_def holds by blast
  moreover have "maps_ok ?c"
    by (intro archive_maps regrant_maps [OF maps s s' new])
  ultimately show ?thesis using inv by (simp add: p2p_inv_def)
qed

subsection \<open>Every operation keeps the invariant\<close>

definition spec_clean :: "p2pGrantSpec \<Rightarrow> bool" where
  "spec_clean spec \<longleftrightarrow> CHR 0x00 \<notin> set (gs_ingressClientID spec) \<and> CHR 0x00 \<notin> set (gs_targetClientID spec)"

lemma pair_key_inject:
  assumes "CHR 0x00 \<notin> set a" and "CHR 0x00 \<notin> set a'" and "pair_key a b = pair_key a' b'"
  shows "a = a' \<and> b = b'"
proof -
  have tw: "takeWhile (\<lambda>ch. ch \<noteq> CHR 0x00) (pair_key x y) = x" if "CHR 0x00 \<notin> set x" for x y
    unfolding pair_key_def using that by (subst takeWhile_append2) auto
  from tw [OF assms(1)] tw [OF assms(2)] assms(3) have "a = a'" by metis
  with assms(3) show ?thesis by (simp add: pair_key_def)
qed

lemma spec_errorD:
  assumes "spec_error spec = None"
  shows "gs_tunnelID spec \<noteq> []" "0 < gs_revision spec" "gs_ingressClientID spec \<noteq> []" "gs_targetClientID spec \<noteq> []"
    "gs_ingressClientID spec \<noteq> gs_targetClientID spec" "gs_ingressGeneration spec \<noteq> 0" "gs_targetGeneration spec \<noteq> 0"
    "0 \<le> gs_totalBPS spec"
  using assms by (auto simp: spec_error_def check_all_None_iff)

lemma new_session_ok:
  assumes "spec_error spec = None" and "spec_clean spec"
  shows "session_ok (new_session now i spec)"
  using spec_errorD [OF assms(1)] assms(2)
  by (auto simp: session_ok_def new_session_def normalizeP2PPair_def spec_clean_def no_credit_def not_less le_less)

definition pair_of :: "p2pGrantSpec \<Rightarrow> p2pPairSession \<Rightarrow> bool" where
  "pair_of spec s \<longleftrightarrow> (case normalizeP2PPair spec of (a, b, _) \<Rightarrow> ps_clientA s = a \<and> ps_clientB s = b)"

lemma session_ok_lease [simp]: "session_ok (s\<lparr>ps_leaseSequence := n, ps_expiresAt := e\<rparr>) = session_ok s"
  by (simp add: session_ok_def grant_ok_def)

lemma session_ok_update:
  assumes ok: "session_ok s" and g: "grant_ok s t g"
  shows "session_ok (s\<lparr>ps_grants := AList.update t g (ps_grants s)\<rparr>)" (is "session_ok ?s")
proof -
  have same: "grant_ok ?s u h = grant_ok s u h" for u h by (simp add: grant_ok_def)
  have "grant_ok ?s u h" if "grants ?s u = Some h" for u h
    using that ok g unfolding same by (auto simp: update_conv' session_ok_def split: if_splits)
  then show ?thesis using ok by (simp add: session_ok_def distinct_update)
qed

lemma new_grant_ok:
  assumes "pair_of spec s" and "spec_error spec = None"
  shows "grant_ok s (gs_tunnelID spec) (new_grant now (ps_id s) g spec)"
  using assms(1) spec_errorD [OF assms(2)]
  by (auto simp: grant_ok_def new_grant_def pair_of_def normalizeP2PPair_def split: if_splits)

lemma grant_in_session_inv:
  assumes inv: "p2p_inv ids acc c" and s: "sess c (ps_id s) = Some s" and spec: "spec_error spec = None" "pair_of spec s"
    and gid: "\<And>g. gid = Some g \<Longrightarrow> g \<notin> ids"
  shows "p2p_inv (ids \<union> set_option gid) acc (snd (grant_in_session now gid spec created s c))"
proof -
  have ok: "session_ok s" using inv maps_okD(2) [OF _ s] by (simp add: p2p_inv_def)
  have add: "p2p_inv (ids \<union> set_option gid) acc (snd (add_grant now gid spec created s c))"
  proof (cases gid)
    case None
    then show ?thesis using inv by (simp add: add_grant_def)
  next
    case (Some g)
    let ?s1 = "if created then s else s\<lparr>ps_leaseSequence := ps_leaseSequence s + 1, ps_expiresAt := now + p2pLeaseDuration\<rparr>"
    let ?g = "new_grant now (ps_id s) g spec"
    let ?s2 = "?s1\<lparr>ps_grants := AList.update (gs_tunnelID spec) ?g (ps_grants ?s1)\<rparr>"
    have "session_ok ?s1" "grant_ok ?s1 (gs_tunnelID spec) ?g"
      using ok new_grant_ok [OF spec(2,1), of now g] by (auto simp: grant_ok_def)
    then have "session_ok ?s2" by (rule session_ok_update)
    moreover have "grants_by (gs_tunnelID spec) (Some ?g) s ?s2" by (auto simp: grants_by_def update_conv')
    moreover have "gr_grantID ?g = g" by (simp add: new_grant_def)
    ultimately have "p2p_inv (insert g ids) acc (put_session ?s2 c)"
      using add_grant_inv [OF inv s, of ?g "gs_tunnelID spec" ?s2] gid [OF Some] by simp
    then show ?thesis by (simp add: add_grant_def Some Let_def)
  qed
  moreover have "p2p_inv (ids \<union> set_option gid) acc c" by (rule p2p_inv_mono [OF inv]) auto
  ultimately show ?thesis by (simp add: grant_in_session_def split: option.split)
qed

lemma found_session:
  assumes inv: "p2p_inv ids acc c" and clean: "spec_clean spec" and pair: "normalizeP2PPair spec = (a, b, rest)"
    and found: "byPair c (pair_key a b) = Some i" "sess c i = Some s"
  shows "ps_id s = i \<and> pair_of spec s \<and> session_key s = pair_key a b"
proof -
  have maps: "maps_ok c" using inv by (simp add: p2p_inv_def)
  obtain r where r: "sess c i = Some r" "session_key r = pair_key a b" by (rule maps_ok_pair [OF maps found(1)])
  with found(2) have key: "session_key s = pair_key a b" by simp
  have "CHR 0x00 \<notin> set a" using clean pair by (auto simp: spec_clean_def normalizeP2PPair_def split: if_splits)
  moreover have "CHR 0x00 \<notin> set (ps_clientA s)" using maps_okD(2) [OF maps found(2)] by (simp add: session_ok_def)
  ultimately have "ps_clientA s = a \<and> ps_clientB s = b"
    using pair_key_inject key unfolding session_key_def by blast
  then show ?thesis using maps_okD(1) [OF maps found(2)] key pair by (auto simp: pair_of_def)
qed

lemma fresh_session_inv:
  assumes inv: "p2p_inv ids acc c" and spec: "spec_error spec = None" "spec_clean spec"
    and pair: "normalizeP2PPair spec = (a, b, rest)" and free: "byPair c (pair_key a b) = None"
    and i: "i \<notin> ids" and gid: "\<And>g. gid = Some g \<Longrightarrow> g \<notin> insert i ids"
  shows "p2p_inv (insert i ids \<union> set_option gid) acc (snd (grant_in_session now gid spec True (new_session now i spec)
     ((put_session (new_session now i spec) c)\<lparr>byPair := (byPair c)(pair_key a b \<mapsto> i)\<rparr>)))"
proof -
  let ?s = "new_session now i spec"
  have s: "ps_id ?s = i" "ps_grants ?s = []" "ps_stats ?s = Map.empty" "session_key ?s = pair_key a b" "pair_of spec ?s"
    by (auto simp: new_session_def session_key_def pair_of_def pair split: prod.splits)
  have "p2p_inv (insert i ids) acc ((put_session ?s c)\<lparr>byPair := (byPair c)(pair_key a b \<mapsto> i)\<rparr>)"
    using create_inv [OF inv, of ?s] new_session_ok [OF spec] s free i by simp
  from grant_in_session_inv [OF this _ spec(1) s(5) gid] s(1) show ?thesis by simp
qed

lemma ensureGrant_inv:
  assumes inv: "p2p_inv ids acc c" and clean: "spec_clean spec"
    and sid: "\<And>i. sid = Some i \<Longrightarrow> i \<notin> ids" and gid: "\<And>g. gid = Some g \<Longrightarrow> g \<notin> ids \<and> sid \<noteq> Some g"
  shows "p2p_inv (ids \<union> set_option sid \<union> set_option gid) acc (snd (ensureGrant now sid gid spec c))"
proof -
  have same: "p2p_inv (ids \<union> set_option sid \<union> set_option gid) acc c'" if "p2p_inv ids acc c'" for c'
    by (rule p2p_inv_mono [OF that]) auto
  obtain a b rest where pair: "normalizeP2PPair spec = (a, b, rest)" by (metis prod_cases3)
  have create: "p2p_inv (ids \<union> set_option sid \<union> set_option gid) acc
      (snd (case sid of None \<Rightarrow> (Inl P2PIdFailed, c') | Some i \<Rightarrow> grant_in_session now gid spec True (new_session now i spec)
         ((put_session (new_session now i spec) c')\<lparr>byPair := (byPair c')(pair_key a b \<mapsto> i)\<rparr>)))"
    if "p2p_inv ids acc c'" "byPair c' (pair_key a b) = None" "spec_error spec = None" for c'
  proof (cases sid)
    case None
    then show ?thesis using same [OF that(1)] by simp
  next
    case (Some i)
    then show ?thesis
      using fresh_session_inv [OF that(1,3) clean pair that(2) sid [OF Some], where gid = gid and now = now] gid by auto
  qed
  show ?thesis
  proof (cases "spec_error spec")
    case (Some e)
    then show ?thesis using same [OF inv] by (simp add: ensureGrant_def)
  next
    case None
    show ?thesis
    proof (cases "byPair c (pair_key a b)")
      case free: None
      from create [OF inv free None] None pair free show ?thesis
        unfolding ensureGrant_def Let_def by (simp split: prod.splits)
    next
      case (Some i)
      obtain s where s: "sess c i = Some s" using inv Some by (auto simp: p2p_inv_def elim: maps_ok_pair)
      from found_session [OF inv clean pair Some s]
      have f: "ps_id s = i" "pair_of spec s" "session_key s = pair_key a b" by auto
      have "p2p_inv ids acc (deleteSessionLocked now s c)" using delete_session_inv [OF inv, of s] s f by simp
      then have new: "p2p_inv (ids \<union> set_option sid \<union> set_option gid) acc
          (snd (case sid of None \<Rightarrow> (Inl P2PIdFailed, deleteSessionLocked now s c)
            | Some i \<Rightarrow> grant_in_session now gid spec True (new_session now i spec)
               ((put_session (new_session now i spec) (deleteSessionLocked now s c))\<lparr>byPair :=
                  (byPair (deleteSessionLocked now s c))(pair_key a b \<mapsto> i)\<rparr>)))"
        by (rule create) (simp_all add: delete_fields f(3) None)
      have cur: "p2p_inv (ids \<union> set_option sid \<union> set_option gid) acc (snd (grant_in_session now gid spec False s c))"
      proof (rule p2p_inv_mono)
        show "p2p_inv (ids \<union> set_option gid) acc (snd (grant_in_session now gid spec False s c))"
          using grant_in_session_inv [OF inv _ None f(2)] s f(1) gid by blast
      qed auto
      from new cur show ?thesis using None pair Some s
        unfolding ensureGrant_def Let_def by (simp split: prod.splits)
    qed
  qed
qed

lemma live_sessionD:
  assumes "live_session now i c = Some s" and "p2p_inv ids acc c"
  shows "sess c (ps_id s) = Some s" and "ps_id s = i" and "now < ps_expiresAt s" and "session_ok s"
proof -
  have s: "sess c i = Some s" "now < ps_expiresAt s"
    using assms(1) by (auto simp: live_session_def split: option.splits if_splits)
  have "maps_ok c" using assms(2) by (simp add: p2p_inv_def)
  from maps_okD [OF this s(1)] s show "sess c (ps_id s) = Some s" "ps_id s = i" "now < ps_expiresAt s" "session_ok s"
    by simp_all
qed

lemma count_candidate_bound:
  "count_candidate now r = Inr r' \<Longrightarrow> cr_total r' \<le> P2PMaxCandidates"
  by (auto simp: count_candidate_def Let_def split: if_splits)

lemma live_put_inv:
  assumes "p2p_inv ids acc c" and "live_session now i c = Some s"
    and "session_ok s \<Longrightarrow> same_books s s'" and "session_ok s \<Longrightarrow> session_ok s'"
  shows "p2p_inv ids acc (put_session s' c)"
  using put_session_inv [OF assms(1)] live_sessionD [OF assms(2,1)] assms(3,4) by blast

lemmas session_keeps = same_books_def grant_ids_def session_ok_def grant_ok_def

lemma signal_session_keeps:
  assumes run: "signal_session now clientID signal s = Inr s'" and ok: "session_ok s"
  shows "same_books s s'" and "session_ok s'"
proof -
  have "\<exists>r. s' = s\<lparr>ps_candidates := (ps_candidates s)(clientID := r),
       ps_lastSignal := (ps_lastSignal s)(clientID := sg_Sequence signal)\<rparr> \<and> cr_total r \<le> P2PMaxCandidates"
  proof (cases "sg_Kind signal = P2PSignalCandidate")
    case True
    then show ?thesis
      using run by (auto simp: signal_session_def bind_res_eq_Inr split: if_splits dest!: count_candidate_bound)
  next
    case False
    then have "s' = s\<lparr>ps_lastSignal := (ps_lastSignal s)(clientID := sg_Sequence signal)\<rparr>"
      using run by (simp add: signal_session_def split: if_splits)
    then show ?thesis using ok by (intro exI [of _ "ps_candidates s clientID"]) (simp add: session_ok_def)
  qed
  then obtain r where "s' = s\<lparr>ps_candidates := (ps_candidates s)(clientID := r),
       ps_lastSignal := (ps_lastSignal s)(clientID := sg_Sequence signal)\<rparr>" "cr_total r \<le> P2PMaxCandidates" by blast
  then show "same_books s s'" "session_ok s'" using ok by (simp_all add: session_keeps)
qed

lemma authorizeSignal_inv:
  assumes "p2p_inv ids acc c"
  shows "p2p_inv ids acc (snd (authorizeSignal now clientID generation signal c))"
  using assms
  by (auto simp: authorizeSignal_def split: option.splits sum.splits intro: live_put_inv signal_session_keeps)

lemma recordReady_inv:
  assumes "p2p_inv ids acc c"
  shows "p2p_inv ids acc (snd (recordReady ul now clientID generation status c))"
proof -
  have "same_books s (s\<lparr>ps_lastStatus := x, ps_ready := y\<rparr>)"
    "session_ok (s\<lparr>ps_lastStatus := x, ps_ready := y\<rparr>)" if "session_ok s" for s x y
    using that by (simp_all add: session_keeps)
  then show ?thesis
    using assms by (auto simp: recordReady_def Let_def split: option.splits intro: live_put_inv)
qed

lemma creditGrantLockedD:
  assumes "creditGrantLocked now i k t r c = Inr (s, g)"
  shows "live_session now i c = Some s"
  using assms by (auto simp: creditGrantLocked_def split: option.splits if_splits)

lemma demand_session_keeps:
  assumes "session_ok s" and "cc_cumulative (ps_creditDemand s k) \<le> cc_cumulative x"
  shows "same_books s (s\<lparr>ps_creditDemand := (ps_creditDemand s)(k := x)\<rparr>)"
    and "session_ok (s\<lparr>ps_creditDemand := (ps_creditDemand s)(k := x)\<rparr>)"
  using assms by (auto simp: session_keeps intro: order_trans)

lemma grant_session_keeps:
  assumes "session_ok s" and "cc_cumulative x \<le> cc_cumulative (ps_creditDemand s k)"
  shows "same_books s (s\<lparr>ps_creditGrant := (ps_creditGrant s)(k := x)\<rparr>)"
    and "session_ok (s\<lparr>ps_creditGrant := (ps_creditGrant s)(k := x)\<rparr>)"
  using assms by (auto simp: session_keeps)

lemma authorizeCreditDemand_inv:
  assumes "p2p_inv ids acc c"
  shows "p2p_inv ids acc (snd (authorizeCreditDemand now clientID generation d c))"
  using assms unfolding authorizeCreditDemand_def Let_def
  by (auto split: option.splits sum.splits intro!: live_put_inv [OF _ creditGrantLockedD] demand_session_keeps)

lemma authorizeCreditGrant_inv:
  assumes "p2p_inv ids acc c"
  shows "p2p_inv ids acc (snd (authorizeCreditGrant now clientID generation k c))"
  using assms unfolding authorizeCreditGrant_def Let_def
  by (auto split: option.splits sum.splits intro!: live_put_inv [OF _ creditGrantLockedD] grant_session_keeps)

definition add_pair :: "nat \<times> nat \<Rightarrow> u64 \<times> u64 \<Rightarrow> nat \<times> nat" where
  "add_pair a d = (fst a + unat (fst d), snd a + unat (snd d))"

text \<open>The two counters of a report, and an accepted increment added to the books of its grant.\<close>

definition report_sum :: "P2PStatsReport \<Rightarrow> nat \<times> nat" where
  "report_sum r = (unat (sr_IngressBytes r), unat (sr_EgressBytes r))"

definition book :: "P2PStatsReport \<Rightarrow> p2p_error + u64 \<times> u64 \<Rightarrow> (string \<Rightarrow> nat \<times> nat) \<Rightarrow> string \<Rightarrow> nat \<times> nat" where
  "book r res acc = (case res of Inl _ \<Rightarrow> acc | Inr d \<Rightarrow> acc(sr_GrantID r := add_pair (acc (sr_GrantID r)) d))"

lemma increment_sum:
  assumes "sc_ingress x \<le> sr_IngressBytes r" and "sc_egress x \<le> sr_EgressBytes r"
  shows "add_pair (cursor_sum x) (sr_IngressBytes r - sc_ingress x, sr_EgressBytes r - sc_egress x) = report_sum r"
  using assms by (simp add: add_pair_def cursor_sum_def report_sum_def unat_sub word_le_nat_alt)

lemma cursor_of_sum [simp]: "cursor_sum (cursor_of r) = report_sum r"
  by (simp add: cursor_of_def cursor_sum_def report_sum_def)

lemma closed_stats_inv:
  assumes inv: "p2p_inv ids acc c" and run: "acceptClosedStatsLocked now clientID generation r c = (Inr d, c')"
  shows "p2p_inv ids (acc(sr_GrantID r := report_sum r)) c'" and "add_pair (acc (sr_GrantID r)) d = report_sum r"
proof -
  let ?k = "sr_GrantID r"
  have maps: "maps_ok c" and ids: "ids_ok ids c" and books: "books_ok acc c" using inv by (simp_all add: p2p_inv_def)
  obtain v where v: "closed c ?k = Some v" and c': "c' = c\<lparr>closedStats := AList.update ?k (v\<lparr>cs_cursor := cursor_of r\<rparr>) (closedStats c)\<rparr>"
    and d: "d = (sr_IngressBytes r - sc_ingress (cs_cursor v), sr_EgressBytes r - sc_egress (cs_cursor v))"
      "sc_ingress (cs_cursor v) \<le> sr_IngressBytes r" "sc_egress (cs_cursor v) \<le> sr_EgressBytes r"
    using run by (auto simp: acceptClosedStatsLocked_def Let_def not_less split: option.splits if_splits)
  show "add_pair (acc ?k) d = report_sum r"
    using increment_sum [OF d(2,3)] books_okD(2) [OF books v] d(1) by simp
  have closed: "closed c' = (closed c)(?k \<mapsto> v\<lparr>cs_cursor := cursor_of r\<rparr>)" and sess: "sess c' = sess c"
    and pair: "byPair c' = byPair c" "byID c' = byID c"
    by (simp_all add: c' update_conv')
  have holds: "holds c' k i t x = holds c k i t x" for k i t x by (simp add: holds_def sess)
  have notlive: "k \<noteq> ?k" if "holds c k i t x" for k i t x using ids_okD(5) [OF ids that] v by auto
  have "ids_ok ids c'"
  proof (rule ids_okI)
    show "k \<in> ids" if "closed c' k = Some w" for k w
      using that ids_okD(2) [OF ids] v by (auto simp: closed split: if_splits)
    show "k \<in> ids \<and> closed c' k = None" if "holds c' k i t x" for k i t x
      using ids_okD(4,5) [OF ids that [unfolded holds]] notlive [OF that [unfolded holds]] by (simp add: closed)
    show "i = i' \<and> t = t'" if "holds c' k i t x" "holds c' k i' t' x'" for k i t x i' t' x'
      using ids_okD(6) [OF ids] that unfolding holds by blast
  qed (use ids_okD(1,3) [OF ids] sess in simp)
  moreover have "cursor_sum x = (acc(?k := report_sum r)) k" if "holds c' k i t x" for k i t x
    using books_okD(1) [OF books] that notlive unfolding holds by simp
  then have "books_ok (acc(?k := report_sum r)) c'"
    using books_okD(2) [OF books] by (simp add: books_ok_def closed)
  moreover have "maps_ok c'"
  proof -
    have "distinct (map fst (closedStats c'))" using maps by (simp add: maps_ok_def c' distinct_update)
    with maps show ?thesis unfolding maps_ok_def pair by blast
  qed
  moreover have "?k \<in> ids" by (rule ids_okD(2) [OF ids v])
  ultimately show "p2p_inv ids (acc(?k := report_sum r)) c'" using inv by (auto simp: p2p_inv_def)
qed

lemma live_stats_inv:
  assumes inv: "p2p_inv ids acc c" and live: "live_grant now r c = Some (s, g)"
    and le: "sc_ingress (stats_cursor s (sr_GrantID r)) \<le> sr_IngressBytes r" "sc_egress (stats_cursor s (sr_GrantID r)) \<le> sr_EgressBytes r"
  shows "p2p_inv ids (acc(sr_GrantID r := report_sum r))
      (put_session (s\<lparr>ps_stats := (ps_stats s)(sr_GrantID r \<mapsto> cursor_of r)\<rparr>) c)" (is "p2p_inv ids ?acc ?c")
    and "cursor_sum (stats_cursor s (sr_GrantID r)) = acc (sr_GrantID r)"
proof -
  let ?k = "sr_GrantID r" and ?s = "s\<lparr>ps_stats := (ps_stats s)(sr_GrantID r \<mapsto> cursor_of r)\<rparr>" and ?t = "sr_TunnelID r"
  have maps: "maps_ok c" and ids: "ids_ok ids c" and books: "books_ok acc c" using inv by (simp_all add: p2p_inv_def)
  have s: "sess c (ps_id s) = Some s" "session_ok s" and g: "grants s ?t = Some g" "gr_grantID g = ?k"
    using live live_sessionD [OF _ inv] by (auto simp: live_grant_def split: option.splits if_splits)
  have own: "holds c ?k (ps_id s) ?t (stats_cursor s ?k)" using s g by (auto simp: holds_def)
  show "cursor_sum (stats_cursor s ?k) = acc ?k" by (rule books_okD(1) [OF books own])
  have k: "?k \<in> ids" by (rule ids_okD(4) [OF ids own])
  have holds: "holds ?c k i t x \<longleftrightarrow> (\<exists>y. holds c k i t y \<and> x = (if k = ?k \<and> i = ps_id s then cursor_of r else y))" for k i t x
    using s(1) by (auto simp: holds_def stats_cursor_def)
  have sole: "i = ps_id s" if "holds c ?k i t x" for i t x using ids_okD(6) [OF ids own that] by simp
  have "ids_ok ids ?c"
  proof (rule ids_okI)
    show "i \<in> ids \<and> dom (ps_stats q) \<subseteq> ids" if "sess ?c i = Some q" for i q
    proof (cases "i = ps_id s")
      case True
      then have "q = ?s" using that by simp
      moreover have "dom (ps_stats ?s) \<subseteq> ids" using ids_okD(3) [OF ids s(1)] k by simp
      ultimately show ?thesis using True ids_okD(1) [OF ids s(1)] by simp
    next
      case False
      then show ?thesis using that ids_okD(1,3) [OF ids] by simp
    qed
    show "k \<in> ids \<and> closed ?c k = None" if "holds ?c k i t x" for k i t x
      using that ids_okD(4,5) [OF ids] unfolding holds by auto
    show "i = i' \<and> t = t'" if "holds ?c k i t x" "holds ?c k i' t' x'" for k i t x i' t' x'
      using ids_okD(6) [OF ids] that unfolding holds by blast
  qed (use ids_okD(2) [OF ids] in simp)
  moreover have "cursor_sum x = ?acc k" if h: "holds ?c k i t x" for k i t x
  proof -
    obtain y where y: "holds c k i t y" "x = (if k = ?k \<and> i = ps_id s then cursor_of r else y)"
      using h unfolding holds by blast
    then show ?thesis using books_okD(1) [OF books y(1)] sole [of i t y] by (cases "k = ?k") auto
  qed
  then have "books_ok ?acc ?c"
    using books_okD(2) [OF books] ids_okD(5) [OF ids own] unfolding books_ok_def by auto
  moreover have "maps_ok ?c"
  proof -
    have "session_ok ?s" using s(2) by (simp add: session_keeps)
    then show ?thesis using write_maps [OF maps s(1)] by simp
  qed
  ultimately show "p2p_inv ids ?acc ?c" using inv k by (auto simp: p2p_inv_def)
qed

lemma acceptStats_inv:
  assumes inv: "p2p_inv ids acc c" and run: "acceptStats now clientID generation r c = (res, c')"
  shows "p2p_inv ids (book r res acc) c'" and "\<And>d. res = Inr d \<Longrightarrow> add_pair (acc (sr_GrantID r)) d = report_sum r"
proof -
  have "p2p_inv ids (book r res acc) c' \<and> (\<forall>d. res = Inr d \<longrightarrow> add_pair (acc (sr_GrantID r)) d = report_sum r)"
  proof (cases res)
    case (Inl e)
    then have "c' = c"
      using run by (auto simp: acceptStats_def acceptClosedStatsLocked_def Let_def split: option.splits if_splits)
    then show ?thesis using Inl inv by (simp add: book_def)
  next
    case (Inr d)
    have "p2p_inv ids (acc(sr_GrantID r := report_sum r)) c' \<and> add_pair (acc (sr_GrantID r)) d = report_sum r"
    proof (cases "live_grant now r c")
      case None
      then have "acceptClosedStatsLocked now clientID generation r c = (Inr d, c')"
        using run Inr by (simp add: acceptStats_def split: option.splits)
      from closed_stats_inv [OF inv this] show ?thesis by simp
    next
      case (Some sg)
      obtain s g where sg: "sg = (s, g)" by (cases sg)
      have g: "gr_grantID g = sr_GrantID r"
        using Some sg by (auto simp: live_grant_def split: option.splits if_splits)
      let ?x = "stats_cursor s (sr_GrantID r)"
      have le: "sc_ingress ?x \<le> sr_IngressBytes r" "sc_egress ?x \<le> sr_EgressBytes r"
        and d: "d = (sr_IngressBytes r - sc_ingress ?x, sr_EgressBytes r - sc_egress ?x)"
        and c': "c' = put_session (s\<lparr>ps_stats := (ps_stats s)(sr_GrantID r \<mapsto> cursor_of r)\<rparr>) c"
        using run Inr Some sg by (auto simp: acceptStats_def Let_def g not_less split: option.splits if_splits)
      from live_stats_inv [OF inv Some [unfolded sg] le] increment_sum [OF le] show ?thesis by (simp add: c' d)
    qed
    then show ?thesis using Inr by (simp add: book_def)
  qed
  then show "p2p_inv ids (book r res acc) c'" "\<And>d. res = Inr d \<Longrightarrow> add_pair (acc (sr_GrantID r)) d = report_sum r"
    by auto
qed

subsection \<open>Loops over all sessions\<close>

definition still :: "(string \<times> p2pPairSession) list \<Rightarrow> p2pCoordinator \<Rightarrow> bool" where
  "still xs c \<longleftrightarrow> distinct (map fst xs) \<and> (\<forall>(i, s) \<in> set xs. ps_id s = i \<and> sess c i = Some s)"

lemma still_start:
  assumes "p2p_inv ids acc c" shows "still (byID c) c"
proof -
  have maps: "maps_ok c" using assms by (simp add: p2p_inv_def)
  then have "distinct (map fst (byID c))" by (simp add: maps_ok_def)
  then show ?thesis using maps_okD(1) [OF maps] by (auto simp: still_def)
qed

lemma still_Cons: "still ((i, s) # xs) c \<Longrightarrow> ps_id s = i \<and> sess c (ps_id s) = Some s \<and> still xs c"
  by (auto simp: still_def)

lemma still_delete: "still ((i, s) # xs) c \<Longrightarrow> still xs (deleteSessionLocked now s c)"
  by (force simp: still_def delete_fields)

lemma still_put: "still ((i, s) # xs) c \<Longrightarrow> ps_id s' = ps_id s \<Longrightarrow> still xs (put_session s' c)"
  by (force simp: still_def)

lemma close_sessions_inv:
  "p2p_inv ids acc c \<Longrightarrow> still xs c \<Longrightarrow> p2p_inv ids acc (snd (close_sessions now P res xs (rs, c)))"
proof (induction xs arbitrary: rs c)
  case (Cons x xs)
  obtain i s where x: "x = (i, s)" by (cases x)
  note c = still_Cons [OF Cons.prems(2) [unfolded x]]
  have "p2p_inv ids acc (deleteSessionLocked now s c)" using delete_session_inv [OF Cons.prems(1)] c by blast
  then show ?case using Cons.IH still_delete [OF Cons.prems(2) [unfolded x]] c Cons.prems(1) by (simp add: x)
qed simp

lemma delete_all_inv:
  "p2p_inv ids acc c \<Longrightarrow> still xs c \<Longrightarrow> p2p_inv ids acc (delete_all now (filter P (map snd xs)) c)"
proof (induction xs arbitrary: c)
  case (Cons x xs)
  obtain i s where x: "x = (i, s)" by (cases x)
  note c = still_Cons [OF Cons.prems(2) [unfolded x]]
  have "p2p_inv ids acc (deleteSessionLocked now s c)" using delete_session_inv [OF Cons.prems(1)] c by blast
  then show ?case using Cons.IH still_delete [OF Cons.prems(2) [unfolded x]] c Cons.prems(1) by (simp add: x)
qed simp

lemma map_of_map_value: "map_of (map (\<lambda>(t, g). (t, f g)) xs) t = map_option f (map_of xs t)"
  by (induction xs) auto

lemma renew_session_keeps:
  shows "same_books s (renew_session now s)" and "session_ok s \<Longrightarrow> session_ok (renew_session now s)"
proof -
  let ?f = "\<lambda>g. g\<lparr>gr_sequence := gr_sequence g + 1, gr_expiresAt := now + p2pLeaseDuration\<rparr>"
  have gs: "grants (renew_session now s) t = map_option ?f (grants s t)" for t
    by (simp add: renew_session_def map_of_map_value)
  have fst: "map fst (ps_grants (renew_session now s)) = map fst (ps_grants s)"
    by (simp add: renew_session_def comp_def case_prod_unfold)
  have id: "ps_id (renew_session now s) = ps_id s" "ps_clientA (renew_session now s) = ps_clientA s"
    "ps_clientB (renew_session now s) = ps_clientB s" "ps_stats (renew_session now s) = ps_stats s"
    "ps_generationA (renew_session now s) = ps_generationA s" "ps_generationB (renew_session now s) = ps_generationB s"
    "ps_candidates (renew_session now s) = ps_candidates s" "ps_creditGrant (renew_session now s) = ps_creditGrant s"
    "ps_creditDemand (renew_session now s) = ps_creditDemand s"
    by (simp_all add: renew_session_def)
  show "same_books s (renew_session now s)"
    by (simp add: same_books_def id grant_ids_def comp_def gs option.map_comp)
  assume ok: "session_ok s"
  have "grant_ok (renew_session now s) t h" if h: "grants (renew_session now s) t = Some h" for t h
  proof -
    obtain g where "grants s t = Some g" "h = ?f g" using h unfolding gs by blast
    then show ?thesis using ok by (auto simp: session_ok_def grant_ok_def id)
  qed
  then show "session_ok (renew_session now s)" using ok unfolding session_ok_def id fst by blast
qed

lemma renew_loop_inv:
  "p2p_inv ids acc c \<Longrightarrow> still xs c \<Longrightarrow> p2p_inv ids acc (snd (renew_loop now healthy xs ((outs, cl), c)))"
proof (induction xs arbitrary: outs cl c)
  case (Cons x xs)
  obtain i s where x: "x = (i, s)" by (cases x)
  note c = still_Cons [OF Cons.prems(2) [unfolded x]]
  have s: "session_ok s" using maps_okD(2) Cons.prems(1) c by (auto simp: p2p_inv_def)
  have "p2p_inv ids acc (deleteSessionLocked now s c)" using delete_session_inv [OF Cons.prems(1)] c by blast
  moreover have "p2p_inv ids acc (put_session (renew_session now s) c)"
    using put_session_inv [OF Cons.prems(1)] c renew_session_keeps(1) renew_session_keeps(2) [OF s] by blast
  moreover have "still xs (put_session (renew_session now s) c)"
    using still_put [OF Cons.prems(2) [unfolded x]] by (simp add: renew_session_def)
  ultimately show ?case
    using Cons.IH still_delete [OF Cons.prems(2) [unfolded x]] by (simp add: x Let_def)
qed simp

lemma expireClosedStats_inv:
  assumes inv: "p2p_inv ids acc c"
  shows "p2p_inv ids acc (expireClosedStatsLocked now c)" (is "p2p_inv ids acc ?c")
proof -
  have maps: "maps_ok c" and ids: "ids_ok ids c" and books: "books_ok acc c" using inv by (simp_all add: p2p_inv_def)
  have eq: "byID ?c = byID c" "byPair ?c = byPair c" by (simp_all add: expireClosedStatsLocked_def)
  have dist: "distinct (map fst (closedStats c))" using maps by (simp add: maps_ok_def)
  have sub: "closed c k = Some v" if "closed ?c k = Some v" for k v
    using map_of_SomeD [OF that] dist by (auto simp: expireClosedStatsLocked_def)
  have holds: "holds ?c = holds c" by (intro ext) (simp add: holds_def eq)
  have "distinct (map fst (closedStats ?c))"
    using dist by (simp add: expireClosedStatsLocked_def distinct_filter_keys)
  then have "maps_ok ?c" using maps unfolding maps_ok_def eq by blast
  moreover have "closed ?c k = None" if "closed c k = None" for k using sub [of k] that by (cases "closed ?c k") auto
  then have "ids_ok ids ?c"
    using ids_okD [OF ids] by (intro ids_okI) (auto simp: eq holds dest: sub)
  moreover have "books_ok acc ?c" using books sub unfolding books_ok_def holds by blast
  ultimately show ?thesis using inv by (simp add: p2p_inv_def)
qed

lemma revoked_session:
  assumes "session_ok s"
  shows "session_ok (s\<lparr>ps_grants := AList.delete t (ps_grants s)\<rparr>)"
    and "grants_by t None s (s\<lparr>ps_grants := AList.delete t (ps_grants s)\<rparr>)"
proof -
  let ?s = "s\<lparr>ps_grants := AList.delete t (ps_grants s)\<rparr>"
  have same: "grant_ok ?s u h = grant_ok s u h" for u h by (simp add: grant_ok_def)
  have "grant_ok ?s u h" if "grants ?s u = Some h" for u h
    using that assms unfolding same by (auto simp: delete_conv' session_ok_def split: if_splits)
  then show "session_ok ?s" using assms by (simp add: session_ok_def distinct_delete)
  show "grants_by t None s ?s" by (simp add: grants_by_def delete_conv')
qed

lemma revokeTunnel_inv:
  assumes inv: "p2p_inv ids acc c"
  shows "p2p_inv ids acc (snd (revokeTunnel ul now tunnelID revision reason c))"
proof -
  let ?P = "\<lambda>(_, s). case map_of (ps_grants s) tunnelID of None \<Rightarrow> False | Some g \<Rightarrow> revision \<le> 0 \<or> gr_revision g \<le> revision"
  show ?thesis
  proof (cases "find ?P (byID c)")
    case None
    then show ?thesis using inv by (simp add: revokeTunnel_def)
  next
    case (Some x)
    obtain i s where x: "x = (i, s)" by (cases x)
    have "x \<in> set (byID c)" using Some by (metis (no_types, lifting) find_Some_iff nth_mem)
    then have s: "ps_id s = i" "sess c (ps_id s) = Some s"
      using still_start [OF inv] by (auto simp: still_def x)
    have ok: "session_ok s" using inv maps_okD(2) [OF _ s(2)] by (simp add: p2p_inv_def)
    obtain g where g: "grants s tunnelID = Some g"
      using Some by (auto simp: find_Some_iff x split: option.splits)
    let ?s = "s\<lparr>ps_grants := AList.delete tunnelID (ps_grants s)\<rparr>"
    let ?c = "archiveGrantLocked now ?s g (put_session ?s c)"
    have c1: "p2p_inv ids acc ?c" by (rule remove_grant_inv [OF inv s(2) g revoked_session(2) [OF ok] revoked_session(1) [OF ok]])
    moreover have "p2p_inv ids acc (deleteSessionLocked now ?s ?c)" by (rule delete_session_inv [OF c1]) simp
    ultimately show ?thesis using Some x g by (auto simp: revokeTunnel_def Let_def)
  qed
qed

lemma loops_inv:
  assumes inv: "p2p_inv ids acc c"
  shows "p2p_inv ids acc (snd (closeClient ul now clientID generation reason c))"
    and "p2p_inv ids acc (snd (closeClients ul now owner participants reason c))"
    and "p2p_inv ids acc (snd (closeSession ul now sessionID reason c))"
    and "p2p_inv ids acc (snd (expire now c))"
    and "p2p_inv ids acc (snd (renew now healthy c))"
proof -
  note st = still_start [OF inv] and ex = expireClosedStats_inv [OF inv, of now]
  show "p2p_inv ids acc (snd (closeClient ul now clientID generation reason c))"
    unfolding closeClient_def by (rule close_sessions_inv [OF inv st])
  show "p2p_inv ids acc (snd (closeClients ul now owner participants reason c))"
    unfolding closeClients_def by (rule close_sessions_inv [OF inv st])
  show "p2p_inv ids acc (snd (closeSession ul now sessionID reason c))"
  proof (cases "sess c sessionID")
    case (Some s)
    then have "sess c (ps_id s) = Some s" using maps_okD(1) [OF _ Some] inv by (simp add: p2p_inv_def)
    from delete_session_inv [OF inv this] Some show ?thesis by (simp add: closeSession_def)
  qed (simp add: closeSession_def inv)
  show "p2p_inv ids acc (snd (expire now c))"
    using delete_all_inv [OF ex still_start [OF ex]] by (simp add: expire_def Let_def)
  show "p2p_inv ids acc (snd (renew now healthy c))"
    using renew_loop_inv [OF ex still_start [OF ex]] by (simp add: renew_def Let_def)
qed

section \<open>Reachable coordinators\<close>

text \<open>
  The coordinator in use, with the identities drawn so far and the books of accepted traffic.
  Random identities never repeat, and client identities (from the user database) hold no zero byte.
\<close>

record p2p_world =
  pw_c :: p2pCoordinator
  pw_ids :: "string set"
  pw_books :: "string \<Rightarrow> nat \<times> nat"

inductive p2p_step :: "p2p_world \<Rightarrow> p2p_world \<Rightarrow> bool" where
  st_ensure: "spec_clean spec \<Longrightarrow> (\<And>i. sid = Some i \<Longrightarrow> i \<notin> pw_ids w) \<Longrightarrow>
     (\<And>g. gid = Some g \<Longrightarrow> g \<notin> pw_ids w \<and> sid \<noteq> Some g) \<Longrightarrow>
     p2p_step w (w\<lparr>pw_c := snd (ensureGrant now sid gid spec (pw_c w)),
                   pw_ids := pw_ids w \<union> set_option sid \<union> set_option gid\<rparr>)"
| st_signal: "p2p_step w (w\<lparr>pw_c := snd (authorizeSignal now client generation signal (pw_c w))\<rparr>)"
| st_ready: "p2p_step w (w\<lparr>pw_c := snd (recordReady ul now client generation status (pw_c w))\<rparr>)"
| st_stats: "acceptStats now client generation r (pw_c w) = (res, c) \<Longrightarrow>
     p2p_step w (w\<lparr>pw_c := c, pw_books := book r res (pw_books w)\<rparr>)"
| st_demand: "p2p_step w (w\<lparr>pw_c := snd (authorizeCreditDemand now client generation d (pw_c w))\<rparr>)"
| st_credit: "p2p_step w (w\<lparr>pw_c := snd (authorizeCreditGrant now client generation k (pw_c w))\<rparr>)"
| st_close: "p2p_step w (w\<lparr>pw_c := snd (closeSession ul now i reason (pw_c w))\<rparr>)"
| st_closeClient: "p2p_step w (w\<lparr>pw_c := snd (closeClient ul now client generation reason (pw_c w))\<rparr>)"
| st_closeClients: "p2p_step w (w\<lparr>pw_c := snd (closeClients ul now owner parts reason (pw_c w))\<rparr>)"
| st_revoke: "p2p_step w (w\<lparr>pw_c := snd (revokeTunnel ul now tunnel revision reason (pw_c w))\<rparr>)"
| st_expire: "p2p_step w (w\<lparr>pw_c := snd (expire now (pw_c w))\<rparr>)"
| st_renew: "p2p_step w (w\<lparr>pw_c := snd (renew now healthy (pw_c w))\<rparr>)"

definition p2p_start :: p2p_world where
  "p2p_start = \<lparr>pw_c = newP2PCoordinator, pw_ids = {}, pw_books = (\<lambda>_. (0, 0))\<rparr>"

definition world_inv :: "p2p_world \<Rightarrow> bool" where
  "world_inv w \<longleftrightarrow> p2p_inv (pw_ids w) (pw_books w) (pw_c w)"

lemma world_inv_start: "world_inv p2p_start"
  by (simp add: world_inv_def p2p_start_def p2p_inv_def maps_ok_def ids_ok_def books_ok_def holds_def
      newP2PCoordinator_def)

lemma world_inv_step: "p2p_step w w' \<Longrightarrow> world_inv w \<Longrightarrow> world_inv w'"
  unfolding world_inv_def
  by (induction rule: p2p_step.induct)
     (simp_all add: ensureGrant_inv authorizeSignal_inv recordReady_inv acceptStats_inv(1)
        authorizeCreditDemand_inv authorizeCreditGrant_inv loops_inv revokeTunnel_inv)

lemma world_inv_reachable: "p2p_step\<^sup>*\<^sup>* p2p_start w \<Longrightarrow> world_inv w"
  by (induction rule: rtranclp_induct) (auto intro: world_inv_start world_inv_step)

lemma p2p_reachable_inv:
  assumes "p2p_step\<^sup>*\<^sup>* p2p_start w"
  shows "p2p_inv (pw_ids w) (pw_books w) (pw_c w)"
  using world_inv_reachable [OF assms] by (simp add: world_inv_def)

text \<open>
  C11 (invariant). In every reachable state of the coordinator two clients share at most one
  session, found under its identity and under its pair; the session joins two different clients
  in their order, every grant of it belongs to it and joins exactly its two clients, the credit
  relayed for a grant never exceeds the demand relayed for it, and no client has sent more
  candidates than the limit.
\<close>

theorem p2p_coordinator_consistent:
  assumes "p2p_step\<^sup>*\<^sup>* p2p_start w" and "sess (pw_c w) i = Some s"
  shows "ps_id s = i \<and> byPair (pw_c w) (pair_key (ps_clientA s) (ps_clientB s)) = Some i \<and>
    ps_clientA s < ps_clientB s \<and>
    list_all (\<lambda>(t, g). gr_tunnelID g = t \<and> gr_sessionID g = i \<and>
       {gr_ingressClientID g, gr_targetClientID g} = {ps_clientA s, ps_clientB s}) (ps_grants s) \<and>
    cc_cumulative (ps_creditGrant s k) \<le> cc_cumulative (ps_creditDemand s k) \<and>
    cr_total (ps_candidates s client) \<le> P2PMaxCandidates \<and>
    (\<forall>j r. sess (pw_c w) j = Some r \<longrightarrow> ps_clientA r = ps_clientA s \<longrightarrow> ps_clientB r = ps_clientB s \<longrightarrow> j = i)"
proof -
  have maps: "maps_ok (pw_c w)" using p2p_reachable_inv [OF assms(1)] by (simp add: p2p_inv_def)
  note s = maps_okD [OF maps assms(2)]
  have "grant_ok s t g" if "(t, g) \<in> set (ps_grants s)" for t g
    using that s(2) by (auto simp: session_ok_def)
  then have grants: "list_all (\<lambda>(t, g). gr_tunnelID g = t \<and> gr_sessionID g = i \<and>
       {gr_ingressClientID g, gr_targetClientID g} = {ps_clientA s, ps_clientB s}) (ps_grants s)"
    using s(1) by (fastforce simp: list_all_iff grant_ok_def)
  have "j = i" if r: "sess (pw_c w) j = Some r" "ps_clientA r = ps_clientA s" "ps_clientB r = ps_clientB s" for j r
    using maps_okD(3) [OF maps r(1)] s(3) r by (simp add: session_key_def)
  then show ?thesis using grants s by (simp add: session_ok_def session_key_def)
qed

lemma stats_retry:
  assumes inv: "p2p_inv ids acc c" and run: "acceptStats now client generation r c = (Inr d, c')"
  shows "\<exists>e. acceptStats now' client' generation' r c' = (Inl e, c')"
proof (cases "live_grant now r c")
  case None
  then have run': "acceptClosedStatsLocked now client generation r c = (Inr d, c')"
    using run by (simp add: acceptStats_def split: option.splits)
  have inv': "p2p_inv ids (acc(sr_GrantID r := report_sum r)) c'" by (rule closed_stats_inv [OF inv run'])
  obtain v where v: "closed c' (sr_GrantID r) = Some v" "cs_cursor v = cursor_of r"
    using run' by (auto simp: acceptClosedStatsLocked_def Let_def update_conv' split: option.splits if_splits)
  have "live_grant now' r c' = None"
  proof (cases "live_grant now' r c'")
    case (Some sg)
    then obtain s g where sg: "live_session now' (sr_SessionID r) c' = Some s" "grants s (sr_TunnelID r) = Some g"
        "gr_grantID g = sr_GrantID r"
      by (auto simp: live_grant_def split: option.splits if_splits)
    with live_sessionD(1) [OF sg(1) inv'] have "holds c' (sr_GrantID r) (ps_id s) (sr_TunnelID r) (stats_cursor s (sr_GrantID r))" by (auto simp: holds_def)
    then show ?thesis using inv' ids_okD(5) v(1) by (fastforce simp: p2p_inv_def)
  qed
  then show ?thesis using v by (auto simp: acceptStats_def acceptClosedStatsLocked_def cursor_of_def Let_def split: option.splits)
next
  case (Some sg)
  obtain s g where sg: "sg = (s, g)" by (cases sg)
  have g: "gr_grantID g = sr_GrantID r" "grants s (sr_TunnelID r) = Some g" and s: "live_session now (sr_SessionID r) c = Some s"
    using Some sg by (auto simp: live_grant_def split: option.splits if_splits)
  let ?s = "s\<lparr>ps_stats := (ps_stats s)(sr_GrantID r \<mapsto> cursor_of r)\<rparr>"
  have c': "c' = put_session ?s c"
    using run Some sg by (auto simp: acceptStats_def Let_def g split: option.splits if_splits)
  have own: "holds c (sr_GrantID r) (ps_id s) (sr_TunnelID r) (stats_cursor s (sr_GrantID r))"
    using live_sessionD(1) [OF s inv] g by (auto simp: holds_def)
  have none: "closed c' (sr_GrantID r) = None" using ids_okD(5) [OF _ own, of ids] inv by (simp add: c' p2p_inv_def)
  have "sess c' (sr_SessionID r) = Some ?s" using live_sessionD(2) [OF s inv] by (simp add: c')
  then have "live_grant now' r c' = None \<or> live_grant now' r c' = Some (?s, g)"
    using g by (simp add: live_grant_def live_session_def)
  then show ?thesis
    using none by (auto simp: acceptStats_def acceptClosedStatsLocked_def Let_def g(1) stats_cursor_def cursor_of_def
        split: option.splits)
qed

text \<open>
  C2 (safety). Peer-to-peer traffic is accounted exactly once: in every reachable state, an
  accepted report brings the total booked for its grant to exactly the cumulative counters of the
  report, across renewals, revocation, the close of the session and the final report after it; and
  the same report sent again, by whoever and whenever, is rejected and changes nothing.
\<close>

theorem p2p_stats_exactly_once:
  assumes "p2p_step\<^sup>*\<^sup>* p2p_start w" and "acceptStats now client generation r (pw_c w) = (Inr d, c)"
  shows "add_pair (pw_books w (sr_GrantID r)) d = report_sum r \<and>
    (\<exists>e. acceptStats now' client' generation' r c = (Inl e, c))"
  using acceptStats_inv(2) [OF p2p_reachable_inv [OF assms(1)] assms(2)] stats_retry [OF p2p_reachable_inv [OF assms(1)] assms(2)]
  by simp

section \<open>Renewal\<close>

definition keep_session :: "gotime \<Rightarrow> (string \<Rightarrow> u64 \<Rightarrow> bool) \<Rightarrow> p2pPairSession \<Rightarrow> bool" where
  "keep_session now healthy s \<longleftrightarrow> healthy (ps_clientA s) (ps_generationA s) \<and>
     healthy (ps_clientB s) (ps_generationB s) \<and> now < ps_expiresAt s"

text \<open>The abstract effect of a renewal on the sessions: a filter and an extension, in one map.\<close>

definition renewed :: "gotime \<Rightarrow> (string \<Rightarrow> u64 \<Rightarrow> bool) \<Rightarrow> p2pPairSession option \<Rightarrow> p2pPairSession option" where
  "renewed now healthy so =
     (case so of None \<Rightarrow> None | Some s \<Rightarrow> if keep_session now healthy s then Some (renew_session now s) else None)"

lemma renew_loop_sess:
  "still xs c \<Longrightarrow> sess (snd (renew_loop now healthy xs ((outs, cl), c))) i =
     (if i \<in> fst ` set xs then renewed now healthy (sess c i) else sess c i)"
proof (induction xs arbitrary: outs cl c)
  case (Cons x xs)
  obtain j s where x: "x = (j, s)" by (cases x)
  note c = still_Cons [OF Cons.prems [unfolded x]]
  have new: "j \<notin> fst ` set xs" using Cons.prems by (simp add: still_def x)
  have id: "ps_id (renew_session now s) = ps_id s" by (simp add: renew_session_def)
  show ?case
    using Cons.IH [OF still_delete [OF Cons.prems [unfolded x]]] Cons.IH [OF still_put [OF Cons.prems [unfolded x] id]] c new
    by (auto simp: x Let_def delete_fields renewed_def keep_session_def id)
qed simp

definition close_reason :: "(string \<Rightarrow> u64 \<Rightarrow> bool) \<Rightarrow> p2pPairSession \<Rightarrow> string" where
  "close_reason healthy s =
     (if healthy (ps_clientA s) (ps_generationA s) \<and> healthy (ps_clientB s) (ps_generationB s)
      then ''lease_expired'' else ''lease_unhealthy'')"

lemma renew_loop_outputs:
  "fst (renew_loop now healthy xs ((outs, cl), c)) =
     (outs @ concat (map (\<lambda>(_, s). if keep_session now healthy s then renew_outbounds (renew_session now s) else []) xs),
      cl @ concat (map (\<lambda>(_, s). if keep_session now healthy s then [] else
         [closed_result s (close_reason healthy s) (p2pClosedOutbounds s (close_reason healthy s))]) xs))"
proof (induction xs arbitrary: outs cl c)
  case (Cons x xs)
  then show ?case by (cases x) (simp add: Let_def keep_session_def close_reason_def)
qed simp

lemma closed_ids:
  "map lr_ExpectedSessionID (concat (map (\<lambda>(_, s). if P s then [] else [closed_result s (code s) (outs s)]) xs)) =
     map (ps_id \<circ> snd) (filter (\<lambda>(_, s). \<not> P s) xs)"
  by (induction xs) (auto simp: closed_result_def)

text \<open>
  C12 (refinement). One pass of the lease loop implements its specification on the map of sessions,
  whatever the order in which it visits them: a session whose two clients are both live in the
  generation of the session and whose lease has not run out is renewed for a full lease with the
  next sequence number, together with all of its grants; every other one is gone and reported
  closed exactly once.
\<close>

theorem renew_refines_spec:
  assumes reach: "p2p_step\<^sup>*\<^sup>* p2p_start w" and run: "renew now healthy (pw_c w) = ((outs, cl), c)"
  shows "sess c i = renewed now healthy (sess (pw_c w) i) \<and>
    map lr_ExpectedSessionID cl = map fst (filter (\<lambda>(_, s). \<not> keep_session now healthy s) (byID (pw_c w))) \<and>
    (\<forall>s. sess c i = Some s \<longrightarrow> ps_expiresAt s = now + p2pLeaseDuration \<and>
       set (renew_outbounds s) \<subseteq> set outs \<and>
       list_all (\<lambda>(_, g). gr_expiresAt g = now + p2pLeaseDuration) (ps_grants s))"
proof -
  let ?c = "expireClosedStatsLocked now (pw_c w)"
  note inv = p2p_reachable_inv [OF reach]
  have eq: "byID ?c = byID (pw_c w)" by (simp add: expireClosedStatsLocked_def)
  have loop: "renew_loop now healthy (byID (pw_c w)) (([], []), ?c) = ((outs, cl), c)"
    using run by (simp add: renew_def Let_def eq)
  have still: "still (byID (pw_c w)) ?c" using still_start [OF expireClosedStats_inv [OF inv, of now]] by (simp add: eq)
  have i: "sess c i = renewed now healthy (sess (pw_c w) i)"
    using renew_loop_sess [OF still, of now healthy "[]" "[]" i] loop
    by (auto simp: eq renewed_def map_of_eq_None_iff [symmetric] split: option.splits)
  have out: "outs = concat (map (\<lambda>(_, s). if keep_session now healthy s then renew_outbounds (renew_session now s) else []) (byID (pw_c w)))"
    and cl: "map lr_ExpectedSessionID cl = map (ps_id \<circ> snd) (filter (\<lambda>(_, s). \<not> keep_session now healthy s) (byID (pw_c w)))"
    using renew_loop_outputs [of now healthy "byID (pw_c w)" "[]" "[]" ?c] loop
    by (auto simp: closed_ids)
  have "map (ps_id \<circ> snd) (filter (\<lambda>(_, s). \<not> keep_session now healthy s) (byID (pw_c w))) =
      map fst (filter (\<lambda>(_, s). \<not> keep_session now healthy s) (byID (pw_c w)))"
    using still by (auto simp: still_def intro!: map_cong)
  moreover have "ps_expiresAt s = now + p2pLeaseDuration \<and> set (renew_outbounds s) \<subseteq> set outs \<and>
       list_all (\<lambda>(_, g). gr_expiresAt g = now + p2pLeaseDuration) (ps_grants s)" if kept: "sess c i = Some s" for s
  proof -
    obtain r where r: "sess (pw_c w) i = Some r" "keep_session now healthy r" "s = renew_session now r"
      using kept i by (auto simp: renewed_def split: option.splits if_splits)
    have "set (renew_outbounds s) \<subseteq> set outs" using map_of_SomeD [OF r(1)] r(2,3) by (force simp: out)
    then show ?thesis using r(3) by (auto simp: renew_session_def list_all_iff)
  qed
  ultimately show ?thesis using i cl by simp
qed

section \<open>A concrete run\<close>

definition p2p_demo_spec :: p2pGrantSpec where
  "p2p_demo_spec = \<lparr>gs_tunnelID = ''t1'', gs_ingressClientID = ''c1'', gs_targetClientID = ''c2'', gs_ownerUserID = ''u'',
     gs_revision = 1, gs_ownerEpoch = 1, gs_ingressGeneration = 1, gs_targetGeneration = 2, gs_totalBPS = 0\<rparr>"

definition p2p_demo_coordinator :: p2pCoordinator where
  "p2p_demo_coordinator = snd (ensureGrant 5 (Some ''s1'') (Some ''g1'') p2p_demo_spec newP2PCoordinator)"

definition p2p_demo_world :: p2p_world where
  "p2p_demo_world = \<lparr>pw_c = p2p_demo_coordinator, pw_ids = {''s1'', ''g1''}, pw_books = (\<lambda>_. (0, 0))\<rparr>"

definition p2p_demo_report :: P2PStatsReport where
  "p2p_demo_report = \<lparr>sr_SessionID = ''s1'', sr_GrantID = ''g1'', sr_TunnelID = ''t1'', sr_Revision = 1, sr_Epoch = ''e'',
     sr_Sequence = 1, sr_IngressBytes = 10, sr_EgressBytes = 20\<rparr>"

lemma p2p_demo_reachable: "p2p_step\<^sup>*\<^sup>* p2p_start p2p_demo_world"
proof -
  have "p2p_step p2p_start (p2p_start\<lparr>pw_c := snd (ensureGrant 5 (Some ''s1'') (Some ''g1'') p2p_demo_spec (pw_c p2p_start)),
      pw_ids := pw_ids p2p_start \<union> set_option (Some ''s1'') \<union> set_option (Some ''g1'')\<rparr>)"
    by (rule st_ensure) (auto simp: spec_clean_def p2p_demo_spec_def p2p_start_def)
  also have "\<dots> = p2p_demo_world" by (simp add: p2p_start_def p2p_demo_world_def p2p_demo_coordinator_def insert_commute)
  finally show ?thesis by blast
qed

lemma p2p_demo_session:
  "map_option (\<lambda>s. (ps_clientA s, ps_clientB s, ps_generationA s, ps_expiresAt s, map fst (ps_grants s)))
     (sess p2p_demo_coordinator ''s1'') = Some (''c1'', ''c2'', 1, 5 + p2pLeaseDuration, [''t1''])"
  by code_simp

lemma p2p_demo_accept: "fst (acceptStats 6 ''c2'' 2 p2p_demo_report p2p_demo_coordinator) = Inr (10, 20)"
  by code_simp

theorem p2p_coordinator_consistent_witness:
  "\<exists>s. sess (pw_c p2p_demo_world) ''s1'' = Some s \<and> ps_clientA s < ps_clientB s \<and>
     byPair (pw_c p2p_demo_world) (pair_key (ps_clientA s) (ps_clientB s)) = Some ''s1''"
  using p2p_coordinator_consistent [OF p2p_demo_reachable, of "''s1''"] p2p_demo_session by (auto simp: p2p_demo_world_def)

theorem p2p_stats_exactly_once_witness:
  "add_pair (0, 0) (10, 20) = report_sum p2p_demo_report \<and>
   (\<exists>e c. acceptStats 6 ''c2'' 2 p2p_demo_report p2p_demo_coordinator = (Inr (10, 20), c) \<and>
      acceptStats 7 ''c2'' 2 p2p_demo_report c = (Inl e, c))"
proof -
  obtain c where c: "acceptStats 6 ''c2'' 2 p2p_demo_report p2p_demo_coordinator = (Inr (10, 20), c)"
    using p2p_demo_accept by (metis prod.collapse)
  from p2p_stats_exactly_once [OF p2p_demo_reachable, of 6 "''c2''" 2 p2p_demo_report "(10, 20)" c 7 "''c2''" 2] c show ?thesis
    by (auto simp: p2p_demo_world_def)
qed

theorem renew_refines_spec_witness:
  "case renew 7 (\<lambda>_ _. True) (pw_c p2p_demo_world) of ((outs, cl), c) \<Rightarrow>
     sess c ''s1'' = renewed 7 (\<lambda>_ _. True) (sess (pw_c p2p_demo_world) ''s1'') \<and> sess c ''s1'' \<noteq> None"
proof -
  obtain outs cl c where run: "renew 7 (\<lambda>_ _. True) (pw_c p2p_demo_world) = ((outs, cl), c)" by (metis prod.exhaust)
  obtain s where "sess (pw_c p2p_demo_world) ''s1'' = Some s" "ps_expiresAt s = 5 + p2pLeaseDuration"
    using p2p_demo_session by (auto simp: p2p_demo_world_def)
  then have "renewed 7 (\<lambda>_ _. True) (sess (pw_c p2p_demo_world) ''s1'') \<noteq> None"
    by (simp add: renewed_def keep_session_def)
  with renew_refines_spec [OF p2p_demo_reachable run, of "''s1''"] run show ?thesis by simp
qed

end
