(* ===== verification/Rate_Limiter.thy ===== *)
theory Rate_Limiter
  imports Go_Prelude "HOL-Library.AList" "HOL-Library.Product_Lexorder" "HOL-Library.Multiset"
begin

text \<open>
  The per-address rate limiter of \<open>internal/server/rate_limiter.go\<close>: a sliding window of
  request times and a lockout after consecutive failures. The concurrent map of entries is an
  association list whose order stands for the (unspecified) order of \<open>Range\<close>; every
  operation runs under the entry's mutex and is one function here, with the clock readings it
  takes as arguments. The theorems are about arbitrary sequences of operations: the window
  bound, the lockout, and the agreement of the administrator's snapshot with the decisions.
\<close>

section \<open>State\<close>

record RateLimiterConfig =
  WindowSize :: duration
  MaxRequests :: int
  MaxFailures :: int
  LockoutPeriod :: duration
  CleanupInterval :: duration

record rateLimitEntry =
  re_timestamps :: "gotime list"
  re_failures :: int
  re_lockedUntil :: gotime
  re_lastActivity :: gotime

record RateLimitSnapshot =
  sn_IP :: string
  sn_RequestCount :: int
  sn_MaxRequests :: int
  sn_FailureCount :: int
  sn_MaxFailures :: int
  sn_Limited :: bool
  sn_Reason :: string
  sn_RetryAfterSeconds :: int
  sn_LockedUntil :: "gotime option"
  sn_LastActivity :: gotime
  sn_WindowSeconds :: int
  sn_LockoutSeconds :: int

type_synonym rl_entries = "(string \<times> rateLimitEntry) list"

section \<open>Operations\<close>

text \<open>
  \<open>int(d.Seconds())\<close> truncates towards zero; the intermediate float64 is exact enough for
  durations below \<open>2\<^sup>23\<close> seconds, far above every configured window and lockout.
\<close>

definition whole_seconds :: "duration \<Rightarrow> int" where
  "whole_seconds d = (if d < 0 then - ((- d) div second) else d div second)"

definition retryAfterSeconds :: "duration \<Rightarrow> int" where
  "retryAfterSeconds d = (let secs = whole_seconds d in if secs < 1 then 1 else secs)"

definition fresh_entry :: "gotime \<Rightarrow> rateLimitEntry" where
  "fresh_entry t0 = \<lparr>re_timestamps = [], re_failures = 0, re_lockedUntil = 0, re_lastActivity = t0\<rparr>"

definition getOrCreate :: "gotime \<Rightarrow> string \<Rightarrow> rl_entries \<Rightarrow> rateLimitEntry" where
  "getOrCreate t0 ip m = (case map_of m ip of Some e \<Rightarrow> e | None \<Rightarrow> fresh_entry t0)"

definition in_window :: "RateLimiterConfig \<Rightarrow> gotime \<Rightarrow> gotime \<Rightarrow> bool" where
  "in_window cfg now t \<longleftrightarrow> now - WindowSize cfg < t"

definition Allow_entry ::
  "RateLimiterConfig \<Rightarrow> gotime \<Rightarrow> rateLimitEntry \<Rightarrow> (bool \<times> duration) \<times> rateLimitEntry" where
  "Allow_entry cfg now e =
     (let e1 = e\<lparr>re_lastActivity := now\<rparr> in
      if now < re_lockedUntil e then ((False, time_sub (re_lockedUntil e) now), e1)
      else let ts = filter (in_window cfg now) (re_timestamps e); e2 = e1\<lparr>re_timestamps := ts\<rparr> in
      if 0 < MaxRequests cfg \<and> MaxRequests cfg \<le> int (length ts)
      then let retryAfter = time_sub (hd ts + WindowSize cfg) now in
           ((False, if retryAfter < 0 then second else retryAfter), e2)
      else ((True, 0), e2\<lparr>re_timestamps := ts @ [now]\<rparr>))"

definition Allow ::
  "RateLimiterConfig \<Rightarrow> gotime \<Rightarrow> gotime \<Rightarrow> string \<Rightarrow> rl_entries \<Rightarrow> (bool \<times> duration) \<times> rl_entries" where
  "Allow cfg t0 now ip m =
     (let (r, e) = Allow_entry cfg now (getOrCreate t0 ip m) in (r, AList.update ip e m))"

text \<open>\<open>RecordFailure\<close> reads the clock twice, for the activity and for the lockout.\<close>

definition RecordFailure_entry ::
  "RateLimiterConfig \<Rightarrow> gotime \<Rightarrow> gotime \<Rightarrow> rateLimitEntry \<Rightarrow> rateLimitEntry" where
  "RecordFailure_entry cfg t1 t2 e =
     (let e1 = e\<lparr>re_failures := re_failures e + 1, re_lastActivity := t1\<rparr> in
      if 0 < MaxFailures cfg \<and> MaxFailures cfg \<le> re_failures e1
      then e1\<lparr>re_lockedUntil := t2 + LockoutPeriod cfg, re_failures := 0\<rparr> else e1)"

definition RecordFailure ::
  "RateLimiterConfig \<Rightarrow> gotime \<Rightarrow> gotime \<Rightarrow> gotime \<Rightarrow> string \<Rightarrow> rl_entries \<Rightarrow> rl_entries" where
  "RecordFailure cfg t0 t1 t2 ip m =
     AList.update ip (RecordFailure_entry cfg t1 t2 (getOrCreate t0 ip m)) m"

definition ResetFailures :: "gotime \<Rightarrow> string \<Rightarrow> rl_entries \<Rightarrow> rl_entries" where
  "ResetFailures t0 ip m = AList.update ip ((getOrCreate t0 ip m)\<lparr>re_failures := 0\<rparr>) m"

definition Delete :: "string \<Rightarrow> rl_entries \<Rightarrow> bool \<times> rl_entries" where
  "Delete ip m = (map_of m ip \<noteq> None, AList.delete ip m)"

definition max_idle :: "RateLimiterConfig \<Rightarrow> duration" where
  "max_idle cfg = (let i = WindowSize cfg + LockoutPeriod cfg in if i < minute then minute else i)"

definition cleanup :: "RateLimiterConfig \<Rightarrow> gotime \<Rightarrow> rl_entries \<Rightarrow> rl_entries" where
  "cleanup cfg now m = filter (\<lambda>(ip, e). \<not> max_idle cfg < time_sub now (re_lastActivity e)) m"

section \<open>Snapshot\<close>

text \<open>The loop over the timestamps: the number of live ones and the earliest of them.\<close>

fun live_scan :: "(gotime \<Rightarrow> bool) \<Rightarrow> gotime list \<Rightarrow> int \<times> gotime \<Rightarrow> int \<times> gotime" where
  "live_scan live [] acc = acc"
| "live_scan live (ts # rest) (n, earliest) =
     live_scan live rest
       (if live ts then (n + 1, if n = 0 \<or> ts < earliest then ts else earliest) else (n, earliest))"

definition snapshot_entry :: "RateLimiterConfig \<Rightarrow> gotime \<Rightarrow> string \<times> rateLimitEntry \<Rightarrow> RateLimitSnapshot" where
  "snapshot_entry cfg now = (\<lambda>(ip, e).
     let (validCount, earliestValid) = live_scan (in_window cfg now) (re_timestamps e) (0, 0);
         s = \<lparr>sn_IP = ip, sn_RequestCount = validCount, sn_MaxRequests = MaxRequests cfg,
              sn_FailureCount = re_failures e, sn_MaxFailures = MaxFailures cfg, sn_Limited = False,
              sn_Reason = [], sn_RetryAfterSeconds = 0, sn_LockedUntil = None,
              sn_LastActivity = re_lastActivity e, sn_WindowSeconds = whole_seconds (WindowSize cfg),
              sn_LockoutSeconds = whole_seconds (LockoutPeriod cfg)\<rparr> in
     if now < re_lockedUntil e
     then s\<lparr>sn_Limited := True, sn_Reason := ''lockout'', sn_LockedUntil := Some (re_lockedUntil e),
            sn_RetryAfterSeconds := retryAfterSeconds (time_sub (re_lockedUntil e) now)\<rparr>
     else if 0 < MaxRequests cfg \<and> MaxRequests cfg \<le> validCount \<and> \<not> time_is_zero earliestValid
     then s\<lparr>sn_Limited := True, sn_Reason := ''window'',
            sn_RetryAfterSeconds := retryAfterSeconds (time_sub (earliestValid + WindowSize cfg) now)\<rparr>
     else s)"

definition snapshot_less :: "RateLimitSnapshot \<Rightarrow> RateLimitSnapshot \<Rightarrow> bool" where
  "snapshot_less a b \<longleftrightarrow>
     (if sn_Limited a \<noteq> sn_Limited b then sn_Limited a
      else if sn_LastActivity a \<noteq> sn_LastActivity b then sn_LastActivity b < sn_LastActivity a
      else sn_IP a < sn_IP b)"

definition snapshot_key :: "RateLimitSnapshot \<Rightarrow> bool \<times> int \<times> string" where
  "snapshot_key s = (\<not> sn_Limited s, - sn_LastActivity s, sn_IP s)"

text \<open>
  \<open>sort.Slice\<close> with the comparison above; addresses are distinct, so every correct sort
  gives the same list, which \<open>Snapshot_ordered\<close> below shows to be strictly ordered.
\<close>

definition Snapshot :: "RateLimiterConfig \<Rightarrow> gotime \<Rightarrow> gotime \<Rightarrow> rl_entries \<Rightarrow> RateLimitSnapshot list" where
  "Snapshot cfg clock now m =
     (let now' = (if time_is_zero now then clock else now) in
      sort_key snapshot_key (map (snapshot_entry cfg now') m))"

section \<open>Sequences of operations\<close>

text \<open>
  The limiter in use: the clock of the last reading, the entries, and a log of the requests
  granted since the address was last deleted by an administrator. Readings never go back;
  \<open>D\<close> are the addresses an administrator may delete.
\<close>

record rl_world =
  w_clock :: gotime
  w_entries :: rl_entries
  w_granted :: "(string \<times> gotime) list"

inductive rl_step :: "RateLimiterConfig \<Rightarrow> string set \<Rightarrow> rl_world \<Rightarrow> rl_world \<Rightarrow> bool" for cfg D where
  step_allow: "w_clock w \<le> t0 \<Longrightarrow> t0 \<le> now \<Longrightarrow> Allow cfg t0 now ip (w_entries w) = ((ok, ra), m) \<Longrightarrow>
     rl_step cfg D w \<lparr>w_clock = now, w_entries = m,
                    w_granted = w_granted w @ (if ok then [(ip, now)] else [])\<rparr>"
| step_failure: "w_clock w \<le> t0 \<Longrightarrow> t0 \<le> t1 \<Longrightarrow> t1 \<le> t2 \<Longrightarrow>
     rl_step cfg D w (w\<lparr>w_clock := t2, w_entries := RecordFailure cfg t0 t1 t2 ip (w_entries w)\<rparr>)"
| step_reset: "w_clock w \<le> t0 \<Longrightarrow>
     rl_step cfg D w (w\<lparr>w_clock := t0, w_entries := ResetFailures t0 ip (w_entries w)\<rparr>)"
| step_cleanup: "w_clock w \<le> now \<Longrightarrow>
     rl_step cfg D w (w\<lparr>w_clock := now, w_entries := cleanup cfg now (w_entries w)\<rparr>)"
| step_delete: "ip \<in> D \<Longrightarrow>
     rl_step cfg D w (w\<lparr>w_entries := snd (Delete ip (w_entries w)),
                      w_granted := filter (\<lambda>(i, t). i \<noteq> ip) (w_granted w)\<rparr>)"

inductive_cases rl_stepE: "rl_step cfg D w w'"

definition rl_start :: "gotime \<Rightarrow> rl_world" where
  "rl_start t = \<lparr>w_clock = t, w_entries = [], w_granted = []\<rparr>"

definition granted_to :: "string \<Rightarrow> rl_world \<Rightarrow> gotime list" where
  "granted_to ip w = map snd (filter (\<lambda>(i, t). i = ip) (w_granted w))"

definition sane_config :: "RateLimiterConfig \<Rightarrow> bool" where
  "sane_config cfg \<longleftrightarrow> 0 \<le> WindowSize cfg \<and> 0 \<le> LockoutPeriod cfg \<and>
     WindowSize cfg + LockoutPeriod cfg \<le> max_duration"

section \<open>Lemmas on the entry map\<close>

lemmas entry_map_simps = update_conv' delete_conv' getOrCreate_def

lemma rl_step_distinct:
  "rl_step cfg D w w' \<Longrightarrow> distinct (map fst (w_entries w)) \<Longrightarrow> distinct (map fst (w_entries w'))"
  by (cases rule: rl_step.cases, assumption)
     (auto simp: Allow_def RecordFailure_def ResetFailures_def cleanup_def Delete_def distinct_update
        distinct_delete distinct_filter_keys split: prod.splits)

lemma rl_step_clock: "rl_step cfg D w w' \<Longrightarrow> w_clock w \<le> w_clock w'"
  by (cases rule: rl_step.cases) auto

lemma rl_steps_clock: "(rl_step cfg D)\<^sup>*\<^sup>* w w' \<Longrightarrow> w_clock w \<le> w_clock w'"
  by (induction rule: rtranclp_induct) (auto dest: rl_step_clock)

section \<open>The sliding window\<close>

definition stamps :: "rateLimitEntry option \<Rightarrow> gotime list" where
  "stamps eo = (case eo of None \<Rightarrow> [] | Some e \<Rightarrow> re_timestamps e)"

lemma stamps_simps [simp]: "stamps None = []" "stamps (Some e) = re_timestamps e"
  by (simp_all add: stamps_def)

text \<open>
  What holds of one address at clock \<open>c\<close>, with \<open>g\<close> the times granted to it: the live
  part of the log is the live part of the entry, and no window holds more than the limit.
\<close>

definition window_ok :: "RateLimiterConfig \<Rightarrow> gotime list \<Rightarrow> bool" where
  "window_ok cfg g \<longleftrightarrow>
     (0 < MaxRequests cfg \<longrightarrow>
        (\<forall>s. int (length (filter (\<lambda>t. s < t \<and> t \<le> s + WindowSize cfg) g)) \<le> MaxRequests cfg))"

definition ip_ok :: "RateLimiterConfig \<Rightarrow> gotime \<Rightarrow> gotime list \<Rightarrow> rateLimitEntry option \<Rightarrow> bool" where
  "ip_ok cfg c g eo \<longleftrightarrow>
     0 < c \<and> (\<forall>t\<in>set g. t \<le> c) \<and>
     filter (in_window cfg c) g = filter (in_window cfg c) (stamps eo) \<and>
     (\<forall>e. eo = Some e \<longrightarrow> re_lastActivity e \<le> c \<and> sorted (re_timestamps e) \<and>
         (\<forall>t\<in>set (re_timestamps e). 0 < t \<and> t \<le> re_lastActivity e)) \<and>
     window_ok cfg g"

lemma live_later:
  assumes "c \<le> c'"
  shows "filter (in_window cfg c') xs = filter (in_window cfg c') (filter (in_window cfg c) xs)"
  using assms by (induction xs) (auto simp: in_window_def)

lemma ip_ok_later: "ip_ok cfg c g eo \<Longrightarrow> c \<le> c' \<Longrightarrow> ip_ok cfg c' g eo"
  unfolding ip_ok_def using live_later [of c c' cfg g] live_later [of c c' cfg "stamps eo"] by force

lemma ip_ok_create:
  assumes "ip_ok cfg c g (map_of m ip)" and "c \<le> t0"
  shows "ip_ok cfg t0 g (Some (getOrCreate t0 ip m))"
  using ip_ok_later [OF assms] by (auto simp: ip_ok_def getOrCreate_def fresh_entry_def split: option.splits)

lemma window_ok_append:
  assumes ok: "window_ok cfg g" and few: "0 < MaxRequests cfg \<Longrightarrow>
      int (length (filter (in_window cfg now) g)) < MaxRequests cfg"
  shows "window_ok cfg (g @ [now])"
  unfolding window_ok_def
proof (intro impI allI)
  fix s
  assume pos: "0 < MaxRequests cfg"
  let ?in = "\<lambda>t. s < t \<and> t \<le> s + WindowSize cfg"
  have old: "int (length (filter ?in g)) \<le> MaxRequests cfg"
    using ok pos by (simp add: window_ok_def)
  show "int (length (filter ?in (g @ [now]))) \<le> MaxRequests cfg"
  proof (cases "?in now")
    case True
    have "length (filter ?in g) \<le> length (filter (in_window cfg now) g)"
      using True by (induction g) (auto simp: in_window_def)
    then show ?thesis using few [OF pos] True by simp
  qed (use old in auto)
qed

lemma ip_ok_allow:
  assumes ok: "ip_ok cfg now g (Some e)" and run: "Allow_entry cfg now e = ((granted, ra), e')"
  shows "ip_ok cfg now (g @ (if granted then [now] else [])) (Some e')"
proof -
  let ?live = "filter (in_window cfg now)"
  from ok have same: "?live g = ?live (re_timestamps e)" by (simp add: ip_ok_def)
  have win: "window_ok cfg (g @ [now])" if "granted"
  proof (rule window_ok_append)
    show "window_ok cfg g" using ok by (simp add: ip_ok_def)
    show "int (length (?live g)) < MaxRequests cfg" if "0 < MaxRequests cfg"
      using run \<open>granted\<close> that unfolding same by (auto simp: Allow_entry_def Let_def split: if_split_asm)
  qed
  have early: "t \<le> now" if "t \<in> set (re_timestamps e)" for t using ok that by (force simp: ip_ok_def)
  from run ok win show ?thesis
    by (auto simp: Allow_entry_def Let_def ip_ok_def sorted_append sorted_wrt_filter early split: if_split_asm)
qed

lemma ip_ok_failure:
  assumes ok: "ip_ok cfg t0 g (Some e)" and "t0 \<le> t1" and "t1 \<le> t2"
  shows "ip_ok cfg t2 g (Some (RecordFailure_entry cfg t1 t2 e))"
proof -
  have "ip_ok cfg t2 g (Some e)" using ip_ok_later [OF ok] assms by simp
  moreover have "\<forall>t\<in>set (re_timestamps e). t \<le> t1" using assms by (force simp: ip_ok_def)
  ultimately show ?thesis using assms by (auto simp: ip_ok_def RecordFailure_entry_def Let_def)
qed

lemma ip_ok_cleanup:
  assumes "ip_ok cfg now g (Some e)" and "sane_config cfg" and "max_idle cfg < time_sub now (re_lastActivity e)"
  shows "ip_ok cfg now g None"
proof -
  have "WindowSize cfg \<le> max_idle cfg" using assms(2) by (auto simp: sane_config_def max_idle_def Let_def)
  moreover have "time_sub now (re_lastActivity e) \<le> now - re_lastActivity e"
    using assms(1) by (intro time_sub_le) (simp add: ip_ok_def)
  ultimately have "filter (in_window cfg now) (re_timestamps e) = []"
    using assms(1,3) by (fastforce simp: filter_empty_conv in_window_def ip_ok_def)
  then show ?thesis using assms(1) by (simp add: ip_ok_def)
qed

lemma forget_address:
  "map snd (filter (\<lambda>(j, t). j = i) (filter (\<lambda>(j, t). j \<noteq> ip) xs)) =
     (if i = ip then [] else map snd (filter (\<lambda>(j, t). j = i) xs))"
  by (induction xs) auto

definition rl_inv :: "RateLimiterConfig \<Rightarrow> rl_world \<Rightarrow> bool" where
  "rl_inv cfg w \<longleftrightarrow>
     distinct (map fst (w_entries w)) \<and>
     (\<forall>ip. ip_ok cfg (w_clock w) (granted_to ip w) (map_of (w_entries w) ip))"

lemma rl_inv_start: "0 < t \<Longrightarrow> rl_inv cfg (rl_start t)"
  by (auto simp: rl_inv_def rl_start_def granted_to_def ip_ok_def window_ok_def)

lemma rl_inv_step:
  assumes step: "rl_step cfg D w w'" and inv: "rl_inv cfg w" and sane: "sane_config cfg"
  shows "rl_inv cfg w'"
proof -
  have dist: "distinct (map fst (w_entries w))" using inv by (simp add: rl_inv_def)
  have ok: "ip_ok cfg (w_clock w) (granted_to i w) (map_of (w_entries w) i)" for i
    using inv by (simp add: rl_inv_def)
  from step have "ip_ok cfg (w_clock w') (granted_to i w') (map_of (w_entries w') i)" for i
  proof cases
    case (step_allow t0 now ip granted ra m)
    obtain e' where run: "Allow_entry cfg now (getOrCreate t0 ip (w_entries w)) = ((granted, ra), e')"
      and m: "m = AList.update ip e' (w_entries w)"
      using step_allow(4) by (auto simp: Allow_def split: prod.splits)
    have "ip_ok cfg now (granted_to ip w) (Some (getOrCreate t0 ip (w_entries w)))"
      using ip_ok_later ip_ok_create [OF ok step_allow(2)] step_allow(3) by blast
    from ip_ok_allow [OF this run] ip_ok_later [OF ok [of i], of now] step_allow m show ?thesis
      by (auto simp: granted_to_def update_conv')
  next
    case (step_failure t0 t1 t2 ip)
    with ip_ok_failure [OF ip_ok_create [OF ok]] ip_ok_later [OF ok [of i], of t2] show ?thesis
      by (auto simp: granted_to_def update_conv' RecordFailure_def)
  next
    case (step_reset t0 ip)
    with ip_ok_create [OF ok [of ip], of t0] ip_ok_later [OF ok [of i], of t0] show ?thesis
      by (auto simp: granted_to_def update_conv' ResetFailures_def ip_ok_def)
  next
    case (step_cleanup now)
    with ip_ok_later [OF ok [of i], of now] ip_ok_cleanup [OF _ sane] show ?thesis
      by (auto simp: granted_to_def cleanup_def map_of_filter_value [OF dist] split: option.splits)
  next
    case (step_delete ip)
    then have "granted_to i w' = (if i = ip then [] else granted_to i w)"
      by (simp add: granted_to_def forget_address del: filter_filter)
    with step_delete ok [of i] show ?thesis
      by (auto simp: Delete_def delete_conv' ip_ok_def window_ok_def)
  qed
  with rl_step_distinct [OF step dist] show ?thesis by (simp add: rl_inv_def)
qed

lemma rl_inv_steps:
  assumes "(rl_step cfg D)\<^sup>*\<^sup>* w w'" and "rl_inv cfg w" and "sane_config cfg"
  shows "rl_inv cfg w'"
  using assms(1,2) by (induction rule: rtranclp_induct) (auto intro: rl_inv_step [OF _ _ assms(3)])


section \<open>The lockout\<close>

definition held_until :: "RateLimiterConfig \<Rightarrow> gotime \<Rightarrow> rateLimitEntry \<Rightarrow> bool" where
  "held_until cfg u e \<longleftrightarrow> u \<le> re_lockedUntil e \<and> u \<le> re_lastActivity e + max_idle cfg"

definition is_held :: "RateLimiterConfig \<Rightarrow> gotime \<Rightarrow> string \<Rightarrow> rl_entries \<Rightarrow> bool" where
  "is_held cfg u ip m \<longleftrightarrow> (case map_of m ip of Some e \<Rightarrow> held_until cfg u e | None \<Rightarrow> False)"

lemma held_allow:
  "held_until cfg u e \<Longrightarrow> re_lastActivity e \<le> now \<Longrightarrow> held_until cfg u (snd (Allow_entry cfg now e))"
  by (auto simp: held_until_def Allow_entry_def Let_def)

lemma held_failure:
  "held_until cfg u e \<Longrightarrow> re_lastActivity e \<le> t1 \<Longrightarrow> u \<le> t2 + LockoutPeriod cfg \<Longrightarrow>
     held_until cfg u (RecordFailure_entry cfg t1 t2 e)"
  by (auto simp: held_until_def RecordFailure_entry_def Let_def)

lemma cleanup_keeps_held:
  assumes "is_held cfg u ip m" and "now < u" and "distinct (map fst m)" and "sane_config cfg"
    and "\<And>e. map_of m ip = Some e \<Longrightarrow> re_lastActivity e \<le> now"
  shows "is_held cfg u ip (cleanup cfg now m)"
proof -
  from assms(1) obtain e where e: "map_of m ip = Some e" "held_until cfg u e"
    by (auto simp: is_held_def split: option.splits)
  have "time_sub now (re_lastActivity e) \<le> now - re_lastActivity e"
    by (intro time_sub_le) (rule assms(5) [OF e(1)])
  with e assms(2) have "\<not> max_idle cfg < time_sub now (re_lastActivity e)"
    by (simp add: held_until_def)
  with e show ?thesis
    by (simp add: is_held_def cleanup_def map_of_filter_value [OF assms(3)])
qed

lemma held_step:
  assumes step: "rl_step cfg D w w'" and inv: "rl_inv cfg w" and sane: "sane_config cfg"
    and held: "is_held cfg u ip (w_entries w)" and "ip \<notin> D" and soon: "w_clock w' < u"
    and lock: "u \<le> w_clock w + LockoutPeriod cfg"
  shows "is_held cfg u ip (w_entries w')"
proof -
  from held obtain e where e: "map_of (w_entries w) ip = Some e" "held_until cfg u e"
    by (auto simp: is_held_def split: option.splits)
  have dist: "distinct (map fst (w_entries w))" using inv by (simp add: rl_inv_def)
  have act: "re_lastActivity e' \<le> w_clock w" if "map_of (w_entries w) ip = Some e'" for e'
    using inv that by (auto simp: rl_inv_def ip_ok_def)
  from step show ?thesis
  proof cases
    case (step_allow t0 now i ok ra m)
    have "held_until cfg u (snd (Allow_entry cfg now e))"
      using e act [OF e(1)] step_allow by (intro held_allow) auto
    with step_allow e show ?thesis
      by (auto simp: Allow_def is_held_def entry_map_simps split: prod.splits)
  next
    case (step_failure t0 t1 t2 i)
    have "held_until cfg u (RecordFailure_entry cfg t1 t2 e)"
      using e act [OF e(1)] step_failure lock by (intro held_failure) auto
    with step_failure e show ?thesis by (auto simp: RecordFailure_def is_held_def entry_map_simps)
  next
    case (step_reset t0 i)
    with e show ?thesis by (auto simp: ResetFailures_def is_held_def entry_map_simps held_until_def)
  next
    case (step_cleanup now)
    then have "is_held cfg u ip (cleanup cfg now (w_entries w))"
      using soon by (intro cleanup_keeps_held [OF held _ dist sane]) (auto dest: act)
    with step_cleanup show ?thesis by simp
  next
    case (step_delete i)
    with e \<open>ip \<notin> D\<close> show ?thesis by (auto simp: Delete_def is_held_def delete_conv')
  qed
qed

lemma held_steps:
  assumes "(rl_step cfg D)\<^sup>*\<^sup>* w w'" and "rl_inv cfg w" and "sane_config cfg" and "ip \<notin> D"
    and "is_held cfg u ip (w_entries w)" and "u \<le> w_clock w + LockoutPeriod cfg" and "w_clock w' < u"
  shows "is_held cfg u ip (w_entries w')"
  using assms(1,7)
proof (induction rule: rtranclp_induct)
  case base
  show ?case by (rule assms(5))
next
  case (step y z)
  have "w_clock y \<le> w_clock z" "w_clock w \<le> w_clock y"
    using rl_step_clock [OF step(2)] rl_steps_clock [OF step(1)] by auto
  with step assms show ?case
    by (intro held_step [OF step(2) rl_inv_steps [OF step(1)]]) auto
qed

lemma RecordFailure_holds:
  assumes "0 < MaxFailures cfg" and "MaxFailures cfg \<le> re_failures (getOrCreate t0 ip m) + 1"
    and "t2 - t1 \<le> WindowSize cfg"
  shows "is_held cfg (t2 + LockoutPeriod cfg) ip (RecordFailure cfg t0 t1 t2 ip m)"
  using assms
  by (auto simp: is_held_def RecordFailure_def RecordFailure_entry_def update_conv' held_until_def max_idle_def Let_def)

lemma Allow_held:
  assumes "is_held cfg u ip m" and "now < u"
  shows "\<exists>r. fst (Allow cfg t0 now ip m) = (False, r) \<and> time_sub u now \<le> r"
  using assms
  by (auto simp: is_held_def held_until_def Allow_def Allow_entry_def getOrCreate_def Let_def time_sub_def
      split: option.splits)


section \<open>The snapshot\<close>

lemma live_scan_filter: "live_scan P xs acc = live_scan (\<lambda>_. True) (filter P xs) acc"
  by (induction P xs acc rule: live_scan.induct) auto

lemma live_scan_sorted:
  "sorted (a # xs) \<Longrightarrow> 0 < n \<Longrightarrow> live_scan (\<lambda>_. True) xs (n, a) = (n + int (length xs), a)"
  by (induction xs arbitrary: n) auto

lemma live_scan_head:
  assumes "sorted xs"
  shows "live_scan P xs (0, 0) = (int (length (filter P xs)), case filter P xs of [] \<Rightarrow> 0 | a # _ \<Rightarrow> a)"
proof (cases "filter P xs")
  case (Cons a ys)
  then have "sorted (a # ys)" using assms sorted_wrt_filter by metis
  then show ?thesis using Cons by (simp add: live_scan_filter [of P xs] live_scan_sorted)
qed (simp add: live_scan_filter [of P xs])

lemma snapshot_less_key: "snapshot_less = (\<lambda>a b. snapshot_key a < snapshot_key b)"
  by (intro ext) (auto simp: snapshot_less_def snapshot_key_def less_prod_def)

lemma snapshot_entry_IP [simp]: "sn_IP (snapshot_entry cfg now x) = fst x"
  by (auto simp: snapshot_entry_def Let_def split: prod.splits)

lemma sorted_key_strict:
  "sorted (map f xs) \<Longrightarrow> distinct (map f xs) \<Longrightarrow> sorted_wrt (\<lambda>a b. (f a :: 'k :: linorder) < f b) xs"
  by (induction xs) (auto simp: less_le)

lemma snapshot_decision:
  assumes ok: "ip_ok cfg c g (Some e)" and e: "map_of m ip = Some e"
    and run: "fst (Allow cfg t0 now ip m) = (granted, retry)"
  shows "sn_Limited (snapshot_entry cfg now (ip, e)) = (\<not> granted) \<and>
    (sn_Limited (snapshot_entry cfg now (ip, e)) \<longrightarrow>
      sn_RetryAfterSeconds (snapshot_entry cfg now (ip, e)) = retryAfterSeconds retry)"
proof (cases "now < re_lockedUntil e")
  case True
  with run e show ?thesis
    by (auto simp: snapshot_entry_def Allow_def Allow_entry_def getOrCreate_def Let_def split: prod.splits)
next
  case False
  have "sorted (re_timestamps e)" using ok by (simp add: ip_ok_def)
  note scan = live_scan_head [OF this]
  show ?thesis
  proof (cases "filter (in_window cfg now) (re_timestamps e)")
    case Nil
    with run e False show ?thesis
      by (auto simp: snapshot_entry_def scan Allow_def Allow_entry_def getOrCreate_def Let_def
          time_is_zero_def split: if_split_asm)
  next
    case (Cons a ys)
    then have "a \<in> set (filter (in_window cfg now) (re_timestamps e))" by simp
    then have "0 < a" "now - WindowSize cfg < a" using ok by (auto simp: ip_ok_def in_window_def)
    then have "0 < time_sub (a + WindowSize cfg) now" by simp
    with run e False Cons \<open>0 < a\<close> show ?thesis
      by (auto simp del: time_sub_pos_iff simp: snapshot_entry_def scan Allow_def Allow_entry_def getOrCreate_def Let_def time_is_zero_def
          split: if_split_asm)
  qed
qed

lemma Snapshot_ordered:
  assumes "distinct (map fst m)" and "0 < now"
  shows "sorted_wrt snapshot_less (Snapshot cfg c now m)" and "mset (map sn_IP (Snapshot cfg c now m)) = mset (map fst m)"
proof -
  let ?xs = "map (snapshot_entry cfg now) m"
  have "distinct (map sn_IP ?xs)" using assms(1) by (simp add: comp_def)
  then have "distinct (map (snd \<circ> snd) (map snapshot_key ?xs))" by (simp add: comp_def snapshot_key_def)
  then have "distinct (map snapshot_key ?xs)" by (simp only: distinct_map)
  moreover have "mset (map snapshot_key (sort_key snapshot_key ?xs)) = mset (map snapshot_key ?xs)"
    by (simp add: multiset.map_comp)
  ultimately have "distinct (map snapshot_key (sort_key snapshot_key ?xs))"
    by (metis mset_eq_imp_distinct_iff)
  from sorted_key_strict [OF sorted_sort_key this] assms(2)
  show "sorted_wrt snapshot_less (Snapshot cfg c now m)"
    by (simp add: Snapshot_def time_is_zero_def snapshot_less_key)
  show "mset (map sn_IP (Snapshot cfg c now m)) = mset (map fst m)"
    using assms(2) by (simp add: Snapshot_def time_is_zero_def multiset.map_comp comp_def)
qed

text \<open>
  The administrator's snapshot predicts the limiter: taken at a reading not
  before the last operation, it lists every tracked address once, limited and recent ones first,
  and it calls an address limited, and gives it a retry time, exactly as a request at that moment
  would be refused.
\<close>

theorem Snapshot_predicts_Allow:
  assumes "(rl_step cfg D)\<^sup>*\<^sup>* (rl_start t) w" and "0 < t" and "sane_config cfg" and "w_clock w \<le> now"
  shows "sorted_wrt snapshot_less (Snapshot cfg c now (w_entries w)) \<and>
    mset (map sn_IP (Snapshot cfg c now (w_entries w))) = mset (map fst (w_entries w)) \<and>
    list_all (\<lambda>s. case fst (Allow cfg t0 now (sn_IP s) (w_entries w)) of (granted, retry) \<Rightarrow>
        sn_Limited s = (\<not> granted) \<and> (sn_Limited s \<longrightarrow> sn_RetryAfterSeconds s = retryAfterSeconds retry))
      (Snapshot cfg c now (w_entries w))"
proof -
  have inv: "rl_inv cfg w" by (rule rl_inv_steps [OF assms(1) rl_inv_start [OF assms(2)] assms(3)])
  then have dist: "distinct (map fst (w_entries w))" by (simp add: rl_inv_def)
  have "0 < w_clock w" using inv by (simp add: rl_inv_def ip_ok_def)
  then have now: "0 < now" using assms(4) by simp
  have "sn_Limited s = (\<not> granted) \<and> (sn_Limited s \<longrightarrow> sn_RetryAfterSeconds s = retryAfterSeconds retry)"
    if listed: "s \<in> set (Snapshot cfg c now (w_entries w))"
      and run: "fst (Allow cfg t0 now (sn_IP s) (w_entries w)) = (granted, retry)" for s granted retry
  proof -
    obtain ip e where s: "s = snapshot_entry cfg now (ip, e)" and e: "map_of (w_entries w) ip = Some e"
      using listed now unfolding map_of_eq_Some_iff [OF dist]
      by (fastforce simp: Snapshot_def time_is_zero_def)
    have "ip_ok cfg (w_clock w) (granted_to ip w) (Some e)" using inv e by (metis rl_inv_def)
    from snapshot_decision [OF this e] run show ?thesis by (simp add: s)
  qed
  then show ?thesis using Snapshot_ordered [OF dist now] by (auto simp: list_all_iff)
qed

section \<open>Concrete runs\<close>

definition demo_config :: RateLimiterConfig where
  "demo_config = \<lparr>WindowSize = minute, MaxRequests = 1, MaxFailures = 1, LockoutPeriod = minute,
     CleanupInterval = 0\<rparr>"

definition demo_world :: rl_world where
  "demo_world = \<lparr>w_clock = 7, w_entries = snd (Allow demo_config 7 7 ''10.0.0.1'' []),
     w_granted = [(''10.0.0.1'', 7)]\<rparr>"

lemma demo_sane: "sane_config demo_config"
  by (simp add: sane_config_def demo_config_def max_duration_def)

lemma demo_run: "(rl_step demo_config D)\<^sup>*\<^sup>* (rl_start 7) demo_world"
proof -
  have "rl_step demo_config D (rl_start 7) \<lparr>w_clock = 7, w_entries = w_entries demo_world,
      w_granted = w_granted (rl_start 7) @ (if True then [(''10.0.0.1'', 7)] else [])\<rparr>"
    by (rule step_allow [of _ 7 _ _ _ _ 0])
       (simp_all add: rl_start_def demo_world_def Allow_def Allow_entry_def getOrCreate_def fresh_entry_def
          in_window_def demo_config_def)
  also have "\<dots> = demo_world" by (simp add: demo_world_def rl_start_def)
  finally show ?thesis by blast
qed



theorem Snapshot_predicts_Allow_witness:
  "map (\<lambda>s. (sn_IP s, sn_Limited s)) (Snapshot demo_config 8 8 (w_entries demo_world)) = [(''10.0.0.1'', True)] \<and>
   sorted_wrt snapshot_less (Snapshot demo_config 8 8 (w_entries demo_world))"
  using Snapshot_predicts_Allow [OF demo_run _ demo_sane, where now = 8 and c = 8 and ?t0.0 = 8]
  by (simp add: demo_config_def demo_world_def Allow_def Allow_entry_def getOrCreate_def fresh_entry_def
      Snapshot_def snapshot_entry_def in_window_def time_is_zero_def)

end
