(* ===== verification/Traffic_Accumulator.thy ===== *)
theory Traffic_Accumulator
  imports Go_Prelude "HOL-Library.AList" "HOL-Library.Product_Lexorder" "HOL-Library.Multiset"
begin

text \<open>
  The in-memory accumulator of traffic observations
  (\<open>internal/server/traffic_accumulator.go\<close>): 32 shards of pending sums, tombstones for
  deleted owners and minimum revisions for migrated tunnels. A shard is an association list (the
  order of which stands for the order of a map iteration); the shards are a list indexed by the
  32-bit hash of the source. The locale \<open>sharding\<close> states that a sharded map behaves as one
  map; it is interpreted on the hash. The theorems are about arbitrary interleavings of producers,
  of draining single shards, and of the two evictions.
\<close>

section \<open>Data\<close>

abbreviation trafficAccumulatorShardCount :: nat where
  "trafficAccumulatorShardCount \<equiv> 32"

record TrafficDelta =
  td_TunnelID :: string
  td_Revision :: int
  td_ClientID :: string
  td_OwnerUserID :: string
  td_OwnerClientID :: string
  td_IngressClientID :: string
  td_TargetClientID :: string
  td_Topology :: string
  td_Transport :: string
  td_TunnelName :: string
  td_TunnelType :: string
  td_SecondStart :: int
  td_MinuteStart :: int
  td_IngressBytes :: u64
  td_EgressBytes :: u64

record trafficAccumulatorKey =
  tk_tunnelID :: string
  tk_revision :: int
  tk_clientID :: string
  tk_ownerUserID :: string
  tk_tunnelName :: string
  tk_tunnelType :: string
  tk_transport :: string
  tk_secondStart :: int
  tk_minuteStart :: int

type_synonym traffic_shard = "(trafficAccumulatorKey \<times> TrafficDelta) list"

record trafficAccumulator =
  ta_shards :: "traffic_shard list"
  ta_minimumRevisionByTunnel :: "string \<Rightarrow> int"
  ta_deletedOwnerUserIDs :: "string set"

definition newTrafficAccumulator :: trafficAccumulator where
  "newTrafficAccumulator = \<lparr>ta_shards = replicate trafficAccumulatorShardCount [],
     ta_minimumRevisionByTunnel = (\<lambda>_. 0), ta_deletedOwnerUserIDs = {}\<rparr>"

section \<open>Shard of a key\<close>

fun trafficAccumulatorHashString :: "u32 \<Rightarrow> string \<Rightarrow> u32" where
  "trafficAccumulatorHashString h [] = h"
| "trafficAccumulatorHashString h (c # s) =
     trafficAccumulatorHashString (xor h (of_nat (of_char c)) * 16777619) s"

definition trafficAccumulatorShardIndex :: "trafficAccumulatorKey \<Rightarrow> nat" where
  "trafficAccumulatorShardIndex k =
     (let h = trafficAccumulatorHashString 2166136261 (tk_tunnelID k);
          h = trafficAccumulatorHashString h (tk_clientID k);
          h = trafficAccumulatorHashString h (tk_ownerUserID k);
          h = trafficAccumulatorHashString h (tk_tunnelName k);
          h = trafficAccumulatorHashString h (tk_tunnelType k);
          h = trafficAccumulatorHashString h (tk_transport k) in
      unat (h mod 32))"

definition shard_lookup :: "('k \<Rightarrow> nat) \<Rightarrow> ('k \<times> 'v) list list \<Rightarrow> 'k \<rightharpoonup> 'v" where
  "shard_lookup index shards k = map_of (shards ! index k) k"

definition shard_update :: "('k \<Rightarrow> nat) \<Rightarrow> 'k \<Rightarrow> 'v \<Rightarrow> ('k \<times> 'v) list list \<Rightarrow> ('k \<times> 'v) list list" where
  "shard_update index k v shards = shards[index k := AList.update k v (shards ! index k)]"

definition shard_filter :: "('k \<Rightarrow> bool) \<Rightarrow> ('k \<times> 'v) list list \<Rightarrow> ('k \<times> 'v) list list" where
  "shard_filter P shards = map (filter (\<lambda>(k, v). P k)) shards"

section \<open>Operations\<close>

definition secondFloorUnix :: "gotime \<Rightarrow> int" where
  "secondFloorUnix now = now div second - 62135596800"

definition minuteFloorUnix :: "gotime \<Rightarrow> int" where
  "minuteFloorUnix now = now div minute * 60 - 62135596800"

definition checkedTrafficAdd :: "u64 \<Rightarrow> u64 \<Rightarrow> u64 option" where
  "checkedTrafficAdd a b = (if a > not 0 - b then None else Some (a + b))"

definition keep_first :: "string \<Rightarrow> string \<Rightarrow> string" where
  "keep_first a b = (if a = [] then b else a)"

definition mergeTrafficDeltaMetadata :: "TrafficDelta \<Rightarrow> TrafficDelta \<Rightarrow> TrafficDelta" where
  "mergeTrafficDeltaMetadata e d = e\<lparr>
     td_OwnerUserID := keep_first (td_OwnerUserID e) (td_OwnerUserID d),
     td_OwnerClientID := keep_first (td_OwnerClientID e) (td_OwnerClientID d),
     td_IngressClientID := keep_first (td_IngressClientID e) (td_IngressClientID d),
     td_TargetClientID := keep_first (td_TargetClientID e) (td_TargetClientID d),
     td_Topology := keep_first (td_Topology e) (td_Topology d),
     td_Transport := (if td_Transport e = [] \<or> td_Transport e = ''unknown'' then td_Transport d else td_Transport e)\<rparr>"

definition delta_key :: "TrafficDelta \<Rightarrow> trafficAccumulatorKey" where
  "delta_key d = \<lparr>tk_tunnelID = td_TunnelID d, tk_revision = td_Revision d, tk_clientID = td_ClientID d,
     tk_ownerUserID = td_OwnerUserID d, tk_tunnelName = td_TunnelName d, tk_tunnelType = td_TunnelType d,
     tk_transport = td_Transport d, tk_secondStart = td_SecondStart d, tk_minuteStart = td_MinuteStart d\<rparr>"

text \<open>The early returns of \<open>AddDelta\<close>: observations that are silently dropped.\<close>

definition admits :: "TrafficDelta \<Rightarrow> trafficAccumulator \<Rightarrow> bool" where
  "admits d a \<longleftrightarrow> \<not> (td_ClientID d = [] \<or> td_TunnelName d = [] \<or> td_TunnelType d = []) \<and>
     \<not> (td_IngressBytes d = 0 \<and> td_EgressBytes d = 0) \<and> td_OwnerUserID d \<notin> ta_deletedOwnerUserIDs a \<and>
     \<not> (td_TunnelID d \<noteq> [] \<and> td_Revision d < ta_minimumRevisionByTunnel a (td_TunnelID d))"

definition stamped :: "gotime \<Rightarrow> TrafficDelta \<Rightarrow> TrafficDelta" where
  "stamped now d = d\<lparr>td_SecondStart := secondFloorUnix now, td_MinuteStart := minuteFloorUnix now\<rparr>"

definition AddDelta :: "gotime \<Rightarrow> TrafficDelta \<Rightarrow> trafficAccumulator \<Rightarrow> string option \<times> trafficAccumulator" where
  "AddDelta now d0 a =
     (if \<not> admits d0 a then (None, a)
      else let d = stamped now d0; k = delta_key d;
               put = (\<lambda>v. a\<lparr>ta_shards := shard_update trafficAccumulatorShardIndex k v (ta_shards a)\<rparr>) in
      (case shard_lookup trafficAccumulatorShardIndex (ta_shards a) k of
         None \<Rightarrow> (None, put d)
       | Some e \<Rightarrow>
         (case checkedTrafficAdd (td_IngressBytes e) (td_IngressBytes d) of
            None \<Rightarrow> (Some ''traffic accumulator ingress_bytes'', a)
          | Some i \<Rightarrow>
            (case checkedTrafficAdd (td_EgressBytes e) (td_EgressBytes d) of
               None \<Rightarrow> (Some ''traffic accumulator egress_bytes'', a)
             | Some o' \<Rightarrow>
                 (None, put (mergeTrafficDeltaMetadata (e\<lparr>td_IngressBytes := i, td_EgressBytes := o'\<rparr>) d))))))"

definition evictDeletedOwner :: "string \<Rightarrow> trafficAccumulator \<Rightarrow> trafficAccumulator" where
  "evictDeletedOwner owner a =
     (if owner = [] then a
      else a\<lparr>ta_deletedOwnerUserIDs := insert owner (ta_deletedOwnerUserIDs a),
             ta_shards := shard_filter (\<lambda>k. tk_ownerUserID k \<noteq> owner) (ta_shards a)\<rparr>)"

definition ResetTunnel :: "string \<Rightarrow> int \<Rightarrow> trafficAccumulator \<Rightarrow> trafficAccumulator" where
  "ResetTunnel tunnelID minimumRevision a =
     (if tunnelID = [] \<or> minimumRevision \<le> 0 then a
      else if ta_minimumRevisionByTunnel a tunnelID \<ge> minimumRevision then a
      else a\<lparr>ta_minimumRevisionByTunnel := (ta_minimumRevisionByTunnel a)(tunnelID := minimumRevision),
             ta_shards := shard_filter (\<lambda>k. \<not> (tk_tunnelID k = tunnelID \<and> tk_revision k < minimumRevision)) (ta_shards a)\<rparr>)"

text \<open>\<open>Drain\<close> takes the shards one after the other, each under its own mutex.\<close>

definition drain_shard :: "nat \<Rightarrow> trafficAccumulator \<Rightarrow> TrafficDelta list \<times> trafficAccumulator" where
  "drain_shard i a = (map snd (ta_shards a ! i), a\<lparr>ta_shards := (ta_shards a)[i := []]\<rparr>)"

fun drain_shards :: "nat list \<Rightarrow> trafficAccumulator \<Rightarrow> TrafficDelta list \<times> trafficAccumulator" where
  "drain_shards [] a = ([], a)"
| "drain_shards (i # is) a =
     (let (ds, a1) = drain_shard i a; (rest, a2) = drain_shards is a1 in (ds @ rest, a2))"

definition delta_order :: "TrafficDelta \<Rightarrow> string \<times> int \<times> string \<times> string \<times> string \<times> string \<times> int \<times> int" where
  "delta_order d = (td_TunnelID d, td_Revision d, td_ClientID d, td_OwnerUserID d, td_TunnelName d,
     td_TunnelType d, td_SecondStart d, td_MinuteStart d)"

definition Drain :: "trafficAccumulator \<Rightarrow> TrafficDelta list \<times> trafficAccumulator" where
  "Drain a =
     (let (ds, a') = drain_shards [0 ..< trafficAccumulatorShardCount] a in (sort_key delta_order ds, a'))"

definition acc_Len :: "trafficAccumulator \<Rightarrow> nat" where
  "acc_Len a = sum_list (map length (ta_shards a))"

section \<open>A sharded map is a map\<close>

text \<open>
  The interface between the accumulator and its hash: any index below the number of shards will
  do. Keys sit in their own shard (\<open>homed\<close>), and then lookup, update and filtering are those
  of one map.
\<close>

lemma map_of_filter_key: "map_of (filter (\<lambda>(k, v). P k) xs) k = (if P k then map_of xs k else None)"
  by (induction xs) auto

locale sharding =
  fixes index :: "'k \<Rightarrow> nat" and count :: nat
  assumes index_less: "index k < count"
begin

definition homed :: "('k \<times> 'v) list list \<Rightarrow> bool" where
  "homed shards \<longleftrightarrow> length shards = count \<and>
     (\<forall>i < count. distinct (map fst (shards ! i)) \<and> (\<forall>k \<in> fst ` set (shards ! i). index k = i))"

lemma homed_empty: "homed (replicate count [])"
  by (simp add: homed_def)

lemma lookup_empty: "shard_lookup index (replicate count []) = Map.empty"
  by (rule ext) (simp add: shard_lookup_def index_less)

lemma homedD:
  assumes "homed shards"
  shows "length shards = count" and "i < count \<Longrightarrow> distinct (map fst (shards ! i))"
    and "i < count \<Longrightarrow> k \<in> fst ` set (shards ! i) \<Longrightarrow> index k = i" and "index k < length shards"
  using assms index_less [of k] unfolding homed_def by auto

lemma homedI:
  assumes "length shards = count" and "\<And>i. i < count \<Longrightarrow> distinct (map fst (shards ! i))"
    and "\<And>i k. i < count \<Longrightarrow> k \<in> fst ` set (shards ! i) \<Longrightarrow> index k = i"
  shows "homed shards"
  using assms unfolding homed_def by blast

lemma lookup_update:
  "homed shards \<Longrightarrow> shard_lookup index (shard_update index k v shards) = (shard_lookup index shards)(k \<mapsto> v)"
  by (rule ext) (simp add: shard_lookup_def shard_update_def update_conv' nth_list_update homedD(4))

lemma homed_update:
  assumes "homed shards" shows "homed (shard_update index k v shards)"
proof (rule homedI)
  show "length (shard_update index k v shards) = count" using homedD(1) [OF assms] by (simp add: shard_update_def)
  show "distinct (map fst (shard_update index k v shards ! i))" if "i < count" for i
    using homedD(2) [OF assms that] homedD(4) [OF assms]
    by (simp add: shard_update_def nth_list_update distinct_update)
  show "index j = i" if "i < count" "j \<in> fst ` set (shard_update index k v shards ! i)" for i j
    using that homedD(3) [OF assms that(1)] homedD(4) [OF assms]
    by (auto simp: shard_update_def nth_list_update dom_update [unfolded image_comp] split: if_splits
        dest: set_mp [OF eq_refl [OF dom_update]])
qed

lemma lookup_filter:
  assumes "homed shards"
  shows "shard_lookup index (shard_filter P shards) k = (if P k then shard_lookup index shards k else None)"
  using homedD(4) [OF assms] by (simp add: shard_lookup_def shard_filter_def map_of_filter_key)

lemma homed_filter: "homed shards \<Longrightarrow> homed (shard_filter P shards)"
  by (auto simp: homed_def shard_filter_def distinct_filter_keys)

lemma lookup_drain:
  "homed shards \<Longrightarrow> i < count \<Longrightarrow>
     shard_lookup index (shards[i := []]) k = (if index k = i then None else shard_lookup index shards k)"
  by (simp add: homed_def shard_lookup_def)

lemma homed_drain: "homed shards \<Longrightarrow> homed (shards[i := []])"
  by (cases "i < length shards") (auto simp: homed_def nth_list_update)

lemma in_shard_iff:
  "homed shards \<Longrightarrow> i < count \<Longrightarrow> (k, v) \<in> set (shards ! i) \<longleftrightarrow> index k = i \<and> shard_lookup index shards k = Some v"
  by (force simp: homed_def shard_lookup_def)

end

lemma shard_index_less: "trafficAccumulatorShardIndex k < trafficAccumulatorShardCount"
proof -
  have "unat (h mod 32 :: u32) < 32" for h
    by (simp add: unat_mod)
  then show ?thesis by (simp add: trafficAccumulatorShardIndex_def Let_def)
qed

interpretation traffic: sharding trafficAccumulatorShardIndex trafficAccumulatorShardCount
  by unfold_locales (rule shard_index_less)

section \<open>The accumulator\<close>

abbreviation pending :: "trafficAccumulator \<Rightarrow> trafficAccumulatorKey \<rightharpoonup> TrafficDelta" where
  "pending a \<equiv> shard_lookup trafficAccumulatorShardIndex (ta_shards a)"

definition entry_ok :: "trafficAccumulator \<Rightarrow> trafficAccumulatorKey \<Rightarrow> TrafficDelta \<Rightarrow> bool" where
  "entry_ok a k d \<longleftrightarrow> k = delta_key d \<and> td_OwnerUserID d \<notin> ta_deletedOwnerUserIDs a \<and>
     (td_TunnelID d \<noteq> [] \<longrightarrow> ta_minimumRevisionByTunnel a (td_TunnelID d) \<le> td_Revision d)"

definition acc_ok :: "trafficAccumulator \<Rightarrow> bool" where
  "acc_ok a \<longleftrightarrow> traffic.homed (ta_shards a) \<and> (\<forall>k d. pending a k = Some d \<longrightarrow> entry_ok a k d)"

lemma checked_add_sum:
  assumes "checkedTrafficAdd a b = Some s" shows "unat s = unat a + unat b"
proof -
  have lt: "unat b < 2 ^ 64" using unsigned_less [of b, where 'a = nat] by simp
  then have "b \<le> - 1" by (simp add: word_le_nat_alt unat_max_u64)
  then have "unat a + unat b < 2 ^ 64"
    using assms lt by (auto simp: checkedTrafficAdd_def not_less word_le_nat_alt unat_sub unat_max_u64 split: if_splits)
  then show ?thesis using assms by (auto simp: checkedTrafficAdd_def unat_plus_if_size word_size split: if_splits)
qed

definition delta_bytes :: "TrafficDelta \<Rightarrow> nat \<times> nat" where
  "delta_bytes d = (unat (td_IngressBytes d), unat (td_EgressBytes d))"

definition pending_bytes :: "trafficAccumulator \<Rightarrow> trafficAccumulatorKey \<Rightarrow> nat \<times> nat" where
  "pending_bytes a k = (case pending a k of None \<Rightarrow> (0, 0) | Some d \<Rightarrow> delta_bytes d)"

definition plus2 :: "nat \<times> nat \<Rightarrow> nat \<times> nat \<Rightarrow> nat \<times> nat" where
  "plus2 a b = (fst a + fst b, snd a + snd b)"

lemma delta_key_fields [simp]:
  "tk_ownerUserID (delta_key d) = td_OwnerUserID d" "tk_tunnelID (delta_key d) = td_TunnelID d"
  "tk_revision (delta_key d) = td_Revision d"
  by (simp_all add: delta_key_def)

lemma acc_okD: "acc_ok a \<Longrightarrow> pending a k = Some d \<Longrightarrow> entry_ok a k d"
  by (simp add: acc_ok_def)

lemma merge_key [simp]: "delta_key d = delta_key e \<Longrightarrow> delta_key (mergeTrafficDeltaMetadata e d) = delta_key e"
  by (auto simp: delta_key_def mergeTrafficDeltaMetadata_def keep_first_def)

lemma merge_fields [simp]:
  "td_IngressBytes (mergeTrafficDeltaMetadata e d) = td_IngressBytes e"
  "td_EgressBytes (mergeTrafficDeltaMetadata e d) = td_EgressBytes e"
  by (simp_all add: mergeTrafficDeltaMetadata_def)

lemma key_fields:
  assumes "delta_key d = delta_key e"
  shows "td_OwnerUserID d = td_OwnerUserID e" "td_TunnelID d = td_TunnelID e" "td_Revision d = td_Revision e"
  using assms by (simp_all add: delta_key_def)

lemma stamped_fields [simp]:
  "td_OwnerUserID (stamped now d) = td_OwnerUserID d" "td_TunnelID (stamped now d) = td_TunnelID d"
  "td_Revision (stamped now d) = td_Revision d" "delta_bytes (stamped now d) = delta_bytes d"
  by (simp_all add: stamped_def delta_bytes_def)

text \<open>
  \<open>AddDelta\<close> on the map the shards stand for: a dropped or refused observation changes
  nothing, an accepted one adds its bytes to its own key.
\<close>

lemma AddDelta_cases:
  assumes ok: "acc_ok a" and run: "AddDelta now d a = (err, a')"
  obtains (unchanged) "a' = a" "\<not> admits d a \<or> err \<noteq> None"
    | (accepted) v where "admits d a" "err = None" "entry_ok a (delta_key (stamped now d)) v"
        "delta_bytes v = plus2 (pending_bytes a (delta_key (stamped now d))) (delta_bytes d)"
        "a' = a\<lparr>ta_shards := shard_update trafficAccumulatorShardIndex (delta_key (stamped now d)) v (ta_shards a)\<rparr>"
proof (cases "admits d a")
  case False
  then show thesis using run by (intro unchanged) (simp_all add: AddDelta_def)
next
  case True
  let ?d = "stamped now d" and ?k = "delta_key (stamped now d)"
  have new: "entry_ok a ?k v" if "delta_key v = ?k" for v
    using True key_fields [OF that] that by (auto simp: entry_ok_def admits_def)
  show thesis
  proof (cases "pending a ?k")
    case None
    then show thesis
      using run True new [of ?d] by (intro accepted [of ?d]) (simp_all add: AddDelta_def Let_def pending_bytes_def plus2_def)
  next
    case (Some e)
    then have e: "delta_key e = ?k" using ok by (simp add: acc_ok_def entry_ok_def)
    show thesis
    proof (cases err)
      case (Some m)
      then show thesis using run \<open>pending a ?k = Some e\<close> True
        by (intro unchanged) (auto simp: AddDelta_def Let_def split: option.splits)
    next
      case None
      then obtain i j where ij: "checkedTrafficAdd (td_IngressBytes e) (td_IngressBytes ?d) = Some i"
          "checkedTrafficAdd (td_EgressBytes e) (td_EgressBytes ?d) = Some j"
        and a': "a' = a\<lparr>ta_shards := shard_update trafficAccumulatorShardIndex ?k
             (mergeTrafficDeltaMetadata (e\<lparr>td_IngressBytes := i, td_EgressBytes := j\<rparr>) ?d) (ta_shards a)\<rparr>"
        using run Some True by (auto simp: AddDelta_def Let_def split: option.splits)
      let ?v = "mergeTrafficDeltaMetadata (e\<lparr>td_IngressBytes := i, td_EgressBytes := j\<rparr>) ?d"
      have "delta_key (e\<lparr>td_IngressBytes := i, td_EgressBytes := j\<rparr>) = ?k" using e by (simp add: delta_key_def)
      then have "delta_key ?v = ?k" by simp
      moreover have "delta_bytes ?v = plus2 (pending_bytes a ?k) (delta_bytes d)"
        using ij [THEN checked_add_sum] Some
        by (simp add: delta_bytes_def pending_bytes_def plus2_def stamped_def)
      ultimately show thesis using True None a' new [of ?v] by (intro accepted [of ?v]) simp_all
    qed
  qed
qed

lemma acc_ok_put:
  assumes "acc_ok a" and "entry_ok a k v"
  shows "acc_ok (a\<lparr>ta_shards := shard_update trafficAccumulatorShardIndex k v (ta_shards a)\<rparr>)"
  using assms by (auto simp: acc_ok_def traffic.lookup_update traffic.homed_update entry_ok_def split: if_splits)

lemma acc_ok_new: "acc_ok newTrafficAccumulator"
  by (simp add: acc_ok_def newTrafficAccumulator_def traffic.homed_empty traffic.lookup_empty)

lemma AddDelta_ok: "acc_ok a \<Longrightarrow> acc_ok (snd (AddDelta now d a))"
  by (cases "AddDelta now d a") (auto elim: AddDelta_cases intro: acc_ok_put)

lemma acc_ok_filter:
  assumes ok: "acc_ok a" and sh: "ta_shards a' = shard_filter P (ta_shards a)"
    and keep: "\<And>k d. P k \<Longrightarrow> entry_ok a k d \<Longrightarrow> entry_ok a' k d"
  shows "acc_ok a'"
proof -
  have hom: "traffic.homed (ta_shards a)" using ok by (simp add: acc_ok_def)
  have "entry_ok a' k d" if "pending a' k = Some d" for k d
    using that acc_okD [OF ok] keep by (simp add: sh traffic.lookup_filter [OF hom] split: if_split_asm)
  then show ?thesis using hom by (simp add: acc_ok_def sh traffic.homed_filter)
qed

lemma evict_ok: "acc_ok a \<Longrightarrow> acc_ok (evictDeletedOwner owner a)"
  by (auto simp: evictDeletedOwner_def entry_ok_def elim!: acc_ok_filter [where P = "\<lambda>k. tk_ownerUserID k \<noteq> owner"])

lemma reset_ok: "acc_ok a \<Longrightarrow> acc_ok (ResetTunnel t r a)"
  by (auto simp: ResetTunnel_def entry_ok_def
      elim!: acc_ok_filter [where P = "\<lambda>k. \<not> (tk_tunnelID k = t \<and> tk_revision k < r)"] split: if_splits)

lemma drain_shard_ok: "acc_ok a \<Longrightarrow> i < trafficAccumulatorShardCount \<Longrightarrow> acc_ok (snd (drain_shard i a))"
  by (auto simp: acc_ok_def drain_shard_def traffic.lookup_drain traffic.homed_drain entry_ok_def split: if_splits)

lemma drain_shard_member:
  assumes "acc_ok a" and "i < trafficAccumulatorShardCount"
  shows "d \<in> set (fst (drain_shard i a)) \<longleftrightarrow>
    trafficAccumulatorShardIndex (delta_key d) = i \<and> pending a (delta_key d) = Some d"
proof -
  have hom: "traffic.homed (ta_shards a)" using assms(1) by (simp add: acc_ok_def)
  note mem = traffic.in_shard_iff [OF hom assms(2)]
  show ?thesis
  proof
    assume "d \<in> set (fst (drain_shard i a))"
    then obtain k where k: "(k, d) \<in> set (ta_shards a ! i)" by (auto simp: drain_shard_def)
    then have "k = delta_key d" using acc_okD [OF assms(1)] mem by (simp add: entry_ok_def)
    with k show "trafficAccumulatorShardIndex (delta_key d) = i \<and> pending a (delta_key d) = Some d" using mem by simp
  next
    assume "trafficAccumulatorShardIndex (delta_key d) = i \<and> pending a (delta_key d) = Some d"
    then have "(delta_key d, d) \<in> set (ta_shards a ! i)" using mem by simp
    then show "d \<in> set (fst (drain_shard i a))" by (force simp: drain_shard_def)
  qed
qed

section \<open>Interleaved use\<close>

text \<open>
  The accumulator in use, with the bytes accepted, drained and discarded so far for every key.
  Producers, the draining of single shards and the evictions interleave in any order.
\<close>

record traffic_world =
  tw_acc :: trafficAccumulator
  tw_accepted :: "trafficAccumulatorKey \<Rightarrow> nat \<times> nat"
  tw_drained :: "trafficAccumulatorKey \<Rightarrow> nat \<times> nat"
  tw_discarded :: "trafficAccumulatorKey \<Rightarrow> nat \<times> nat"

definition credit :: "TrafficDelta \<Rightarrow> (trafficAccumulatorKey \<Rightarrow> nat \<times> nat) \<Rightarrow> trafficAccumulatorKey \<Rightarrow> nat \<times> nat" where
  "credit d f = f(delta_key d := plus2 (f (delta_key d)) (delta_bytes d))"

definition lost :: "trafficAccumulator \<Rightarrow> trafficAccumulator \<Rightarrow> trafficAccumulatorKey \<Rightarrow> nat \<times> nat" where
  "lost a a' k = (if pending a' k = None then pending_bytes a k else (0, 0))"

inductive traffic_step :: "traffic_world \<Rightarrow> traffic_world \<Rightarrow> bool" where
  tr_add: "AddDelta now d (tw_acc w) = (err, a) \<Longrightarrow>
     traffic_step w (w\<lparr>tw_acc := a, tw_accepted :=
       (if admits d (tw_acc w) \<and> err = None then credit (stamped now d) (tw_accepted w) else tw_accepted w)\<rparr>)"
| tr_drain: "i < trafficAccumulatorShardCount \<Longrightarrow> drain_shard i (tw_acc w) = (ds, a) \<Longrightarrow>
     traffic_step w (w\<lparr>tw_acc := a, tw_drained := fold credit ds (tw_drained w)\<rparr>)"
| tr_evict: "a = evictDeletedOwner owner (tw_acc w) \<Longrightarrow>
     traffic_step w (w\<lparr>tw_acc := a, tw_discarded := (\<lambda>k. plus2 (tw_discarded w k) (lost (tw_acc w) a k))\<rparr>)"
| tr_reset: "a = ResetTunnel tunnel revision (tw_acc w) \<Longrightarrow>
     traffic_step w (w\<lparr>tw_acc := a, tw_discarded := (\<lambda>k. plus2 (tw_discarded w k) (lost (tw_acc w) a k))\<rparr>)"

inductive_cases traffic_stepE: "traffic_step w w'"

definition traffic_start :: traffic_world where
  "traffic_start = \<lparr>tw_acc = newTrafficAccumulator, tw_accepted = (\<lambda>_. (0, 0)), tw_drained = (\<lambda>_. (0, 0)),
     tw_discarded = (\<lambda>_. (0, 0))\<rparr>"

definition balanced :: "traffic_world \<Rightarrow> bool" where
  "balanced w \<longleftrightarrow> acc_ok (tw_acc w) \<and>
     (\<forall>k. tw_accepted w k = plus2 (plus2 (tw_drained w k) (tw_discarded w k)) (pending_bytes (tw_acc w) k))"

lemma plus2_simps [simp]: "plus2 a (0, 0) = a" "plus2 (0, 0) a = a"
  by (simp_all add: plus2_def)

lemma plus2_ac: "plus2 a b = plus2 b a" "plus2 (plus2 a b) c = plus2 a (plus2 b c)" "plus2 a (plus2 b c) = plus2 b (plus2 a c)"
  by (simp_all add: plus2_def)

lemma credit_apply: "credit d f k = (if k = delta_key d then plus2 (f k) (delta_bytes d) else f k)"
  by (simp add: credit_def)

lemma fold_credit:
  "distinct (map fst xs) \<Longrightarrow> (\<And>k d. (k, d) \<in> set xs \<Longrightarrow> k = delta_key d) \<Longrightarrow>
     fold credit (map snd xs) f k = plus2 (f k) (case map_of xs k of None \<Rightarrow> (0, 0) | Some d \<Rightarrow> delta_bytes d)"
proof (induction xs arbitrary: f)
  case (Cons x xs)
  obtain j d where x: "x = (j, d)" by (cases x)
  have j: "j = delta_key d" using Cons.prems(2) [of j d] by (simp add: x)
  have tail: "fold credit (map snd xs) (credit d f) k =
      plus2 (credit d f k) (case map_of xs k of None \<Rightarrow> (0, 0) | Some d \<Rightarrow> delta_bytes d)"
    using Cons.prems by (intro Cons.IH) auto
  have "map_of xs j = None" using Cons.prems(1) by (auto simp: x map_of_eq_None_iff)
  with tail [unfolded credit_apply [of d f k]] show ?case by (cases "k = j") (simp_all add: x j)
qed simp

lemma pending_new: "pending newTrafficAccumulator k = None"
  by (simp add: newTrafficAccumulator_def traffic.lookup_empty)

lemma balanced_start: "balanced traffic_start"
  by (simp add: balanced_def traffic_start_def acc_ok_new pending_bytes_def pending_new)

lemma balanced_evict:
  assumes ok: "acc_ok a" and sh: "ta_shards a' = shard_filter P (ta_shards a)"
    and bal: "acd = plus2 (plus2 dr di) (pending_bytes a k)"
  shows "acd = plus2 (plus2 dr (plus2 di (lost a a' k))) (pending_bytes a' k)"
proof -
  have "traffic.homed (ta_shards a)" using ok by (simp add: acc_ok_def)
  from traffic.lookup_filter [OF this] have "pending a' k = (if P k then pending a k else None)" by (simp add: sh)
  then show ?thesis using bal by (auto simp: lost_def pending_bytes_def plus2_ac split: option.splits)
qed

lemma shard_filter_all: "shard_filter (\<lambda>_. True) xs = xs"
  by (simp add: shard_filter_def case_prod_unfold map_idI)

lemma balanced_drain:
  assumes ok: "acc_ok a" and i: "i < trafficAccumulatorShardCount"
  shows "plus2 (fold credit (fst (drain_shard i a)) f k) (pending_bytes (snd (drain_shard i a)) k) =
    plus2 (f k) (pending_bytes a k)"
proof -
  have hom: "traffic.homed (ta_shards a)" using ok by (simp add: acc_ok_def)
  let ?xs = "ta_shards a ! i"
  have keys: "j = delta_key d" if "(j, d) \<in> set ?xs" for j d
    using that traffic.in_shard_iff [OF hom i] acc_okD [OF ok] by (simp add: entry_ok_def)
  have "fold credit (fst (drain_shard i a)) f k = plus2 (f k) (case map_of ?xs k of None \<Rightarrow> (0, 0) | Some d \<Rightarrow> delta_bytes d)"
    using fold_credit [OF traffic.homedD(2) [OF hom i] keys] by (simp add: drain_shard_def)
  moreover have "map_of ?xs k = (if trafficAccumulatorShardIndex k = i then pending a k else None)"
  proof (cases "trafficAccumulatorShardIndex k = i")
    case False
    then have "map_of ?xs k = None" using traffic.homedD(3) [OF hom i, of k] by (auto simp: map_of_eq_None_iff)
    with False show ?thesis by simp
  qed (simp add: shard_lookup_def)
  moreover have "pending (snd (drain_shard i a)) k = (if trafficAccumulatorShardIndex k = i then None else pending a k)"
    using traffic.lookup_drain [OF hom i] by (simp add: drain_shard_def)
  ultimately show ?thesis by (simp add: pending_bytes_def)
qed

lemma balanced_discard:
  assumes bal: "balanced w" and ok: "acc_ok a" and sh: "\<exists>P. ta_shards a = shard_filter P (ta_shards (tw_acc w))"
  shows "balanced (w\<lparr>tw_acc := a, tw_discarded := (\<lambda>k. plus2 (tw_discarded w k) (lost (tw_acc w) a k))\<rparr>)"
proof -
  obtain P where P: "ta_shards a = shard_filter P (ta_shards (tw_acc w))" using sh by blast
  have "acc_ok (tw_acc w)" "\<And>k. tw_accepted w k = plus2 (plus2 (tw_drained w k) (tw_discarded w k)) (pending_bytes (tw_acc w) k)"
    using bal by (simp_all add: balanced_def)
  from balanced_evict [OF this(1) P this(2)] show ?thesis using ok by (simp add: balanced_def)
qed

lemma balanced_step:
  assumes "traffic_step w w'" and "balanced w"
  shows "balanced w'"
  using assms(1)
proof cases
  case (tr_add now d err a)
  have ok: "acc_ok (tw_acc w)" using assms(2) by (simp add: balanced_def)
  have ok': "acc_ok a" using AddDelta_ok [OF ok, of now d] tr_add(2) by simp
  show ?thesis
    using ok tr_add(2)
  proof (cases rule: AddDelta_cases)
    case unchanged
    then show ?thesis using assms(2) tr_add(1) by (auto simp: balanced_def)
  next
    case (accepted v)
    have hom: "traffic.homed (ta_shards (tw_acc w))" using ok by (simp add: acc_ok_def)
    have "pending a k = (if k = delta_key (stamped now d) then Some v else pending (tw_acc w) k)" for k
      by (simp add: accepted(5) traffic.lookup_update [OF hom])
    then have "pending_bytes a k = (if k = delta_key (stamped now d)
        then plus2 (pending_bytes (tw_acc w) k) (delta_bytes d) else pending_bytes (tw_acc w) k)" for k
      using accepted(4) by (simp add: pending_bytes_def)
    then show ?thesis
      using assms(2) tr_add(1) ok' accepted(1,2) by (simp add: balanced_def credit_def plus2_ac)
  qed
next
  case (tr_drain i ds a)
  have ok: "acc_ok (tw_acc w)" using assms(2) by (simp add: balanced_def)
  have eq: "ds = fst (drain_shard i (tw_acc w))" "a = snd (drain_shard i (tw_acc w))" using tr_drain(3) by simp_all
  have "plus2 (plus2 (fold credit ds (tw_drained w) k) (tw_discarded w k)) (pending_bytes a k) =
      plus2 (plus2 (tw_drained w k) (tw_discarded w k)) (pending_bytes (tw_acc w) k)" for k
    using balanced_drain [OF ok tr_drain(2), of "tw_drained w" k] by (simp add: eq plus2_ac)
  then show ?thesis
    using assms(2) tr_drain(1) drain_shard_ok [OF ok tr_drain(2)] by (simp add: balanced_def eq(2))
next
  case (tr_evict a owner)
  have ok: "acc_ok (tw_acc w)" using assms(2) by (simp add: balanced_def)
  have "\<exists>P. ta_shards a = shard_filter P (ta_shards (tw_acc w))"
    by (cases "owner = []") (auto simp: tr_evict(2) evictDeletedOwner_def intro: shard_filter_all [symmetric])
  then show ?thesis
    using balanced_discard [OF assms(2)] evict_ok [OF ok, of owner] tr_evict by simp
next
  case (tr_reset a t r)
  have ok: "acc_ok (tw_acc w)" using assms(2) by (simp add: balanced_def)
  have "\<exists>P. ta_shards a = shard_filter P (ta_shards (tw_acc w))"
    by (auto simp: tr_reset(2) ResetTunnel_def intro: shard_filter_all [symmetric])
  then show ?thesis
    using balanced_discard [OF assms(2)] reset_ok [OF ok, of t r] tr_reset by simp
qed

lemma balanced_reachable: "traffic_step\<^sup>*\<^sup>* traffic_start w \<Longrightarrow> balanced w"
  by (induction rule: rtranclp_induct) (auto intro: balanced_start balanced_step)

text \<open>
  C16 (safety). No byte is lost or counted twice: however producers, drains and evictions
  interleave, the bytes accepted for a key are exactly those drained, those discarded by an
  eviction, and those still pending; no sum wraps around.
\<close>

theorem traffic_bytes_conserved:
  assumes "traffic_step\<^sup>*\<^sup>* traffic_start w"
  shows "tw_accepted w k = plus2 (plus2 (tw_drained w k) (tw_discarded w k)) (pending_bytes (tw_acc w) k)"
  using balanced_reachable [OF assms] by (simp add: balanced_def)

section \<open>Draining\<close>

lemma drain_shards_ok:
  "acc_ok a \<Longrightarrow> set is \<subseteq> {..< trafficAccumulatorShardCount} \<Longrightarrow> distinct is \<Longrightarrow>
     acc_ok (snd (drain_shards is a)) \<and>
     (\<forall>k. pending (snd (drain_shards is a)) k = (if trafficAccumulatorShardIndex k \<in> set is then None else pending a k)) \<and>
     (\<forall>d. d \<in> set (fst (drain_shards is a)) \<longleftrightarrow>
        trafficAccumulatorShardIndex (delta_key d) \<in> set is \<and> pending a (delta_key d) = Some d) \<and>
     distinct (map delta_key (fst (drain_shards is a)))"
proof (induction "is" arbitrary: a)
  case (Cons i "is")
  let ?a = "snd (drain_shard i a)"
  have i: "i < trafficAccumulatorShardCount" "i \<notin> set is" using Cons.prems by auto
  have hom: "traffic.homed (ta_shards a)" using Cons.prems(1) by (simp add: acc_ok_def)
  note one = drain_shard_ok [OF Cons.prems(1) i(1)] and mem = drain_shard_member [OF Cons.prems(1) i(1)]
  have look: "pending ?a k = (if trafficAccumulatorShardIndex k = i then None else pending a k)" for k
    using traffic.lookup_drain [OF hom i(1)] by (simp add: drain_shard_def)
  note IH = Cons.IH [OF one] and unf = drain_shards.simps(2) [of i "is" a]
  have rest: "acc_ok (snd (drain_shards is ?a))"
    "\<And>k. pending (snd (drain_shards is ?a)) k = (if trafficAccumulatorShardIndex k \<in> set is then None else pending ?a k)"
    "\<And>d. d \<in> set (fst (drain_shards is ?a)) \<longleftrightarrow>
        trafficAccumulatorShardIndex (delta_key d) \<in> set is \<and> pending ?a (delta_key d) = Some d"
    "distinct (map delta_key (fst (drain_shards is ?a)))"
    using IH Cons.prems by auto
  have res: "drain_shards (i # is) a = (fst (drain_shard i a) @ fst (drain_shards is ?a), snd (drain_shards is ?a))"
    by (cases "drain_shard i a"; cases "drain_shards is ?a") simp
  have keys: "map delta_key (fst (drain_shard i a)) = map fst (ta_shards a ! i)"
  proof -
    have "k = delta_key d" if "(k, d) \<in> set (ta_shards a ! i)" for k d
      using that traffic.in_shard_iff [OF hom i(1)] acc_okD [OF Cons.prems(1)] by (simp add: entry_ok_def)
    then show ?thesis by (auto simp: drain_shard_def)
  qed
  have "distinct (map delta_key (fst (drain_shard i a)))" using traffic.homedD(2) [OF hom i(1)] by (simp add: keys)
  moreover have "delta_key d \<noteq> delta_key e" if "d \<in> set (fst (drain_shard i a))" "e \<in> set (fst (drain_shards is ?a))" for d e
    using that mem rest(3) i(2) by auto
  ultimately have "distinct (map delta_key (fst (drain_shards (i # is) a)))" using rest(4) unfolding res by auto
  then show ?case using rest(1-3) mem look i(2) unfolding res by (auto split: if_splits)
qed simp

lemma drain_all:
  assumes "acc_ok a" and "drain_shards [0 ..< trafficAccumulatorShardCount] a = (es, a')"
  shows "\<forall>k. pending a' k = None" and "\<forall>d. d \<in> set es \<longleftrightarrow> pending a (delta_key d) = Some d" and "distinct (map delta_key es)"
proof -
  have "set [0 ..< trafficAccumulatorShardCount] \<subseteq> {..< trafficAccumulatorShardCount}" by (simp add: atLeast0LessThan)
  from drain_shards_ok [OF assms(1) this distinct_upt, unfolded assms(2)] shard_index_less
  show "\<forall>k. pending a' k = None" "\<forall>d. d \<in> set es \<longleftrightarrow> pending a (delta_key d) = Some d" "distinct (map delta_key es)"
    by (simp_all del: upt.simps add: atLeast0LessThan)
qed

lemma DrainE:
  assumes "Drain a = (ds, a')"
  obtains es where "drain_shards [0 ..< trafficAccumulatorShardCount] a = (es, a')" and "ds = sort_key delta_order es"
  using assms unfolding Drain_def Let_def by (metis (no_types, lifting) Pair_inject case_prod_beta' prod.collapse)

text \<open>
  A drain that no producer interrupts empties the accumulator and
  returns every pending sum exactly once, in the order of the comparison; none of them belongs to a
  deleted owner or to a revision of its tunnel before the last reset.
\<close>

theorem Drain_complete:
  assumes reach: "traffic_step\<^sup>*\<^sup>* traffic_start w" and run: "Drain (tw_acc w) = (ds, a)"
  shows "(\<forall>k. pending a k = None) \<and> (\<forall>d. d \<in> set ds \<longleftrightarrow> pending (tw_acc w) (delta_key d) = Some d) \<and>
    distinct (map delta_key ds) \<and> sorted (map delta_order ds) \<and>
    list_all (\<lambda>d. td_OwnerUserID d \<notin> ta_deletedOwnerUserIDs (tw_acc w) \<and>
       (td_TunnelID d \<noteq> [] \<longrightarrow> ta_minimumRevisionByTunnel (tw_acc w) (td_TunnelID d) \<le> td_Revision d)) ds"
proof -
  have ok: "acc_ok (tw_acc w)" using balanced_reachable [OF reach] by (simp add: balanced_def)
  obtain es where es: "drain_shards [0 ..< trafficAccumulatorShardCount] (tw_acc w) = (es, a)" "ds = sort_key delta_order es"
    by (rule DrainE [OF run])
  note d = drain_all [OF ok es(1)]
  have "mset (map delta_key ds) = mset (map delta_key es)" by (simp add: es(2))
  then have "distinct (map delta_key ds)" using d(3) mset_eq_imp_distinct_iff by blast
  moreover have "list_all (\<lambda>d. td_OwnerUserID d \<notin> ta_deletedOwnerUserIDs (tw_acc w) \<and>
       (td_TunnelID d \<noteq> [] \<longrightarrow> ta_minimumRevisionByTunnel (tw_acc w) (td_TunnelID d) \<le> td_Revision d)) ds"
    using d(2) acc_okD [OF ok] by (auto simp: list_all_iff es(2) entry_ok_def)
  ultimately show ?thesis using d by (simp add: es(2))
qed

lemma traffic_step_tombstones:
  "traffic_step w w' \<Longrightarrow> ta_deletedOwnerUserIDs (tw_acc w) \<subseteq> ta_deletedOwnerUserIDs (tw_acc w')"
  by (elim traffic_stepE)
     (auto simp: AddDelta_def drain_shard_def evictDeletedOwner_def ResetTunnel_def Let_def split: if_splits option.splits)

lemma traffic_steps_tombstones:
  "traffic_step\<^sup>*\<^sup>* w w' \<Longrightarrow> ta_deletedOwnerUserIDs (tw_acc w) \<subseteq> ta_deletedOwnerUserIDs (tw_acc w')"
  by (induction rule: rtranclp_induct) (auto dest: traffic_step_tombstones)

text \<open>
  The deletion of a user is final: whatever producers still report for it
  afterwards, no later drain ever returns an observation of that user.
\<close>

theorem deleted_owner_never_drained:
  assumes reach: "traffic_step\<^sup>*\<^sup>* traffic_start w" and owner: "owner \<noteq> []"
    and evict: "tw_acc w1 = evictDeletedOwner owner (tw_acc w)" "traffic_step w w1"
    and later: "traffic_step\<^sup>*\<^sup>* w1 w2" and run: "Drain (tw_acc w2) = (ds, a)"
  shows "d \<in> set ds \<Longrightarrow> td_OwnerUserID d \<noteq> owner"
proof -
  have "traffic_step\<^sup>*\<^sup>* traffic_start w2" using reach evict(2) later by (meson rtranclp.rtrancl_into_rtrancl rtranclp_trans)
  then have ok: "acc_ok (tw_acc w2)" using balanced_reachable by (simp add: balanced_def)
  have gone: "owner \<in> ta_deletedOwnerUserIDs (tw_acc w2)"
    using traffic_steps_tombstones [OF later] evict(1) owner by (auto simp: evictDeletedOwner_def)
  assume "d \<in> set ds"
  moreover obtain es where es: "drain_shards [0 ..< trafficAccumulatorShardCount] (tw_acc w2) = (es, a)" "ds = sort_key delta_order es"
    by (rule DrainE [OF run])
  ultimately have "pending (tw_acc w2) (delta_key d) = Some d" using drain_all(2) [OF ok es(1)] by simp
  from acc_okD [OF ok this] gone show "td_OwnerUserID d \<noteq> owner" by (auto simp: entry_ok_def)
qed

section \<open>A concrete run\<close>

definition demo_delta :: TrafficDelta where
  "demo_delta = \<lparr>td_TunnelID = ''t1'', td_Revision = 2, td_ClientID = ''c1'', td_OwnerUserID = ''u'', td_OwnerClientID = ''c1'',
     td_IngressClientID = [], td_TargetClientID = ''c1'', td_Topology = ''server_expose'', td_Transport = ''server_relay'',
     td_TunnelName = ''web'', td_TunnelType = ''tcp'', td_SecondStart = 0, td_MinuteStart = 0, td_IngressBytes = 100,
     td_EgressBytes = 50\<rparr>"

definition demo_traffic :: traffic_world where
  "demo_traffic = traffic_start\<lparr>tw_acc := snd (AddDelta 9 demo_delta newTrafficAccumulator),
     tw_accepted := credit (stamped 9 demo_delta) (\<lambda>_. (0, 0))\<rparr>"

lemma demo_traffic_reachable: "traffic_step\<^sup>*\<^sup>* traffic_start demo_traffic"
proof -
  have add: "AddDelta 9 demo_delta (tw_acc traffic_start) = (None, tw_acc demo_traffic)"
    by (simp add: AddDelta_def Let_def demo_traffic_def traffic_start_def admits_def demo_delta_def newTrafficAccumulator_def
        pending_new [unfolded newTrafficAccumulator_def, simplified])
  have adm: "admits demo_delta (tw_acc traffic_start)"
    by (simp add: admits_def demo_delta_def traffic_start_def newTrafficAccumulator_def)
  have "traffic_step traffic_start demo_traffic"
    using tr_add [OF add] adm by (simp add: demo_traffic_def traffic_start_def)
  then show ?thesis by blast
qed

theorem traffic_bytes_conserved_witness:
  "tw_accepted demo_traffic (delta_key (stamped 9 demo_delta)) = (100, 50) \<and>
   plus2 (plus2 (0, 0) (0, 0)) (pending_bytes (tw_acc demo_traffic) (delta_key (stamped 9 demo_delta))) = (100, 50)"
  using traffic_bytes_conserved [OF demo_traffic_reachable, of "delta_key (stamped 9 demo_delta)"]
  by (simp add: demo_traffic_def traffic_start_def credit_def delta_bytes_def demo_delta_def stamped_def)

theorem Drain_complete_witness:
  "distinct (map delta_key (fst (Drain (tw_acc demo_traffic)))) \<and> (\<forall>k. pending (snd (Drain (tw_acc demo_traffic))) k = None)"
  using Drain_complete [OF demo_traffic_reachable prod.collapse [symmetric]] by simp

theorem deleted_owner_never_drained_witness:
  "list_all (\<lambda>d. td_OwnerUserID d \<noteq> ''u'') (fst (Drain (evictDeletedOwner ''u'' (tw_acc demo_traffic))))"
proof -
  let ?a = "evictDeletedOwner ''u'' (tw_acc demo_traffic)"
  let ?w = "demo_traffic\<lparr>tw_acc := ?a, tw_discarded := (\<lambda>k. plus2 (tw_discarded demo_traffic k) (lost (tw_acc demo_traffic) ?a k))\<rparr>"
  have "td_OwnerUserID d \<noteq> ''u''" if "d \<in> set (fst (Drain ?a))" for d
    by (rule deleted_owner_never_drained [OF demo_traffic_reachable, where ?w1.0 = ?w and ?w2.0 = ?w and a = "snd (Drain ?a)", OF _ _ _ _ _ that])
       (simp_all add: tr_evict)
  then show ?thesis by (simp add: list_all_iff)
qed

end
