(* ===== verification/Traffic_Store.thy ===== *)
theory Traffic_Store
  imports Traffic_Accumulator
begin

text \<open>
  The traffic store (\<open>internal/server/traffic_store.go\<close>, \<open>traffic_realtime_index.go\<close>):
  pending minute buckets, the index of the last seconds, and the table \<open>traffic_buckets\<close>. A
  Go map is an association list whose order stands for the order of an iteration; the table is the
  list of its rows with the primary key (tunnel, transport, resolution, start). Bucket sums are
  64-bit words; a column of SQLite holds a signed 64-bit integer, so a word above
  \<open>maxSQLiteInt64\<close> is a negative column. The lookups in the tables \<open>tunnels\<close>,
  \<open>registered_clients\<close> and \<open>users\<close> are the record \<open>traffic_tables\<close>; whether the
  database commits is an argument.
\<close>

section \<open>Data\<close>

abbreviation "TrafficResolutionSecond \<equiv> ''second''"
abbreviation "TrafficResolutionMinute \<equiv> ''minute''"
abbreviation "TrafficResolutionHour \<equiv> ''hour''"

abbreviation trafficRealtimePointCount :: int where
  "trafficRealtimePointCount \<equiv> 60"

abbreviation trafficMinuteRetention :: duration where
  "trafficMinuteRetention \<equiv> 24 * 60 * minute"

abbreviation trafficHourRetention :: duration where
  "trafficHourRetention \<equiv> 7 * 24 * 60 * minute"

record TrafficBucket =
  tb_TunnelID :: string
  tb_ClientID :: string
  tb_OwnerUserID :: string
  tb_OwnerClientID :: string
  tb_IngressClientID :: string
  tb_TargetClientID :: string
  tb_Topology :: string
  tb_Transport :: string
  tb_TunnelName :: string
  tb_TunnelType :: string
  tb_MetadataMissing :: bool
  tb_Resolution :: string
  tb_BucketStart :: int
  tb_IngressBytes :: u64
  tb_EgressBytes :: u64

record TrafficPoint =
  tp_BucketStart :: int
  tp_IngressBytes :: u64
  tp_EgressBytes :: u64
  tp_TotalBytes :: u64

record trafficSeriesKey =
  sk_TunnelID :: string
  sk_TunnelName :: string
  sk_TunnelType :: string

record TunnelTrafficSeries =
  ts_TunnelID :: string
  ts_TunnelName :: string
  ts_TunnelType :: string
  ts_MetadataMissing :: bool
  ts_Points :: "TrafficPoint list"

datatype traffic_error = TrafficOverflow string | SqliteRange string | NegativePersisted string
  | ForeignKey string | InvalidResolution string | OwnerRequired | TrafficDb string

text \<open>
  An entry of \<open>realtimeSecondIndex\<close> is found under its client, owner, series and second; the
  nested maps of the source are one association list (an empty inner map holds nothing).
\<close>

type_synonym realtime_key = "string \<times> string \<times> trafficSeriesKey \<times> int"
type_synonym realtimeSecondIndex = "(realtime_key \<times> TrafficBucket) list"

record traffic_tunnel_row =
  tt_id :: string
  tt_owner_user_id :: string
  tt_owner_client_id :: string
  tt_ingress_client_id :: string
  tt_target_client_id :: string
  tt_topology :: string
  tt_actual_transport :: string

record traffic_tables =
  tt_tunnel :: "string \<Rightarrow> string \<Rightarrow> traffic_tunnel_row option"
  tt_known_tunnel :: "string \<Rightarrow> bool"
  tt_client_owner :: "string \<Rightarrow> string option"
  tt_user :: "string \<Rightarrow> bool"

record TrafficStore =
  tf_realtimeSecond :: realtimeSecondIndex
  tf_pendingMinute :: "(string \<times> TrafficBucket) list"
  tf_pendingErr :: "traffic_error option"
  tf_minimumRevisionByTunnel :: "string \<Rightarrow> int"
  tf_deletedOwnerUserIDs :: "string set"
  tf_rows :: "TrafficBucket list"

definition newTrafficStore :: TrafficStore where
  "newTrafficStore = \<lparr>tf_realtimeSecond = [], tf_pendingMinute = [], tf_pendingErr = None,
     tf_minimumRevisionByTunnel = (\<lambda>_. 0), tf_deletedOwnerUserIDs = {}, tf_rows = []\<rparr>"

section \<open>Keys, defaults and sums\<close>

definition trafficSeriesKeyFromBucket :: "TrafficBucket \<Rightarrow> trafficSeriesKey" where
  "trafficSeriesKeyFromBucket b =
     \<lparr>sk_TunnelID = tb_TunnelID b, sk_TunnelName = tb_TunnelName b, sk_TunnelType = tb_TunnelType b\<rparr>"

definition trafficBucketKey :: "TrafficBucket \<Rightarrow> string" where
  "trafficBucketKey b = join_on (CHR 0x00)
     [tb_OwnerUserID b, tb_ClientID b, tb_TunnelID b, tb_TunnelName b, tb_TunnelType b, tb_Resolution b,
      itoa (tb_BucketStart b)]"

definition trafficBucketMetadataMissing :: "TrafficBucket \<Rightarrow> bool" where
  "trafficBucketMetadataMissing b \<longleftrightarrow>
     tb_MetadataMissing b \<or> (tb_TunnelID b \<noteq> [] \<and> (tb_TunnelName b = [] \<or> tb_TunnelType b = []))"

definition fallbackTrafficTunnelID :: "string \<Rightarrow> string \<Rightarrow> string \<Rightarrow> string" where
  "fallbackTrafficTunnelID clientID tunnelName tunnelType =
     join_on (CHR 0x00) [''legacy'', clientID, tunnelName, tunnelType]"

definition applyTrafficBucketStorageDefaults :: "TrafficBucket \<Rightarrow> TrafficBucket" where
  "applyTrafficBucketStorageDefaults b = b\<lparr>
     tb_OwnerClientID := (if tb_OwnerClientID b = [] then tb_ClientID b else tb_OwnerClientID b),
     tb_TargetClientID := (if tb_TargetClientID b = [] then tb_ClientID b else tb_TargetClientID b),
     tb_Topology := (if tb_Topology b = [] then ''server_expose'' else tb_Topology b),
     tb_Transport := (if tb_Transport b = [] \<or> tb_Transport b = ''unknown'' then ''server_relay'' else tb_Transport b),
     tb_TunnelID := (if tb_TunnelID b = []
       then fallbackTrafficTunnelID (tb_ClientID b) (tb_TunnelName b) (tb_TunnelType b) else tb_TunnelID b)\<rparr>"

definition addTrafficBucketValues :: "TrafficBucket \<Rightarrow> TrafficBucket \<Rightarrow> traffic_error + TrafficBucket" where
  "addTrafficBucketValues e b =
     (case checkedTrafficAdd (tb_IngressBytes e) (tb_IngressBytes b) of
        None \<Rightarrow> Inl (TrafficOverflow ''traffic_buckets.ingress_bytes'')
      | Some i \<Rightarrow>
        (case checkedTrafficAdd (tb_EgressBytes e) (tb_EgressBytes b) of
           None \<Rightarrow> Inl (TrafficOverflow ''traffic_buckets.egress_bytes'')
         | Some o' \<Rightarrow> Inr (e\<lparr>tb_IngressBytes := i, tb_EgressBytes := o'\<rparr>)))"

definition addTrafficBucket ::
  "TrafficBucket \<Rightarrow> (string \<times> TrafficBucket) list \<Rightarrow> traffic_error + (string \<times> TrafficBucket) list" where
  "addTrafficBucket b m =
     (case map_of m (trafficBucketKey b) of
        Some e \<Rightarrow> bind_res (addTrafficBucketValues e b) (\<lambda>e'. Inr (AList.update (trafficBucketKey b) e' m))
      | None \<Rightarrow> Inr (AList.update (trafficBucketKey b) b m))"

text \<open>The loops that add buckets to a map and stop at the first error.\<close>

fun addTrafficBuckets ::
  "TrafficBucket list \<Rightarrow> (string \<times> TrafficBucket) list \<Rightarrow> traffic_error + (string \<times> TrafficBucket) list" where
  "addTrafficBuckets [] m = Inr m"
| "addTrafficBuckets (b # bs) m = bind_res (addTrafficBucket b m) (addTrafficBuckets bs)"

section \<open>The index of the last seconds\<close>

definition realtime_key_of :: "TrafficBucket \<Rightarrow> realtime_key" where
  "realtime_key_of b = (tb_ClientID b, tb_OwnerUserID b, trafficSeriesKeyFromBucket b, tb_BucketStart b)"

definition realtime_Add :: "TrafficBucket \<Rightarrow> realtimeSecondIndex \<Rightarrow> traffic_error + realtimeSecondIndex" where
  "realtime_Add b m =
     (if tb_ClientID b = [] \<or> tb_TunnelName b = [] \<or> tb_TunnelType b = [] then Inr m
      else if tb_IngressBytes b = 0 \<and> tb_EgressBytes b = 0 then Inr m
      else (case map_of m (realtime_key_of b) of
          Some e \<Rightarrow> bind_res (addTrafficBucketValues e b) (\<lambda>e'. Inr (AList.update (realtime_key_of b) e' m))
        | None \<Rightarrow> Inr (AList.update (realtime_key_of b) b m)))"

definition realtime_query :: "string \<Rightarrow> string \<Rightarrow> string \<Rightarrow> int \<Rightarrow> int \<Rightarrow> bool \<Rightarrow> realtimeSecondIndex \<Rightarrow> TrafficBucket list" where
  "realtime_query owner client name from to requireOwner m =
     map snd (filter (\<lambda>((c, u, k, t), b). c = client \<and> \<not> (requireOwner \<and> u \<noteq> owner) \<and>
        \<not> (name \<noteq> [] \<and> sk_TunnelName k \<noteq> name \<and> sk_TunnelID k \<noteq> name) \<and> from \<le> t \<and> t \<le> to) m)"

definition realtime_QueryForUser :: "string \<Rightarrow> string \<Rightarrow> string \<Rightarrow> int \<Rightarrow> int \<Rightarrow> realtimeSecondIndex \<Rightarrow> TrafficBucket list" where
  "realtime_QueryForUser owner client name from to m =
     (if owner = [] then [] else realtime_query owner client name from to True m)"

definition PruneBefore :: "int \<Rightarrow> realtimeSecondIndex \<Rightarrow> realtimeSecondIndex" where
  "PruneBefore cutoff m = filter (\<lambda>((c, u, k, t), b). cutoff \<le> t) m"

definition realtime_EvictClient :: "string \<Rightarrow> realtimeSecondIndex \<Rightarrow> realtimeSecondIndex" where
  "realtime_EvictClient client m = filter (\<lambda>((c, u, k, t), b). c \<noteq> client) m"

definition realtime_EvictTunnel :: "string \<Rightarrow> string \<Rightarrow> realtimeSecondIndex \<Rightarrow> realtimeSecondIndex" where
  "realtime_EvictTunnel client name m = filter (\<lambda>((c, u, k, t), b). \<not> (c = client \<and> sk_TunnelName k = name)) m"

definition renamed_key :: "string \<Rightarrow> string \<Rightarrow> realtime_key \<Rightarrow> realtime_key" where
  "renamed_key old new k = (case k of (c, u, s, t) \<Rightarrow>
     (c, u, if sk_TunnelName s = old then s\<lparr>sk_TunnelName := new\<rparr> else s, t))"

definition renamed_entry :: "string \<Rightarrow> string \<Rightarrow> realtime_key \<times> TrafficBucket \<Rightarrow> realtime_key \<times> TrafficBucket" where
  "renamed_entry old new = (\<lambda>((c, u, s, t), b).
     (renamed_key old new (c, u, s, t), if sk_TunnelName s = old then b\<lparr>tb_TunnelName := new\<rparr> else b))"

fun rename_entries ::
  "(realtime_key \<times> TrafficBucket) list \<Rightarrow> realtimeSecondIndex \<Rightarrow> traffic_error + realtimeSecondIndex" where
  "rename_entries [] m = Inr m"
| "rename_entries ((k, b) # es) m =
     (case map_of m k of
        Some e \<Rightarrow> bind_res (addTrafficBucketValues e b) (\<lambda>e'. rename_entries es (AList.update k e' m))
      | None \<Rightarrow> rename_entries es (AList.update k b m))"

definition renamedTunnelBuckets ::
  "string \<Rightarrow> string \<Rightarrow> string \<Rightarrow> realtimeSecondIndex \<Rightarrow> traffic_error + realtimeSecondIndex" where
  "renamedTunnelBuckets client old new m =
     (let mine = filter (\<lambda>((c, u, s, t), b). c = client) m in
      if old = new \<or> \<not> (\<exists>((c, u, s, t), b) \<in> set mine. sk_TunnelName s = old) then Inr m
      else bind_res (rename_entries (map (renamed_entry old new) mine) [])
        (\<lambda>r. Inr (filter (\<lambda>((c, u, s, t), b). c \<noteq> client) m @ r)))"

section \<open>Observations arrive\<close>

definition bucket_of_delta :: "string \<Rightarrow> int \<Rightarrow> TrafficDelta \<Rightarrow> TrafficBucket" where
  "bucket_of_delta resolution start d = applyTrafficBucketStorageDefaults
     \<lparr>tb_TunnelID = td_TunnelID d, tb_ClientID = td_ClientID d, tb_OwnerUserID = td_OwnerUserID d,
      tb_OwnerClientID = td_OwnerClientID d, tb_IngressClientID = td_IngressClientID d,
      tb_TargetClientID = td_TargetClientID d, tb_Topology = td_Topology d, tb_Transport = td_Transport d,
      tb_TunnelName = td_TunnelName d, tb_TunnelType = td_TunnelType d, tb_MetadataMissing = False,
      tb_Resolution = resolution, tb_BucketStart = start,
      tb_IngressBytes = td_IngressBytes d, tb_EgressBytes = td_EgressBytes d\<rparr>"

definition delta_skipped :: "TrafficDelta \<Rightarrow> TrafficStore \<Rightarrow> bool" where
  "delta_skipped d s \<longleftrightarrow> td_OwnerUserID d \<in> tf_deletedOwnerUserIDs s \<or>
     (let minimum = tf_minimumRevisionByTunnel s (td_TunnelID d) in 0 < minimum \<and> td_Revision d < minimum) \<or>
     td_ClientID d = [] \<or> td_TunnelName d = [] \<or> td_TunnelType d = [] \<or>
     (td_IngressBytes d = 0 \<and> td_EgressBytes d = 0)"

text \<open>One round of the loop of \<open>ApplyDeltas\<close>, with the newest second seen so far.\<close>

definition apply_delta :: "TrafficDelta \<Rightarrow> TrafficStore \<times> int \<Rightarrow> TrafficStore \<times> int" where
  "apply_delta d = (\<lambda>(s, newest).
     if delta_skipped d s then (s, newest)
     else (case addTrafficBucket (bucket_of_delta TrafficResolutionMinute (td_MinuteStart d) d) (tf_pendingMinute s) of
         Inl e \<Rightarrow> (s\<lparr>tf_pendingErr := Some e\<rparr>, newest)
       | Inr p \<Rightarrow>
           (let s1 = s\<lparr>tf_pendingMinute := p\<rparr> in
            if td_SecondStart d = 0 then (s1, newest)
            else (case realtime_Add (bucket_of_delta TrafficResolutionSecond (td_SecondStart d) d) (tf_realtimeSecond s1) of
                Inl e \<Rightarrow> (s1\<lparr>tf_pendingErr := Some e\<rparr>, newest)
              | Inr r \<Rightarrow> (s1\<lparr>tf_realtimeSecond := r\<rparr>, max newest (td_SecondStart d))))))"

definition ApplyDeltas :: "TrafficDelta list \<Rightarrow> TrafficStore \<Rightarrow> TrafficStore" where
  "ApplyDeltas ds s =
     (let (s1, newest) = fold apply_delta ds (s, 0) in
      if newest \<noteq> 0
      then s1\<lparr>tf_realtimeSecond := PruneBefore (newest - (trafficRealtimePointCount - 1)) (tf_realtimeSecond s1)\<rparr>
      else s1)"

section \<open>Removing observations\<close>

text \<open>An emptied queue clears the sticky error.\<close>

definition clear_err_if_empty :: "TrafficStore \<Rightarrow> TrafficStore" where
  "clear_err_if_empty s = (if tf_pendingMinute s = [] then s\<lparr>tf_pendingErr := None\<rparr> else s)"

definition evictDeletedOwnerLocked :: "string \<Rightarrow> TrafficStore \<times> trafficAccumulator \<Rightarrow> TrafficStore \<times> trafficAccumulator" where
  "evictDeletedOwnerLocked owner = (\<lambda>(s, a).
     if owner = [] then (s, a)
     else (clear_err_if_empty (s\<lparr>tf_deletedOwnerUserIDs := insert owner (tf_deletedOwnerUserIDs s),
             tf_pendingMinute := filter (\<lambda>(k, b). tb_OwnerUserID b \<noteq> owner) (tf_pendingMinute s),
             tf_realtimeSecond := filter (\<lambda>((c, u, k, t), b). u \<noteq> owner) (tf_realtimeSecond s)\<rparr>),
           evictDeletedOwner owner a))"

definition withUserDeletionBoundary ::
  "string \<Rightarrow> (TrafficBucket list \<Rightarrow> traffic_error + TrafficBucket list) \<Rightarrow> TrafficStore \<times> trafficAccumulator \<Rightarrow>
     traffic_error option \<times> TrafficStore \<times> trafficAccumulator" where
  "withUserDeletionBoundary owner deleteUser = (\<lambda>(s, a).
     if owner = [] then (Some OwnerRequired, s, a)
     else (case deleteUser (tf_rows s) of
         Inl e \<Rightarrow> (Some e, s, a)
       | Inr rows \<Rightarrow> (None, evictDeletedOwnerLocked owner (s\<lparr>tf_rows := rows\<rparr>, a))))"

definition resetTunnelAfterMigrationLocked ::
  "string \<Rightarrow> int \<Rightarrow> TrafficStore \<times> trafficAccumulator \<Rightarrow> TrafficStore \<times> trafficAccumulator" where
  "resetTunnelAfterMigrationLocked tunnelID minimumRevision = (\<lambda>(s, a).
     if tunnelID = [] \<or> minimumRevision \<le> 0 then (s, a)
     else if minimumRevision \<le> tf_minimumRevisionByTunnel s tunnelID then (s, a)
     else (clear_err_if_empty (s\<lparr>tf_minimumRevisionByTunnel := (tf_minimumRevisionByTunnel s)(tunnelID := minimumRevision),
             tf_pendingMinute := filter (\<lambda>(k, b). tb_TunnelID b \<noteq> tunnelID) (tf_pendingMinute s),
             tf_realtimeSecond := filter (\<lambda>((c, u, k, t), b). sk_TunnelID k \<noteq> tunnelID) (tf_realtimeSecond s)\<rparr>),
           ResetTunnel tunnelID minimumRevision a))"

definition store_EvictTunnel :: "string \<Rightarrow> string \<Rightarrow> TrafficStore \<Rightarrow> TrafficStore" where
  "store_EvictTunnel client name s = clear_err_if_empty (s\<lparr>
     tf_pendingMinute := filter (\<lambda>(k, b). \<not> (tb_ClientID b = client \<and> tb_TunnelName b = name)) (tf_pendingMinute s),
     tf_realtimeSecond := realtime_EvictTunnel client name (tf_realtimeSecond s)\<rparr>)"

text \<open>\<open>EvictClient\<close> forgets the observations in memory even when the \<open>DELETE\<close> fails.\<close>

definition store_EvictClient :: "bool \<Rightarrow> string \<Rightarrow> TrafficStore \<Rightarrow> traffic_error option \<times> TrafficStore" where
  "store_EvictClient db_ok client s =
     (let s1 = clear_err_if_empty (s\<lparr>
        tf_pendingMinute := filter (\<lambda>(k, b). tb_ClientID b \<noteq> client) (tf_pendingMinute s),
        tf_realtimeSecond := realtime_EvictClient client (tf_realtimeSecond s)\<rparr>) in
      if db_ok then (None, s1\<lparr>tf_rows := filter (\<lambda>b. tb_ClientID b \<noteq> client) (tf_rows s1)\<rparr>)
      else (Some (TrafficDb ''delete''), s1))"

section \<open>The table\<close>

abbreviation maxSQLiteInt64 :: u64 where
  "maxSQLiteInt64 \<equiv> 9223372036854775807"

definition sqliteInt64 :: "string \<Rightarrow> u64 \<Rightarrow> traffic_error + u64" where
  "sqliteInt64 field v = (if v > maxSQLiteInt64 then Inl (SqliteRange field) else Inr v)"

definition sqliteUint64 :: "string \<Rightarrow> u64 \<Rightarrow> traffic_error + u64" where
  "sqliteUint64 field v = (if v > maxSQLiteInt64 then Inl (NegativePersisted field) else Inr v)"

definition scanTrafficBucketFields :: "TrafficBucket \<Rightarrow> traffic_error + TrafficBucket" where
  "scanTrafficBucketFields b =
     bind_res (sqliteUint64 ''traffic_buckets.ingress_bytes'' (tb_IngressBytes b)) (\<lambda>i.
     bind_res (sqliteUint64 ''traffic_buckets.egress_bytes'' (tb_EgressBytes b)) (\<lambda>o'.
       Inr (b\<lparr>tb_IngressBytes := i, tb_EgressBytes := o'\<rparr>)))"

fun scanTrafficBucketRows :: "TrafficBucket list \<Rightarrow> traffic_error + TrafficBucket list" where
  "scanTrafficBucketRows [] = Inr []"
| "scanTrafficBucketRows (r # rs) =
     bind_res (scanTrafficBucketFields r) (\<lambda>b. bind_res (scanTrafficBucketRows rs) (\<lambda>bs. Inr (b # bs)))"

text \<open>The two lookups of \<open>hydrateTrafficBucketTx\<close>: the tunnel of a bucket without one, and the owner of its client.\<close>

definition hydrate_tunnel :: "traffic_tables \<Rightarrow> TrafficBucket \<Rightarrow> TrafficBucket" where
  "hydrate_tunnel T b =
     (if tb_TunnelID b = [] \<and> tb_ClientID b \<noteq> [] \<and> tb_TunnelName b \<noteq> []
      then (case tt_tunnel T (tb_ClientID b) (tb_TunnelName b) of
          None \<Rightarrow> b
        | Some r \<Rightarrow> b\<lparr>tb_TunnelID := tt_id r, tb_OwnerUserID := tt_owner_user_id r,
            tb_OwnerClientID := tt_owner_client_id r, tb_IngressClientID := tt_ingress_client_id r,
            tb_TargetClientID := tt_target_client_id r, tb_Topology := tt_topology r,
            tb_Transport := (if tt_actual_transport r \<noteq> [] \<and> tt_actual_transport r \<noteq> ''unknown''
              then tt_actual_transport r else tb_Transport b)\<rparr>)
      else b)"

definition hydrate_owner :: "traffic_tables \<Rightarrow> TrafficBucket \<Rightarrow> TrafficBucket" where
  "hydrate_owner T b =
     (if tb_OwnerUserID b = [] \<and> tb_OwnerClientID b \<noteq> []
      then (case tt_client_owner T (tb_OwnerClientID b) of None \<Rightarrow> b | Some u \<Rightarrow> b\<lparr>tb_OwnerUserID := u\<rparr>)
      else b)"

definition hydrateTrafficBucketTx :: "traffic_tables \<Rightarrow> TrafficBucket \<Rightarrow> TrafficBucket" where
  "hydrateTrafficBucketTx T b =
     hydrate_owner T (applyTrafficBucketStorageDefaults (hydrate_tunnel T
       (b\<lparr>tb_Transport := (if tb_Transport b = [] then ''server_relay'' else tb_Transport b)\<rparr>)))"

definition same_row :: "TrafficBucket \<Rightarrow> TrafficBucket \<Rightarrow> bool" where
  "same_row b r \<longleftrightarrow> tb_TunnelID r = tb_TunnelID b \<and> tb_Transport r = tb_Transport b \<and>
     tb_Resolution r = tb_Resolution b \<and> tb_BucketStart r = tb_BucketStart b"

definition findTrafficBucketTx :: "traffic_tables \<Rightarrow> TrafficBucket list \<Rightarrow> TrafficBucket \<Rightarrow> traffic_error + TrafficBucket option" where
  "findTrafficBucketTx T rows b =
     (case find (same_row (hydrateTrafficBucketTx T b)) rows of
        None \<Rightarrow> Inr None
      | Some r \<Rightarrow> bind_res (scanTrafficBucketFields r) (\<lambda>e. Inr (Some e)))"

text \<open>\<open>INSERT\<close> with the foreign key of the owner (the empty owner is \<open>NULL\<close>).\<close>

definition owner_fk :: "traffic_tables \<Rightarrow> TrafficBucket \<Rightarrow> traffic_error + unit" where
  "owner_fk T b = (if tb_OwnerUserID b = [] \<or> tt_user T (tb_OwnerUserID b) then Inr () else Inl (ForeignKey ''owner_user_id''))"

definition store_values :: "TrafficBucket \<Rightarrow> traffic_error + TrafficBucket" where
  "store_values b =
     bind_res (sqliteInt64 ''traffic_buckets.ingress_bytes'' (tb_IngressBytes b)) (\<lambda>i.
     bind_res (sqliteInt64 ''traffic_buckets.egress_bytes'' (tb_EgressBytes b)) (\<lambda>o'.
       Inr (b\<lparr>tb_IngressBytes := i, tb_EgressBytes := o', tb_MetadataMissing := False\<rparr>)))"

definition upsertTrafficBucketReplace :: "traffic_tables \<Rightarrow> TrafficBucket \<Rightarrow> TrafficBucket list \<Rightarrow> traffic_error + TrafficBucket list" where
  "upsertTrafficBucketReplace T b0 rows =
     (let b = hydrateTrafficBucketTx T b0 in
      bind_res (store_values b) (\<lambda>v.
      bind_res (owner_fk T v) (\<lambda>_.
        if \<exists>r \<in> set rows. same_row v r
        then Inr (map (\<lambda>r. if same_row v r
               then v\<lparr>tb_OwnerUserID := (if tb_OwnerUserID v = [] then tb_OwnerUserID r else tb_OwnerUserID v)\<rparr>
               else r) rows)
        else Inr (rows @ [v]))))"

definition upsertTrafficBucketAdd :: "traffic_tables \<Rightarrow> TrafficBucket \<Rightarrow> TrafficBucket list \<Rightarrow> traffic_error + TrafficBucket list" where
  "upsertTrafficBucketAdd T b0 rows =
     (let b = hydrateTrafficBucketTx T b0 in
      bind_res (findTrafficBucketTx T rows b) (\<lambda>found. case found of
        Some e \<Rightarrow> bind_res (addTrafficBucketValues e b) (\<lambda>e'. upsertTrafficBucketReplace T e' rows)
      | None \<Rightarrow> bind_res (store_values b) (\<lambda>v. bind_res (owner_fk T v) (\<lambda>_. Inr (rows @ [v])))))"

definition hourStartOf :: "int \<Rightarrow> int" where
  "hourStartOf t = t div 3600 * 3600"

definition hour_bucket :: "TrafficBucket \<Rightarrow> TrafficBucket" where
  "hour_bucket b = b\<lparr>tb_MetadataMissing := False, tb_Resolution := TrafficResolutionHour,
     tb_BucketStart := hourStartOf (tb_BucketStart b), tb_IngressBytes := 0, tb_EgressBytes := 0\<rparr>"

definition addTrafficToExistingHourBucket ::
  "traffic_tables \<Rightarrow> int \<Rightarrow> TrafficBucket \<Rightarrow> TrafficBucket list \<Rightarrow> traffic_error + TrafficBucket list" where
  "addTrafficToExistingHourBucket T currentHourStart b0 rows =
     (let b = hydrateTrafficBucketTx T b0 in
      if currentHourStart \<le> hourStartOf (tb_BucketStart b) then Inr rows
      else bind_res (findTrafficBucketTx T rows (hour_bucket b)) (\<lambda>found. case found of
        None \<Rightarrow> Inr rows
      | Some e \<Rightarrow> bind_res (addTrafficBucketValues e b) (\<lambda>e'. upsertTrafficBucketReplace T e' rows)))"

section \<open>Flush, roll-up and pruning\<close>

definition bucket_order :: "TrafficBucket \<Rightarrow> string \<times> string \<times> string \<times> string \<times> string \<times> int" where
  "bucket_order b = (tb_OwnerUserID b, tb_ClientID b, tb_TunnelName b, tb_TunnelType b, tb_Resolution b, tb_BucketStart b)"

definition collectSortedBuckets :: "(string \<times> TrafficBucket) list \<Rightarrow> TrafficBucket list" where
  "collectSortedBuckets m = sort_key bucket_order (map snd m)"

fun flush_rows :: "traffic_tables \<Rightarrow> int \<Rightarrow> TrafficBucket list \<Rightarrow> TrafficBucket list \<Rightarrow> traffic_error + TrafficBucket list" where
  "flush_rows T hour [] rows = Inr rows"
| "flush_rows T hour (b # bs) rows =
     bind_res (upsertTrafficBucketAdd T b rows) (\<lambda>rows1.
     bind_res (addTrafficToExistingHourBucket T hour b rows1) (\<lambda>rows2. flush_rows T hour bs rows2))"

definition hourFloorUnix :: "gotime \<Rightarrow> int" where
  "hourFloorUnix now = now div (60 * minute) * 3600 - 62135596800"

text \<open>\<open>db_ok\<close> says whether the transaction can be begun and committed.\<close>

definition flushLocked :: "traffic_tables \<Rightarrow> bool \<Rightarrow> gotime \<Rightarrow> TrafficStore \<Rightarrow> traffic_error option \<times> TrafficStore" where
  "flushLocked T db_ok now s =
     (if tf_pendingMinute s = [] then (None, s\<lparr>tf_pendingErr := None\<rparr>)
      else case tf_pendingErr s of
        Some e \<Rightarrow> (Some e, s)
      | None \<Rightarrow>
        (case flush_rows T (hourFloorUnix now) (collectSortedBuckets (tf_pendingMinute s)) (tf_rows s) of
           Inl e \<Rightarrow> (Some e, s)
         | Inr rows \<Rightarrow>
             if db_ok then (None, s\<lparr>tf_rows := rows, tf_pendingMinute := [], tf_pendingErr := None\<rparr>)
             else (Some (TrafficDb ''commit''), s)))"

text \<open>The division of SQLite truncates towards zero.\<close>

definition sql_hour_start :: "int \<Rightarrow> int" where
  "sql_hour_start t = (if 0 \<le> t then t div 3600 * 3600 else - (- t div 3600 * 3600))"

definition rollup_selected :: "int \<Rightarrow> TrafficBucket list \<Rightarrow> TrafficBucket list" where
  "rollup_selected currentHourStart rows =
     sort_key (\<lambda>b. (tb_ClientID b, tb_TunnelName b, tb_TunnelType b, tb_BucketStart b))
       (map (\<lambda>r. r\<lparr>tb_Resolution := TrafficResolutionHour, tb_BucketStart := sql_hour_start (tb_BucketStart r)\<rparr>)
         (filter (\<lambda>r. tb_Resolution r = TrafficResolutionMinute \<and> tb_BucketStart r < currentHourStart) rows))"

fun upsert_all :: "traffic_tables \<Rightarrow> TrafficBucket list \<Rightarrow> TrafficBucket list \<Rightarrow> traffic_error + TrafficBucket list" where
  "upsert_all T [] rows = Inr rows"
| "upsert_all T (b # bs) rows = bind_res (upsertTrafficBucketReplace T b rows) (upsert_all T bs)"

definition rollupCompleteHoursLocked :: "traffic_tables \<Rightarrow> bool \<Rightarrow> gotime \<Rightarrow> TrafficStore \<Rightarrow> traffic_error option \<times> TrafficStore" where
  "rollupCompleteHoursLocked T db_ok now s =
     (case bind_res (scanTrafficBucketRows (rollup_selected (hourFloorUnix now) (tf_rows s)))
             (\<lambda>bs. bind_res (addTrafficBuckets bs [])
             (\<lambda>rolled. upsert_all T (collectSortedBuckets rolled) (tf_rows s))) of
        Inl e \<Rightarrow> (Some e, s)
      | Inr rows \<Rightarrow> if db_ok then (None, s\<lparr>tf_rows := rows\<rparr>) else (Some (TrafficDb ''commit''), s))"

definition pruneRealtimeLocked :: "gotime \<Rightarrow> TrafficStore \<Rightarrow> TrafficStore" where
  "pruneRealtimeLocked now s = s\<lparr>tf_realtimeSecond :=
     PruneBefore (secondFloorUnix now - (trafficRealtimePointCount - 1)) (tf_realtimeSecond s)\<rparr>"

definition pruneLocked :: "bool \<Rightarrow> gotime \<Rightarrow> TrafficStore \<Rightarrow> traffic_error option \<times> TrafficStore" where
  "pruneLocked db_ok now s =
     (if \<not> db_ok then (Some (TrafficDb ''delete''), s)
      else (None, pruneRealtimeLocked now (s\<lparr>tf_rows := filter (\<lambda>r.
         \<not> (tb_Resolution r = TrafficResolutionMinute \<and> tb_BucketStart r < minuteFloorUnix (now - trafficMinuteRetention)) \<and>
         \<not> (tb_Resolution r = TrafficResolutionHour \<and> tb_BucketStart r < hourFloorUnix (now - trafficHourRetention)))
         (tf_rows s)\<rparr>)))"

text \<open>\<open>ok\<close> gives the outcome of the three transactions; the clock is read again by the flush.\<close>

definition Compact :: "traffic_tables \<Rightarrow> bool \<times> bool \<times> bool \<Rightarrow> gotime \<Rightarrow> gotime \<Rightarrow> TrafficStore \<Rightarrow> traffic_error option \<times> TrafficStore" where
  "Compact T ok now clock s =
     (case flushLocked T (fst ok) clock s of
        (Some e, s1) \<Rightarrow> (Some e, s1)
      | (None, s1) \<Rightarrow>
        (case rollupCompleteHoursLocked T (fst (snd ok)) now s1 of
           (Some e, s2) \<Rightarrow> (Some e, s2)
         | (None, s2) \<Rightarrow> pruneLocked (snd (snd ok)) now s2))"

section \<open>Queries\<close>

definition bucketMatches :: "TrafficBucket \<Rightarrow> string \<Rightarrow> string \<Rightarrow> bool" where
  "bucketMatches b client name \<longleftrightarrow>
     tb_ClientID b = client \<and> \<not> (name \<noteq> [] \<and> tb_TunnelName b \<noteq> name \<and> tb_TunnelID b \<noteq> name)"

definition bucketMatchesRangeForOwner :: "TrafficBucket \<Rightarrow> string \<Rightarrow> string \<Rightarrow> string \<Rightarrow> int \<Rightarrow> int \<Rightarrow> bool" where
  "bucketMatchesRangeForOwner b owner client name from to \<longleftrightarrow>
     \<not> (owner \<noteq> [] \<and> tb_OwnerUserID b \<noteq> owner) \<and> bucketMatches b client name \<and>
     from \<le> tb_BucketStart b \<and> tb_BucketStart b \<le> to"

definition queryBucketsLocked ::
  "traffic_tables \<Rightarrow> string \<Rightarrow> string \<Rightarrow> string \<Rightarrow> string \<Rightarrow> int \<Rightarrow> int \<Rightarrow> TrafficBucket list \<Rightarrow> traffic_error + TrafficBucket list" where
  "queryBucketsLocked T owner client name resolution from to rows =
     scanTrafficBucketRows
       (sort_key (\<lambda>b. (tb_TunnelName b, tb_TunnelType b, tb_BucketStart b))
         (map (\<lambda>r. r\<lparr>tb_MetadataMissing := \<not> tt_known_tunnel T (tb_TunnelID r)\<rparr>)
           (filter (\<lambda>r. tb_ClientID r = client \<and> tb_Resolution r = resolution \<and>
               from \<le> tb_BucketStart r \<and> tb_BucketStart r \<le> to \<and>
               (owner \<noteq> [] \<longrightarrow> tb_OwnerUserID r = owner) \<and>
               (name \<noteq> [] \<longrightarrow> tb_TunnelName r = name \<or> tb_TunnelID r = name)) rows)))"

definition foldMinuteBucketIntoHour ::
  "int \<Rightarrow> bool \<Rightarrow> TrafficBucket \<Rightarrow> (string \<times> TrafficBucket) list \<Rightarrow> traffic_error + (string \<times> TrafficBucket) list" where
  "foldMinuteBucketIntoHour currentHourStart skipAlreadyRolled b m =
     (let h = hour_bucket b; k = trafficBucketKey h in
      if skipAlreadyRolled \<and> tb_BucketStart h < currentHourStart \<and> map_of m k \<noteq> None then Inr m
      else (case map_of m k of
          Some e \<Rightarrow> bind_res (addTrafficBucketValues e b) (\<lambda>e'. Inr (AList.update k e' m))
        | None \<Rightarrow> Inr (AList.update k (h\<lparr>tb_IngressBytes := tb_IngressBytes b, tb_EgressBytes := tb_EgressBytes b\<rparr>) m)))"

fun fold_minutes ::
  "int \<Rightarrow> bool \<Rightarrow> TrafficBucket list \<Rightarrow> (string \<times> TrafficBucket) list \<Rightarrow> traffic_error + (string \<times> TrafficBucket) list" where
  "fold_minutes hour skip [] m = Inr m"
| "fold_minutes hour skip (b # bs) m = bind_res (foldMinuteBucketIntoHour hour skip b m) (fold_minutes hour skip bs)"

definition pending_matching :: "string \<Rightarrow> string \<Rightarrow> string \<Rightarrow> int \<Rightarrow> int \<Rightarrow> TrafficStore \<Rightarrow> TrafficBucket list" where
  "pending_matching owner client name from to s =
     filter (\<lambda>b. bucketMatchesRangeForOwner b owner client name from to) (map snd (tf_pendingMinute s))"

definition second_buckets :: "string \<Rightarrow> string \<Rightarrow> string \<Rightarrow> gotime \<Rightarrow> gotime \<Rightarrow> TrafficStore \<Rightarrow> traffic_error + (string \<times> TrafficBucket) list" where
  "second_buckets owner client name from to s =
     addTrafficBuckets
       (if owner = [] then realtime_query [] client name (secondFloorUnix from) (secondFloorUnix to) False (tf_realtimeSecond s)
        else realtime_QueryForUser owner client name (secondFloorUnix from) (secondFloorUnix to) (tf_realtimeSecond s)) []"

definition minute_buckets ::
  "traffic_tables \<Rightarrow> string \<Rightarrow> string \<Rightarrow> string \<Rightarrow> gotime \<Rightarrow> gotime \<Rightarrow> TrafficStore \<Rightarrow> traffic_error + (string \<times> TrafficBucket) list" where
  "minute_buckets T owner client name from to s =
     bind_res (queryBucketsLocked T owner client name TrafficResolutionMinute (minuteFloorUnix from) (minuteFloorUnix to) (tf_rows s))
       (\<lambda>persisted. bind_res (addTrafficBuckets persisted [])
       (addTrafficBuckets (pending_matching owner client name (minuteFloorUnix from) (minuteFloorUnix to) s)))"

definition hour_buckets ::
  "traffic_tables \<Rightarrow> gotime \<Rightarrow> string \<Rightarrow> string \<Rightarrow> string \<Rightarrow> gotime \<Rightarrow> gotime \<Rightarrow> TrafficStore \<Rightarrow> traffic_error + (string \<times> TrafficBucket) list" where
  "hour_buckets T now owner client name from to s =
     bind_res (queryBucketsLocked T owner client name TrafficResolutionHour (hourFloorUnix from) (hourFloorUnix to) (tf_rows s))
       (\<lambda>hours.
     bind_res (queryBucketsLocked T owner client name TrafficResolutionMinute (minuteFloorUnix from) (minuteFloorUnix to) (tf_rows s))
       (\<lambda>minutes.
     bind_res (fold_minutes (hourFloorUnix now) True minutes
         (fold (\<lambda>b m. AList.update (trafficBucketKey b) b m) hours []))
       (fold_minutes (hourFloorUnix now) False
         (pending_matching owner client name (minuteFloorUnix from) (minuteFloorUnix to) s))))"

definition point_of :: "TrafficBucket \<Rightarrow> traffic_error + TrafficPoint" where
  "point_of b =
     (case checkedTrafficAdd (tb_IngressBytes b) (tb_EgressBytes b) of
        None \<Rightarrow> Inl (TrafficOverflow ''traffic point total_bytes'')
      | Some n \<Rightarrow> Inr \<lparr>tp_BucketStart = tb_BucketStart b, tp_IngressBytes = tb_IngressBytes b,
                       tp_EgressBytes = tb_EgressBytes b, tp_TotalBytes = n\<rparr>)"

text \<open>The loop that appends each bucket to the series of its tunnel.\<close>

fun build_series ::
  "TrafficBucket list \<Rightarrow> (trafficSeriesKey \<times> TunnelTrafficSeries) list \<Rightarrow> traffic_error + (trafficSeriesKey \<times> TunnelTrafficSeries) list" where
  "build_series [] m = Inr m"
| "build_series (b # bs) m =
     (let k = trafficSeriesKeyFromBucket b;
          series = (case map_of m k of
              Some x \<Rightarrow> x
            | None \<Rightarrow> \<lparr>ts_TunnelID = tb_TunnelID b, ts_TunnelName = tb_TunnelName b, ts_TunnelType = tb_TunnelType b,
                       ts_MetadataMissing = trafficBucketMetadataMissing b, ts_Points = []\<rparr>) in
      bind_res (point_of b) (\<lambda>p.
        build_series bs (AList.update k (series\<lparr>ts_Points := ts_Points series @ [p]\<rparr>) m)))"

definition sortTrafficSeries :: "TunnelTrafficSeries list \<Rightarrow> TunnelTrafficSeries list" where
  "sortTrafficSeries items = sort_key (\<lambda>s. (ts_TunnelName s, ts_TunnelType s, ts_TunnelID s)) items"

definition queryLocked ::
  "traffic_tables \<Rightarrow> gotime \<Rightarrow> string \<Rightarrow> string \<Rightarrow> string \<Rightarrow> gotime \<Rightarrow> gotime \<Rightarrow> string \<Rightarrow> TrafficStore \<Rightarrow>
     traffic_error + string \<times> TunnelTrafficSeries list" where
  "queryLocked T now owner client name from to resolution s =
     (case tf_pendingErr s of
        Some e \<Rightarrow> Inl e
      | None \<Rightarrow>
        bind_res
          (if resolution = TrafficResolutionSecond then second_buckets owner client name from to s
           else if resolution = TrafficResolutionMinute then minute_buckets T owner client name from to s
           else if resolution = TrafficResolutionHour then hour_buckets T now owner client name from to s
           else Inl (InvalidResolution resolution))
          (\<lambda>combined. bind_res
            (build_series (sort_key (\<lambda>b. (tb_TunnelName b, tb_TunnelType b, tb_BucketStart b)) (map snd combined)) [])
            (\<lambda>m. Inr (resolution, sortTrafficSeries (map snd m)))))"

definition QueryWithResolutionForUser ::
  "traffic_tables \<Rightarrow> gotime \<Rightarrow> string \<Rightarrow> string \<Rightarrow> string \<Rightarrow> gotime \<Rightarrow> gotime \<Rightarrow> string \<Rightarrow> TrafficStore \<Rightarrow>
     traffic_error + string \<times> TunnelTrafficSeries list" where
  "QueryWithResolutionForUser T now owner client name from to resolution s =
     (if owner = [] then Inl OwnerRequired else queryLocked T now owner client name from to resolution s)"

definition autoTrafficResolution :: "gotime \<Rightarrow> gotime \<Rightarrow> string" where
  "autoTrafficResolution from to =
     (if (secondFloorUnix to - secondFloorUnix from) * second \<le> (trafficRealtimePointCount - 1) * second
      then TrafficResolutionSecond
      else if time_sub to from \<le> trafficMinuteRetention then TrafficResolutionMinute
      else TrafficResolutionHour)"

section \<open>Renaming\<close>

definition renamed_bucket :: "string \<Rightarrow> string \<Rightarrow> string \<Rightarrow> TrafficBucket \<Rightarrow> TrafficBucket" where
  "renamed_bucket client old new b =
     (if tb_ClientID b = client \<and> tb_TunnelName b = old then b\<lparr>tb_TunnelName := new\<rparr> else b)"

definition renamedPendingMinuteBuckets ::
  "string \<Rightarrow> string \<Rightarrow> string \<Rightarrow> (string \<times> TrafficBucket) list \<Rightarrow> traffic_error + (string \<times> TrafficBucket) list" where
  "renamedPendingMinuteBuckets client old new p =
     (if \<not> (\<exists>(k, b) \<in> set p. tb_ClientID b = client \<and> tb_TunnelName b = old) then Inr p
      else addTrafficBuckets (map (\<lambda>(k, b). renamed_bucket client old new b) p) [])"

definition renamePersistedTrafficBucketsLocked ::
  "bool \<Rightarrow> string \<Rightarrow> string \<Rightarrow> string \<Rightarrow> TrafficBucket list \<Rightarrow> traffic_error + TrafficBucket list" where
  "renamePersistedTrafficBucketsLocked db_ok client old new rows =
     bind_res (scanTrafficBucketRows (filter (\<lambda>r. tb_ClientID r = client \<and> tb_TunnelName r = old) rows)) (\<lambda>bs.
       if db_ok then Inr (map (\<lambda>r. if \<exists>b \<in> set bs. same_row b r then r\<lparr>tb_TunnelName := new\<rparr> else r) rows)
       else Inl (TrafficDb ''commit''))"

definition store_RenameTunnel :: "bool \<Rightarrow> string \<Rightarrow> string \<Rightarrow> string \<Rightarrow> TrafficStore \<Rightarrow> traffic_error option \<times> TrafficStore" where
  "store_RenameTunnel db_ok client old new s =
     (if old = new then (None, s)
      else case bind_res (renamedPendingMinuteBuckets client old new (tf_pendingMinute s)) (\<lambda>p.
             bind_res (renamedTunnelBuckets client old new (tf_realtimeSecond s)) (\<lambda>rt.
             bind_res (renamePersistedTrafficBucketsLocked db_ok client old new (tf_rows s)) (\<lambda>rows.
               Inr (s\<lparr>tf_pendingMinute := p, tf_realtimeSecond := rt, tf_rows := rows\<rparr>)))) of
        Inl e \<Rightarrow> (Some e, s)
      | Inr s1 \<Rightarrow> (None, s1))"

section \<open>Bytes of buckets\<close>

text \<open>\<open>True\<close> is the ingress direction.\<close>

definition bucket_bytes :: "bool \<Rightarrow> TrafficBucket \<Rightarrow> nat" where
  "bucket_bytes d b = unat (if d then tb_IngressBytes b else tb_EgressBytes b)"

definition total_bytes :: "bool \<Rightarrow> TrafficBucket list \<Rightarrow> nat" where
  "total_bytes d bs = sum_list (map (bucket_bytes d) bs)"

lemma total_bytes_simps [simp]:
  "total_bytes d [] = 0" "total_bytes d (b # bs) = bucket_bytes d b + total_bytes d bs"
  "total_bytes d (bs @ bs') = total_bytes d bs + total_bytes d bs'"
  by (simp_all add: total_bytes_def)

lemma bucket_bytes_upd [simp]:
  "bucket_bytes d (b\<lparr>tb_TunnelID := x\<rparr>) = bucket_bytes d b" "bucket_bytes d (b\<lparr>tb_OwnerUserID := x\<rparr>) = bucket_bytes d b"
  "bucket_bytes d (b\<lparr>tb_OwnerClientID := x\<rparr>) = bucket_bytes d b" "bucket_bytes d (b\<lparr>tb_IngressClientID := x\<rparr>) = bucket_bytes d b"
  "bucket_bytes d (b\<lparr>tb_TargetClientID := x\<rparr>) = bucket_bytes d b" "bucket_bytes d (b\<lparr>tb_Topology := x\<rparr>) = bucket_bytes d b"
  "bucket_bytes d (b\<lparr>tb_Transport := x\<rparr>) = bucket_bytes d b" "bucket_bytes d (b\<lparr>tb_TunnelName := x\<rparr>) = bucket_bytes d b"
  "bucket_bytes d (b\<lparr>tb_Resolution := x\<rparr>) = bucket_bytes d b" "bucket_bytes d (b\<lparr>tb_BucketStart := t\<rparr>) = bucket_bytes d b"
  "bucket_bytes d (b\<lparr>tb_MetadataMissing := m\<rparr>) = bucket_bytes d b"
  by (simp_all add: bucket_bytes_def)

lemma sum_sort_key: "sum_list (map f (sort_key k xs)) = (sum_list (map f xs) :: nat)"
proof -
  have "mset (map f (sort_key k xs)) = mset (map f xs)" by simp
  then show ?thesis by (metis sum_mset_sum_list)
qed

lemma total_bytes_sort [simp]: "total_bytes d (sort_key k bs) = total_bytes d bs"
  by (simp add: total_bytes_def sum_sort_key)

lemma update_sum:
  fixes f :: "'v \<Rightarrow> nat"
  assumes "distinct (map fst m)"
  shows "sum_list (map f (map snd (AList.update k v m))) + (case map_of m k of Some e \<Rightarrow> f e | None \<Rightarrow> 0) =
    sum_list (map f (map snd m)) + f v"
  using assms
proof (induction m)
  case (Cons p m)
  obtain k' e where p: "p = (k', e)" by (cases p)
  show ?case
    using Cons by (cases "k' = k") (simp_all add: p)
qed simp

lemma addTrafficBucketValues_bytes:
  assumes "addTrafficBucketValues e b = Inr e'"
  shows "bucket_bytes d e' = bucket_bytes d e + bucket_bytes d b"
    "\<exists>i o'. e' = e\<lparr>tb_IngressBytes := i, tb_EgressBytes := o'\<rparr>"
  using assms by (auto simp: addTrafficBucketValues_def bucket_bytes_def checked_add_sum split: option.splits)

lemma addTrafficBucket_total:
  assumes "addTrafficBucket b m = Inr m'" and "distinct (map fst m)"
  shows "distinct (map fst m')" "total_bytes d (map snd m') = total_bytes d (map snd m) + bucket_bytes d b"
proof -
  obtain v where m': "m' = AList.update (trafficBucketKey b) v m" and
    v: "bucket_bytes d v = bucket_bytes d b + (case map_of m (trafficBucketKey b) of Some e \<Rightarrow> bucket_bytes d e | None \<Rightarrow> 0)"
    using assms(1) by (auto simp: addTrafficBucket_def bind_res_eq_Inr addTrafficBucketValues_bytes split: option.splits)
  show "distinct (map fst m')" using assms(2) by (simp add: m' distinct_update)
  show "total_bytes d (map snd m') = total_bytes d (map snd m) + bucket_bytes d b"
    using update_sum [OF assms(2), of "bucket_bytes d" "trafficBucketKey b" v] v by (simp add: m' total_bytes_def)
qed

lemma addTrafficBuckets_total:
  "addTrafficBuckets bs m = Inr m' \<Longrightarrow> distinct (map fst m) \<Longrightarrow>
     distinct (map fst m') \<and> total_bytes d (map snd m') = total_bytes d (map snd m) + total_bytes d bs"
proof (induction bs arbitrary: m)
  case (Cons b bs)
  then obtain m1 where m1: "addTrafficBucket b m = Inr m1" "addTrafficBuckets bs m1 = Inr m'"
    by (auto simp: bind_res_eq_Inr)
  show ?case
    using addTrafficBucket_total [OF m1(1) Cons.prems(2)] Cons.IH [OF m1(2)] by simp
qed simp

lemma scan_rows: "scanTrafficBucketRows rs = Inr bs \<Longrightarrow> bs = rs"
  by (induction rs arbitrary: bs)
    (auto simp: bind_res_eq_Inr scanTrafficBucketFields_def sqliteUint64_def split: if_splits)

section \<open>Queries return the bytes that match\<close>

definition series_bytes :: "bool \<Rightarrow> TunnelTrafficSeries \<Rightarrow> nat" where
  "series_bytes d s = sum_list (map (\<lambda>p. unat (if d then tp_IngressBytes p else tp_EgressBytes p)) (ts_Points s))"

lemma build_series_total:
  "build_series bs m = Inr m' \<Longrightarrow> distinct (map fst m) \<Longrightarrow>
     sum_list (map (series_bytes d) (map snd m')) = sum_list (map (series_bytes d) (map snd m)) + total_bytes d bs"
proof (induction bs arbitrary: m)
  case (Cons b bs)
  define k where "k = trafficSeriesKeyFromBucket b"
  define series where "series = (case map_of m k of
              Some x \<Rightarrow> x
            | None \<Rightarrow> \<lparr>ts_TunnelID = tb_TunnelID b, ts_TunnelName = tb_TunnelName b, ts_TunnelType = tb_TunnelType b,
                       ts_MetadataMissing = trafficBucketMetadataMissing b, ts_Points = []\<rparr>)"
  obtain p where p: "point_of b = Inr p"
    and rest: "build_series bs (AList.update k (series\<lparr>ts_Points := ts_Points series @ [p]\<rparr>) m) = Inr m'"
    using Cons.prems(1) by (auto simp: Let_def k_def series_def bind_res_eq_Inr)
  have "unat (if d then tp_IngressBytes p else tp_EgressBytes p) = bucket_bytes d b"
    using p by (auto simp: point_of_def bucket_bytes_def split: option.splits)
  then have v: "series_bytes d (series\<lparr>ts_Points := ts_Points series @ [p]\<rparr>) =
      (case map_of m k of Some e \<Rightarrow> series_bytes d e | None \<Rightarrow> 0) + bucket_bytes d b"
    by (auto simp: series_bytes_def series_def split: option.splits)
  show ?case
    using Cons.IH [OF rest] update_sum [OF Cons.prems(2), of "series_bytes d" k "series\<lparr>ts_Points := ts_Points series @ [p]\<rparr>"] v
      Cons.prems(2) by (simp add: distinct_update)
qed simp

definition result_bytes :: "bool \<Rightarrow> TunnelTrafficSeries list \<Rightarrow> nat" where
  "result_bytes d items = sum_list (map (series_bytes d) items)"

definition row_matches :: "string \<Rightarrow> string \<Rightarrow> string \<Rightarrow> string \<Rightarrow> int \<Rightarrow> int \<Rightarrow> TrafficBucket \<Rightarrow> bool" where
  "row_matches owner client name resolution from to r \<longleftrightarrow>
     tb_Resolution r = resolution \<and> bucketMatchesRangeForOwner r owner client name from to"

lemma queryBuckets_total:
  assumes "queryBucketsLocked T owner client name resolution from to rows = Inr bs"
  shows "total_bytes d bs = total_bytes d (filter (row_matches owner client name resolution from to) rows)"
proof -
  have f: "(\<lambda>r. tb_ClientID r = client \<and> tb_Resolution r = resolution \<and> from \<le> tb_BucketStart r \<and> tb_BucketStart r \<le> to \<and>
      (owner \<noteq> [] \<longrightarrow> tb_OwnerUserID r = owner) \<and> (name \<noteq> [] \<longrightarrow> tb_TunnelName r = name \<or> tb_TunnelID r = name)) =
      row_matches owner client name resolution from to"
    by (auto simp: row_matches_def bucketMatchesRangeForOwner_def bucketMatches_def fun_eq_iff)
  have m: "total_bytes d (map (\<lambda>r. r\<lparr>tb_MetadataMissing := g r\<rparr>) rs) = total_bytes d rs" for g rs
    by (induction rs) simp_all
  show ?thesis
    using scan_rows [OF assms [unfolded queryBucketsLocked_def]] by (simp add: f m)
qed

lemma queryLocked_total:
  assumes "queryLocked T now owner client name from to resolution s = Inr (r, items)"
  obtains combined where
    "(if resolution = TrafficResolutionSecond then second_buckets owner client name from to s
      else if resolution = TrafficResolutionMinute then minute_buckets T owner client name from to s
      else if resolution = TrafficResolutionHour then hour_buckets T now owner client name from to s
      else Inl (InvalidResolution resolution)) = Inr combined"
    "result_bytes d items = total_bytes d (map snd combined)" "r = resolution"
proof -
  let ?c = "if resolution = TrafficResolutionSecond then second_buckets owner client name from to s
      else if resolution = TrafficResolutionMinute then minute_buckets T owner client name from to s
      else if resolution = TrafficResolutionHour then hour_buckets T now owner client name from to s
      else Inl (InvalidResolution resolution)"
  obtain combined m where c: "?c = Inr combined"
    and m: "build_series (sort_key (\<lambda>b. (tb_TunnelName b, tb_TunnelType b, tb_BucketStart b)) (map snd combined)) [] = Inr m"
    and items: "items = sortTrafficSeries (map snd m)" "r = resolution"
    using assms unfolding queryLocked_def by (auto simp: bind_res_eq_Inr split: option.splits)
  have "result_bytes d items = sum_list (map (series_bytes d) (map snd m))"
    by (simp only: result_bytes_def items sortTrafficSeries_def sum_sort_key)
  then have "result_bytes d items = total_bytes d (map snd combined)"
    using build_series_total [OF m, of d] by simp
  then show ?thesis using that c items by blast
qed

text \<open>
  C30 (functional): a query at minute resolution neither loses nor repeats traffic. The points of
  all series it returns add up, in each direction, to the persisted minute rows and the pending
  minute buckets that match the owner, client, tunnel and range.
\<close>

theorem QueryMinute_exact:
  assumes "queryLocked T now owner client name from to TrafficResolutionMinute s = Inr (r, items)"
  shows "result_bytes d items =
    total_bytes d (filter (row_matches owner client name TrafficResolutionMinute (minuteFloorUnix from) (minuteFloorUnix to)) (tf_rows s)) +
    total_bytes d (pending_matching owner client name (minuteFloorUnix from) (minuteFloorUnix to) s)"
proof -
  obtain combined where c: "minute_buckets T owner client name from to s = Inr combined"
    and items: "result_bytes d items = total_bytes d (map snd combined)"
    by (rule queryLocked_total [OF assms, of d]) auto
  obtain persisted m where p: "queryBucketsLocked T owner client name TrafficResolutionMinute
        (minuteFloorUnix from) (minuteFloorUnix to) (tf_rows s) = Inr persisted"
    and m: "addTrafficBuckets persisted [] = Inr m"
    and all: "addTrafficBuckets (pending_matching owner client name (minuteFloorUnix from) (minuteFloorUnix to) s) m = Inr combined"
    using c by (auto simp: minute_buckets_def bind_res_eq_Inr)
  show ?thesis
    using items addTrafficBuckets_total [OF m] addTrafficBuckets_total [OF all] queryBuckets_total [OF p] by simp
qed

definition demo_tables :: traffic_tables where
  "demo_tables = \<lparr>tt_tunnel = (\<lambda>_ _. None), tt_known_tunnel = (\<lambda>_. True), tt_client_owner = (\<lambda>_. None), tt_user = (\<lambda>_. True)\<rparr>"

definition unix_time :: "int \<Rightarrow> gotime" where
  "unix_time t = (t + 62135596800) * second"

definition demo_observation :: "int \<Rightarrow> u64 \<Rightarrow> TrafficDelta" where
  "demo_observation t n = stamped (unix_time t) \<lparr>td_TunnelID = ''t'', td_Revision = 1, td_ClientID = ''c'', td_OwnerUserID = ''u'',
     td_OwnerClientID = ''c'', td_IngressClientID = [], td_TargetClientID = ''c'', td_Topology = ''server_expose'',
     td_Transport = ''server_relay'', td_TunnelName = ''web'', td_TunnelType = ''tcp'', td_SecondStart = 0, td_MinuteStart = 0,
     td_IngressBytes = n, td_EgressBytes = 0\<rparr>"

abbreviation demo_hour :: int where
  "demo_hour \<equiv> 7200"

text \<open>Two observations in one hour, ten bytes in its first and five in its last minute.\<close>

definition demo_pending :: TrafficStore where
  "demo_pending = ApplyDeltas [demo_observation demo_hour 10, demo_observation (demo_hour + 59 * 60) 5] newTrafficStore"

definition demo_answer :: "traffic_error + string \<times> TunnelTrafficSeries list" where
  "demo_answer = queryLocked demo_tables 0 ''u'' ''c'' [] 0 (unix_time 120) TrafficResolutionMinute
     (ApplyDeltas [demo_observation 60 10] newTrafficStore)"

theorem QueryMinute_exact_witness: "\<exists>r items. demo_answer = Inr (r, items) \<and> result_bytes True items = 10"
proof -
  let ?s = "ApplyDeltas [demo_observation 60 10] newTrafficStore"
  have "(case demo_answer of Inr _ \<Rightarrow> True | Inl _ \<Rightarrow> False)" by code_simp
  then obtain r items where q: "demo_answer = Inr (r, items)" by (auto split: sum.splits)
  have "tf_rows ?s = []" "total_bytes True (pending_matching ''u'' ''c'' [] (minuteFloorUnix 0) (minuteFloorUnix (unix_time 120)) ?s) = 10"
    by code_simp+
  then have "result_bytes True items = 10"
    using QueryMinute_exact [OF q [unfolded demo_answer_def], of True] by simp
  then show ?thesis using q by blast
qed

section \<open>Users are isolated\<close>

text \<open>What a user owns: its pending buckets, its entries of the index and its rows.\<close>

definition owned_by :: "string \<Rightarrow> TrafficStore \<Rightarrow> TrafficStore" where
  "owned_by u s = s\<lparr>
     tf_pendingMinute := filter (\<lambda>(k, b). tb_OwnerUserID b = u) (tf_pendingMinute s),
     tf_realtimeSecond := filter (\<lambda>((c, v, k, t), b). v = u) (tf_realtimeSecond s),
     tf_rows := filter (\<lambda>r. tb_OwnerUserID r = u) (tf_rows s)\<rparr>"

lemma filter_twice: "(\<And>x. x \<in> set xs \<Longrightarrow> P x \<Longrightarrow> Q x) \<Longrightarrow> filter P (filter Q xs) = filter P xs"
  by (induction xs) auto

lemma owned_queryBuckets:
  "u \<noteq> [] \<Longrightarrow> queryBucketsLocked T u client name resolution from to (filter (\<lambda>r. tb_OwnerUserID r = u) rows) =
     queryBucketsLocked T u client name resolution from to rows"
  unfolding queryBucketsLocked_def by (subst filter_twice) auto

lemma owned_pending:
  assumes "u \<noteq> []"
  shows "pending_matching u client name from to (owned_by u s) = pending_matching u client name from to s"
proof -
  have "map snd (filter (\<lambda>(k, b). tb_OwnerUserID b = u) m) = filter (\<lambda>b. tb_OwnerUserID b = u) (map snd m)" for m :: "(string \<times> TrafficBucket) list"
    by (induction m) auto
  then show ?thesis
    using assms by (auto simp: pending_matching_def owned_by_def bucketMatchesRangeForOwner_def intro!: filter_twice)
qed

lemma owned_realtime:
  "u \<noteq> [] \<Longrightarrow> realtime_QueryForUser u client name from to (filter (\<lambda>((c, v, k, t), b). v = u) m) =
     realtime_QueryForUser u client name from to m"
  unfolding realtime_QueryForUser_def realtime_query_def by (subst filter_twice) auto

lemma user_query_owned:
  assumes "u \<noteq> []"
  shows "queryLocked T now u client name from to resolution (owned_by u s) = queryLocked T now u client name from to resolution s"
proof -
  have rows: "tf_rows (owned_by u s) = filter (\<lambda>r. tb_OwnerUserID r = u) (tf_rows s)"
    "tf_realtimeSecond (owned_by u s) = filter (\<lambda>((c, v, k, t), b). v = u) (tf_realtimeSecond s)"
    "tf_pendingErr (owned_by u s) = tf_pendingErr s"
    by (simp_all add: owned_by_def)
  have *: "second_buckets u client name from to (owned_by u s) = second_buckets u client name from to s"
    "minute_buckets T u client name from to (owned_by u s) = minute_buckets T u client name from to s"
    "hour_buckets T now u client name from to (owned_by u s) = hour_buckets T now u client name from to s"
    using assms
    by (simp_all add: second_buckets_def minute_buckets_def hour_buckets_def rows owned_queryBuckets owned_pending owned_realtime)
  show ?thesis
    unfolding queryLocked_def * rows(3) ..
qed


end
