(* ===== verification/Traffic_Lifecycle.thy ===== *)
theory Traffic_Lifecycle
  imports Traffic_Store
begin

text \<open>
  The life of traffic data: every sequence of observations, flushes, compactions, evictions,
  renamings, tunnel migrations and user deletions on the store and its accumulator, with arbitrary
  contents of the other tables and arbitrary outcomes of the transactions. The invariant is about
  the primary key of the table; on it rest the conservation of bytes by a flush and the absence of
  traffic of deleted users.
\<close>

section \<open>Row keys\<close>

definition row_key :: "TrafficBucket \<Rightarrow> string \<times> string \<times> string \<times> int" where
  "row_key b = (tb_TunnelID b, tb_Transport b, tb_Resolution b, tb_BucketStart b)"

lemma same_row_iff: "same_row b r \<longleftrightarrow> row_key r = row_key b"
  by (auto simp: same_row_def row_key_def)

text \<open>A bucket whose key is not changed by the defaults of the storage layer.\<close>

definition key_normal :: "TrafficBucket \<Rightarrow> bool" where
  "key_normal b \<longleftrightarrow> tb_TunnelID b \<noteq> [] \<and> tb_Transport b \<noteq> [] \<and> tb_Transport b \<noteq> ''unknown''"

lemma fallback_nonempty [simp]: "fallbackTrafficTunnelID c n t \<noteq> []"
  by (simp add: fallbackTrafficTunnelID_def)

lemma defaults_normal [simp]: "key_normal (applyTrafficBucketStorageDefaults b)"
  by (simp add: key_normal_def applyTrafficBucketStorageDefaults_def)

lemma defaults_keep [simp]:
  "tb_Resolution (applyTrafficBucketStorageDefaults b) = tb_Resolution b"
  "tb_BucketStart (applyTrafficBucketStorageDefaults b) = tb_BucketStart b"
  "tb_OwnerUserID (applyTrafficBucketStorageDefaults b) = tb_OwnerUserID b"
  "bucket_bytes d (applyTrafficBucketStorageDefaults b) = bucket_bytes d b"
  by (simp_all add: applyTrafficBucketStorageDefaults_def)

lemma row_key_owner [simp]: "row_key (b\<lparr>tb_OwnerUserID := u\<rparr>) = row_key b"
  by (simp add: row_key_def)

lemma hydrate_owner_keep [simp]:
  "row_key (hydrate_owner T b) = row_key b" "key_normal (hydrate_owner T b) = key_normal b"
  "tb_Resolution (hydrate_owner T b) = tb_Resolution b" "tb_BucketStart (hydrate_owner T b) = tb_BucketStart b"
  "bucket_bytes d (hydrate_owner T b) = bucket_bytes d b"
  by (auto simp: hydrate_owner_def key_normal_def split: option.splits)

lemma hydrate_tunnel_keep [simp]:
  "tb_Resolution (hydrate_tunnel T b) = tb_Resolution b" "tb_BucketStart (hydrate_tunnel T b) = tb_BucketStart b"
  "bucket_bytes d (hydrate_tunnel T b) = bucket_bytes d b" "tb_TunnelID b \<noteq> [] \<Longrightarrow> hydrate_tunnel T b = b"
  by (auto simp: hydrate_tunnel_def split: option.splits)

lemma hydrate_normal: "key_normal (hydrateTrafficBucketTx T b)"
  by (simp add: hydrateTrafficBucketTx_def)

lemma hydrate_keep [simp]:
  "tb_Resolution (hydrateTrafficBucketTx T b) = tb_Resolution b"
  "tb_BucketStart (hydrateTrafficBucketTx T b) = tb_BucketStart b"
  "bucket_bytes d (hydrateTrafficBucketTx T b) = bucket_bytes d b"
  by (simp_all add: hydrateTrafficBucketTx_def)

lemma defaults_key: "key_normal b \<Longrightarrow> row_key (applyTrafficBucketStorageDefaults b) = row_key b"
  by (simp add: key_normal_def applyTrafficBucketStorageDefaults_def row_key_def)

lemma hydrate_key:
  assumes "key_normal b"
  shows "row_key (hydrateTrafficBucketTx T b) = row_key b"
proof -
  have "b\<lparr>tb_Transport := (if tb_Transport b = [] then ''server_relay'' else tb_Transport b)\<rparr> = b" "tb_TunnelID b \<noteq> []"
    using assms by (simp_all add: key_normal_def)
  then show ?thesis
    using defaults_key [OF assms] by (simp add: hydrateTrafficBucketTx_def)
qed

lemma hydrate_twice: "row_key (hydrateTrafficBucketTx T (hydrateTrafficBucketTx T b)) = row_key (hydrateTrafficBucketTx T b)"
  by (rule hydrate_key [OF hydrate_normal])

definition rows_ok :: "TrafficBucket list \<Rightarrow> bool" where
  "rows_ok rows \<longleftrightarrow> distinct (map row_key rows) \<and> (\<forall>r \<in> set rows. key_normal r)"

text \<open>Bytes of the rows whose key satisfies a predicate.\<close>

definition keyed_bytes :: "bool \<Rightarrow> (string \<times> string \<times> string \<times> int \<Rightarrow> bool) \<Rightarrow> TrafficBucket list \<Rightarrow> nat" where
  "keyed_bytes d P rows = total_bytes d (filter (P \<circ> row_key) rows)"

lemma keyed_bytes_simps [simp]:
  "keyed_bytes d P [] = 0"
  "keyed_bytes d P (r # rows) = (if P (row_key r) then bucket_bytes d r else 0) + keyed_bytes d P rows"
  "keyed_bytes d P (rows @ rows') = keyed_bytes d P rows + keyed_bytes d P rows'"
  by (simp_all add: keyed_bytes_def)

lemma keyed_bytes_replace:
  assumes "distinct (map row_key rows)" and "r \<in> set rows" and "row_key v = row_key r"
    and "\<And>x. row_key (f x) = row_key v \<and> bucket_bytes d (f x) = bucket_bytes d v"
  shows "keyed_bytes d P (map (\<lambda>x. if row_key x = row_key v then f x else x) rows) +
      (if P (row_key r) then bucket_bytes d r else 0) =
    keyed_bytes d P rows + (if P (row_key r) then bucket_bytes d v else 0)"
  using assms(1,2)
proof (induction rows)
  case (Cons x rows)
  show ?case
  proof (cases "row_key x = row_key v")
    case True
    then have x: "x = r" "row_key r \<notin> row_key ` set rows"
      using Cons.prems assms(3) by (auto simp: image_iff)
    have "map (\<lambda>y. if row_key y = row_key v then f y else y) rows = rows"
      using x(2) assms(3) by (intro map_idI) (auto simp: image_iff)
    then show ?thesis
      using x assms(3,4) by simp
  next
    case False
    then have "r \<in> set rows" using Cons.prems assms(3) by auto
    then show ?thesis
      using Cons.IH Cons.prems False by simp
  qed
qed simp

lemma keys_replace:
  assumes "\<And>x. row_key (f x) = row_key v"
  shows "map row_key (map (\<lambda>x. if row_key x = row_key v then f x else x) rows) = map row_key rows"
  by (induction rows) (auto simp: assms)

lemma rows_ok_replace:
  assumes "rows_ok rows" and f: "\<And>x. row_key (f x) = row_key v" and n: "\<And>x. key_normal (f x)"
  shows "rows_ok (map (\<lambda>x. if row_key x = row_key v then f x else x) rows)"
  using assms(1) n unfolding rows_ok_def keys_replace [where f = f, OF f] by auto

section \<open>Writing rows\<close>

lemma store_values_keeps:
  assumes "store_values b = Inr v"
  shows "row_key v = row_key b" "bucket_bytes d v = bucket_bytes d b" "tb_OwnerUserID v = tb_OwnerUserID b"
    "key_normal v = key_normal b"
  using assms by (auto simp: store_values_def sqliteInt64_def bind_res_eq_Inr row_key_def bucket_bytes_def key_normal_def split: if_splits)

text \<open>Replacing a row by one with the same key.\<close>

lemma replace_existing:
  assumes ok: "rows_ok rows" and r: "r \<in> set rows" and key: "row_key e = row_key r"
    and up: "upsertTrafficBucketReplace T e rows = Inr rows'"
  shows "rows_ok rows'"
    "keyed_bytes d P rows' + (if P (row_key r) then bucket_bytes d r else 0) =
       keyed_bytes d P rows + (if P (row_key r) then bucket_bytes d e else 0)"
proof -
  have n: "key_normal e"
    using ok r key by (auto simp: rows_ok_def key_normal_def row_key_def)
  obtain v where v: "store_values (hydrateTrafficBucketTx T e) = Inr v"
    and rows': "rows' = map (\<lambda>x. if row_key x = row_key v
        then v\<lparr>tb_OwnerUserID := (if tb_OwnerUserID v = [] then tb_OwnerUserID x else tb_OwnerUserID v)\<rparr> else x) rows
      \<or> (\<forall>x \<in> set rows. row_key x \<noteq> row_key v)"
    using up by (auto simp: upsertTrafficBucketReplace_def Let_def bind_res_eq_Inr same_row_iff split: if_splits)
  have vk: "row_key v = row_key r" and vb: "bucket_bytes d v = bucket_bytes d e"
    using store_values_keeps [OF v] hydrate_key [OF n, of T] key by simp_all
  let ?f = "\<lambda>x. v\<lparr>tb_OwnerUserID := (if tb_OwnerUserID v = [] then tb_OwnerUserID x else tb_OwnerUserID v)\<rparr>"
  have f: "row_key (?f x) = row_key v \<and> bucket_bytes d (?f x) = bucket_bytes d v" for x
    by (simp add: row_key_def)
  have rows': "rows' = map (\<lambda>x. if row_key x = row_key v then ?f x else x) rows"
    using rows' r vk by auto
  show "keyed_bytes d P rows' + (if P (row_key r) then bucket_bytes d r else 0) =
       keyed_bytes d P rows + (if P (row_key r) then bucket_bytes d e else 0)"
    using keyed_bytes_replace [where f = ?f and d = d and P = P, OF _ r vk f] ok unfolding rows' vb rows_ok_def by blast
  have "key_normal (?f x)" for x
    using hydrate_normal [of T e] store_values_keeps(4) [OF v] by (simp add: key_normal_def)
  then show "rows_ok rows'"
    unfolding rows' using f by (intro rows_ok_replace [OF ok]) blast+
qed

lemma found_row:
  assumes "findTrafficBucketTx T rows b = Inr (Some e)"
  shows "e \<in> set rows" "row_key e = row_key (hydrateTrafficBucketTx T b)"
proof -
  obtain r where r: "find (same_row (hydrateTrafficBucketTx T b)) rows = Some r" "scanTrafficBucketFields r = Inr e"
    using assms by (auto simp: findTrafficBucketTx_def bind_res_eq_Inr split: option.splits)
  have "e = r"
    using r(2) by (auto simp: scanTrafficBucketFields_def sqliteUint64_def bind_res_eq_Inr split: if_splits)
  then show "e \<in> set rows" "row_key e = row_key (hydrateTrafficBucketTx T b)"
    using r(1) by (auto simp: find_Some_iff same_row_iff)
qed

lemma no_row_found:
  "findTrafficBucketTx T rows b = Inr None \<Longrightarrow> row_key (hydrateTrafficBucketTx T b) \<notin> row_key ` set rows"
  by (auto simp: findTrafficBucketTx_def bind_res_eq_Inr find_None_iff same_row_iff image_iff split: option.splits)

lemma upsertAdd_effect:
  assumes ok: "rows_ok rows" and up: "upsertTrafficBucketAdd T b rows = Inr rows'"
  shows "rows_ok rows'"
    "keyed_bytes d P rows' = keyed_bytes d P rows + (if P (row_key (hydrateTrafficBucketTx T b)) then bucket_bytes d b else 0)"
proof -
  let ?b = "hydrateTrafficBucketTx T b"
  have "rows_ok rows' \<and>
    keyed_bytes d P rows' = keyed_bytes d P rows + (if P (row_key ?b) then bucket_bytes d b else 0)"
  proof (cases "findTrafficBucketTx T rows ?b")
    case (Inl e)
    then show ?thesis using up by (simp add: upsertTrafficBucketAdd_def Let_def)
  next
    case (Inr found)
    show ?thesis
    proof (cases found)
      case (Some e)
      then obtain e' where e': "addTrafficBucketValues e ?b = Inr e'" "upsertTrafficBucketReplace T e' rows = Inr rows'"
        using up Inr by (auto simp: upsertTrafficBucketAdd_def Let_def bind_res_eq_Inr)
      have e: "e \<in> set rows" "row_key e = row_key ?b"
        using found_row [OF Inr [unfolded Some]] by (simp_all add: hydrate_twice)
      have k: "row_key e' = row_key e"
        using addTrafficBucketValues_bytes(2) [OF e'(1)] by (auto simp: row_key_def)
      show ?thesis
        using replace_existing(1) [OF ok e(1) k e'(2)] replace_existing(2) [OF ok e(1) k e'(2), of d P]
          addTrafficBucketValues_bytes(1) [OF e'(1), of d] e(2) by (auto split: if_splits)
    next
      case None
      then obtain v where v: "store_values ?b = Inr v" "rows' = rows @ [v]"
        using up Inr by (auto simp: upsertTrafficBucketAdd_def Let_def bind_res_eq_Inr)
      have "row_key v \<notin> row_key ` set rows" "row_key v = row_key ?b"
        using no_row_found [OF Inr [unfolded None]] store_values_keeps(1) [OF v(1)] by (simp_all add: hydrate_twice)
      then show ?thesis
        using ok store_values_keeps [OF v(1)] hydrate_normal by (auto simp: v(2) rows_ok_def)
    qed
  qed
  then show "rows_ok rows'"
    "keyed_bytes d P rows' = keyed_bytes d P rows + (if P (row_key ?b) then bucket_bytes d b else 0)" by blast+
qed

lemma existingHour_effect:
  assumes ok: "rows_ok rows" and up: "addTrafficToExistingHourBucket T hour b rows = Inr rows'"
    and P: "\<And>k. P k \<Longrightarrow> fst (snd (snd k)) \<noteq> TrafficResolutionHour"
  shows "rows_ok rows'" "keyed_bytes d P rows' = keyed_bytes d P rows"
proof -
  let ?b = "hydrateTrafficBucketTx T b"
  have "rows_ok rows' \<and> keyed_bytes d P rows' = keyed_bytes d P rows"
  proof (cases "rows' = rows")
    case False
    then obtain e e' where f: "findTrafficBucketTx T rows (hour_bucket ?b) = Inr (Some e)"
      and e': "addTrafficBucketValues e ?b = Inr e'" "upsertTrafficBucketReplace T e' rows = Inr rows'"
      using up by (auto simp: addTrafficToExistingHourBucket_def Let_def bind_res_eq_Inr split: if_splits option.splits)
    have e: "e \<in> set rows" "row_key e = row_key (hydrateTrafficBucketTx T (hour_bucket ?b))"
      using found_row [OF f] .
    have k: "row_key e' = row_key e"
      using addTrafficBucketValues_bytes(2) [OF e'(1)] by (auto simp: row_key_def)
    have "fst (snd (snd (row_key e))) = TrafficResolutionHour"
      using e(2) by (simp add: row_key_def hour_bucket_def)
    then show ?thesis
      using replace_existing(1) [OF ok e(1) k e'(2)] replace_existing(2) [OF ok e(1) k e'(2), of d P]
        P [of "row_key e"] by (auto split: if_splits)
  qed (use ok in simp)
  then show "rows_ok rows'" "keyed_bytes d P rows' = keyed_bytes d P rows" by blast+
qed

lemma flush_rows_effect:
  assumes P: "\<And>k. P k \<Longrightarrow> fst (snd (snd k)) \<noteq> TrafficResolutionHour"
  shows "rows_ok rows \<Longrightarrow> \<forall>b \<in> set bs. key_normal b \<Longrightarrow> flush_rows T hour bs rows = Inr rows' \<Longrightarrow>
    rows_ok rows' \<and> keyed_bytes d P rows' = keyed_bytes d P rows + keyed_bytes d P bs"
proof (induction bs arbitrary: rows)
  case (Cons b bs)
  obtain r1 r2 where r: "upsertTrafficBucketAdd T b rows = Inr r1" "addTrafficToExistingHourBucket T hour b r1 = Inr r2"
    "flush_rows T hour bs r2 = Inr rows'"
    using Cons.prems(3) by (auto simp: bind_res_eq_Inr)
  note 1 = upsertAdd_effect [OF Cons.prems(1) r(1)]
  note 2 = existingHour_effect [OF 1(1) r(2) P]
  have "row_key (hydrateTrafficBucketTx T b) = row_key b"
    using Cons.prems(2) by (intro hydrate_key) simp
  then show ?case
    using Cons.IH [OF 2(1) _ r(3)] 1(2) [where d = d and P = P] 2(2) [where d = d] Cons.prems(2) by simp
qed simp

lemma upsertReplace_ok:
  assumes ok: "rows_ok rows" and up: "upsertTrafficBucketReplace T b rows = Inr rows'"
  shows "rows_ok rows'"
proof -
  obtain v where v: "store_values (hydrateTrafficBucketTx T b) = Inr v"
    using up by (auto simp: upsertTrafficBucketReplace_def Let_def bind_res_eq_Inr)
  have n: "key_normal v" using store_values_keeps(4) [OF v] hydrate_normal by simp
  show ?thesis
  proof (cases "\<exists>r \<in> set rows. row_key r = row_key v")
    case True
    let ?f = "\<lambda>x. v\<lparr>tb_OwnerUserID := (if tb_OwnerUserID v = [] then tb_OwnerUserID x else tb_OwnerUserID v)\<rparr>"
    have rows': "rows' = map (\<lambda>x. if row_key x = row_key v then ?f x else x) rows"
      using up v True by (auto simp: upsertTrafficBucketReplace_def Let_def bind_res_eq_Inr same_row_iff split: if_splits)
    have "row_key (?f x) = row_key v" "key_normal (?f x)" for x
      using n by (simp_all add: row_key_def key_normal_def)
    then show ?thesis
      unfolding rows' by (intro rows_ok_replace [OF ok])
  next
    case False
    then have "rows' = rows @ [v]"
      using up v by (auto simp: upsertTrafficBucketReplace_def Let_def bind_res_eq_Inr same_row_iff split: if_splits)
    then show ?thesis
      using ok n False by (auto simp: rows_ok_def)
  qed
qed

lemma upsert_all_ok: "rows_ok rows \<Longrightarrow> upsert_all T bs rows = Inr rows' \<Longrightarrow> rows_ok rows'"
  by (induction bs arbitrary: rows) (auto simp: bind_res_eq_Inr dest: upsertReplace_ok)

section \<open>Steps\<close>

definition flushTrafficObservations :: "TrafficStore \<times> trafficAccumulator \<Rightarrow> TrafficStore \<times> trafficAccumulator" where
  "flushTrafficObservations = (\<lambda>(s, a). let (ds, a1) = Drain a in if ds = [] then (s, a1) else (ApplyDeltas ds s, a1))"

text \<open>The statement of the deletion of a user that concerns traffic; \<open>db_ok\<close> says whether the transaction commits.\<close>

definition delete_user_traffic :: "bool \<Rightarrow> string \<Rightarrow> TrafficBucket list \<Rightarrow> traffic_error + TrafficBucket list" where
  "delete_user_traffic db_ok owner rows =
     (if db_ok then Inr (filter (\<lambda>r. tb_OwnerUserID r \<noteq> owner) rows) else Inl (TrafficDb ''commit''))"

text \<open>The parameter \<open>G\<close> says what is known of the other tables while the steps are taken.\<close>

inductive traffic_store_step ::
  "(traffic_tables \<Rightarrow> bool) \<Rightarrow> TrafficStore \<times> trafficAccumulator \<Rightarrow> TrafficStore \<times> trafficAccumulator \<Rightarrow> bool"
  for G where
  add: "traffic_store_step G (s, a) (s, snd (AddDelta now d a))"
| observe: "traffic_store_step G (s, a) (flushTrafficObservations (s, a))"
| direct: "traffic_store_step G (s, a) (ApplyDeltas ds s, a)"
| flush: "G T \<Longrightarrow> traffic_store_step G (s, a) (snd (flushLocked T ok now s), a)"
| compact: "G T \<Longrightarrow> traffic_store_step G (s, a) (snd (Compact T oks now clock s), a)"
| evict_tunnel: "traffic_store_step G (s, a) (store_EvictTunnel c n s, a)"
| evict_client: "traffic_store_step G (s, a) (snd (store_EvictClient ok c s), a)"
| rename: "traffic_store_step G (s, a) (snd (store_RenameTunnel ok c old new s), a)"
| migrate: "traffic_store_step G (s, a) (resetTunnelAfterMigrationLocked t m (s, a))"
| delete_user: "traffic_store_step G (s, a) (snd (withUserDeletionBoundary u (delete_user_traffic ok u) (s, a)))"

section \<open>Invariants of the steps\<close>

lemma rename_result:
  assumes "snd (store_RenameTunnel ok c old new s) \<noteq> s"
  shows "\<exists>p rt rows. renamedPendingMinuteBuckets c old new (tf_pendingMinute s) = Inr p \<and>
      renamePersistedTrafficBucketsLocked ok c old new (tf_rows s) = Inr rows \<and>
      snd (store_RenameTunnel ok c old new s) = s\<lparr>tf_pendingMinute := p, tf_realtimeSecond := rt, tf_rows := rows\<rparr>"
proof -
  let ?r = "bind_res (renamedPendingMinuteBuckets c old new (tf_pendingMinute s)) (\<lambda>p.
             bind_res (renamedTunnelBuckets c old new (tf_realtimeSecond s)) (\<lambda>rt.
             bind_res (renamePersistedTrafficBucketsLocked ok c old new (tf_rows s)) (\<lambda>rows.
               Inr (s\<lparr>tf_pendingMinute := p, tf_realtimeSecond := rt, tf_rows := rows\<rparr>))))"
  obtain s1 where s1: "?r = Inr s1" "snd (store_RenameTunnel ok c old new s) = s1"
    using assms by (cases ?r; cases "old = new") (simp_all add: store_RenameTunnel_def)
  then show ?thesis
    unfolding bind_res_eq_Inr by blast
qed

text \<open>
  Every step changes the three parts of the store in a few ways. The locale states what a
  property of rows and a property of pending buckets and index entries must satisfy to be kept by
  all of them; it is interpreted for the key invariant and for the absence of a user.
\<close>

locale traffic_invariant =
  fixes rows_inv :: "TrafficBucket list \<Rightarrow> bool"
    and bucket_inv :: "TrafficBucket \<Rightarrow> bool"
    and admitted :: "TrafficStore \<Rightarrow> bool"
    and tables :: "traffic_tables \<Rightarrow> bool"
  assumes flush_keeps: "tables T \<Longrightarrow> rows_inv rows \<Longrightarrow> \<forall>b \<in> set bs. bucket_inv b \<Longrightarrow>
      flush_rows T hour bs rows = Inr rows' \<Longrightarrow> rows_inv rows'"
    and upsert_keeps: "tables T \<Longrightarrow> rows_inv rows \<Longrightarrow> upsert_all T bs rows = Inr rows' \<Longrightarrow> rows_inv rows'"
    and filter_keeps: "rows_inv rows \<Longrightarrow> rows_inv (filter P rows)"
    and rename_keeps: "rows_inv rows \<Longrightarrow> rows_inv (map (\<lambda>r. if P r then r\<lparr>tb_TunnelName := n\<rparr> else r) rows)"
    and new_bucket: "admitted s \<Longrightarrow> \<not> delta_skipped d s \<Longrightarrow> bucket_inv (bucket_of_delta TrafficResolutionMinute t d)"
    and bucket_add: "bucket_inv e \<Longrightarrow> bucket_inv (e\<lparr>tb_IngressBytes := i, tb_EgressBytes := o'\<rparr>)"
    and bucket_rename: "bucket_inv e \<Longrightarrow> bucket_inv (e\<lparr>tb_TunnelName := n\<rparr>)"
    and admitted_ignores: "tf_deletedOwnerUserIDs s \<subseteq> tf_deletedOwnerUserIDs s' \<Longrightarrow> admitted s \<Longrightarrow> admitted s'"
begin

definition sound :: "TrafficStore \<Rightarrow> bool" where
  "sound s \<longleftrightarrow> rows_inv (tf_rows s) \<and> (\<forall>b \<in> snd ` set (tf_pendingMinute s). bucket_inv b) \<and> admitted s"

lemma addTrafficBucket_inv:
  assumes "addTrafficBucket b m = Inr m'" "\<forall>b \<in> snd ` set m. bucket_inv b" "bucket_inv b"
  shows "\<forall>b \<in> snd ` set m'. bucket_inv b"
proof -
  obtain v where m': "m' = AList.update (trafficBucketKey b) v m" and v: "bucket_inv v"
    using assms bucket_add
    by (auto simp: addTrafficBucket_def bind_res_eq_Inr split: option.splits
        dest!: map_of_SomeD addTrafficBucketValues_bytes(2))
  have "snd ` set (AList.update k v m) \<subseteq> insert v (snd ` set m)" for k
    by (induction m) auto
  then show ?thesis using assms(2) v unfolding m' by blast
qed

lemma addTrafficBuckets_inv:
  "addTrafficBuckets bs m = Inr m' \<Longrightarrow> \<forall>b \<in> snd ` set m. bucket_inv b \<Longrightarrow> \<forall>b \<in> set bs. bucket_inv b \<Longrightarrow>
     \<forall>b \<in> snd ` set m'. bucket_inv b"
proof (induction bs arbitrary: m)
  case (Cons b bs)
  then obtain m1 where m1: "addTrafficBucket b m = Inr m1" "addTrafficBuckets bs m1 = Inr m'"
    by (auto simp: bind_res_eq_Inr)
  show ?case
    using Cons.IH [OF m1(2) addTrafficBucket_inv [OF m1(1) Cons.prems(2)]] Cons.prems(3) by simp
qed simp

text \<open>Only the rows, the pending buckets and the tombstones matter.\<close>

lemma holdsI:
  "sound s \<Longrightarrow> rows_inv (tf_rows s') \<Longrightarrow> \<forall>b \<in> snd ` set (tf_pendingMinute s'). bucket_inv b \<Longrightarrow>
     tf_deletedOwnerUserIDs s \<subseteq> tf_deletedOwnerUserIDs s' \<Longrightarrow> sound s'"
  using admitted_ignores [of s s'] by (simp add: sound_def)

lemma holdsD: "sound s \<Longrightarrow> rows_inv (tf_rows s)" "sound s \<Longrightarrow> \<forall>b \<in> snd ` set (tf_pendingMinute s). bucket_inv b"
  "sound s \<Longrightarrow> rows_inv (filter P (tf_rows s))"
  using filter_keeps by (simp_all add: sound_def)

lemma holds_clear: "sound s \<Longrightarrow> sound (clear_err_if_empty s)"
  by (rule holdsI) (auto simp: clear_err_if_empty_def dest: holdsD)

lemma apply_delta_holds:
  assumes h: "sound s"
  shows "sound (fst (apply_delta d (s, newest)))"
proof -
  let ?b = "bucket_of_delta TrafficResolutionMinute (td_MinuteStart d) d" and ?s = "fst (apply_delta d (s, newest))"
  have s: "tf_rows ?s = tf_rows s" "tf_deletedOwnerUserIDs ?s = tf_deletedOwnerUserIDs s"
    by (auto simp: apply_delta_def Let_def split: sum.splits)
  have p: "tf_pendingMinute ?s = tf_pendingMinute s \<or>
      (\<not> delta_skipped d s \<and> addTrafficBucket ?b (tf_pendingMinute s) = Inr (tf_pendingMinute ?s))"
    by (auto simp: apply_delta_def Let_def split: sum.splits)
  have "\<forall>b \<in> snd ` set (tf_pendingMinute ?s). bucket_inv b"
    using p addTrafficBucket_inv [of ?b "tf_pendingMinute s"] new_bucket [of s d] h by (auto simp: sound_def)
  then show ?thesis
    using holdsI [OF h, of ?s] s holdsD(1) [OF h] by simp
qed

lemma fold_apply_delta_holds: "sound (fst p) \<Longrightarrow> sound (fst (fold apply_delta ds p))"
proof (induction ds arbitrary: p)
  case (Cons d ds)
  then show ?case using apply_delta_holds [of "fst p" d "snd p"] by simp
qed simp

lemma ApplyDeltas_holds: "sound s \<Longrightarrow> sound (ApplyDeltas ds s)"
  using fold_apply_delta_holds [of "(s, 0)" ds] holdsI [of "fst (fold apply_delta ds (s, 0))" "ApplyDeltas ds s"]
  by (auto simp: ApplyDeltas_def Let_def sound_def split: prod.splits if_splits)

lemma flushLocked_holds:
  assumes T: "tables T" and h: "sound s"
  shows "sound (snd (flushLocked T ok now s))"
proof -
  have "rows_inv rows" if "flush_rows T hour (collectSortedBuckets (tf_pendingMinute s)) (tf_rows s) = Inr rows" for rows hour
    using h flush_keeps [OF T _ _ that] by (auto simp: sound_def collectSortedBuckets_def)
  then show ?thesis
    using holdsD(1,2) [OF h] by (intro holdsI [OF h]) (auto simp: flushLocked_def split: option.splits sum.splits)
qed

lemma rollup_holds:
  assumes "tables T" and h: "sound s"
  shows "sound (snd (rollupCompleteHoursLocked T ok now s))"
  using holdsD(1,2) [OF h] upsert_keeps [OF assms(1) holdsD(1) [OF h]]
  by (intro holdsI [OF h]) (auto simp: rollupCompleteHoursLocked_def bind_res_eq_Inr split: sum.splits)

lemma prune_holds:
  assumes h: "sound s"
  shows "sound (snd (pruneLocked ok now s))"
  using holdsD [OF h] by (intro holdsI [OF h]) (auto simp: pruneLocked_def pruneRealtimeLocked_def)

lemma Compact_holds:
  assumes T: "tables T" and h: "sound s"
  shows "sound (snd (Compact T oks now clock s))"
proof -
  let ?s1 = "snd (flushLocked T (fst oks) clock s)" and ?s2 = "\<lambda>s. snd (rollupCompleteHoursLocked T (fst (snd oks)) now s)"
  have "sound ?s1" "sound (?s2 ?s1)" "sound (snd (pruneLocked (snd (snd oks)) now (?s2 ?s1)))"
    using flushLocked_holds [OF T h] rollup_holds [OF T] prune_holds by blast+
  then show ?thesis
    by (auto simp: Compact_def split: prod.splits option.splits)
qed

lemma Rename_holds:
  assumes h: "sound s"
  shows "sound (snd (store_RenameTunnel ok c old new s))"
proof (cases "snd (store_RenameTunnel ok c old new s) = s")
  case False
  then obtain p rt rows where r: "renamedPendingMinuteBuckets c old new (tf_pendingMinute s) = Inr p"
      "renamePersistedTrafficBucketsLocked ok c old new (tf_rows s) = Inr rows"
      "snd (store_RenameTunnel ok c old new s) = s\<lparr>tf_pendingMinute := p, tf_realtimeSecond := rt, tf_rows := rows\<rparr>"
    using rename_result by blast
  have pending: "\<forall>b \<in> snd ` set p. bucket_inv b"
  proof (cases "p = tf_pendingMinute s")
    case False
    then have a: "addTrafficBuckets (map (\<lambda>(k, b). renamed_bucket c old new b) (tf_pendingMinute s)) [] = Inr p"
      using r(1) by (auto simp: renamedPendingMinuteBuckets_def split: if_splits)
    have b: "\<forall>b \<in> set (map (\<lambda>(k, b). renamed_bucket c old new b) (tf_pendingMinute s)). bucket_inv b"
      using holdsD(2) [OF h] bucket_rename by (auto simp: renamed_bucket_def)
    show ?thesis by (rule addTrafficBuckets_inv [OF a _ b]) simp
  qed (use holdsD(2) [OF h] in simp)
  have "rows_inv rows"
    using r(2) holdsD(1) [OF h]
    by (auto simp: renamePersistedTrafficBucketsLocked_def bind_res_eq_Inr intro: rename_keeps split: if_splits)
  then show ?thesis
    using pending by (intro holdsI [OF h]) (simp_all add: r(3))
qed (use h in simp)

lemma step_holds: "traffic_store_step tables x y \<Longrightarrow> sound (fst x) \<Longrightarrow> sound (fst y)"
proof (induction rule: traffic_store_step.induct)
  case (observe s a)
  then show ?case
    using ApplyDeltas_holds by (auto simp: flushTrafficObservations_def Let_def split: prod.splits)
next
  case (evict_tunnel s a c n)
  then have h: "sound s" by simp
  show ?case
    using holdsD [OF h] by (simp add: store_EvictTunnel_def) (intro holds_clear holdsI [OF h]; auto)
next
  case (evict_client s a ok c)
  then have h: "sound s" by simp
  show ?case
    using holdsD [OF h] by (intro holdsI [OF h]) (auto simp: store_EvictClient_def clear_err_if_empty_def Let_def)
next
  case (migrate s a t m)
  then have h: "sound s" by simp
  show ?case
    using holdsD [OF h] by (intro holdsI [OF h]) (auto simp: resetTunnelAfterMigrationLocked_def clear_err_if_empty_def)
next
  case (delete_user s a u ok)
  then have h: "sound s" by simp
  show ?case
    using holdsD [OF h] by (intro holdsI [OF h])
      (auto simp: withUserDeletionBoundary_def delete_user_traffic_def evictDeletedOwnerLocked_def clear_err_if_empty_def)
qed (auto intro: ApplyDeltas_holds flushLocked_holds Compact_holds Rename_holds)

lemma run_holds: "(traffic_store_step tables)\<^sup>*\<^sup>* x y \<Longrightarrow> sound (fst x) \<Longrightarrow> sound (fst y)"
  by (induction rule: rtranclp_induct) (auto intro: step_holds)

end

section \<open>The key invariant\<close>

definition any_store :: "TrafficStore \<Rightarrow> bool" where
  "any_store s \<longleftrightarrow> True"

definition any_tables :: "traffic_tables \<Rightarrow> bool" where
  "any_tables T \<longleftrightarrow> True"

definition minute_bucket :: "TrafficBucket \<Rightarrow> bool" where
  "minute_bucket b \<longleftrightarrow> key_normal b \<and> tb_Resolution b = TrafficResolutionMinute"

lemma rows_ok_filter: "rows_ok rows \<Longrightarrow> rows_ok (filter P rows)"
  by (auto simp: rows_ok_def intro: distinct_map_filter)

lemma rows_ok_rename: "rows_ok rows \<Longrightarrow> rows_ok (map (\<lambda>r. if P r then r\<lparr>tb_TunnelName := n\<rparr> else r) rows)"
proof -
  have "map row_key (map (\<lambda>r. if P r then r\<lparr>tb_TunnelName := n\<rparr> else r) rows) = map row_key rows"
    by (auto simp: row_key_def)
  then show "rows_ok rows \<Longrightarrow> ?thesis" unfolding rows_ok_def by (auto simp: key_normal_def simp del: map_map)
qed

lemma bucket_of_delta_minute: "minute_bucket (bucket_of_delta TrafficResolutionMinute t d)"
  by (simp add: minute_bucket_def bucket_of_delta_def)

interpretation keys: traffic_invariant rows_ok minute_bucket any_store any_tables
proof (unfold_locales, goal_cases)
  case (1 T rows bs hour rows')
  then show ?case
    using flush_rows_effect [of "\<lambda>_. False" rows bs T hour rows'] by (auto simp: minute_bucket_def)
next
  case (2 T rows bs rows')
  then show ?case using upsert_all_ok by blast
next
  case (5 s d t)
  then show ?case by (simp add: bucket_of_delta_minute)
qed (auto simp: rows_ok_filter rows_ok_rename any_store_def minute_bucket_def key_normal_def)

lemma keys_start: "keys.sound newTrafficStore"
  by (simp add: keys.sound_def newTrafficStore_def rows_ok_def any_store_def)

text \<open>
  C7 (safety): in every reachable store a flush loses and invents no traffic. When it succeeds, for
  each tunnel and transport and in each direction the minute rows have grown by exactly the pending
  bytes and nothing is pending any more; when it fails, rows and pending buckets are as before.
\<close>

theorem Flush_conserves:
  assumes "(traffic_store_step any_tables)\<^sup>*\<^sup>* (newTrafficStore, newTrafficAccumulator) (s, a)"
    and "flushLocked T ok now s = (result, s')"
  shows "case result of
      Some e \<Rightarrow> s' = s
    | None \<Rightarrow> tf_pendingMinute s' = [] \<and>
        (\<forall>d t x. let minute = \<lambda>r. tb_TunnelID r = t \<and> tb_Transport r = x \<and> tb_Resolution r = TrafficResolutionMinute in
          total_bytes d (filter minute (tf_rows s')) =
          total_bytes d (filter minute (tf_rows s)) + total_bytes d (filter minute (map snd (tf_pendingMinute s))))"
proof -
  have h: "keys.sound s"
    using keys.run_holds [OF assms(1)] keys_start by simp
  show ?thesis
  proof (cases result)
    case (Some e)
    then show ?thesis
      using assms(2) by (auto simp: flushLocked_def split: if_splits option.splits sum.splits)
  next
    case None
    have "total_bytes d (filter (P \<circ> row_key) (tf_rows s')) =
        total_bytes d (filter (P \<circ> row_key) (tf_rows s)) + total_bytes d (filter (P \<circ> row_key) (map snd (tf_pendingMinute s)))"
      if P: "\<And>k. P k \<Longrightarrow> fst (snd (snd k)) \<noteq> TrafficResolutionHour" for d P
    proof (cases "tf_pendingMinute s = []")
      case False
      then have f: "flush_rows T (hourFloorUnix now) (collectSortedBuckets (tf_pendingMinute s)) (tf_rows s) = Inr (tf_rows s')"
        using assms(2) None by (auto simp: flushLocked_def split: if_splits option.splits sum.splits)
      have "keyed_bytes d P (tf_rows s') = keyed_bytes d P (tf_rows s) + keyed_bytes d P (collectSortedBuckets (tf_pendingMinute s))"
        using flush_rows_effect [OF P _ _ f] h by (auto simp: keys.sound_def collectSortedBuckets_def minute_bucket_def)
      moreover have "keyed_bytes d P (collectSortedBuckets (tf_pendingMinute s)) = keyed_bytes d P (map snd (tf_pendingMinute s))"
        by (simp add: keyed_bytes_def collectSortedBuckets_def filter_sort)
      ultimately show ?thesis by (simp add: keyed_bytes_def)
    qed (use assms(2) None in \<open>auto simp: flushLocked_def\<close>)
    note all = this
    define P :: "string \<Rightarrow> string \<Rightarrow> string \<times> string \<times> string \<times> int \<Rightarrow> bool"
      where "P t x k \<longleftrightarrow> fst k = t \<and> fst (snd k) = x \<and> fst (snd (snd k)) = TrafficResolutionMinute" for t x k
    have P: "(\<lambda>r. tb_TunnelID r = t \<and> tb_Transport r = x \<and> tb_Resolution r = TrafficResolutionMinute) = P t x \<circ> row_key" for t x
      by (auto simp: fun_eq_iff row_key_def P_def)
    have "P t x k \<Longrightarrow> fst (snd (snd k)) \<noteq> TrafficResolutionHour" for t x k
      by (simp add: P_def)
    moreover have "tf_pendingMinute s' = []"
      using assms(2) None by (auto simp: flushLocked_def split: if_splits option.splits sum.splits)
    ultimately show ?thesis
      using all unfolding P Let_def None by simp
  qed
qed

theorem Flush_conserves_witness:
  "let s = ApplyDeltas [demo_observation 60 10] newTrafficStore;
       s' = snd (flushLocked demo_tables True (unix_time 120) s) in
   tf_pendingMinute s' = [] \<and>
   total_bytes True (filter (\<lambda>r. tb_TunnelID r = ''t'' \<and> tb_Transport r = ''server_relay'' \<and>
     tb_Resolution r = TrafficResolutionMinute) (tf_rows s')) = 10"
proof -
  let ?s = "ApplyDeltas [demo_observation 60 10] newTrafficStore"
  let ?f = "flushLocked demo_tables True (unix_time 120) ?s"
  let ?m = "\<lambda>r. tb_TunnelID r = ''t'' \<and> tb_Transport r = ''server_relay'' \<and> tb_Resolution r = TrafficResolutionMinute"
  have "(traffic_store_step any_tables)\<^sup>*\<^sup>* (newTrafficStore, newTrafficAccumulator) (?s, newTrafficAccumulator)"
    by (rule r_into_rtranclp) (rule traffic_store_step.direct)
  note flush = Flush_conserves [OF this prod.collapse [of ?f, symmetric]]
  have v: "fst ?f = None" "tf_rows ?s = []" "total_bytes True (filter ?m (map snd (tf_pendingMinute ?s))) = 10"
    by code_simp+
  then have "tf_pendingMinute (snd ?f) = []"
    "total_bytes True (filter ?m (tf_rows (snd ?f))) =
       total_bytes True (filter ?m (tf_rows ?s)) + total_bytes True (filter ?m (map snd (tf_pendingMinute ?s)))"
    using flush unfolding v(1) option.case Let_def by blast+
  then show ?thesis
    using v by (simp add: Let_def)
qed

section \<open>Deleted users\<close>

text \<open>Nothing of a user is stored or queued, and the tombstone keeps it so.\<close>

definition rows_without :: "string \<Rightarrow> TrafficBucket list \<Rightarrow> bool" where
  "rows_without u rows \<longleftrightarrow> (\<forall>r \<in> set rows. tb_OwnerUserID r \<noteq> u)"

definition bucket_without :: "string \<Rightarrow> TrafficBucket \<Rightarrow> bool" where
  "bucket_without u b \<longleftrightarrow> tb_OwnerUserID b \<noteq> u"

definition tombstone :: "string \<Rightarrow> TrafficStore \<Rightarrow> bool" where
  "tombstone u s \<longleftrightarrow> u \<in> tf_deletedOwnerUserIDs s"

definition user_absent :: "string \<Rightarrow> traffic_tables \<Rightarrow> bool" where
  "user_absent u T \<longleftrightarrow> u \<noteq> [] \<and> \<not> tt_user T u"

lemma replace_without:
  assumes "user_absent u T" "rows_without u rows" "upsertTrafficBucketReplace T b rows = Inr rows'"
  shows "rows_without u rows'"
proof -
  obtain v where v: "owner_fk T v = Inr ()"
    and rows': "rows' = rows @ [v] \<or>
      rows' = map (\<lambda>r. if same_row v r
               then v\<lparr>tb_OwnerUserID := (if tb_OwnerUserID v = [] then tb_OwnerUserID r else tb_OwnerUserID v)\<rparr>
               else r) rows"
    using assms(3) by (auto simp: upsertTrafficBucketReplace_def Let_def bind_res_eq_Inr split: if_splits)
  have "tb_OwnerUserID v \<noteq> u"
    using v assms(1) by (auto simp: owner_fk_def user_absent_def split: if_splits)
  then show ?thesis
    using rows' assms(2) unfolding rows_without_def by (elim disjE) (fastforce split: if_splits)+
qed

lemma upsert_all_without:
  "user_absent u T \<Longrightarrow> rows_without u rows \<Longrightarrow> upsert_all T bs rows = Inr rows' \<Longrightarrow> rows_without u rows'"
  by (induction bs arbitrary: rows) (auto simp: bind_res_eq_Inr dest: replace_without)

lemma upsertAdd_without:
  assumes "user_absent u T" "rows_without u rows" "upsertTrafficBucketAdd T b rows = Inr rows'"
  shows "rows_without u rows'"
proof -
  consider (replaced) e where "upsertTrafficBucketReplace T e rows = Inr rows'"
    | (new) v where "owner_fk T v = Inr ()" "rows' = rows @ [v]"
    using assms(3) by (auto simp: upsertTrafficBucketAdd_def Let_def bind_res_eq_Inr split: option.splits)
  then show ?thesis
  proof cases
    case new
    then show ?thesis
      using assms(1,2) by (auto simp: rows_without_def owner_fk_def user_absent_def split: if_splits)
  qed (rule replace_without [OF assms(1,2)])
qed

lemma existingHour_without:
  assumes "user_absent u T" "rows_without u rows" "addTrafficToExistingHourBucket T hour b rows = Inr rows'"
  shows "rows_without u rows'"
proof -
  have "rows' = rows \<or> (\<exists>e. upsertTrafficBucketReplace T e rows = Inr rows')"
    using assms(3) by (auto simp: addTrafficToExistingHourBucket_def Let_def bind_res_eq_Inr split: if_splits option.splits)
  then show ?thesis
    using assms(2) replace_without [OF assms(1,2)] by blast
qed

lemma flush_rows_without:
  "user_absent u T \<Longrightarrow> rows_without u rows \<Longrightarrow> flush_rows T hour bs rows = Inr rows' \<Longrightarrow> rows_without u rows'"
  by (induction bs arbitrary: rows) (auto simp: bind_res_eq_Inr dest: upsertAdd_without existingHour_without)

interpretation gone: traffic_invariant "rows_without u" "bucket_without u" "tombstone u" "user_absent u" for u
proof (unfold_locales, goal_cases)
  case (1 T rows bs hour rows')
  then show ?case using flush_rows_without by blast
next
  case (2 T rows bs rows')
  then show ?case using upsert_all_without by blast
qed (auto simp: rows_without_def bucket_without_def tombstone_def delta_skipped_def bucket_of_delta_def)

definition realtime_without :: "string \<Rightarrow> realtimeSecondIndex \<Rightarrow> bool" where
  "realtime_without u m \<longleftrightarrow> (\<forall>k \<in> fst ` set m. fst (snd k) \<noteq> u)"

lemma realtime_without_update:
  "realtime_without u m \<Longrightarrow> fst (snd k) \<noteq> u \<Longrightarrow> realtime_without u (AList.update k v m)"
  unfolding realtime_without_def by (induction m) auto

lemma realtime_without_filter: "realtime_without u m \<Longrightarrow> realtime_without u (filter P m)"
  by (auto simp: realtime_without_def)

lemma realtime_Add_without:
  "realtime_Add b m = Inr m' \<Longrightarrow> realtime_without u m \<Longrightarrow> tb_OwnerUserID b \<noteq> u \<Longrightarrow> realtime_without u m'"
  by (auto simp: realtime_Add_def bind_res_eq_Inr realtime_key_of_def intro!: realtime_without_update
      split: if_splits option.splits)

lemma rename_entries_without:
  "rename_entries es m = Inr m' \<Longrightarrow> realtime_without u es \<Longrightarrow> realtime_without u m \<Longrightarrow> realtime_without u m'"
proof (induction es m rule: rename_entries.induct)
  case (2 k b es m)
  have k: "fst (snd k) \<noteq> u" "realtime_without u es"
    using "2.prems"(2) by (auto simp: realtime_without_def)
  show ?case
    using 2 k realtime_without_update [OF "2.prems"(3) k(1)] by (auto simp: bind_res_eq_Inr split: option.splits)
qed simp

lemma renamedTunnelBuckets_without:
  assumes "renamedTunnelBuckets c old new m = Inr m'" "realtime_without u m"
  shows "realtime_without u m'"
proof (cases "m' = m")
  case False
  then obtain r where r: "rename_entries (map (renamed_entry old new) (filter (\<lambda>((c', u, s, t), b). c' = c) m)) [] = Inr r"
      "m' = filter (\<lambda>((c', u, s, t), b). c' \<noteq> c) m @ r"
    using assms(1) by (auto simp: renamedTunnelBuckets_def Let_def bind_res_eq_Inr split: if_splits)
  have "fst (snd (fst (renamed_entry old new x))) = fst (snd (fst x))" for x
    by (auto simp: renamed_entry_def renamed_key_def split: prod.splits)
  then have "realtime_without u (map (renamed_entry old new) (filter (\<lambda>((c', u, s, t), b). c' = c) m))"
    using assms(2) by (auto simp: realtime_without_def)
  then have "realtime_without u r"
    using rename_entries_without [OF r(1)] by (simp add: realtime_without_def)
  then show ?thesis
    using assms(2) r(2) by (auto simp: realtime_without_def)
qed (use assms in simp)

lemma ApplyDeltas_realtime:
  assumes "tombstone u s" "realtime_without u (tf_realtimeSecond s)"
  shows "realtime_without u (tf_realtimeSecond (ApplyDeltas ds s))"
proof -
  have owner: "tb_OwnerUserID (bucket_of_delta r t d) = td_OwnerUserID d" for r t d
    by (simp add: bucket_of_delta_def)
  have skip: "tombstone u s \<Longrightarrow> \<not> delta_skipped d s \<Longrightarrow> td_OwnerUserID d \<noteq> u" for d s
    by (auto simp: tombstone_def delta_skipped_def)
  have one: "tombstone u (fst (apply_delta d p)) \<and> realtime_without u (tf_realtimeSecond (fst (apply_delta d p)))"
    if h: "tombstone u (fst p) \<and> realtime_without u (tf_realtimeSecond (fst p))" for d p
  proof
    show "tombstone u (fst (apply_delta d p))"
      using h by (auto simp: apply_delta_def Let_def tombstone_def split: prod.splits sum.splits)
    have "tf_realtimeSecond (fst (apply_delta d p)) = tf_realtimeSecond (fst p) \<or>
        (\<not> delta_skipped d (fst p) \<and> realtime_Add (bucket_of_delta TrafficResolutionSecond (td_SecondStart d) d)
          (tf_realtimeSecond (fst p)) = Inr (tf_realtimeSecond (fst (apply_delta d p))))"
      by (auto simp: apply_delta_def Let_def split: prod.splits sum.splits)
    then show "realtime_without u (tf_realtimeSecond (fst (apply_delta d p)))"
      using h skip [of "fst p" d] realtime_Add_without [where u = u] by (auto simp: owner)
  qed
  have "tombstone u (fst p) \<and> realtime_without u (tf_realtimeSecond (fst p)) \<Longrightarrow>
    realtime_without u (tf_realtimeSecond (fst (fold apply_delta ds p)))" for p
    by (induction ds arbitrary: p) (use one in auto)
  from this [of "(s, 0)"] show ?thesis
    using assms by (auto simp: ApplyDeltas_def PruneBefore_def Let_def intro: realtime_without_filter split: prod.splits)
qed

lemma step_realtime:
  "traffic_store_step G x y \<Longrightarrow> tombstone u (fst x) \<Longrightarrow> realtime_without u (tf_realtimeSecond (fst x)) \<Longrightarrow>
     realtime_without u (tf_realtimeSecond (fst y))"
proof (induction rule: traffic_store_step.induct)
  case (observe s a)
  then show ?case
    by (auto simp: flushTrafficObservations_def Let_def intro: ApplyDeltas_realtime split: prod.splits)
next
  case (flush T s a ok now)
  then show ?case by (auto simp: flushLocked_def split: option.splits sum.splits)
next
  case (compact T s a oks now clock)
  then show ?case
    by (auto simp: Compact_def flushLocked_def rollupCompleteHoursLocked_def pruneLocked_def pruneRealtimeLocked_def PruneBefore_def
        intro!: realtime_without_filter split: option.splits sum.splits prod.splits if_splits)
next
  case (rename s a ok c old new)
  then have "realtime_without u (tf_realtimeSecond s)" by simp
  then show ?case
    by (auto simp: store_RenameTunnel_def bind_res_eq_Inr intro: renamedTunnelBuckets_without split: sum.splits)
next
  case (delete_user s a v ok)
  then show ?case
    by (auto simp: withUserDeletionBoundary_def delete_user_traffic_def evictDeletedOwnerLocked_def clear_err_if_empty_def
        intro!: realtime_without_filter)
qed (auto simp: ApplyDeltas_realtime store_EvictTunnel_def realtime_EvictTunnel_def store_EvictClient_def realtime_EvictClient_def
    resetTunnelAfterMigrationLocked_def clear_err_if_empty_def Let_def intro!: realtime_without_filter)

lemma empty_query:
  assumes "owned_by u s = s\<lparr>tf_pendingMinute := [], tf_realtimeSecond := [], tf_rows := []\<rparr>" "u \<noteq> []"
    and "tf_pendingErr s = None" "resolution \<in> {TrafficResolutionSecond, TrafficResolutionMinute, TrafficResolutionHour}"
  shows "QueryWithResolutionForUser T now u client name from to resolution s = Inr (resolution, [])"
proof -
  let ?s = "s\<lparr>tf_pendingMinute := [], tf_realtimeSecond := [], tf_rows := []\<rparr>"
  have b: "second_buckets u client name from to ?s = Inr []" "minute_buckets T u client name from to ?s = Inr []"
    "hour_buckets T now u client name from to ?s = Inr []"
    using assms(2)
    by (simp_all add: second_buckets_def minute_buckets_def hour_buckets_def queryBucketsLocked_def pending_matching_def
        realtime_QueryForUser_def realtime_query_def)
  have "queryLocked T now u client name from to resolution ?s = Inr (resolution, [])"
    using assms(3,4) by (auto simp: queryLocked_def b sortTrafficSeries_def)
  then show ?thesis
    using user_query_owned [OF assms(2)] assms(1,2) by (metis QueryWithResolutionForUser_def)
qed

text \<open>
  C9 (safety): when the deletion of a user has been committed, no later sequence of observations,
  drains, flushes, compactions, renamings, evictions, migrations and further deletions brings its
  traffic back: as long as the user does not exist in the table of users, no row, pending bucket or
  entry of the index of the last seconds has it as owner, and a query in its name is empty.
\<close>

theorem deleted_user_leaves_no_traffic:
  assumes "withUserDeletionBoundary u (delete_user_traffic ok u) (s, a) = (None, s1, a1)"
    and "(traffic_store_step (user_absent u))\<^sup>*\<^sup>* (s1, a1) (s2, a2)"
  shows "(\<forall>b \<in> set (tf_rows s2) \<union> snd ` set (tf_pendingMinute s2). tb_OwnerUserID b \<noteq> u) \<and>
    realtime_without u (tf_realtimeSecond s2) \<and>
    (tf_pendingErr s2 = None \<and> resolution \<in> {TrafficResolutionSecond, TrafficResolutionMinute, TrafficResolutionHour} \<longrightarrow>
      QueryWithResolutionForUser T now u client name from to resolution s2 = Inr (resolution, []))"
proof -
  have u: "u \<noteq> []"
    using assms(1) by (auto simp: withUserDeletionBoundary_def split: if_splits)
  have start: "gone.sound u s1" "realtime_without u (tf_realtimeSecond s1)"
    using assms(1) u
    by (auto simp: withUserDeletionBoundary_def delete_user_traffic_def evictDeletedOwnerLocked_def clear_err_if_empty_def
        gone.sound_def rows_without_def bucket_without_def tombstone_def realtime_without_def split: if_splits)
  have "gone.sound u (fst y) \<and> realtime_without u (tf_realtimeSecond (fst y))"
    if "(traffic_store_step (user_absent u))\<^sup>*\<^sup>* (s1, a1) y" for y
    using that
  proof (induction rule: rtranclp_induct)
    case (step y z)
    then show ?case
      using gone.step_holds [OF step(2)] step_realtime [OF step(2), of u] by (auto simp: gone.sound_def)
  qed (use start in simp)
  from this [OF assms(2)] have h: "rows_without u (tf_rows s2)" "\<forall>b \<in> snd ` set (tf_pendingMinute s2). bucket_without u b"
    "realtime_without u (tf_realtimeSecond s2)"
    by (simp_all add: gone.sound_def)
  have "filter (\<lambda>(k, b). tb_OwnerUserID b = u) (tf_pendingMinute s2) = []"
    "filter (\<lambda>((c, v, k, t), b). v = u) (tf_realtimeSecond s2) = []" "filter (\<lambda>r. tb_OwnerUserID r = u) (tf_rows s2) = []"
    using h by (auto simp: rows_without_def bucket_without_def realtime_without_def filter_empty_conv)
  then have "owned_by u s2 = s2\<lparr>tf_pendingMinute := [], tf_realtimeSecond := [], tf_rows := []\<rparr>"
    by (simp add: owned_by_def)
  then show ?thesis
    using h empty_query [OF _ u] by (auto simp: rows_without_def bucket_without_def)
qed

definition demo_with_user :: TrafficStore where
  "demo_with_user = snd (flushLocked demo_tables True (unix_time 120) (ApplyDeltas [demo_observation 60 10] newTrafficStore))"

definition demo_without_user :: "TrafficStore \<times> trafficAccumulator" where
  "demo_without_user = snd (withUserDeletionBoundary ''u'' (delete_user_traffic True ''u'') (demo_with_user, newTrafficAccumulator))"

theorem deleted_user_leaves_no_traffic_witness:
  "length (tf_rows demo_with_user) = 1 \<and>
   (let s2 = ApplyDeltas [demo_observation 120 10] (fst demo_without_user) in
    QueryWithResolutionForUser demo_tables 0 ''u'' ''c'' [] 0 (unix_time 120) TrafficResolutionMinute s2 =
      Inr (TrafficResolutionMinute, []))"
proof -
  let ?d = "withUserDeletionBoundary ''u'' (delete_user_traffic True ''u'') (demo_with_user, newTrafficAccumulator)"
  let ?s2 = "ApplyDeltas [demo_observation 120 10] (fst demo_without_user)"
  have "fst ?d = None" by code_simp
  then have d: "?d = (None, fst demo_without_user, snd demo_without_user)"
    by (simp add: demo_without_user_def prod_eq_iff)
  have s: "(traffic_store_step (user_absent ''u''))\<^sup>*\<^sup>* (fst demo_without_user, snd demo_without_user) (?s2, snd demo_without_user)"
    by (rule r_into_rtranclp) (rule traffic_store_step.direct)
  have "length (tf_rows demo_with_user) = 1" "tf_pendingErr ?s2 = None" by code_simp+
  then show ?thesis
    using deleted_user_leaves_no_traffic [OF d s, of TrafficResolutionMinute demo_tables 0 "''c''" "[]" 0 "unix_time 120"]
    by (simp add: Let_def)
qed

end
