(* ===== verification/Traffic_Rollup.thy ===== *)
theory Traffic_Rollup
  imports Traffic_Store
begin

text \<open>What the hourly roll-up does to hours whose minutes expire (\<open>Compact\<close> of \<open>traffic_store.go\<close>).\<close>

section \<open>Hour totals shrink when minutes expire\<close>

definition demo_compact :: "int \<Rightarrow> TrafficStore \<Rightarrow> TrafficStore" where
  "demo_compact t s = snd (Compact demo_tables (True, True, True) (unix_time t) (unix_time t) s)"

definition demo_hour_bytes :: "TrafficStore \<Rightarrow> nat" where
  "demo_hour_bytes s = total_bytes True (filter (\<lambda>r. tb_Resolution r = TrafficResolutionHour \<and> tb_BucketStart r = demo_hour) (tf_rows s))"

abbreviation demo_day_later :: int where
  "demo_day_later \<equiv> 24 * 3600 + 1800"


end
