(* ===== verification/Credit_Flow.thy ===== *)
theory Credit_Flow
  imports P2P_Protocol "HOL-Library.Multiset"
begin

text \<open>
  Credit-based flow control of a peer-to-peer tunnel with a shared rate
  (\<open>internal/client/p2p_credit.go\<close>, \<open>shared_credit_scheduler.go\<close>). The ingress side keeps
  a \<open>remoteCreditAccount\<close>: it announces cumulative demand and waits for cumulative credit. The
  owner keeps an \<open>ownerCreditScheduler\<close>, which divides newly available tokens between that
  demand and its own writers. All counters are 64-bit words. The token bucket of \<open>run\<close> works on
  floating-point numbers; here the tokens of a tick are an argument of \<open>allocate\<close>. The last
  part composes the two sides over a network that may lose, repeat and reorder messages.
\<close>

section \<open>Dividing one block of tokens\<close>

abbreviation sharedCreditMaxBlock :: u64 where
  "sharedCreditMaxBlock \<equiv> 262144"

definition minCredit :: "u64 \<Rightarrow> u64 \<Rightarrow> u64" where
  "minCredit a b = (if a < b then a else b)"

definition capBlock :: "u64 \<Rightarrow> u64" where
  "capBlock v = (if v > sharedCreditMaxBlock then sharedCreditMaxBlock else v)"

definition fairCreditAllocation :: "u64 \<Rightarrow> u64 \<Rightarrow> u64 \<Rightarrow> u64 \<times> u64" where
  "fairCreditAllocation available ingressDemand0 egressDemand0 =
     (if available = 0 then (0, 0)
      else let ingressDemand = capBlock ingressDemand0; egressDemand = capBlock egressDemand0 in
      if ingressDemand = 0 then (0, minCredit available egressDemand)
      else if egressDemand = 0 then (minCredit available ingressDemand, 0)
      else let ingressShare = (available + 1) div 2; egressShare = available div 2;
               ingressGrant = minCredit ingressShare ingressDemand;
               egressGrant = minCredit egressShare egressDemand;
               remaining = available - ingressGrant - egressGrant in
        if remaining > 0
        then let extraIngress = minCredit remaining (ingressDemand - ingressGrant);
                 remaining' = remaining - extraIngress in
             (ingressGrant + extraIngress, egressGrant + minCredit remaining' (egressDemand - egressGrant))
        else (ingressGrant, egressGrant))"

section \<open>The remote account\<close>

datatype credit_error = CreditClosed | CreditOverflow | CreditStale | CreditInvalid p2p_error

text \<open>\<open>ra_waiting\<close> are the byte counts of the calls of \<open>Reserve\<close> that wait for credit.\<close>

record remoteCreditAccount =
  ra_grant :: P2PTunnelGrant
  ra_desired :: u64
  ra_granted :: u64
  ra_consumed :: u64
  ra_sequence :: u64
  ra_grantSequence :: u64
  ra_closed :: bool
  ra_waiting :: "u64 list"

definition newRemoteCreditAccount :: "P2PTunnelGrant \<Rightarrow> remoteCreditAccount" where
  "newRemoteCreditAccount g = \<lparr>ra_grant = g, ra_desired = 0, ra_granted = 0, ra_consumed = 0, ra_sequence = 0,
     ra_grantSequence = 0, ra_closed = False, ra_waiting = []\<rparr>"

definition remote_Close :: "remoteCreditAccount \<Rightarrow> remoteCreditAccount" where
  "remote_Close a = a\<lparr>ra_closed := True\<rparr>"

text \<open>The first critical section of \<open>Reserve\<close>: the demand to send, or the reason to return.\<close>

definition Reserve_enter ::
  "u64 \<Rightarrow> remoteCreditAccount \<Rightarrow> (credit_error option + P2PCreditDemand) \<times> remoteCreditAccount" where
  "Reserve_enter bytes a =
     (if bytes = 0 \<or> tg_TotalBPS (ra_grant a) = 0 then (Inl None, a)
      else if ra_closed a then (Inl (Some CreditClosed), a)
      else if not 0 - ra_desired a < bytes then (Inl (Some CreditOverflow), a)
      else let a1 = a\<lparr>ra_desired := ra_desired a + bytes, ra_sequence := ra_sequence a + 1,
                      ra_waiting := bytes # ra_waiting a\<rparr> in
        (Inr \<lparr>cd_SessionID = tg_SessionID (ra_grant a), cd_GrantID = tg_GrantID (ra_grant a),
              cd_TunnelID = tg_TunnelID (ra_grant a), cd_Revision = tg_Revision (ra_grant a),
              cd_Sequence = ra_sequence a1, cd_DesiredBytes = ra_desired a1\<rparr>, a1))"

text \<open>A demand that cannot be sent closes the account and fails the call.\<close>

definition Reserve_send_failed :: "u64 \<Rightarrow> remoteCreditAccount \<Rightarrow> remoteCreditAccount" where
  "Reserve_send_failed bytes a = (remote_Close a)\<lparr>ra_waiting := remove1 bytes (ra_waiting a)\<rparr>"

text \<open>The waiting loop: \<open>None\<close> while the call keeps waiting, otherwise its result.\<close>

definition Reserve_wake :: "u64 \<Rightarrow> remoteCreditAccount \<Rightarrow> (credit_error option option) \<times> remoteCreditAccount" where
  "Reserve_wake bytes a =
     (if \<not> ra_closed a \<and> ra_granted a - ra_consumed a < bytes then (None, a)
      else let a1 = a\<lparr>ra_waiting := remove1 bytes (ra_waiting a)\<rparr> in
      if ra_closed a then (Some (Some CreditClosed), a1)
      else (Some None, a1\<lparr>ra_consumed := ra_consumed a + bytes\<rparr>))"

definition remote_Apply :: "P2PCreditGrant \<Rightarrow> remoteCreditAccount \<Rightarrow> credit_error option \<times> remoteCreditAccount" where
  "remote_Apply k a =
     (case CreditGrant_Validate k of
        Some e \<Rightarrow> (Some (CreditInvalid e), a)
      | None \<Rightarrow>
          if cg_Sequence k \<le> ra_grantSequence a \<or> cg_GrantedBytes k < ra_granted a \<or> cg_GrantedBytes k > ra_desired a
          then (Some CreditStale, a)
          else (None, a\<lparr>ra_grantSequence := cg_Sequence k, ra_granted := cg_GrantedBytes k\<rparr>))"

section \<open>The owner's scheduler\<close>

text \<open>\<open>os_local\<close> are the remaining bytes of the local requests, the oldest first.\<close>

record ownerCreditScheduler =
  os_grant :: P2PTunnelGrant
  os_remoteDesired :: u64
  os_remoteGranted :: u64
  os_demandSequence :: u64
  os_grantSequence :: u64
  os_local :: "u64 list"
  os_preferRemote :: bool
  os_done :: bool

definition newOwnerCreditScheduler :: "P2PTunnelGrant \<Rightarrow> ownerCreditScheduler" where
  "newOwnerCreditScheduler g = \<lparr>os_grant = g, os_remoteDesired = 0, os_remoteGranted = 0, os_demandSequence = 0,
     os_grantSequence = 0, os_local = [], os_preferRemote = False, os_done = False\<rparr>"

definition owner_Reserve :: "u64 \<Rightarrow> ownerCreditScheduler \<Rightarrow> credit_error option \<times> ownerCreditScheduler" where
  "owner_Reserve bytes s =
     (if bytes = 0 \<or> tg_TotalBPS (os_grant s) = 0 then (None, s)
      else if os_done s then (Some CreditClosed, s)
      else (None, s\<lparr>os_local := os_local s @ [bytes]\<rparr>))"

definition ApplyDemand :: "P2PCreditDemand \<Rightarrow> ownerCreditScheduler \<Rightarrow> credit_error option \<times> ownerCreditScheduler" where
  "ApplyDemand d s =
     (case CreditDemand_Validate d of
        Some e \<Rightarrow> (Some (CreditInvalid e), s)
      | None \<Rightarrow>
          if cd_Sequence d \<le> os_demandSequence s \<or> cd_DesiredBytes d < os_remoteDesired s then (Some CreditStale, s)
          else (None, s\<lparr>os_demandSequence := cd_Sequence d, os_remoteDesired := cd_DesiredBytes d\<rparr>))"

text \<open>The sum of the local requests, stopping at the largest word.\<close>

fun local_outstanding :: "u64 \<Rightarrow> u64 list \<Rightarrow> u64" where
  "local_outstanding n [] = n"
| "local_outstanding n (r # rs) = (if not 0 - n < r then not 0 else local_outstanding (n + r) rs)"

text \<open>Handing the local grant to the requests in order; completed ones leave the list.\<close>

fun serve_local :: "u64 \<Rightarrow> u64 list \<Rightarrow> u64 list" where
  "serve_local g [] = []"
| "serve_local g (r # rs) =
     (if g > 0
      then let amount = minCredit g r in
           if r - amount = 0 then serve_local (g - amount) rs else (r - amount) # rs
      else r # rs)"

definition owner_split :: "u64 \<Rightarrow> ownerCreditScheduler \<Rightarrow> u64 \<times> u64" where
  "owner_split available s =
     (let ro = os_remoteDesired s - os_remoteGranted s; lo = local_outstanding 0 (os_local s) in
      if ro > 0 \<and> lo > 0 \<and> \<not> os_preferRemote s
      then (let (l, r) = fairCreditAllocation available lo ro in (r, l))
      else fairCreditAllocation available ro lo)"

text \<open>
  \<open>allocate\<close>: its result is the number of tokens used and the message sent to the remote side,
  if any; \<open>sent\<close> says whether the control channel takes the message. A grant that was not sent is
  taken back.
\<close>

definition allocate ::
  "bool \<Rightarrow> u64 \<Rightarrow> ownerCreditScheduler \<Rightarrow> (u64 \<times> P2PCreditGrant option) \<times> ownerCreditScheduler" where
  "allocate sent available s =
     (let ro = os_remoteDesired s - os_remoteGranted s; lo = local_outstanding 0 (os_local s);
          (remoteGrant, localGrant) = owner_split available s;
          s1 = s\<lparr>os_preferRemote := (if ro > 0 \<and> lo > 0 then \<not> os_preferRemote s else os_preferRemote s),
                 os_remoteGranted := os_remoteGranted s + remoteGrant,
                 os_local := serve_local localGrant (os_local s),
                 os_grantSequence := (if remoteGrant > 0 then os_grantSequence s + 1 else os_grantSequence s)\<rparr>;
          msg = \<lparr>cg_SessionID = tg_SessionID (os_grant s), cg_GrantID = tg_GrantID (os_grant s),
                 cg_TunnelID = tg_TunnelID (os_grant s), cg_Revision = tg_Revision (os_grant s),
                 cg_Sequence = os_grantSequence s1, cg_GrantedBytes = os_remoteGranted s1\<rparr> in
      if remoteGrant > 0
      then if sent then ((remoteGrant + localGrant, Some msg), s1)
           else ((remoteGrant + localGrant, None), s1\<lparr>os_remoteGranted := os_remoteGranted s1 - remoteGrant\<rparr>)
      else ((remoteGrant + localGrant, None), s1))"

definition owner_Close :: "ownerCreditScheduler \<Rightarrow> ownerCreditScheduler" where
  "owner_Close s = s\<lparr>os_done := True\<rparr>"

section \<open>The division is bounded, work-conserving and fair\<close>

lemma unat_minCredit [simp]: "unat (minCredit a b) = min (unat a) (unat b)"
  by (simp add: minCredit_def word_less_nat_alt min_def)

lemma unat_capBlock: "unat (capBlock v) = min (unat v) 262144"
  by (simp add: capBlock_def word_less_nat_alt min_def)

lemma unat_halves:
  assumes "b \<noteq> not (0 :: u64)"
  shows "unat ((b + 1) div 2) = (unat b + 1) div 2"
proof -
  have "b + 1 \<noteq> 0"
    using assms by (simp add: eq_neg_iff_add_eq_0)
  then have "unat (b + 1) = unat b + 1"
    by (simp add: unatSuc add.commute)
  then show ?thesis
    by (simp add: unat_div)
qed

text \<open>The computation of the grants, with both sides backlogged, over natural numbers.\<close>

lemma fair_grants_nat:
  fixes b ci ce :: u64
  defines "i \<equiv> minCredit ((b + 1) div 2) ci" and "e \<equiv> minCredit (b div 2) ce"
  shows "unat (b - i - e) = unat b - unat i - unat e" "unat i + unat e \<le> unat b"
proof -
  have i: "unat i \<le> (unat b + 1) div 2"
    by (cases "b = not 0") (simp_all add: i_def unat_halves)
  have e: "unat e \<le> unat b div 2"
    by (simp add: e_def unat_div)
  show s: "unat i + unat e \<le> unat b"
    using i e by linarith
  have 1: "unat (b - i) = unat b - unat i"
    using s by (intro unat_sub) (simp add: word_le_nat_alt)
  show "unat (b - i - e) = unat b - unat i - unat e"
    using s 1 by (subst unat_sub) (simp_all add: word_le_nat_alt)
qed

lemma capBlock_0 [simp]: "capBlock v = 0 \<longleftrightarrow> v = 0"
  by (auto simp: capBlock_def)

lemma capBlock_zero [simp]: "capBlock 0 = 0"
  by simp

lemma minCredit_0 [simp]: "minCredit 0 v = 0" "minCredit v 0 = 0"
  by (auto simp: minCredit_def word_neq_0_conv [symmetric])

lemma fair_idle:
  "fairCreditAllocation 0 di de = (0, 0)"
  "fairCreditAllocation b 0 de = (0, minCredit b (capBlock de))"
  "fairCreditAllocation b di 0 = (minCredit b (capBlock di), 0)"
  by (auto simp: fairCreditAllocation_def Let_def)

text \<open>With both sides backlogged: a half each, and the rest to whoever still wants it.\<close>

lemma fair_busy:
  fixes b di de :: u64
  defines "i0 \<equiv> minCredit ((b + 1) div 2) (capBlock di)" and "e0 \<equiv> minCredit (b div 2) (capBlock de)"
  defines "r \<equiv> b - i0 - e0"
  defines "xi \<equiv> minCredit r (capBlock di - i0)"
  assumes "b \<noteq> 0" "di \<noteq> 0" "de \<noteq> 0"
  shows "fairCreditAllocation b di de = (i0 + xi, e0 + minCredit (r - xi) (capBlock de - e0))"
  using assms(5-) unfolding fairCreditAllocation_def Let_def i0_def [symmetric] e0_def [symmetric]
    r_def [symmetric] xi_def [symmetric]
  by (cases "r = 0") (auto simp: xi_def word_neq_0_conv)

lemma unat_top_up:
  fixes c g r :: u64
  assumes "unat g \<le> unat c"
  shows "unat (g + minCredit r (c - g)) = min (unat g + unat r) (unat c)"
proof -
  have d: "unat (c - g) = unat c - unat g"
    using assms by (intro unat_sub) (simp add: word_le_nat_alt)
  moreover have "unat c < 2 ^ 64"
    using unsigned_less [of c, where 'a = nat] by simp
  ultimately show ?thesis
    using assms by (subst unat_plus_if') (auto simp: min_def)
qed

text \<open>The same computation on natural numbers.\<close>

lemma fair_arith:
  fixes B ci ce p q :: nat
  assumes "i0 = min p ci" "e0 = min q ce" "r = B - i0 - e0"
    and "i = min (i0 + r) ci" "xi = min r (ci - i0)" "e = min (e0 + (r - xi)) ce" and B: "p + q = B"
  shows "i + e = min B (ci + ce) \<and> i \<le> ci \<and> e \<le> ce \<and> min ci p \<le> i \<and> min ce q \<le> e"
proof -
  consider (both) "p \<le> ci" "q \<le> ce" | (lend) "p \<le> ci" "ce < q" | (borrow) "ci < p" "q \<le> ce" | (full) "ci < p" "ce < q"
    by linarith
  then show ?thesis
  proof cases
    case both
    then have "i0 = p" "e0 = q" "r = 0" using assms by simp_all
    then show ?thesis using both assms by simp
  next
    case lend
    then have "i0 = p" "e0 = ce" "r = q - ce" using assms(1,2,3) B by auto
    then show ?thesis using lend assms by auto
  next
    case borrow
    then have "i0 = ci" "e0 = q" "r = p - ci" using assms(1,2,3) B by auto
    then show ?thesis using borrow assms by auto
  next
    case full
    then have "i0 = ci" "e0 = ce" using assms by simp_all
    then show ?thesis using full assms by simp
  qed
qed

text \<open>
  The exact result: all of the tokens are used unless both demands, each cut to one block, are
  met; no side gets more than its demand, and each gets its half of the tokens or all it asks for.
\<close>

lemma fairCreditAllocation_nat:
  assumes "fairCreditAllocation b di de = (i, e)"
  defines "ci \<equiv> min (unat di) 262144" and "ce \<equiv> min (unat de) 262144"
  shows "unat i + unat e = min (unat b) (ci + ce)" "unat i \<le> ci" "unat e \<le> ce"
    "min ci ((unat b + 1) div 2) \<le> unat i" "min ce (unat b div 2) \<le> unat e"
proof -
  have c: "unat (capBlock di) = ci" "unat (capBlock de) = ce" "ci \<le> 262144" "ce \<le> 262144"
    by (simp_all add: ci_def ce_def unat_capBlock)
  have "unat i + unat e = min (unat b) (ci + ce) \<and> unat i \<le> ci \<and> unat e \<le> ce \<and>
      min ci ((unat b + 1) div 2) \<le> unat i \<and> min ce (unat b div 2) \<le> unat e"
  proof (cases "b = 0 \<or> di = 0 \<or> de = 0")
    case True
    then show ?thesis
      using assms(1) c by (elim disjE) (auto simp: fair_idle ci_def ce_def min_def split: if_splits)
  next
    case False
    define i0 where "i0 = minCredit ((b + 1) div 2) (capBlock di)"
    define e0 where "e0 = minCredit (b div 2) (capBlock de)"
    define r where "r = b - i0 - e0"
    define xi where "xi = minCredit r (capBlock di - i0)"
    have r: "unat r = unat b - unat i0 - unat e0" "unat i0 + unat e0 \<le> unat b"
      using fair_grants_nat [of b "capBlock di" "capBlock de"] by (simp_all only: r_def i0_def e0_def)
    have ie: "i = i0 + xi" "e = e0 + minCredit (r - xi) (capBlock de - e0)"
      using assms(1) False fair_busy [of b di de] by (simp_all add: i0_def e0_def r_def xi_def)
    have i0: "unat i0 = min (unat ((b + 1) div 2)) ci" and e0: "unat e0 = min (unat b div 2) ce"
      using c by (simp_all add: i0_def e0_def unat_div)
    have i: "unat i = min (unat i0 + unat r) ci"
      using c i0 by (simp add: ie xi_def unat_top_up)
    have xi: "unat xi = min (unat r) (ci - unat i0)" "unat (r - xi) = unat r - unat xi"
      using c i0 by (auto simp: xi_def unat_sub word_le_nat_alt)
    have e: "unat e = min (unat e0 + (unat r - unat xi)) ce"
      using c e0 xi(2) by (simp add: ie unat_top_up)
    show ?thesis
    proof (cases "b = not 0")
      case True
      then have B: "unat b = 2 ^ 64 - 1" by (simp add: unat_max_u64)
      then have "unat i0 = 0" "unat e0 = ce"
        using i0 e0 c True by simp_all
      then have "unat i = ci" "unat e = ce"
        using r i xi e c B by simp_all
      then show ?thesis using c B by simp
    next
      case False
      show ?thesis
        by (rule fair_arith [OF i0 [unfolded unat_halves [OF False]] e0 r(1) i xi(1) e]) presburger
    qed
  qed
  then show "unat i + unat e = min (unat b) (ci + ce)" "unat i \<le> ci" "unat e \<le> ce"
    "min ci ((unat b + 1) div 2) \<le> unat i" "min ce (unat b div 2) \<le> unat e"
    by blast+
qed

section \<open>The owner's side\<close>

definition backlog :: "u64 list \<Rightarrow> nat" where
  "backlog rs = sum_list (map unat rs)"

lemma backlog_simps [simp]: "backlog [] = 0" "backlog (r # rs) = unat r + backlog rs"
  "backlog (rs @ rs') = backlog rs + backlog rs'"
  by (simp_all add: backlog_def)

lemma headroom: "not 0 - n < r \<longleftrightarrow> 2 ^ 64 \<le> unat n + unat (r :: u64)"
proof -
  have n: "unat n < 2 ^ 64"
    using unsigned_less [of n, where 'a = nat] by simp
  then have "unat (- 1 - n) = 2 ^ 64 - 1 - unat n"
    by (subst unat_sub) (simp_all add: word_le_nat_alt unat_max_u64)
  then show ?thesis
    using n by (simp add: word_less_nat_alt) linarith
qed

lemma unat_add_headroom: "\<not> not 0 - n < r \<Longrightarrow> unat (n + r) = unat n + unat (r :: u64)"
  by (simp only: headroom) (simp add: unat_plus_if')

lemma local_outstanding_nat: "unat (local_outstanding n rs) = min (2 ^ 64 - 1) (unat n + backlog rs)"
proof (induction rs arbitrary: n)
  case Nil
  then show ?case
    using unsigned_less [of n, where 'a = nat] by simp
next
  case (Cons r rs)
  show ?case
  proof (cases "not 0 - n < r")
    case True
    then show ?thesis
      using headroom [of n r] by (simp add: unat_max_u64)
  next
    case False
    then show ?thesis
      using Cons.IH [of "n + r"] unat_add_headroom [OF False] by (simp add: add.assoc)
  qed
qed

lemma serve_local_backlog:
  "unat g \<le> backlog rs \<Longrightarrow> backlog (serve_local g rs) = backlog rs - unat g"
proof (induction g rs rule: serve_local.induct)
  case (1 g)
  then show ?case by simp
next
  case (2 g r rs)
  have m: "unat (r - minCredit g r) = unat r - min (unat g) (unat r)" "unat (g - minCredit g r) = unat g - min (unat g) (unat r)"
    by (simp_all add: unat_sub word_le_nat_alt)
  show ?case
  proof (cases "g > 0 \<and> r - minCredit g r = 0")
    case True
    then have "unat r - min (unat g) (unat r) = 0"
      using m(1) by (metis unat_0)
    then have "unat r \<le> unat g" by (simp add: min_def split: if_splits)
    then show ?thesis
      using 2 True m by (auto simp: Let_def)
  next
    case False
    then consider "g = 0" | "g > 0" "unat (r - minCredit g r) \<noteq> 0"
      by (metis unat_eq_0 word_neq_0_conv)
    then show ?thesis
      by cases (use False m in \<open>auto simp: Let_def min_def split: if_splits\<close>)
  qed
qed

lemma owner_split_nat:
  assumes "owner_split b s = (r, l)"
  shows "unat r + unat l \<le> unat b" "r \<le> os_remoteDesired s - os_remoteGranted s" "unat l \<le> backlog (os_local s)"
    "unat r \<le> 262144"
    "b \<noteq> 0 \<Longrightarrow> os_remoteDesired s \<noteq> os_remoteGranted s \<Longrightarrow>
       os_preferRemote s \<or> os_local s = [] \<or> 2 \<le> unat b \<Longrightarrow> r \<noteq> 0"
proof -
  define ro where "ro = os_remoteDesired s - os_remoteGranted s"
  define lo where "lo = local_outstanding 0 (os_local s)"
  have lo: "unat lo \<le> backlog (os_local s)" "0 < lo \<Longrightarrow> os_local s \<noteq> []"
    by (auto simp: lo_def local_outstanding_nat)
  have ro: "os_remoteDesired s \<noteq> os_remoteGranted s \<Longrightarrow> 0 < unat ro"
    by (metis bot_nat_0.not_eq_extremum eq_iff_diff_eq_0 ro_def unat_eq_0)
  have b: "b \<noteq> 0 \<Longrightarrow> 0 < unat b"
    by (metis bot_nat_0.not_eq_extremum unat_eq_0)
  consider (swapped) "\<not> os_preferRemote s" "os_local s \<noteq> []" "fairCreditAllocation b lo ro = (l, r)"
    | (plain) "fairCreditAllocation b ro lo = (r, l)"
    using assms lo(2) unfolding owner_split_def ro_def [symmetric] lo_def [symmetric] Let_def
    by (auto split: if_splits prod.splits)
  then have *: "unat r + unat l \<le> unat b \<and> unat r \<le> unat ro \<and> unat l \<le> backlog (os_local s) \<and> unat r \<le> 262144 \<and>
      (b \<noteq> 0 \<longrightarrow> os_remoteDesired s \<noteq> os_remoteGranted s \<longrightarrow>
         os_preferRemote s \<or> os_local s = [] \<or> 2 \<le> unat b \<longrightarrow> 0 < unat r)"
  proof cases
    case swapped
    then show ?thesis
      using fairCreditAllocation_nat [OF swapped(3)] lo(1) ro by (auto simp: min_def split: if_splits)
  next
    case plain
    then show ?thesis
      using fairCreditAllocation_nat [OF plain] lo(1) ro b by (auto simp: min_def split: if_splits)
  qed
  then show "unat r + unat l \<le> unat b" "r \<le> os_remoteDesired s - os_remoteGranted s"
    "unat l \<le> backlog (os_local s)" "unat r \<le> 262144"
    by (simp_all add: word_le_nat_alt ro_def)
  show "r \<noteq> 0" if "b \<noteq> 0" "os_remoteDesired s \<noteq> os_remoteGranted s"
    "os_preferRemote s \<or> os_local s = [] \<or> 2 \<le> unat b"
    using * that by auto
qed

definition owner_ok :: "ownerCreditScheduler \<Rightarrow> bool" where
  "owner_ok s \<longleftrightarrow> os_remoteGranted s \<le> os_remoteDesired s"

lemma allocate_effects:
  assumes "allocate sent b s = ((used, m), s')" and "owner_ok s"
  shows "unat used \<le> unat b" "owner_ok s'" "os_remoteDesired s' = os_remoteDesired s" "os_grant s' = os_grant s"
    "unat (os_remoteGranted s') + (backlog (os_local s) - backlog (os_local s')) \<le> unat (os_remoteGranted s) + unat used"
    "os_remoteGranted s \<le> os_remoteGranted s'" "m = Some k \<Longrightarrow> cg_GrantedBytes k = os_remoteGranted s'"
proof -
  obtain r l where rl: "owner_split b s = (r, l)" by (cases "owner_split b s")
  note n = owner_split_nat [OF rl]
  have used: "used = r + l"
    using assms(1) rl by (auto simp: allocate_def Let_def split: if_splits)
  have l: "backlog (os_local s') = backlog (os_local s) - unat l"
    using assms(1) rl n(3) by (auto simp: allocate_def Let_def serve_local_backlog split: if_splits)
  have u: "unat used = unat r + unat l"
    using n(1) unsigned_less [of b, where 'a = nat] by (simp add: used unat_plus_if')
  show "unat used \<le> unat b" using u n(1) by simp
  show d: "os_remoteDesired s' = os_remoteDesired s" "os_grant s' = os_grant s"
    using assms(1) rl by (auto simp: allocate_def Let_def split: if_splits)
  have diff: "unat (os_remoteDesired s - os_remoteGranted s) = unat (os_remoteDesired s) - unat (os_remoteGranted s)"
    using assms(2) by (simp add: owner_ok_def unat_sub)
  then have sum: "unat (os_remoteGranted s + r) = unat (os_remoteGranted s) + unat r"
      "os_remoteGranted s + r \<le> os_remoteDesired s"
    using n(2) assms(2) unsigned_less [of "os_remoteDesired s", where 'a = nat]
    by (auto simp: owner_ok_def word_le_nat_alt unat_plus_if')
  have g: "os_remoteGranted s' = os_remoteGranted s + r \<or> os_remoteGranted s' = os_remoteGranted s"
    and m: "m = Some k \<Longrightarrow> cg_GrantedBytes k = os_remoteGranted s'"
    using assms(1) rl by (auto simp: allocate_def Let_def split: if_splits)
  show "owner_ok s'" using g sum(2) d assms(2) by (auto simp: owner_ok_def)
  show "m = Some k \<Longrightarrow> cg_GrantedBytes k = os_remoteGranted s'" by (rule m)
  show "os_remoteGranted s \<le> os_remoteGranted s'" using g sum(1) by (auto simp: word_le_nat_alt)
  show "unat (os_remoteGranted s') + (backlog (os_local s) - backlog (os_local s')) \<le> unat (os_remoteGranted s) + unat used"
    using g sum(1) l u n(3) by auto
qed

text \<open>
  While remote demand is outstanding, two ticks in a row move the grant: if both sides are
  backlogged and there is a single token, the preference alternates.
\<close>

lemma allocate_progress:
  assumes "allocate True b s = ((used, m), s')" and "owner_ok s" and "b \<noteq> 0"
    and "os_remoteDesired s \<noteq> os_remoteGranted s"
  shows "os_remoteGranted s < os_remoteGranted s' \<or> (os_preferRemote s' \<and> os_remoteGranted s' = os_remoteGranted s)"
    and "os_preferRemote s \<Longrightarrow> os_remoteGranted s < os_remoteGranted s'"
proof -
  obtain r l where rl: "owner_split b s = (r, l)" by (cases "owner_split b s")
  note n = owner_split_nat [OF rl]
  have g: "os_remoteGranted s' = os_remoteGranted s + r"
    using assms(1) rl by (auto simp: allocate_def Let_def split: if_splits)
  have le: "os_remoteGranted s \<le> os_remoteGranted s'"
    using allocate_effects(6) [OF assms(1,2)] .
  have pos: "r \<noteq> 0 \<Longrightarrow> os_remoteGranted s < os_remoteGranted s'"
    using g le by (auto simp: order_less_le)
  show "os_preferRemote s \<Longrightarrow> os_remoteGranted s < os_remoteGranted s'"
    using n(5) assms(3,4) pos by blast
  have "os_preferRemote s'" if "r = 0"
  proof -
    have "\<not> os_preferRemote s" using n(5) assms(3,4) that by blast
    moreover have "0 < local_outstanding 0 (os_local s)"
    proof (rule ccontr)
      assume "\<not> 0 < local_outstanding 0 (os_local s)"
      then have "owner_split b s = fairCreditAllocation b (os_remoteDesired s - os_remoteGranted s) 0"
        by (simp add: owner_split_def Let_def word_neq_0_conv [symmetric])
      then have "unat r = min (unat b) (unat (capBlock (os_remoteDesired s - os_remoteGranted s)))"
        using rl by (auto simp: fair_idle)
      then show False
        using that assms(3,4) by (auto simp: min_def unat_eq_0 split: if_splits)
    qed
    moreover have "0 < os_remoteDesired s - os_remoteGranted s"
      using assms(4) by (simp add: word_neq_0_conv [symmetric])
    ultimately show ?thesis
      using assms(1) rl that by (auto simp: allocate_def Let_def)
  qed
  then show "os_remoteGranted s < os_remoteGranted s' \<or> (os_preferRemote s' \<and> os_remoteGranted s' = os_remoteGranted s)"
    using pos g by auto
qed

definition owner_ticks :: "u64 list \<Rightarrow> ownerCreditScheduler \<Rightarrow> ownerCreditScheduler" where
  "owner_ticks bs s = fold (\<lambda>b s. snd (allocate True b s)) bs s"

definition ungranted :: "ownerCreditScheduler \<Rightarrow> nat" where
  "ungranted s = unat (os_remoteDesired s) - unat (os_remoteGranted s)"

lemma ungranted_0: "owner_ok s \<Longrightarrow> ungranted s = 0 \<longleftrightarrow> os_remoteGranted s = os_remoteDesired s"
  by (auto simp: ungranted_def owner_ok_def word_le_nat_alt word_unat_eq_iff)

lemma owner_ticks_meet_demand:
  "owner_ok s \<Longrightarrow> \<forall>b \<in> set bs. b \<noteq> 0 \<Longrightarrow> 2 * ungranted s \<le> length bs + (if os_preferRemote s then 1 else 0) \<Longrightarrow>
     os_remoteGranted (owner_ticks bs s) = os_remoteDesired s"
proof (induction bs arbitrary: s)
  case Nil
  then have "ungranted s = 0" by (auto split: if_splits)
  then show ?case using ungranted_0 [OF Nil(1)] by (simp add: owner_ticks_def)
next
  case (Cons b bs)
  obtain used m s' where a: "allocate True b s = ((used, m), s')"
    by (metis surj_pair)
  note fx = allocate_effects [OF a Cons.prems(1)]
  have "2 * ungranted s' \<le> length bs + (if os_preferRemote s' then 1 else 0)"
  proof (cases "os_remoteDesired s = os_remoteGranted s")
    case True
    then have "ungranted s' = 0"
      using fx(3,6) by (simp add: ungranted_def word_le_nat_alt)
    then show ?thesis by simp
  next
    case False
    have "os_remoteGranted s < os_remoteGranted s' \<or>
        (\<not> os_preferRemote s \<and> os_preferRemote s' \<and> os_remoteGranted s' = os_remoteGranted s)"
      using allocate_progress [OF a Cons.prems(1) _ False] Cons.prems(2) by auto
    then show ?thesis
      using Cons.prems(3) fx(3) by (auto simp: ungranted_def word_less_nat_alt split: if_splits)
  qed
  then have "os_remoteGranted (owner_ticks bs s') = os_remoteDesired s'"
    using Cons.IH fx(2) Cons.prems(2) by simp
  then show ?case using a fx(3) by (simp add: owner_ticks_def)
qed

section \<open>Both sides over an unreliable network\<close>

text \<open>
  The state of the composition: the two sides, every message sent so far (a message stays in its
  set when it is delivered, so that it may be lost, repeated or overtaken), the tokens charged to
  the rate of the tunnel and the bytes that local writers were allowed to send.
\<close>

record credit_net =
  cn_remote :: remoteCreditAccount
  cn_owner :: ownerCreditScheduler
  cn_demands :: "P2PCreditDemand set"
  cn_grants :: "P2PCreditGrant set"
  cn_tokens :: nat
  cn_local :: nat

definition credit_init :: "P2PTunnelGrant \<Rightarrow> credit_net" where
  "credit_init g = \<lparr>cn_remote = newRemoteCreditAccount g, cn_owner = newOwnerCreditScheduler g,
     cn_demands = {}, cn_grants = {}, cn_tokens = 0, cn_local = 0\<rparr>"

inductive credit_step :: "credit_net \<Rightarrow> credit_net \<Rightarrow> bool" where
  reserve: "Reserve_enter b (cn_remote n) = (Inr d, a) \<Longrightarrow>
     credit_step n (n\<lparr>cn_remote := a, cn_demands := insert d (cn_demands n)\<rparr>)"
| reserve_unsent: "Reserve_enter b (cn_remote n) = (Inr d, a) \<Longrightarrow>
     credit_step n (n\<lparr>cn_remote := Reserve_send_failed b a\<rparr>)"
| reserve_refused: "Reserve_enter b (cn_remote n) = (Inl r, a) \<Longrightarrow> credit_step n (n\<lparr>cn_remote := a\<rparr>)"
| demand: "d \<in> cn_demands n \<Longrightarrow> credit_step n (n\<lparr>cn_owner := snd (ApplyDemand d (cn_owner n))\<rparr>)"
| tick: "allocate sent b (cn_owner n) = ((used, m), s) \<Longrightarrow>
     credit_step n (n\<lparr>cn_owner := s, cn_grants := cn_grants n \<union> set_option m, cn_tokens := cn_tokens n + unat used,
       cn_local := cn_local n + (backlog (os_local (cn_owner n)) - backlog (os_local s))\<rparr>)"
| grant: "k \<in> cn_grants n \<Longrightarrow> credit_step n (n\<lparr>cn_remote := snd (remote_Apply k (cn_remote n))\<rparr>)"
| wake: "b \<in> set (ra_waiting (cn_remote n)) \<Longrightarrow> credit_step n (n\<lparr>cn_remote := snd (Reserve_wake b (cn_remote n))\<rparr>)"
| local: "credit_step n (n\<lparr>cn_owner := snd (owner_Reserve b (cn_owner n))\<rparr>)"
| close_remote: "credit_step n (n\<lparr>cn_remote := remote_Close (cn_remote n)\<rparr>)"
| close_owner: "credit_step n (n\<lparr>cn_owner := owner_Close (cn_owner n)\<rparr>)"

definition account_ok :: "remoteCreditAccount \<Rightarrow> bool" where
  "account_ok a \<longleftrightarrow> ra_consumed a \<le> ra_granted a \<and> ra_granted a \<le> ra_desired a \<and>
     (ra_closed a \<or> unat (ra_desired a) = unat (ra_consumed a) + backlog (ra_waiting a))"

definition credit_inv :: "credit_net \<Rightarrow> bool" where
  "credit_inv n \<longleftrightarrow> account_ok (cn_remote n) \<and> owner_ok (cn_owner n) \<and>
     (\<forall>d \<in> cn_demands n. cd_DesiredBytes d \<le> ra_desired (cn_remote n)) \<and>
     os_remoteDesired (cn_owner n) \<le> ra_desired (cn_remote n) \<and>
     (\<forall>k \<in> cn_grants n. cg_GrantedBytes k \<le> os_remoteGranted (cn_owner n)) \<and>
     ra_granted (cn_remote n) \<le> os_remoteGranted (cn_owner n) \<and>
     unat (os_remoteGranted (cn_owner n)) + cn_local n \<le> cn_tokens n"

lemma backlog_remove1: "b \<in> set rs \<Longrightarrow> backlog rs = unat b + backlog (remove1 b rs)"
  by (induction rs) auto

lemma Reserve_enter_effects:
  assumes "Reserve_enter b a = (res, a')" and "account_ok a"
  shows "account_ok a'" "ra_desired a \<le> ra_desired a'" "ra_granted a' = ra_granted a"
    "res = Inr d \<Longrightarrow> cd_DesiredBytes d = ra_desired a'" "res = Inl e \<Longrightarrow> a' = a"
proof -
  have le: "ra_desired a \<le> ra_desired a + b" if "\<not> not 0 - ra_desired a < b"
    using unat_add_headroom [OF that] by (simp add: word_le_nat_alt)
  show "ra_desired a \<le> ra_desired a'" "ra_granted a' = ra_granted a"
    "res = Inr d \<Longrightarrow> cd_DesiredBytes d = ra_desired a'" "res = Inl e \<Longrightarrow> a' = a"
    using assms(1) le by (auto simp: Reserve_enter_def Let_def split: if_splits)
  then show "account_ok a'"
    using assms unat_add_headroom [of "ra_desired a" b]
    by (auto simp: Reserve_enter_def Let_def account_ok_def split: if_splits intro: order_trans)
qed

lemma remote_Apply_effects:
  "account_ok a \<Longrightarrow> account_ok (snd (remote_Apply k a))"
  "ra_desired (snd (remote_Apply k a)) = ra_desired a"
  "ra_granted (snd (remote_Apply k a)) = ra_granted a \<or> ra_granted (snd (remote_Apply k a)) = cg_GrantedBytes k"
  by (auto simp: remote_Apply_def account_ok_def not_less split: option.splits)

lemma Reserve_wake_effects:
  assumes "account_ok a" "b \<in> set (ra_waiting a)"
  shows "account_ok (snd (Reserve_wake b a))" "ra_desired (snd (Reserve_wake b a)) = ra_desired a"
    "ra_granted (snd (Reserve_wake b a)) = ra_granted a"
proof -
  show "ra_desired (snd (Reserve_wake b a)) = ra_desired a" "ra_granted (snd (Reserve_wake b a)) = ra_granted a"
    by (simp_all add: Reserve_wake_def Let_def)
  have "unat (ra_granted a - ra_consumed a) = unat (ra_granted a) - unat (ra_consumed a)"
    using assms(1) by (simp add: account_ok_def unat_sub)
  then have "unat (ra_consumed a + b) = unat (ra_consumed a) + unat b \<and> unat (ra_consumed a) + unat b \<le> unat (ra_granted a)"
    if "\<not> ra_granted a - ra_consumed a < b"
    using that assms(1) unsigned_less [of "ra_granted a", where 'a = nat]
    by (auto simp: account_ok_def word_le_nat_alt not_less unat_plus_if')
  then show "account_ok (snd (Reserve_wake b a))"
    using assms backlog_remove1 [OF assms(2)] by (auto simp: Reserve_wake_def Let_def account_ok_def word_le_nat_alt)
qed

lemma ApplyDemand_effects:
  "owner_ok s \<Longrightarrow> owner_ok (snd (ApplyDemand d s))"
  "os_remoteDesired (snd (ApplyDemand d s)) = os_remoteDesired s \<or>
     os_remoteDesired (snd (ApplyDemand d s)) = cd_DesiredBytes d"
  "os_remoteGranted (snd (ApplyDemand d s)) = os_remoteGranted s"
  by (auto simp: ApplyDemand_def owner_ok_def not_less split: option.splits)

lemma credit_inv_init: "credit_inv (credit_init g)"
  by (simp add: credit_inv_def credit_init_def newRemoteCreditAccount_def newOwnerCreditScheduler_def account_ok_def owner_ok_def)

lemma credit_inv_step: "credit_step n n' \<Longrightarrow> credit_inv n \<Longrightarrow> credit_inv n'"
proof (induction rule: credit_step.induct)
  case (reserve b n d a)
  then show ?case
    using Reserve_enter_effects [OF reserve(1)] by (auto simp: credit_inv_def intro: order_trans)
next
  case (reserve_unsent b n d a)
  have "account_ok (Reserve_send_failed b a)" if "account_ok a"
    using that by (simp add: account_ok_def Reserve_send_failed_def remote_Close_def)
  then show ?case
    using reserve_unsent Reserve_enter_effects [OF reserve_unsent(1)]
    by (auto simp: credit_inv_def Reserve_send_failed_def remote_Close_def intro: order_trans)
next
  case (reserve_refused b n r a)
  then show ?case
    using Reserve_enter_effects(5) [OF reserve_refused(1)] by (auto simp: credit_inv_def)
next
  case (demand d n)
  then show ?case
    using ApplyDemand_effects [where s = "cn_owner n" and d = d] by (auto simp: credit_inv_def)
next
  case (tick sent b n used m s)
  have ok: "owner_ok (cn_owner n)" using tick(2) by (simp add: credit_inv_def)
  note fx = allocate_effects [OF tick(1) ok]
  have "cg_GrantedBytes k \<le> os_remoteGranted s" if "k \<in> cn_grants n \<union> set_option m" for k
    using that fx(6) fx(7) [of k] tick(2) by (auto simp: credit_inv_def intro: order_trans)
  then show ?case
    using tick(2) fx(2,3,5,6) by (auto simp: credit_inv_def intro: order_trans)
next
  case (grant k n)
  then show ?case
    using remote_Apply_effects [where a = "cn_remote n" and k = k] by (auto simp: credit_inv_def)
next
  case (wake b n)
  then show ?case
    using Reserve_wake_effects [of "cn_remote n" b] by (auto simp: credit_inv_def)
qed (auto simp: credit_inv_def owner_ok_def account_ok_def owner_Reserve_def remote_Close_def owner_Close_def)

lemma credit_reachable_inv: "credit_step\<^sup>*\<^sup>* (credit_init g) n \<Longrightarrow> credit_inv n"
  by (induction rule: rtranclp_induct) (auto intro: credit_inv_init credit_inv_step)

lemma Reserve_wake_succeeds:
  assumes "account_ok a" "\<not> ra_closed a" "ra_granted a = ra_desired a" "b \<in> set (ra_waiting a)"
  shows "Reserve_wake b a = (Some None, a\<lparr>ra_waiting := remove1 b (ra_waiting a), ra_consumed := ra_consumed a + b\<rparr>)"
proof -
  have "unat (ra_granted a - ra_consumed a) = backlog (ra_waiting a)"
    using assms by (simp add: account_ok_def unat_sub)
  then have "\<not> ra_granted a - ra_consumed a < b"
    using backlog_remove1 [OF assms(4)] by (simp add: word_less_nat_alt)
  then show ?thesis
    using assms(2) by (simp add: Reserve_wake_def Let_def)
qed

definition wake_all :: "u64 list \<Rightarrow> remoteCreditAccount \<Rightarrow> remoteCreditAccount" where
  "wake_all bs a = fold (\<lambda>b a. snd (Reserve_wake b a)) bs a"

lemma wake_all_finishes:
  "account_ok a \<Longrightarrow> \<not> ra_closed a \<Longrightarrow> ra_granted a = ra_desired a \<Longrightarrow> mset bs = mset (ra_waiting a) \<Longrightarrow>
     ra_waiting (wake_all bs a) = [] \<and> ra_consumed (wake_all bs a) = ra_desired a"
proof (induction bs arbitrary: a)
  case Nil
  then show ?case
    by (simp add: wake_all_def account_ok_def word_unat_eq_iff)
next
  case (Cons b bs)
  have b: "b \<in> set (ra_waiting a)"
    using Cons.prems(4) by (metis list.set_intros(1) mset_eq_setD)
  let ?a = "snd (Reserve_wake b a)"
  have w: "?a = a\<lparr>ra_waiting := remove1 b (ra_waiting a), ra_consumed := ra_consumed a + b\<rparr>"
    using Reserve_wake_succeeds [OF Cons.prems(1-3) b] by simp
  have "mset bs = mset (remove1 b (ra_waiting a))"
    using Cons.prems(4) by (simp flip: Cons.prems(4))
  then have "ra_waiting (wake_all bs ?a) = [] \<and> ra_consumed (wake_all bs ?a) = ra_desired ?a"
    by (intro Cons.IH) (use Reserve_wake_effects [OF Cons.prems(1) b] Cons.prems in \<open>simp_all add: w\<close>)
  then show ?case
    by (simp add: wake_all_def w)
qed

section \<open>The properties\<close>

text \<open>
  C28 (bounds): one block of tokens is divided without loss or excess: the two grants add up to the
  tokens, or to both demands when these are smaller (a demand counts for at most one block of
  \<open>sharedCreditMaxBlock\<close> bytes); neither side gets more than it asks for, and each side gets
  what it asks for or at least its half. It holds for every 64-bit value of the arguments,
  although \<open>available + 1\<close> wraps around at the largest.
\<close>

theorem fairCreditAllocation_spec:
  fixes available ingressDemand egressDemand :: u64
  defines "ci \<equiv> min (unat ingressDemand) 262144" and "ce \<equiv> min (unat egressDemand) 262144"
  defines "i \<equiv> unat (fst (fairCreditAllocation available ingressDemand egressDemand))"
    and "e \<equiv> unat (snd (fairCreditAllocation available ingressDemand egressDemand))"
  shows "i + e = min (unat available) (ci + ce) \<and> i \<le> ci \<and> e \<le> ce \<and>
    min ci ((unat available + 1) div 2) \<le> i \<and> min ce (unat available div 2) \<le> e"
  unfolding ci_def ce_def i_def e_def
  by (intro conjI; rule fairCreditAllocation_nat [OF prod.collapse [symmetric]])

text \<open>
  C8 (safety): however messages between the two ends of a tunnel are lost, repeated or
  reordered, sends fail and either side closes, the bytes the remote side has used are covered by
  credit the owner has granted, and all bytes released at both ends are covered by tokens of the
  tunnel's rate; a tick never charges more tokens than are available.
\<close>

theorem credit_flow_safe:
  assumes "credit_step\<^sup>*\<^sup>* (credit_init g) n"
  shows "ra_consumed (cn_remote n) \<le> os_remoteGranted (cn_owner n) \<and>
    unat (ra_consumed (cn_remote n)) + cn_local n \<le> cn_tokens n \<and>
    unat (fst (fst (allocate sent available (cn_owner n)))) \<le> unat available"
proof -
  have inv: "credit_inv n" by (rule credit_reachable_inv [OF assms])
  have "unat (fst (fst (allocate sent available (cn_owner n)))) \<le> unat available"
    using inv allocate_effects(1) [where s = "cn_owner n"] by (metis credit_inv_def surjective_pairing)
  moreover have "ra_consumed (cn_remote n) \<le> os_remoteGranted (cn_owner n)"
    using inv by (auto simp: credit_inv_def account_ok_def intro: order_trans)
  ultimately show ?thesis
    using inv by (auto simp: credit_inv_def word_le_nat_alt)
qed

definition demo_credit_grant :: P2PTunnelGrant where
  "demo_credit_grant = \<lparr>tg_SessionID = ''s'', tg_GrantID = ''g'', tg_TunnelID = ''t'', tg_Revision = 1,
     tg_LocalRole = ''ingress'', tg_PeerRole = ''target'', tg_LeaseSequence = 1, tg_ExpiresAt = 0, tg_TotalBPS = 1000\<rparr>"

definition demo_demand :: P2PCreditDemand where
  "demo_demand = \<lparr>cd_SessionID = ''s'', cd_GrantID = ''g'', cd_TunnelID = ''t'', cd_Revision = 1, cd_Sequence = 1, cd_DesiredBytes = 5\<rparr>"

definition demo_grant_msg :: P2PCreditGrant where
  "demo_grant_msg = \<lparr>cg_SessionID = ''s'', cg_GrantID = ''g'', cg_TunnelID = ''t'', cg_Revision = 1, cg_Sequence = 1, cg_GrantedBytes = 5\<rparr>"

text \<open>A run: demand for five bytes, its delivery, and after a tick the delivery of the grant and the wake-up.\<close>

definition demo_demanded :: credit_net where
  "demo_demanded = (credit_init demo_credit_grant)\<lparr>
     cn_remote := snd (Reserve_enter 5 (newRemoteCreditAccount demo_credit_grant)), cn_demands := {demo_demand},
     cn_owner := snd (ApplyDemand demo_demand (newOwnerCreditScheduler demo_credit_grant))\<rparr>"

definition demo_consumed :: credit_net where
  "demo_consumed = demo_demanded\<lparr>
     cn_owner := snd (allocate True 7 (cn_owner demo_demanded)), cn_grants := {demo_grant_msg}, cn_tokens := 5, cn_local := 0,
     cn_remote := snd (Reserve_wake 5 (snd (remote_Apply demo_grant_msg (cn_remote demo_demanded))))\<rparr>"

lemma demo_demanded_reachable: "credit_step\<^sup>*\<^sup>* (credit_init demo_credit_grant) demo_demanded"
proof -
  let ?n = "credit_init demo_credit_grant"
  let ?a = "snd (Reserve_enter 5 (newRemoteCreditAccount demo_credit_grant))"
  have "Reserve_enter 5 (cn_remote ?n) = (Inr demo_demand, ?a)"
    by (simp add: Reserve_enter_def newRemoteCreditAccount_def demo_credit_grant_def Let_def credit_init_def demo_demand_def)
  then have "credit_step ?n (?n\<lparr>cn_remote := ?a, cn_demands := {demo_demand}\<rparr>)" (is "credit_step _ ?m")
    using credit_step.reserve [of 5 ?n demo_demand ?a] by (simp add: credit_init_def)
  moreover have "credit_step ?m demo_demanded"
    using credit_step.demand [of demo_demand ?m] by (simp add: demo_demanded_def credit_init_def)
  ultimately show ?thesis by (meson converse_rtranclp_into_rtranclp rtranclp.rtrancl_refl)
qed

lemma demo_consumed_reachable: "credit_step\<^sup>*\<^sup>* (credit_init demo_credit_grant) demo_consumed"
proof -
  let ?s = "snd (allocate True 7 (cn_owner demo_demanded))"
  let ?m = "demo_demanded\<lparr>cn_owner := ?s, cn_grants := {demo_grant_msg}, cn_tokens := 5, cn_local := 0\<rparr>"
  let ?k = "?m\<lparr>cn_remote := snd (remote_Apply demo_grant_msg (cn_remote demo_demanded))\<rparr>"
  have a: "allocate True 7 (cn_owner demo_demanded) = ((5, Some demo_grant_msg), ?s)" "os_local ?s = []"
      "os_local (cn_owner demo_demanded) = []"
    by code_simp+
  have init: "cn_grants demo_demanded = {}" "cn_tokens demo_demanded = 0" "cn_local demo_demanded = 0"
    by (simp_all add: demo_demanded_def credit_init_def)
  have "credit_step demo_demanded ?m"
    using credit_step.tick [of True 7 demo_demanded 5 "Some demo_grant_msg" ?s] a init by simp
  moreover have "credit_step ?m ?k"
    using credit_step.grant [of demo_grant_msg ?m] by simp
  moreover have "5 \<in> set (ra_waiting (cn_remote ?k))"
    by code_simp
  then have "credit_step ?k demo_consumed"
    using credit_step.wake [of 5 ?k] by (simp add: demo_consumed_def)
  ultimately show ?thesis
    using demo_demanded_reachable by (meson rtranclp.rtrancl_into_rtrancl)
qed

theorem credit_flow_safe_witness:
  "ra_consumed (cn_remote demo_consumed) = 5 \<and> (5 :: u64) \<le> os_remoteGranted (cn_owner demo_consumed) \<and>
   cn_tokens demo_consumed = 5 \<and> unat (fst (fst (allocate True 3 (cn_owner demo_consumed)))) \<le> 3"
proof -
  have c: "ra_consumed (cn_remote demo_consumed) = 5" by code_simp
  show ?thesis
    using credit_flow_safe [OF demo_consumed_reachable, of True 3] c by (simp add: demo_consumed_def)
qed

text \<open>
  C21 (liveness): credit does not get stuck. While the account is open, an owner that has
  tokens at every tick grants all of the demand it knows in at most twice as many ticks as bytes
  are missing, even with a local backlog and one token per tick; and once the account holds all of
  the credit it asked for, every waiting \<open>Reserve\<close> returns without an error, in any order, and all
  of the demanded bytes are used.
\<close>

theorem credit_flow_live:
  assumes "credit_step\<^sup>*\<^sup>* (credit_init g) n" and "\<not> ra_closed (cn_remote n)"
  shows "((\<forall>b \<in> set bs. b \<noteq> 0) \<and> 2 * ungranted (cn_owner n) \<le> length bs \<longrightarrow>
       os_remoteGranted (owner_ticks bs (cn_owner n)) = os_remoteDesired (cn_owner n)) \<and>
    (ra_granted (cn_remote n) = ra_desired (cn_remote n) \<and> mset ws = mset (ra_waiting (cn_remote n)) \<longrightarrow>
       (\<forall>b \<in> set ws. fst (Reserve_wake b (cn_remote n)) = Some None) \<and>
       ra_waiting (wake_all ws (cn_remote n)) = [] \<and>
       ra_consumed (wake_all ws (cn_remote n)) = ra_desired (cn_remote n))"
proof (intro conjI impI; (elim conjE)?)
  have inv: "owner_ok (cn_owner n)" "account_ok (cn_remote n)"
    using credit_reachable_inv [OF assms(1)] by (simp_all add: credit_inv_def)
  show "os_remoteGranted (owner_ticks bs (cn_owner n)) = os_remoteDesired (cn_owner n)"
    if "\<forall>b \<in> set bs. b \<noteq> 0" "2 * ungranted (cn_owner n) \<le> length bs"
    using owner_ticks_meet_demand [OF inv(1) that(1)] that(2) by simp
  assume full: "ra_granted (cn_remote n) = ra_desired (cn_remote n)" and ws: "mset ws = mset (ra_waiting (cn_remote n))"
  show "\<forall>b \<in> set ws. fst (Reserve_wake b (cn_remote n)) = Some None"
    using Reserve_wake_succeeds [OF inv(2) assms(2) full] mset_eq_setD [OF ws] by simp
  show "ra_waiting (wake_all ws (cn_remote n)) = []" "ra_consumed (wake_all ws (cn_remote n)) = ra_desired (cn_remote n)"
    using wake_all_finishes [OF inv(2) assms(2) full ws] by blast+
qed

theorem credit_flow_live_witness:
  "os_remoteGranted (owner_ticks (replicate 10 1) (cn_owner demo_demanded)) = 5 \<and>
   \<not> ra_closed (cn_remote demo_demanded)"
proof -
  have o: "\<not> ra_closed (cn_remote demo_demanded)" "ungranted (cn_owner demo_demanded) = 5"
      "os_remoteDesired (cn_owner demo_demanded) = 5"
    by code_simp+
  show ?thesis
    using credit_flow_live [OF demo_demanded_reachable o(1), of "replicate 10 1" "[]"] o by simp
qed

end
