(* ===== verification/Webhook_Delivery.thy ===== *)
theory Webhook_Delivery
  imports Go_Prelude "HOL-Library.Product_Lexorder"
begin

text \<open>
  The queue of webhook deliveries (\<open>internal/server/webhook_dispatcher.go\<close>,
  \<open>webhook_store.go\<close>): a delivery waits, is claimed under a lease for one HTTP attempt, and
  is completed, retried, recovered after its lease has run out, or canceled. The tables
  \<open>activity_webhook_deliveries\<close>, \<open>activity_webhook_delivery_attempts\<close>,
  \<open>activity_webhook_dispatch_slots\<close> and \<open>activity_webhooks\<close> are lists of rows (the slots a
  function, 0 where there is no row); instants are nanoseconds. The request a template renders to
  and whether a transaction commits are arguments. The last part is about all interleavings of the
  dispatcher with concurrent attempts, cancellations and recoveries.
\<close>

section \<open>Data\<close>

datatype WebhookDeliveryStatus = WebhookDeliveryQueued | WebhookDeliveryRetrying | WebhookDeliverySuccess
  | WebhookDeliveryFailed | WebhookDeliveryCanceled

datatype WebhookDeliveryOrigin = WebhookOriginEvent | WebhookOriginTest | WebhookOriginReplay

datatype attempt_status = AttemptPending | AttemptSuccess | AttemptFailed

datatype webhook_error = ErrWebhookDailyCapReached | ErrWebhookPendingFull | ErrWebhookNotFound | ErrAttemptNotPending
  | ErrWebhookRender string | ErrWebhookDb string

record webhook_delivery =
  wd_ID :: string
  wd_OwnerUserID :: string
  wd_WebhookID :: string
  wd_Origin :: WebhookDeliveryOrigin
  wd_SourceEventID :: "int option"
  wd_Status :: WebhookDeliveryStatus
  wd_AttemptCount :: int
  wd_MaxAttempts :: int
  wd_NextAttemptAtNS :: int
  wd_LeaseUntilNS :: "int option"
  wd_Request :: string
  wd_StatusCode :: "int option"
  wd_ResponseBody :: string
  wd_Error :: string
  wd_DurationMS :: "int option"
  wd_CreatedAtNS :: int
  wd_StartedAtNS :: "int option"
  wd_CompletedAtNS :: "int option"
  wd_UpdatedAtNS :: int

record webhook_attempt =
  wa_DeliveryID :: string
  wa_Number :: int
  wa_Status :: attempt_status
  wa_StartedAtNS :: int
  wa_CompletedAtNS :: "int option"
  wa_DurationMS :: "int option"
  wa_StatusCode :: "int option"
  wa_Error :: string

record webhook_row =
  wh_OwnerUserID :: string
  wh_ID :: string
  wh_Enabled :: bool
  wh_LastStatus :: string
  wh_ConsecutiveFailures :: int
  wh_LastCalledAtNS :: "int option"

record webhookAttemptResult =
  ar_CompletedAt :: gotime
  ar_Duration :: duration
  ar_StatusCode :: int
  ar_Body :: string
  ar_RetryAfter :: duration
  ar_RetryAfterSet :: bool
  ar_Err :: "string option"

record WebhookStore =
  ws_deliveries :: "webhook_delivery list"
  ws_attempts :: "webhook_attempt list"
  ws_slots :: "string \<Rightarrow> int"
  ws_webhooks :: "webhook_row list"
  ws_active :: "string set"

abbreviation webhookUserStartInterval :: duration where
  "webhookUserStartInterval \<equiv> 2 * second"

abbreviation webhookDeliveryLease :: duration where
  "webhookDeliveryLease \<equiv> 30 * second"

abbreviation webhookRetryAfterMax :: duration where
  "webhookRetryAfterMax \<equiv> 5 * minute"

abbreviation (input) webhookMaxPendingPerUser :: nat where
  "webhookMaxPendingPerUser \<equiv> 1000"

abbreviation (input) webhookDeliveryHistoryLimit :: nat where
  "webhookDeliveryHistoryLimit \<equiv> 1000"

abbreviation (input) webhook_month :: duration where
  "webhook_month \<equiv> 30 * 24 * 60 * minute"

definition waiting :: "webhook_delivery \<Rightarrow> bool" where
  "waiting d \<longleftrightarrow> wd_Status d = WebhookDeliveryQueued \<or> wd_Status d = WebhookDeliveryRetrying"

definition terminal :: "webhook_delivery \<Rightarrow> bool" where
  "terminal d \<longleftrightarrow> \<not> waiting d"

section \<open>Retry policy\<close>

definition webhookRetryable :: "int \<Rightarrow> string option \<Rightarrow> bool" where
  "webhookRetryable statusCode err \<longleftrightarrow> err \<noteq> None \<or> statusCode = 408 \<or> statusCode = 429 \<or> 500 \<le> statusCode"

definition webhookRetryDelay :: "int \<Rightarrow> duration \<Rightarrow> bool \<Rightarrow> duration" where
  "webhookRetryDelay attempt retryAfter retryAfterSet =
     (if retryAfterSet then min retryAfter webhookRetryAfterMax
      else if attempt \<le> 1 then 5 * second else 30 * second)"

text \<open>
  \<open>strconv.Atoi\<close> accepts a sign and decimal digits within 64 bits; the product of two durations
  wraps around. \<open>parseTime\<close> stands for \<open>http.ParseTime\<close>.
\<close>

definition wrap_int64 :: "int \<Rightarrow> int" where
  "wrap_int64 n = (n + 2 ^ 63) mod 2 ^ 64 - 2 ^ 63"

definition decimal_value :: "string \<Rightarrow> int" where
  "decimal_value s = foldl (\<lambda>n c. 10 * n + int (of_char c) - 48) 0 s"

definition Atoi :: "string \<Rightarrow> int option" where
  "Atoi s =
     (let (sign, digits) = (if take 1 s = ''-'' then (- 1, drop 1 s) else if take 1 s = ''+'' then (1, drop 1 s) else (1, s));
          v = sign * decimal_value digits in
      if digits \<noteq> [] \<and> (\<forall>c \<in> set digits. CHR ''0'' \<le> c \<and> c \<le> CHR ''9'') \<and> - (2 ^ 63) \<le> v \<and> v < 2 ^ 63
      then Some v else None)"

definition parseWebhookRetryAfter :: "(string \<Rightarrow> gotime option) \<Rightarrow> string \<Rightarrow> gotime \<Rightarrow> duration \<times> bool" where
  "parseWebhookRetryAfter parseTime raw0 now =
     (let raw = trim_space raw0 in
      if raw = [] then (0, False)
      else let dated = (case parseTime raw of
             Some v \<Rightarrow> (min (max (time_sub v now) 0) webhookRetryAfterMax, True) | None \<Rightarrow> (0, False)) in
      (case Atoi raw of
         Some seconds \<Rightarrow> if 0 \<le> seconds then (min (wrap_int64 (seconds * second)) webhookRetryAfterMax, True) else dated
       | None \<Rightarrow> dated))"

section \<open>Enqueueing\<close>

definition ensureDailyCapTx :: "string \<Rightarrow> gotime \<Rightarrow> int \<Rightarrow> WebhookStore \<Rightarrow> webhook_error + unit" where
  "ensureDailyCapTx owner now cap s =
     (if 0 < cap \<and> cap \<le> int (length (filter (\<lambda>d. wd_OwnerUserID d = owner \<and>
            (wd_Origin d = WebhookOriginTest \<or> wd_Origin d = WebhookOriginReplay) \<and>
            now - 24 * 60 * minute \<le> wd_CreatedAtNS d) (ws_deliveries s)))
      then Inl ErrWebhookDailyCapReached else Inr ())"

definition ensurePendingCapTx :: "string \<Rightarrow> WebhookStore \<Rightarrow> webhook_error + unit" where
  "ensurePendingCapTx owner s =
     (if webhookMaxPendingPerUser \<le> length (filter (\<lambda>d. wd_OwnerUserID d = owner \<and> waiting d) (ws_deliveries s))
      then Inl ErrWebhookPendingFull else Inr ())"

text \<open>The row is refused when its identity exists or the event is already queued for the webhook.\<close>

definition insertWebhookDeliveryTx ::
  "string \<Rightarrow> string \<Rightarrow> string \<Rightarrow> WebhookDeliveryOrigin \<Rightarrow> int option \<Rightarrow> int \<Rightarrow> gotime \<Rightarrow> webhook_error + string \<Rightarrow>
     WebhookStore \<Rightarrow> webhook_error + WebhookStore" where
  "insertWebhookDeliveryTx i owner webhook origin event maxAttempts now rendered s =
     bind_res (ensurePendingCapTx owner s) (\<lambda>_.
     bind_res rendered (\<lambda>request.
       if (\<exists>d \<in> set (ws_deliveries s). wd_ID d = i \<or>
            (origin = WebhookOriginEvent \<and> event \<noteq> None \<and> wd_Origin d = WebhookOriginEvent \<and>
             wd_OwnerUserID d = owner \<and> wd_WebhookID d = webhook \<and> wd_SourceEventID d = event))
          \<or> \<not> (1 \<le> maxAttempts \<and> maxAttempts \<le> 3)
       then Inl (ErrWebhookDb ''constraint'')
       else Inr (s\<lparr>ws_deliveries := ws_deliveries s @ [\<lparr>wd_ID = i, wd_OwnerUserID = owner, wd_WebhookID = webhook,
              wd_Origin = origin, wd_SourceEventID = event, wd_Status = WebhookDeliveryQueued, wd_AttemptCount = 0,
              wd_MaxAttempts = maxAttempts, wd_NextAttemptAtNS = now, wd_LeaseUntilNS = None, wd_Request = request,
              wd_StatusCode = None, wd_ResponseBody = [], wd_Error = [], wd_DurationMS = None, wd_CreatedAtNS = now,
              wd_StartedAtNS = None, wd_CompletedAtNS = None, wd_UpdatedAtNS = now\<rparr>]\<rparr>)))"

section \<open>Claiming\<close>

definition update_deliveries :: "(webhook_delivery \<Rightarrow> bool) \<Rightarrow> (webhook_delivery \<Rightarrow> webhook_delivery) \<Rightarrow> WebhookStore \<Rightarrow> WebhookStore" where
  "update_deliveries P f s = s\<lparr>ws_deliveries := map (\<lambda>d. if P d then f d else d) (ws_deliveries s)\<rparr>"

text \<open>Deleting deliveries deletes their attempts.\<close>

definition delete_deliveries :: "(webhook_delivery \<Rightarrow> bool) \<Rightarrow> WebhookStore \<Rightarrow> WebhookStore" where
  "delete_deliveries P s = s\<lparr>ws_deliveries := filter (\<lambda>d. \<not> P d) (ws_deliveries s),
     ws_attempts := filter (\<lambda>a. \<not> (\<exists>d \<in> set (ws_deliveries s). P d \<and> wd_ID d = wa_DeliveryID a)) (ws_attempts s)\<rparr>"

definition due :: "string \<Rightarrow> gotime \<Rightarrow> webhook_delivery \<Rightarrow> bool" where
  "due owner now d \<longleftrightarrow> wd_OwnerUserID d = owner \<and> waiting d \<and> wd_NextAttemptAtNS d \<le> now \<and> wd_LeaseUntilNS d = None"

definition due_order :: "webhook_delivery \<Rightarrow> int \<times> int \<times> string" where
  "due_order d = (wd_NextAttemptAtNS d, wd_CreatedAtNS d, wd_ID d)"

definition claimable :: "webhook_delivery \<Rightarrow> webhook_delivery \<Rightarrow> bool" where
  "claimable d x \<longleftrightarrow> wd_ID x = wd_ID d \<and> wd_AttemptCount x = wd_AttemptCount d \<and> waiting x"

definition claimed_row :: "string \<Rightarrow> gotime \<Rightarrow> webhook_delivery \<Rightarrow> webhook_delivery" where
  "claimed_row request now x = x\<lparr>wd_AttemptCount := wd_AttemptCount x + 1, wd_LeaseUntilNS := Some (now + webhookDeliveryLease),
     wd_Request := request, wd_StartedAtNS := (case wd_StartedAtNS x of None \<Rightarrow> Some now | Some t \<Rightarrow> Some t), wd_UpdatedAtNS := now\<rparr>"

definition started_attempt :: "string \<Rightarrow> int \<Rightarrow> gotime \<Rightarrow> webhook_attempt" where
  "started_attempt i n now = \<lparr>wa_DeliveryID = i, wa_Number = n, wa_Status = AttemptPending, wa_StartedAtNS = now,
     wa_CompletedAtNS = None, wa_DurationMS = None, wa_StatusCode = None, wa_Error = []\<rparr>"

definition claim_rows :: "webhook_delivery \<Rightarrow> string \<Rightarrow> string \<Rightarrow> gotime \<Rightarrow> WebhookStore \<Rightarrow> WebhookStore" where
  "claim_rows d request owner now s =
     (update_deliveries (claimable d) (claimed_row request now) s)
       \<lparr>ws_attempts := ws_attempts s @ [started_attempt (wd_ID d) (wd_AttemptCount d + 1) now],
        ws_slots := (ws_slots s)(owner := now + webhookUserStartInterval)\<rparr>"

definition ClaimDue ::
  "(webhook_delivery \<Rightarrow> int \<Rightarrow> webhook_error + string) \<Rightarrow> bool \<Rightarrow> string \<Rightarrow> gotime \<Rightarrow> WebhookStore \<Rightarrow>
     (webhook_error + webhook_delivery option) \<times> WebhookStore" where
  "ClaimDue render db_ok owner now s =
     (if ws_slots s owner > now then (if db_ok then Inr None else Inl (ErrWebhookDb ''commit''), s)
      else case sort_key due_order (filter (due owner now) (ws_deliveries s)) of
        [] \<Rightarrow> (if db_ok then Inr None else Inl (ErrWebhookDb ''commit''), s)
      | d # _ \<Rightarrow>
          (case render d (wd_AttemptCount d + 1) of
             Inl e \<Rightarrow> (Inl e, s)
           | Inr request \<Rightarrow>
               if length (filter (claimable d) (ws_deliveries s)) \<noteq> 1 then (Inr None, s)
               else if \<exists>a \<in> set (ws_attempts s). wa_DeliveryID a = wd_ID d \<and> wa_Number a = wd_AttemptCount d + 1
               then (Inl (ErrWebhookDb ''constraint''), s)
               else if \<not> db_ok then (Inl (ErrWebhookDb ''commit''), s)
               else (Inr (Some (d\<lparr>wd_AttemptCount := wd_AttemptCount d + 1,
                       wd_LeaseUntilNS := Some (now + webhookDeliveryLease), wd_Request := request\<rparr>)),
                     claim_rows d request owner now s)))"

text \<open>The owners with work at \<open>now\<close>, after the cancellation of what can no longer be delivered.\<close>

definition webhook_exists :: "bool \<Rightarrow> string \<Rightarrow> string \<Rightarrow> WebhookStore \<Rightarrow> bool" where
  "webhook_exists needEnabled owner webhook s \<longleftrightarrow>
     (\<exists>w \<in> set (ws_webhooks s). wh_OwnerUserID w = owner \<and> wh_ID w = webhook \<and> (needEnabled \<longrightarrow> wh_Enabled w))"

definition undeliverable :: "WebhookStore \<Rightarrow> webhook_delivery \<Rightarrow> bool" where
  "undeliverable s d \<longleftrightarrow> wd_OwnerUserID d \<notin> ws_active s \<or>
     (wd_Origin d = WebhookOriginEvent \<and> \<not> webhook_exists True (wd_OwnerUserID d) (wd_WebhookID d) s) \<or>
     (wd_Origin d = WebhookOriginReplay \<and> \<not> webhook_exists False (wd_OwnerUserID d) (wd_WebhookID d) s)"

definition canceled :: "string \<Rightarrow> gotime \<Rightarrow> webhook_delivery \<Rightarrow> webhook_delivery" where
  "canceled msg now d = d\<lparr>wd_Status := WebhookDeliveryCanceled, wd_Error := msg, wd_CompletedAtNS := Some now,
     wd_UpdatedAtNS := now, wd_LeaseUntilNS := None\<rparr>"

definition cancelUndeliverableWaiting :: "gotime \<Rightarrow> WebhookStore \<Rightarrow> nat \<times> WebhookStore" where
  "cancelUndeliverableWaiting now s =
     (let P = (\<lambda>d. waiting d \<and> wd_LeaseUntilNS d = None \<and> undeliverable s d) in
      (length (filter P (ws_deliveries s)), update_deliveries P (canceled ''Webhook or user is no longer available'' now) s))"

definition cancelWaitingWebhookDeliveriesTx :: "string \<Rightarrow> string \<Rightarrow> gotime \<Rightarrow> WebhookStore \<Rightarrow> WebhookStore" where
  "cancelWaitingWebhookDeliveriesTx owner webhook now s =
     update_deliveries (\<lambda>d. wd_OwnerUserID d = owner \<and> wd_WebhookID d = webhook \<and> waiting d \<and> wd_LeaseUntilNS d = None)
       (canceled ''Webhook was disabled or deleted'' now) s"

section \<open>History\<close>

definition history_order :: "webhook_delivery \<Rightarrow> int \<times> string" where
  "history_order d = (case wd_CompletedAtNS d of None \<Rightarrow> - (2 ^ 63) | Some t \<Rightarrow> t, wd_ID d)"

definition history :: "string \<Rightarrow> string \<Rightarrow> WebhookStore \<Rightarrow> webhook_delivery list" where
  "history owner webhook s =
     rev (sort_key history_order (filter (\<lambda>d. wd_OwnerUserID d = owner \<and> wd_WebhookID d = webhook \<and> terminal d) (ws_deliveries s)))"

definition expired :: "gotime \<Rightarrow> webhook_delivery \<Rightarrow> bool" where
  "expired now d \<longleftrightarrow> (case wd_CompletedAtNS d of None \<Rightarrow> False | Some t \<Rightarrow> t < now - webhook_month)"

definition pruneWebhookHistoryTx :: "string \<Rightarrow> string \<Rightarrow> gotime \<Rightarrow> WebhookStore \<Rightarrow> WebhookStore" where
  "pruneWebhookHistoryTx owner webhook now s =
     delete_deliveries (\<lambda>d. wd_OwnerUserID d = owner \<and> wd_WebhookID d = webhook \<and> terminal d \<and>
       (expired now d \<or> wd_ID d \<notin> wd_ID ` set (take webhookDeliveryHistoryLimit (history owner webhook s)))) s"

definition webhook_Prune :: "gotime \<Rightarrow> WebhookStore \<Rightarrow> WebhookStore" where
  "webhook_Prune now s =
     delete_deliveries (\<lambda>d. terminal d \<and> (expired now d \<or>
       wd_ID d \<in> wd_ID ` set (drop webhookDeliveryHistoryLimit (history (wd_OwnerUserID d) (wd_WebhookID d) s)))) s"

definition owner_order :: "webhook_delivery list \<Rightarrow> string \<Rightarrow> int \<times> int \<times> string" where
  "owner_order ds owner =
     (let mine = filter (\<lambda>d. wd_OwnerUserID d = owner) ds in
      (foldr min (map wd_NextAttemptAtNS mine) (2 ^ 63 - 1), foldr min (map wd_CreatedAtNS mine) (2 ^ 63 - 1), owner))"

definition DueOwners :: "gotime \<Rightarrow> nat \<Rightarrow> WebhookStore \<Rightarrow> string list \<times> WebhookStore" where
  "DueOwners now limit s =
     (let (n, s1) = cancelUndeliverableWaiting now s; s2 = (if 0 < n then webhook_Prune now s1 else s1);
          ds = filter (\<lambda>d. due (wd_OwnerUserID d) now d \<and> ws_slots s2 (wd_OwnerUserID d) \<le> now) (ws_deliveries s2) in
      (take limit (sort_key (owner_order ds) (remdups (map wd_OwnerUserID ds))), s2))"

section \<open>Completing\<close>

definition webhookDeliveryCanContinueTx :: "webhook_delivery \<Rightarrow> WebhookStore \<Rightarrow> bool" where
  "webhookDeliveryCanContinueTx d s =
     (if wd_OwnerUserID d \<notin> ws_active s then False
      else if wd_Origin d = WebhookOriginTest then True
      else webhook_exists (wd_Origin d = WebhookOriginEvent) (wd_OwnerUserID d) (wd_WebhookID d) s)"

definition webhookAttemptError :: "webhookAttemptResult \<Rightarrow> string" where
  "webhookAttemptError r =
     (case ar_Err r of Some e \<Rightarrow> e
      | None \<Rightarrow> if ar_StatusCode r < 200 \<or> 300 \<le> ar_StatusCode r then ''HTTP '' @ itoa (ar_StatusCode r) else [])"

definition updateWebhookHealthTx :: "webhook_delivery \<Rightarrow> WebhookDeliveryStatus \<Rightarrow> gotime \<Rightarrow> WebhookStore \<Rightarrow> WebhookStore" where
  "updateWebhookHealthTx d status now s =
     (let upd = (\<lambda>f. s\<lparr>ws_webhooks := map (\<lambda>w. if wh_OwnerUserID w = wd_OwnerUserID d \<and> wh_ID w = wd_WebhookID d
                     then (f w)\<lparr>wh_LastCalledAtNS := Some now\<rparr> else w) (ws_webhooks s)\<rparr>) in
      case status of
        WebhookDeliveryRetrying \<Rightarrow> upd (\<lambda>w. w\<lparr>wh_LastStatus := ''retrying''\<rparr>)
      | WebhookDeliverySuccess \<Rightarrow> upd (\<lambda>w. w\<lparr>wh_LastStatus := ''success'', wh_ConsecutiveFailures := 0\<rparr>)
      | WebhookDeliveryFailed \<Rightarrow> upd (\<lambda>w. w\<lparr>wh_LastStatus := ''failed'', wh_ConsecutiveFailures := wh_ConsecutiveFailures w + 1\<rparr>)
      | _ \<Rightarrow> s)"

definition attempt_succeeded :: "webhookAttemptResult \<Rightarrow> bool" where
  "attempt_succeeded r \<longleftrightarrow> ar_Err r = None \<and> 200 \<le> ar_StatusCode r \<and> ar_StatusCode r < 300"

text \<open>The status after an attempt, the message of the delivery and the time of the next attempt.\<close>

definition attempt_outcome ::
  "webhook_delivery \<Rightarrow> webhookAttemptResult \<Rightarrow> WebhookStore \<Rightarrow> WebhookDeliveryStatus \<times> string \<times> int" where
  "attempt_outcome d r s =
     (if attempt_succeeded r then (WebhookDeliverySuccess, webhookAttemptError r, ar_CompletedAt r)
      else if webhookRetryable (ar_StatusCode r) (ar_Err r) \<and> wd_AttemptCount d < wd_MaxAttempts d
      then if webhookDeliveryCanContinueTx d s
           then (WebhookDeliveryRetrying, webhookAttemptError r,
                 ar_CompletedAt r + webhookRetryDelay (wd_AttemptCount d) (ar_RetryAfter r) (ar_RetryAfterSet r))
           else (WebhookDeliveryCanceled, ''Webhook or user is no longer available'', ar_CompletedAt r)
      else (WebhookDeliveryFailed, webhookAttemptError r, ar_CompletedAt r))"

definition is_attempt :: "string \<Rightarrow> int \<Rightarrow> webhook_attempt \<Rightarrow> bool" where
  "is_attempt i n a \<longleftrightarrow> wa_DeliveryID a = i \<and> wa_Number a = n \<and> wa_Status a = AttemptPending"

definition finished_attempt :: "webhookAttemptResult \<Rightarrow> webhook_attempt \<Rightarrow> webhook_attempt" where
  "finished_attempt r a = a\<lparr>wa_Status := (if attempt_succeeded r then AttemptSuccess else AttemptFailed),
     wa_CompletedAtNS := Some (ar_CompletedAt r), wa_DurationMS := Some (max (ar_Duration r div millisecond) 0),
     wa_StatusCode := (if 0 < ar_StatusCode r then Some (ar_StatusCode r) else None), wa_Error := webhookAttemptError r\<rparr>"

definition finished_delivery :: "WebhookDeliveryStatus \<times> string \<times> int \<Rightarrow> webhookAttemptResult \<Rightarrow> webhook_delivery \<Rightarrow> webhook_delivery" where
  "finished_delivery outcome r x =
     (case outcome of (final, msg, nextAt) \<Rightarrow> x\<lparr>wd_Status := final, wd_NextAttemptAtNS := nextAt, wd_LeaseUntilNS := None,
        wd_StatusCode := (if 0 < ar_StatusCode r then Some (ar_StatusCode r) else None), wd_ResponseBody := ar_Body r,
        wd_Error := msg, wd_DurationMS := Some (max (ar_Duration r div millisecond) 0),
        wd_CompletedAtNS := (if final = WebhookDeliveryRetrying then None else Some (ar_CompletedAt r)),
        wd_UpdatedAtNS := ar_CompletedAt r\<rparr>)"

definition finish_rows :: "webhook_delivery \<Rightarrow> webhookAttemptResult \<Rightarrow> WebhookStore \<Rightarrow> WebhookStore" where
  "finish_rows d r s =
     update_deliveries (\<lambda>x. wd_ID x = wd_ID d) (finished_delivery (attempt_outcome d r s) r)
       (s\<lparr>ws_attempts := map (\<lambda>a. if is_attempt (wd_ID d) (wd_AttemptCount d) a then finished_attempt r a else a) (ws_attempts s)\<rparr>)"

definition CompleteAttempt ::
  "bool \<Rightarrow> webhook_delivery \<Rightarrow> webhookAttemptResult \<Rightarrow> WebhookStore \<Rightarrow> (webhook_error + WebhookDeliveryStatus) \<times> WebhookStore" where
  "CompleteAttempt db_ok d r s =
     (if length (filter (is_attempt (wd_ID d) (wd_AttemptCount d)) (ws_attempts s)) \<noteq> 1 then (Inl ErrAttemptNotPending, s)
      else let final = fst (attempt_outcome d r s); now = ar_CompletedAt r; s2 = finish_rows d r s;
           s3 = (if wd_Origin d \<noteq> WebhookOriginTest then updateWebhookHealthTx d final now s2 else s2);
           s4 = (if final \<noteq> WebhookDeliveryRetrying then pruneWebhookHistoryTx (wd_OwnerUserID d) (wd_WebhookID d) now s3 else s3) in
      if db_ok then (Inr final, s4) else (Inl (ErrWebhookDb ''commit''), s))"

section \<open>Recovery\<close>

definition lease_over :: "gotime \<Rightarrow> webhook_delivery \<Rightarrow> bool" where
  "lease_over now d \<longleftrightarrow> (case wd_LeaseUntilNS d of None \<Rightarrow> False | Some t \<Rightarrow> t \<le> now)"

definition interrupted_attempt :: "gotime \<Rightarrow> webhook_attempt \<Rightarrow> webhook_attempt" where
  "interrupted_attempt now a = a\<lparr>wa_Status := AttemptFailed, wa_CompletedAtNS := Some now,
     wa_DurationMS := Some (max 0 ((now - wa_StartedAtNS a) div 1000000)), wa_Error := ''server interrupted the request''\<rparr>"

definition interrupted_delivery :: "gotime \<Rightarrow> webhook_delivery \<Rightarrow> webhook_delivery" where
  "interrupted_delivery now d = d\<lparr>
     wd_Status := (if wd_AttemptCount d < wd_MaxAttempts d then WebhookDeliveryRetrying else WebhookDeliveryFailed),
     wd_NextAttemptAtNS := now, wd_LeaseUntilNS := None,
     wd_CompletedAtNS := (if wd_MaxAttempts d \<le> wd_AttemptCount d then Some now else None),
     wd_Error := ''server interrupted the request'', wd_UpdatedAtNS := now\<rparr>"

definition after_terminal :: "gotime \<Rightarrow> webhook_delivery \<Rightarrow> WebhookStore \<Rightarrow> WebhookStore" where
  "after_terminal now d s =
     pruneWebhookHistoryTx (wd_OwnerUserID d) (wd_WebhookID d) now
       (if wd_Origin d \<noteq> WebhookOriginTest then updateWebhookHealthTx d WebhookDeliveryFailed now s else s)"

definition stuck :: "gotime \<Rightarrow> webhook_delivery \<Rightarrow> bool" where
  "stuck now d \<longleftrightarrow> waiting d \<and> lease_over now d"

definition interrupt_rows :: "gotime \<Rightarrow> WebhookStore \<Rightarrow> WebhookStore" where
  "interrupt_rows now s =
     update_deliveries (stuck now) (interrupted_delivery now)
       (s\<lparr>ws_attempts := map (\<lambda>a. if wa_Status a = AttemptPending \<and>
              wa_DeliveryID a \<in> wd_ID ` set (filter (lease_over now) (ws_deliveries s))
            then interrupted_attempt now a else a) (ws_attempts s)\<rparr>)"

definition RecoverInterrupted :: "bool \<Rightarrow> gotime \<Rightarrow> WebhookStore \<Rightarrow> webhook_error option \<times> WebhookStore" where
  "RecoverInterrupted db_ok now s =
     (let ended = filter (\<lambda>d. stuck now d \<and> wd_MaxAttempts d \<le> wd_AttemptCount d) (ws_deliveries s) in
      if db_ok then (None, fold (after_terminal now) ended (interrupt_rows now s)) else (Some (ErrWebhookDb ''commit''), s))"

end
