(* ===== verification/Webhook_Runs.thy ===== *)
theory Webhook_Runs
  imports Webhook_Delivery
begin

text \<open>
  The webhook queue as a system: every interleaving of enqueueing, claiming, completing (by any
  worker that ever claimed, however late), recovering, canceling, pruning and configuration
  changes. The invariant ties each delivery to its attempts; the log of claims shows how often and
  how fast requests are sent.
\<close>

section \<open>The invariant of the tables\<close>

definition delivery_ok :: "webhook_delivery \<Rightarrow> bool" where
  "delivery_ok d \<longleftrightarrow> 1 \<le> wd_MaxAttempts d \<and> wd_MaxAttempts d \<le> 3 \<and> 0 \<le> wd_AttemptCount d \<and>
     wd_AttemptCount d \<le> wd_MaxAttempts d \<and> (wd_CompletedAtNS d \<noteq> None \<longleftrightarrow> terminal d) \<and>
     (wd_LeaseUntilNS d \<noteq> None \<longrightarrow> waiting d \<and> 1 \<le> wd_AttemptCount d) \<and>
     (waiting d \<and> wd_LeaseUntilNS d = None \<longrightarrow> wd_AttemptCount d < wd_MaxAttempts d)"

definition attempt_key :: "webhook_attempt \<Rightarrow> string \<times> int" where
  "attempt_key a = (wa_DeliveryID a, wa_Number a)"

text \<open>Attempts are numbered without gaps; one is pending exactly when the delivery is leased, and it is the last.\<close>

definition keys_ok :: "WebhookStore \<Rightarrow> bool" where
  "keys_ok s \<longleftrightarrow> distinct (map attempt_key (ws_attempts s)) \<and>
     (\<forall>i n. (i, n) \<in> attempt_key ` set (ws_attempts s) \<longleftrightarrow>
        (\<exists>d \<in> set (ws_deliveries s). wd_ID d = i \<and> 1 \<le> n \<and> n \<le> wd_AttemptCount d))"

definition pending_ok :: "WebhookStore \<Rightarrow> bool" where
  "pending_ok s \<longleftrightarrow> (\<forall>a \<in> set (ws_attempts s). \<forall>d \<in> set (ws_deliveries s). wa_DeliveryID a = wd_ID d \<longrightarrow>
     (wa_Status a = AttemptPending \<longleftrightarrow> wd_LeaseUntilNS d \<noteq> None \<and> wa_Number a = wd_AttemptCount d))"

definition webhook_ok :: "WebhookStore \<Rightarrow> bool" where
  "webhook_ok s \<longleftrightarrow> distinct (map wd_ID (ws_deliveries s)) \<and> (\<forall>d \<in> set (ws_deliveries s). delivery_ok d) \<and>
     keys_ok s \<and> pending_ok s"

definition webhook_sig :: "webhook_delivery \<Rightarrow> string \<times> int \<times> int" where
  "webhook_sig d = (wd_ID d, wd_AttemptCount d, wd_MaxAttempts d)"

definition settled :: "string \<Rightarrow> WebhookStore \<Rightarrow> bool" where
  "settled i s \<longleftrightarrow> (\<forall>d \<in> set (ws_deliveries s). wd_ID d = i \<longrightarrow> terminal d)"

lemma webhook_okD:
  assumes "webhook_ok s"
  shows "distinct (map wd_ID (ws_deliveries s))" "\<And>d. d \<in> set (ws_deliveries s) \<Longrightarrow> delivery_ok d"
    "keys_ok s" "pending_ok s"
  using assms by (auto simp: webhook_ok_def)

lemma same_delivery:
  "webhook_ok s \<Longrightarrow> d \<in> set (ws_deliveries s) \<Longrightarrow> e \<in> set (ws_deliveries s) \<Longrightarrow> wd_ID d = wd_ID e \<Longrightarrow> d = e"
  by (auto simp: webhook_ok_def distinct_map inj_on_def)

lemma pending_okD:
  assumes "webhook_ok s" "a \<in> set (ws_attempts s)" "d \<in> set (ws_deliveries s)" "wa_DeliveryID a = wd_ID d"
  shows "wa_Status a = AttemptPending \<longleftrightarrow> wd_LeaseUntilNS d \<noteq> None \<and> wa_Number a = wd_AttemptCount d"
  using webhook_okD(4)[OF assms(1)] assms(2-) by (auto simp: pending_ok_def)

lemma attempt_has_delivery:
  assumes ok: "webhook_ok s" and a: "a \<in> set (ws_attempts s)"
  obtains d where "d \<in> set (ws_deliveries s)" "wd_ID d = wa_DeliveryID a" "1 \<le> wa_Number a" "wa_Number a \<le> wd_AttemptCount d"
proof -
  have "(wa_DeliveryID a, wa_Number a) \<in> attempt_key ` set (ws_attempts s)" using a by (force simp: attempt_key_def)
  with webhook_okD(3)[OF ok] that show ?thesis unfolding keys_ok_def by blast
qed

text \<open>Rewriting rows in place: the identity and the number of attempts of every row stay.\<close>

lemma rewrite_ok:
  assumes ok: "webhook_ok s"
    and f: "\<And>d. d \<in> set (ws_deliveries s) \<Longrightarrow> webhook_sig (f d) = webhook_sig d \<and> delivery_ok (f d)"
    and g: "\<And>a. attempt_key (g a) = attempt_key a"
    and p: "\<And>a d. a \<in> set (ws_attempts s) \<Longrightarrow> d \<in> set (ws_deliveries s) \<Longrightarrow> wa_DeliveryID a = wd_ID d \<Longrightarrow>
       (wa_Status (g a) = AttemptPending \<longleftrightarrow> wd_LeaseUntilNS (f d) \<noteq> None \<and> wa_Number a = wd_AttemptCount d)"
    and s': "ws_deliveries s' = map f (ws_deliveries s)" "ws_attempts s' = map g (ws_attempts s)"
  shows "webhook_ok s'"
proof -
  have ids: "wd_ID (f d) = wd_ID d" "wd_AttemptCount (f d) = wd_AttemptCount d" if "d \<in> set (ws_deliveries s)" for d
    using f[OF that] by (simp_all add: webhook_sig_def)
  have gk: "wa_DeliveryID (g a) = wa_DeliveryID a" "wa_Number (g a) = wa_Number a" for a
    using g[of a] by (simp_all add: attempt_key_def)
  have "map wd_ID (map f (ws_deliveries s)) = map wd_ID (ws_deliveries s)" using ids by simp
  then have m: "distinct (map wd_ID (ws_deliveries s'))" using webhook_okD(1)[OF ok] s' by metis
  have "keys_ok s'" using webhook_okD(3)[OF ok] ids g
    by (simp add: keys_ok_def s' comp_def image_image)
  moreover have "pending_ok s'" unfolding pending_ok_def s' using p ids gk by auto
  moreover have "\<forall>d \<in> set (ws_deliveries s'). delivery_ok d" using f by (simp add: s')
  ultimately show ?thesis using m by (simp add: webhook_ok_def)
qed

lemma delete_deliveries_ok:
  assumes ok: "webhook_ok s"
  shows "webhook_ok (delete_deliveries P s)"
proof -
  let ?s = "delete_deliveries P s"
  have keep: "a \<in> set (ws_attempts ?s) \<longleftrightarrow> a \<in> set (ws_attempts s) \<and> (\<exists>d \<in> set (ws_deliveries ?s). wd_ID d = wa_DeliveryID a)" for a
  proof (cases "a \<in> set (ws_attempts s)")
    case True
    then obtain d where "d \<in> set (ws_deliveries s)" "wd_ID d = wa_DeliveryID a" using attempt_has_delivery[OF ok] by blast
    then show ?thesis using True by (auto simp: delete_deliveries_def) (metis same_delivery[OF ok])
  qed (simp add: delete_deliveries_def)
  have sub: "set (ws_deliveries ?s) \<subseteq> set (ws_deliveries s)" "set (ws_attempts ?s) \<subseteq> set (ws_attempts s)"
    by (auto simp: delete_deliveries_def)
  have dist: "distinct (map wd_ID (ws_deliveries ?s))" "distinct (map attempt_key (ws_attempts ?s))"
    using webhook_okD(1,3)[OF ok] by (simp_all add: delete_deliveries_def keys_ok_def distinct_map_filter)
  have "(i, n) \<in> attempt_key ` set (ws_attempts ?s) \<longleftrightarrow>
      (\<exists>d \<in> set (ws_deliveries ?s). wd_ID d = i \<and> 1 \<le> n \<and> n \<le> wd_AttemptCount d)" (is "?l \<longleftrightarrow> ?r") for i n
  proof
    assume ?l
    then obtain a where a: "a \<in> set (ws_attempts ?s)" "i = wa_DeliveryID a" "n = wa_Number a" by (auto simp: attempt_key_def)
    then obtain d where d: "d \<in> set (ws_deliveries ?s)" "wd_ID d = i" using keep by blast
    from a sub obtain e where "e \<in> set (ws_deliveries s)" "wd_ID e = i" "1 \<le> n" "n \<le> wd_AttemptCount e"
      using attempt_has_delivery[OF ok, of a] by blast
    with d sub same_delivery[OF ok, of d e] show ?r by auto
  next
    assume ?r
    then obtain d where d: "d \<in> set (ws_deliveries ?s)" "wd_ID d = i" "1 \<le> n" "n \<le> wd_AttemptCount d" by blast
    then have "(i, n) \<in> attempt_key ` set (ws_attempts s)" using webhook_okD(3)[OF ok] sub unfolding keys_ok_def by blast
    with d keep show ?l by (force simp: attempt_key_def image_iff)
  qed
  then have "keys_ok ?s" using dist by (simp add: keys_ok_def)
  moreover have "pending_ok ?s" using webhook_okD(4)[OF ok] sub unfolding pending_ok_def by blast
  ultimately show ?thesis using dist(1) webhook_okD(2)[OF ok] sub by (auto simp: webhook_ok_def)
qed

section \<open>Maintenance of the tables\<close>

text \<open>
  What the operations that start no request promise: the invariant stays, no row is added or loses
  track of its attempts, the dispatch slots are not touched, and a delivery that is over stays so.
\<close>

locale webhook_maintenance =
  fixes f :: "WebhookStore \<Rightarrow> WebhookStore"
  assumes keeps_ok: "webhook_ok s \<Longrightarrow> webhook_ok (f s)"
    and keeps_sig: "webhook_ok s \<Longrightarrow> webhook_sig ` set (ws_deliveries (f s)) \<subseteq> webhook_sig ` set (ws_deliveries s)"
    and keeps_slots: "webhook_ok s \<Longrightarrow> ws_slots (f s) = ws_slots s"
    and keeps_settled: "webhook_ok s \<Longrightarrow> settled i s \<Longrightarrow> settled i (f s)"

lemma maintenance_id: "webhook_maintenance (\<lambda>s. s)"
  by unfold_locales simp_all

lemma maintenance_comp:
  assumes "webhook_maintenance f" "webhook_maintenance g"
  shows "webhook_maintenance (\<lambda>s. g (f s))"
proof -
  note f = webhook_maintenance.keeps_ok[OF assms(1)] and g = webhook_maintenance.keeps_ok[OF assms(2)]
  show ?thesis
  proof
    fix s assume ok: "webhook_ok s"
    show "webhook_ok (g (f s))" using f g ok by simp
    show "webhook_sig ` set (ws_deliveries (g (f s))) \<subseteq> webhook_sig ` set (ws_deliveries s)"
      using webhook_maintenance.keeps_sig[OF assms(2) f[OF ok]] webhook_maintenance.keeps_sig[OF assms(1) ok] by (rule order_trans)
    show "ws_slots (g (f s)) = ws_slots s"
      by (simp add: webhook_maintenance.keeps_slots[OF assms(2) f[OF ok]] webhook_maintenance.keeps_slots[OF assms(1) ok])
    show "settled i (g (f s))" if "settled i s" for i
      by (intro webhook_maintenance.keeps_settled[OF assms(2) f[OF ok]] webhook_maintenance.keeps_settled[OF assms(1) ok that])
  qed
qed

lemma maintenance_fold:
  "(\<And>x. webhook_maintenance (f x)) \<Longrightarrow> webhook_maintenance (fold f xs)"
proof (induction xs)
  case Nil
  show ?case using maintenance_id by (simp add: id_def)
next
  case (Cons x xs)
  have "webhook_maintenance (\<lambda>s. fold f xs (f x s))"
    by (rule maintenance_comp[OF Cons.prems Cons.IH[OF Cons.prems]])
  then show ?case by (simp add: comp_def)
qed

text \<open>Rows that are not looked at: a change of the webhooks or of the active users.\<close>

lemma maintenance_config:
  assumes "\<And>s. ws_deliveries (f s) = ws_deliveries s" "\<And>s. ws_attempts (f s) = ws_attempts s" "\<And>s. ws_slots (f s) = ws_slots s"
  shows "webhook_maintenance f"
  by unfold_locales (simp_all add: webhook_ok_def keys_ok_def pending_ok_def settled_def assms)

lemma maintenance_delete: "webhook_maintenance (\<lambda>s. delete_deliveries (P s) s)"
  by unfold_locales (auto simp: delete_deliveries_ok, auto simp: delete_deliveries_def settled_def)

lemma delivery_ok_canceled:
  "delivery_ok d \<Longrightarrow> delivery_ok (canceled msg now d)"
  by (auto simp: delivery_ok_def canceled_def waiting_def terminal_def)

lemma webhook_sigs [simp]:
  "webhook_sig (canceled msg now d) = webhook_sig d" "webhook_sig (interrupted_delivery now d) = webhook_sig d"
  "webhook_sig (finished_delivery outcome r d) = webhook_sig d"
  by (cases outcome; simp add: webhook_sig_def canceled_def interrupted_delivery_def finished_delivery_def)+

lemma sig_update [simp]:
  assumes "\<And>d. webhook_sig (f d) = webhook_sig d"
  shows "webhook_sig ` set (ws_deliveries (update_deliveries P f s)) = webhook_sig ` set (ws_deliveries s)"
proof -
  have "map webhook_sig (ws_deliveries (update_deliveries P f s)) = map webhook_sig (ws_deliveries s)"
    by (simp add: update_deliveries_def assms)
  then show ?thesis by (metis set_map)
qed

lemma maintenance_cancel:
  assumes P: "\<And>s d. P s d \<Longrightarrow> wd_LeaseUntilNS d = None"
  shows "webhook_maintenance (\<lambda>s. update_deliveries (P s) (canceled msg now) s)"
proof
  fix s assume ok: "webhook_ok s"
  let ?f = "\<lambda>d. if P s d then canceled msg now d else d"
  have d: "ws_deliveries (update_deliveries (P s) (canceled msg now) s) = map ?f (ws_deliveries s)"
    and a: "ws_attempts (update_deliveries (P s) (canceled msg now) s) = map (\<lambda>a. a) (ws_attempts s)"
    by (simp_all add: update_deliveries_def)
  show "webhook_ok (update_deliveries (P s) (canceled msg now) s)"
  proof (rule rewrite_ok[OF ok _ _ _ d a])
    show "webhook_sig (?f d) = webhook_sig d \<and> delivery_ok (?f d)" if "d \<in> set (ws_deliveries s)" for d
      using webhook_okD(2)[OF ok that] by (simp add: delivery_ok_canceled)
    show "wa_Status a = AttemptPending \<longleftrightarrow> wd_LeaseUntilNS (?f d) \<noteq> None \<and> wa_Number a = wd_AttemptCount d"
      if "a \<in> set (ws_attempts s)" "d \<in> set (ws_deliveries s)" "wa_DeliveryID a = wd_ID d" for a d
      using pending_okD[OF ok that] P by (auto simp: canceled_def)
  qed simp
  show "webhook_sig ` set (ws_deliveries (update_deliveries (P s) (canceled msg now) s)) \<subseteq> webhook_sig ` set (ws_deliveries s)"
    by simp
  show "ws_slots (update_deliveries (P s) (canceled msg now) s) = ws_slots s" by (simp add: update_deliveries_def)
  show "settled i (update_deliveries (P s) (canceled msg now) s)" if "settled i s" for i
    using that unfolding settled_def d by (auto simp: canceled_def terminal_def waiting_def)
qed

subsection \<open>Interrupted attempts\<close>

lemma lease_over_iff: "lease_over now d \<longleftrightarrow> (\<exists>t. wd_LeaseUntilNS d = Some t \<and> t \<le> now)"
  by (auto simp: lease_over_def split: option.splits)

lemma delivery_ok_interrupted: "delivery_ok d \<Longrightarrow> stuck now d \<Longrightarrow> delivery_ok (interrupted_delivery now d)"
  by (auto simp: delivery_ok_def interrupted_delivery_def waiting_def terminal_def)

lemma maintenance_interrupt: "webhook_maintenance (interrupt_rows now)"
proof
  fix s assume ok: "webhook_ok s"
  let ?f = "\<lambda>d. if stuck now d then interrupted_delivery now d else d"
  let ?g = "\<lambda>a. if wa_Status a = AttemptPending \<and> wa_DeliveryID a \<in> wd_ID ` set (filter (lease_over now) (ws_deliveries s))
            then interrupted_attempt now a else a"
  have d: "ws_deliveries (interrupt_rows now s) = map ?f (ws_deliveries s)"
    and a: "ws_attempts (interrupt_rows now s) = map ?g (ws_attempts s)"
    by (simp_all add: interrupt_rows_def update_deliveries_def)
  have st: "stuck now d \<longleftrightarrow> lease_over now d" if "d \<in> set (ws_deliveries s)" for d
    using webhook_okD(2)[OF ok that] by (auto simp: stuck_def delivery_ok_def lease_over_iff)
  show "webhook_ok (interrupt_rows now s)"
  proof (rule rewrite_ok[OF ok _ _ _ d a])
    show "webhook_sig (?f d) = webhook_sig d \<and> delivery_ok (?f d)" if "d \<in> set (ws_deliveries s)" for d
      using webhook_okD(2)[OF ok that] by (simp add: delivery_ok_interrupted)
    show "attempt_key (?g a) = attempt_key a" for a by (simp add: attempt_key_def interrupted_attempt_def)
    fix a d assume ad: "a \<in> set (ws_attempts s)" "d \<in> set (ws_deliveries s)" "wa_DeliveryID a = wd_ID d"
    have over: "wa_DeliveryID a \<in> wd_ID ` set (filter (lease_over now) (ws_deliveries s)) \<longleftrightarrow> lease_over now d"
      using ad same_delivery[OF ok] by auto
    show "wa_Status (?g a) = AttemptPending \<longleftrightarrow> wd_LeaseUntilNS (?f d) \<noteq> None \<and> wa_Number a = wd_AttemptCount d"
      unfolding over st[OF ad(2)] using pending_okD[OF ok ad] by (auto simp: interrupted_attempt_def interrupted_delivery_def)
  qed
  show "webhook_sig ` set (ws_deliveries (interrupt_rows now s)) \<subseteq> webhook_sig ` set (ws_deliveries s)"
    by (simp add: interrupt_rows_def)
  show "ws_slots (interrupt_rows now s) = ws_slots s" by (simp add: interrupt_rows_def update_deliveries_def)
  show "settled i (interrupt_rows now s)" if "settled i s" for i
    using that unfolding settled_def d by (auto simp: stuck_def terminal_def interrupted_delivery_def)
qed

subsection \<open>Finished attempts\<close>

definition same_limit :: "webhook_delivery \<Rightarrow> WebhookStore \<Rightarrow> bool" where
  "same_limit c s \<longleftrightarrow> (\<forall>d \<in> set (ws_deliveries s). wd_ID d = wd_ID c \<longrightarrow> wd_MaxAttempts d = wd_MaxAttempts c)"

lemma attempt_outcome_cases:
  assumes "fst (attempt_outcome d r s) = final"
  shows "final \<noteq> WebhookDeliveryQueued" "final = WebhookDeliveryRetrying \<Longrightarrow> wd_AttemptCount d < wd_MaxAttempts d"
  using assms by (auto simp: attempt_outcome_def split: if_splits)

text \<open>The row whose pending attempt a worker finishes is still leased for that attempt.\<close>

lemma pending_row:
  assumes ok: "webhook_ok s" and one: "length (filter (is_attempt (wd_ID c) (wd_AttemptCount c)) (ws_attempts s)) = 1"
  obtains d where "d \<in> set (ws_deliveries s)" "wd_ID d = wd_ID c" "wd_AttemptCount d = wd_AttemptCount c"
    "wd_LeaseUntilNS d \<noteq> None" "waiting d"
proof -
  have "filter (is_attempt (wd_ID c) (wd_AttemptCount c)) (ws_attempts s) \<noteq> []" using one by auto
  then obtain a where a: "a \<in> set (ws_attempts s)" "is_attempt (wd_ID c) (wd_AttemptCount c) a"
    by (auto simp: filter_empty_conv)
  then obtain d where d: "d \<in> set (ws_deliveries s)" "wd_ID d = wa_DeliveryID a" using attempt_has_delivery[OF ok] by blast
  with a pending_okD[OF ok a(1) d(1)] webhook_okD(2)[OF ok d(1)] that show ?thesis
    by (auto simp: is_attempt_def delivery_ok_def)
qed

lemma finish_rows_ok:
  assumes ok: "webhook_ok s" and lim: "same_limit c s"
    and one: "length (filter (is_attempt (wd_ID c) (wd_AttemptCount c)) (ws_attempts s)) = 1"
  shows "webhook_ok (finish_rows c r s)"
proof -
  let ?o = "attempt_outcome c r s"
  let ?f = "\<lambda>x. if wd_ID x = wd_ID c then finished_delivery ?o r x else x"
  let ?g = "\<lambda>a. if is_attempt (wd_ID c) (wd_AttemptCount c) a then finished_attempt r a else a"
  have da: "ws_deliveries (finish_rows c r s) = map ?f (ws_deliveries s)" "ws_attempts (finish_rows c r s) = map ?g (ws_attempts s)"
    by (simp_all add: finish_rows_def update_deliveries_def)
  obtain e where e: "e \<in> set (ws_deliveries s)" "wd_ID e = wd_ID c" "wd_AttemptCount e = wd_AttemptCount c"
    "wd_LeaseUntilNS e \<noteq> None" "waiting e" using pending_row[OF ok one] by blast
  have only: "d = e" if "d \<in> set (ws_deliveries s)" "wd_ID d = wd_ID c" for d using same_delivery[OF ok that(1) e(1)] that e by simp
  have "delivery_ok (finished_delivery ?o r e)"
    using webhook_okD(2)[OF ok e(1)] attempt_outcome_cases[OF refl, of c r s] lim e
    by (cases ?o; cases "fst ?o") (auto simp: finished_delivery_def delivery_ok_def waiting_def terminal_def same_limit_def)
  then have f: "webhook_sig (?f d) = webhook_sig d \<and> delivery_ok (?f d)" if "d \<in> set (ws_deliveries s)" for d
    using that only webhook_okD(2)[OF ok that] by auto
  show ?thesis
  proof (rule rewrite_ok[OF ok f _ _ da])
    show "attempt_key (?g a) = attempt_key a" for a by (simp add: attempt_key_def finished_attempt_def)
    show "wa_Status (?g a) = AttemptPending \<longleftrightarrow> wd_LeaseUntilNS (?f d) \<noteq> None \<and> wa_Number a = wd_AttemptCount d"
      if ad: "a \<in> set (ws_attempts s)" "d \<in> set (ws_deliveries s)" "wa_DeliveryID a = wd_ID d" for a d
      using pending_okD[OF ok ad] only[OF ad(2)] e(3) ad(3)
      by (cases ?o) (auto simp: is_attempt_def finished_attempt_def finished_delivery_def)
  qed
qed

lemma finish_rows_settled:
  assumes ok: "webhook_ok s" and one: "length (filter (is_attempt (wd_ID c) (wd_AttemptCount c)) (ws_attempts s)) = 1"
    and i: "settled i s"
  shows "settled i (finish_rows c r s)"
proof -
  obtain e where "e \<in> set (ws_deliveries s)" "wd_ID e = wd_ID c" "waiting e" using pending_row[OF ok one] by blast
  then have "i \<noteq> wd_ID c" using i by (auto simp: settled_def terminal_def)
  then show ?thesis using i
    by (cases "attempt_outcome c r s") (auto simp: settled_def finish_rows_def update_deliveries_def finished_delivery_def)
qed

lemma maintenance_finish:
  "webhook_maintenance (\<lambda>s. if same_limit c s \<and> length (filter (is_attempt (wd_ID c) (wd_AttemptCount c)) (ws_attempts s)) = 1
     then finish_rows c r s else s)"
  by unfold_locales (auto simp: finish_rows_ok finish_rows_settled, auto simp: finish_rows_def update_deliveries_def)

lemma health_tables [simp]:
  "ws_deliveries (updateWebhookHealthTx d st now s) = ws_deliveries s" "ws_attempts (updateWebhookHealthTx d st now s) = ws_attempts s"
  "ws_slots (updateWebhookHealthTx d st now s) = ws_slots s"
  by (cases st; simp add: updateWebhookHealthTx_def)+

subsection \<open>The operations are maintenance\<close>

interpretation prune: webhook_maintenance "webhook_Prune now" for now
proof -
  have "webhook_Prune now = (\<lambda>s. delete_deliveries (\<lambda>d. terminal d \<and> (expired now d \<or>
       wd_ID d \<in> wd_ID ` set (drop webhookDeliveryHistoryLimit (history (wd_OwnerUserID d) (wd_WebhookID d) s)))) s)"
    by (simp add: webhook_Prune_def fun_eq_iff)
  then show "webhook_maintenance (webhook_Prune now)" by (simp only: maintenance_delete)
qed

interpretation prune_history: webhook_maintenance "pruneWebhookHistoryTx owner webhook now" for owner webhook now
proof -
  have "pruneWebhookHistoryTx owner webhook now = (\<lambda>s. delete_deliveries (\<lambda>d. wd_OwnerUserID d = owner \<and> wd_WebhookID d = webhook \<and>
       terminal d \<and> (expired now d \<or> wd_ID d \<notin> wd_ID ` set (take webhookDeliveryHistoryLimit (history owner webhook s)))) s)"
    by (simp add: pruneWebhookHistoryTx_def fun_eq_iff)
  then show "webhook_maintenance (pruneWebhookHistoryTx owner webhook now)" by (simp only: maintenance_delete)
qed

interpretation cancel: webhook_maintenance "cancelWaitingWebhookDeliveriesTx owner webhook now" for owner webhook now
proof -
  have "cancelWaitingWebhookDeliveriesTx owner webhook now = (\<lambda>s. update_deliveries
       (\<lambda>d. wd_OwnerUserID d = owner \<and> wd_WebhookID d = webhook \<and> waiting d \<and> wd_LeaseUntilNS d = None)
       (canceled ''Webhook was disabled or deleted'' now) s)"
    by (simp add: cancelWaitingWebhookDeliveriesTx_def fun_eq_iff)
  moreover have "webhook_maintenance \<dots>" by (rule maintenance_cancel) simp
  ultimately show "webhook_maintenance (cancelWaitingWebhookDeliveriesTx owner webhook now)" by simp
qed

interpretation sweep: webhook_maintenance "\<lambda>s. snd (cancelUndeliverableWaiting now s)" for now
proof -
  have "webhook_maintenance (\<lambda>s. update_deliveries (\<lambda>d. waiting d \<and> wd_LeaseUntilNS d = None \<and> undeliverable s d)
       (canceled ''Webhook or user is no longer available'' now) s)"
    by (rule maintenance_cancel) simp
  then show "webhook_maintenance (\<lambda>s. snd (cancelUndeliverableWaiting now s))"
    by (simp add: cancelUndeliverableWaiting_def Let_def)
qed

lemma maintenance_if:
  assumes "webhook_maintenance f" "webhook_maintenance g"
  shows "webhook_maintenance (\<lambda>s. if C s then f s else g s)"
  using assms unfolding webhook_maintenance_def by simp

interpretation due_owners: webhook_maintenance "\<lambda>s. snd (DueOwners now limit s)" for now limit
proof -
  have "webhook_maintenance (\<lambda>s. if 0 < fst (cancelUndeliverableWaiting now s)
      then webhook_Prune now (snd (cancelUndeliverableWaiting now s)) else snd (cancelUndeliverableWaiting now s))"
    by (intro maintenance_if maintenance_comp[OF sweep.webhook_maintenance_axioms prune.webhook_maintenance_axioms]
          sweep.webhook_maintenance_axioms)
  then show "webhook_maintenance (\<lambda>s. snd (DueOwners now limit s))" by (simp add: DueOwners_def Let_def case_prod_unfold)
qed

lemma maintenance_terminal: "webhook_maintenance (fold (after_terminal now) xs)"
proof (rule maintenance_fold)
  fix d
  have "webhook_maintenance (\<lambda>s. if wd_Origin d \<noteq> WebhookOriginTest then updateWebhookHealthTx d WebhookDeliveryFailed now s else s)"
    by (rule maintenance_config) simp_all
  from maintenance_comp[OF this prune_history.webhook_maintenance_axioms, of "wd_OwnerUserID d" "wd_WebhookID d" now]
  show "webhook_maintenance (after_terminal now d)" unfolding after_terminal_def by simp
qed

interpretation recover: webhook_maintenance "\<lambda>s. snd (RecoverInterrupted db_ok now s)" for db_ok now
proof -
  have "webhook_maintenance (\<lambda>s. fold (after_terminal now) xs (interrupt_rows now s))" for xs
    by (rule maintenance_comp[OF maintenance_interrupt maintenance_terminal])
  then show "webhook_maintenance (\<lambda>s. snd (RecoverInterrupted db_ok now s))"
    using maintenance_id unfolding webhook_maintenance_def by (simp add: RecoverInterrupted_def Let_def)
qed

text \<open>A worker may finish an attempt at any later time, with the row it claimed.\<close>

interpretation complete: webhook_maintenance "\<lambda>s. if same_limit c s then snd (CompleteAttempt db_ok c r s) else s" for c db_ok r
proof -
  let ?one = "\<lambda>s. length (filter (is_attempt (wd_ID c) (wd_AttemptCount c)) (ws_attempts s)) = 1"
  let ?fin = "\<lambda>s. if same_limit c s \<and> ?one s then finish_rows c r s else s"
  have h: "webhook_maintenance (\<lambda>s. if wd_Origin c \<noteq> WebhookOriginTest then updateWebhookHealthTx c st (ar_CompletedAt r) s else s)" for st
    by (rule maintenance_config) simp_all
  have p: "webhook_maintenance (\<lambda>s. if st \<noteq> WebhookDeliveryRetrying
      then pruneWebhookHistoryTx (wd_OwnerUserID c) (wd_WebhookID c) (ar_CompletedAt r) s else s)" for st
    by (intro maintenance_if prune_history.webhook_maintenance_axioms maintenance_id)
  have m: "webhook_maintenance (\<lambda>s. (\<lambda>s. if st \<noteq> WebhookDeliveryRetrying
      then pruneWebhookHistoryTx (wd_OwnerUserID c) (wd_WebhookID c) (ar_CompletedAt r) s else s)
      ((\<lambda>s. if wd_Origin c \<noteq> WebhookOriginTest then updateWebhookHealthTx c st (ar_CompletedAt r) s else s) (?fin s)))" for st
    by (rule maintenance_comp[OF maintenance_comp[OF maintenance_finish h] p])
  have eq: "(if same_limit c s then snd (CompleteAttempt db_ok c r s) else s) =
      (if same_limit c s \<and> ?one s \<and> db_ok then (\<lambda>s. if fst (attempt_outcome c r t) \<noteq> WebhookDeliveryRetrying
      then pruneWebhookHistoryTx (wd_OwnerUserID c) (wd_WebhookID c) (ar_CompletedAt r) s else s)
      ((\<lambda>s. if wd_Origin c \<noteq> WebhookOriginTest then updateWebhookHealthTx c (fst (attempt_outcome c r t)) (ar_CompletedAt r) s else s)
         (?fin s)) else s)" if "t = s" for s t
    using that by (simp add: CompleteAttempt_def Let_def)
  show "webhook_maintenance (\<lambda>s. if same_limit c s then snd (CompleteAttempt db_ok c r s) else s)"
    using m maintenance_id unfolding webhook_maintenance_def eq[OF refl] by simp
qed

section \<open>Runs\<close>

text \<open>
  A run has the tables, the identities given to deliveries so far and the log of the claims with
  their times. The clock is read anew by every operation and may even go back.
\<close>

type_synonym claim_log = "(webhook_delivery \<times> gotime) list"

record webhook_run =
  wr_store :: WebhookStore
  wr_ids :: "string set"
  wr_log :: claim_log

definition claims :: "string \<Rightarrow> claim_log \<Rightarrow> claim_log" where
  "claims i log = filter (\<lambda>(c, t). wd_ID c = i) log"

definition claim_of :: "webhook_error + webhook_delivery option \<Rightarrow> gotime \<Rightarrow> claim_log" where
  "claim_of res now = (case res of Inr (Some c) \<Rightarrow> [(c, now)] | _ \<Rightarrow> [])"

inductive webhook_step :: "webhook_run \<Rightarrow> webhook_run \<Rightarrow> bool" where
  enqueue: "i \<notin> wr_ids r \<Longrightarrow>
     insertWebhookDeliveryTx i owner webhook origin event maxAttempts now rendered (wr_store r) = Inr s' \<Longrightarrow>
     webhook_step r (r\<lparr>wr_store := s', wr_ids := insert i (wr_ids r)\<rparr>)"
| claim: "ClaimDue render db_ok owner now (wr_store r) = (res, s') \<Longrightarrow>
     webhook_step r (r\<lparr>wr_store := s', wr_log := wr_log r @ claim_of res now\<rparr>)"
| complete: "c \<in> fst ` set (wr_log r) \<Longrightarrow>
     webhook_step r (r\<lparr>wr_store := snd (CompleteAttempt db_ok c result (wr_store r))\<rparr>)"
| recover: "webhook_step r (r\<lparr>wr_store := snd (RecoverInterrupted db_ok now (wr_store r))\<rparr>)"
| scan: "webhook_step r (r\<lparr>wr_store := snd (DueOwners now limit (wr_store r))\<rparr>)"
| cancel: "webhook_step r (r\<lparr>wr_store := cancelWaitingWebhookDeliveriesTx owner webhook now (wr_store r)\<rparr>)"
| prune: "webhook_step r (r\<lparr>wr_store := webhook_Prune now (wr_store r)\<rparr>)"
| configure: "webhook_step r (r\<lparr>wr_store := (wr_store r)\<lparr>ws_webhooks := hooks, ws_active := users\<rparr>\<rparr>)"

definition webhook_start :: webhook_run where
  "webhook_start = \<lparr>wr_store = \<lparr>ws_deliveries = [], ws_attempts = [], ws_slots = (\<lambda>_. 0), ws_webhooks = [], ws_active = {}\<rparr>,
     wr_ids = {}, wr_log = []\<rparr>"

definition spaced :: "webhook_delivery \<times> gotime \<Rightarrow> webhook_delivery \<times> gotime \<Rightarrow> bool" where
  "spaced x y \<longleftrightarrow> (wd_OwnerUserID (fst x) = wd_OwnerUserID (fst y) \<longrightarrow> snd x + webhookUserStartInterval \<le> snd y)"

definition row_logged :: "string set \<Rightarrow> claim_log \<Rightarrow> string \<times> int \<times> int \<Rightarrow> bool" where
  "row_logged ids log = (\<lambda>(i, n, m). i \<in> ids \<and> int (length (claims i log)) = n \<and>
     (\<forall>c \<in> fst ` set log. wd_ID c = i \<longrightarrow> wd_MaxAttempts c = m))"

definition rows_logged :: "webhook_run \<Rightarrow> bool" where
  "rows_logged r \<longleftrightarrow> (\<forall>g \<in> webhook_sig ` set (ws_deliveries (wr_store r)). row_logged (wr_ids r) (wr_log r) g)"

definition claims_ok :: "webhook_run \<Rightarrow> bool" where
  "claims_ok r \<longleftrightarrow> (\<forall>(c, t) \<in> set (wr_log r). wd_ID c \<in> wr_ids r \<and> wd_AttemptCount c \<le> wd_MaxAttempts c \<and>
       wd_MaxAttempts c \<le> 3 \<and> t + webhookUserStartInterval \<le> ws_slots (wr_store r) (wd_OwnerUserID c)) \<and>
     (\<forall>i. map (wd_AttemptCount \<circ> fst) (claims i (wr_log r)) = [1..int (length (claims i (wr_log r)))]) \<and>
     sorted_wrt spaced (wr_log r)"

definition run_ok :: "webhook_run \<Rightarrow> bool" where
  "run_ok r \<longleftrightarrow> webhook_ok (wr_store r) \<and> rows_logged r \<and> claims_ok r"

lemma run_start: "run_ok webhook_start"
  by (simp add: run_ok_def webhook_ok_def keys_ok_def pending_ok_def rows_logged_def claims_ok_def claims_def webhook_start_def)

context webhook_maintenance
begin

lemma keeps_run:
  assumes "run_ok r"
  shows "run_ok (r\<lparr>wr_store := f (wr_store r)\<rparr>)"
proof -
  have ok: "webhook_ok (wr_store r)" using assms by (simp add: run_ok_def)
  have "rows_logged (r\<lparr>wr_store := f (wr_store r)\<rparr>)"
    unfolding rows_logged_def
  proof
    fix g assume "g \<in> webhook_sig ` set (ws_deliveries (wr_store (r\<lparr>wr_store := f (wr_store r)\<rparr>)))"
    then have "g \<in> webhook_sig ` set (ws_deliveries (wr_store r))" using subsetD[OF keeps_sig[OF ok]] by simp
    then show "row_logged (wr_ids (r\<lparr>wr_store := f (wr_store r)\<rparr>)) (wr_log (r\<lparr>wr_store := f (wr_store r)\<rparr>)) g"
      using assms by (auto simp: run_ok_def rows_logged_def)
  qed
  moreover have "claims_ok (r\<lparr>wr_store := f (wr_store r)\<rparr>)"
    using assms keeps_slots[OF ok] by (simp add: run_ok_def claims_ok_def)
  ultimately show ?thesis using keeps_ok[OF ok] by (simp add: run_ok_def)
qed

end

lemma run_same_limit: "run_ok r \<Longrightarrow> c \<in> fst ` set (wr_log r) \<Longrightarrow> same_limit c (wr_store r)"
  by (force simp: run_ok_def rows_logged_def row_logged_def same_limit_def webhook_sig_def)

text \<open>A claim takes a row that is due, for its next attempt.\<close>

lemma ClaimDue_cases:
  assumes "ClaimDue render db_ok owner now s = (res, s')"
  obtains (none) "claim_of res now = []" "s' = s"
  | (some) d request where "d \<in> set (ws_deliveries s)" "due owner now d" "ws_slots s owner \<le> now"
      "s' = claim_rows d request owner now s" "claim_of res now = [(d\<lparr>wd_AttemptCount := wd_AttemptCount d + 1,
         wd_LeaseUntilNS := Some (now + webhookDeliveryLease), wd_Request := request\<rparr>, now)]"
proof (cases "sort_key due_order (filter (due owner now) (ws_deliveries s))")
  case Nil
  then show ?thesis using assms none by (auto simp: ClaimDue_def claim_of_def split: if_splits)
next
  case (Cons d ds)
  have "set (filter (due owner now) (ws_deliveries s)) = set (d # ds)" using arg_cong[OF Cons, where f = set] by simp
  then have "d \<in> set (filter (due owner now) (ws_deliveries s))" by simp
  then have d: "d \<in> set (ws_deliveries s)" "due owner now d" by simp_all
  have "claim_of res now = [] \<and> s' = s \<or> ws_slots s owner \<le> now \<and> (\<exists>request. s' = claim_rows d request owner now s \<and>
      claim_of res now = [(d\<lparr>wd_AttemptCount := wd_AttemptCount d + 1,
         wd_LeaseUntilNS := Some (now + webhookDeliveryLease), wd_Request := request\<rparr>, now)])"
  proof (cases "ws_slots s owner > now")
    case True
    then show ?thesis using assms by (auto simp: ClaimDue_def claim_of_def)
  next
    case False
    then show ?thesis using assms Cons by (cases "render d (wd_AttemptCount d + 1)") (auto simp: ClaimDue_def claim_of_def split: if_splits)
  qed
  with d that show ?thesis by metis
qed

definition claimed_copy :: "webhook_delivery \<Rightarrow> string \<Rightarrow> gotime \<Rightarrow> webhook_delivery" where
  "claimed_copy d request now = d\<lparr>wd_AttemptCount := wd_AttemptCount d + 1,
     wd_LeaseUntilNS := Some (now + webhookDeliveryLease), wd_Request := request\<rparr>"

lemma claim_rows_ok:
  assumes ok: "webhook_ok s" and d: "d \<in> set (ws_deliveries s)" "due owner now d"
  shows "webhook_ok (claim_rows d request owner now s)"
proof -
  let ?s = "claim_rows d request owner now s"
  define f where "f = (\<lambda>x. if claimable d x then claimed_row request now x else x)"
  have ds: "ws_deliveries ?s = map f (ws_deliveries s)" by (simp add: claim_rows_def update_deliveries_def f_def)
  have as: "ws_attempts ?s = ws_attempts s @ [started_attempt (wd_ID d) (wd_AttemptCount d + 1) now]" by (simp add: claim_rows_def)
  have dd: "waiting d" "wd_LeaseUntilNS d = None" using d by (simp_all add: due_def)
  have cl: "claimable d x \<longleftrightarrow> x = d" "claimable d x \<longleftrightarrow> wd_ID x = wd_ID d" if "x \<in> set (ws_deliveries s)" for x
    using same_delivery[OF ok that d(1)] dd by (auto simp: claimable_def)
  have fid: "wd_ID (f x) = wd_ID x" for x by (simp add: f_def claimed_row_def)
  have dist: "distinct (map wd_ID (ws_deliveries ?s))"
    using webhook_okD(1)[OF ok] fid by (simp add: ds comp_def)
  have dok: "delivery_ok (f x)" if "x \<in> set (ws_deliveries s)" for x
    using webhook_okD(2)[OF ok that] dd cl(1)[OF that]
    by (auto simp: f_def delivery_ok_def claimed_row_def waiting_def terminal_def)
  have key: "(i, n) \<in> attempt_key ` set (ws_attempts s) \<longleftrightarrow>
      (\<exists>x \<in> set (ws_deliveries s). wd_ID x = i \<and> 1 \<le> n \<and> n \<le> wd_AttemptCount x)" for i n
    using webhook_okD(3)[OF ok] unfolding keys_ok_def by blast
  have new: "(wd_ID d, wd_AttemptCount d + 1) \<notin> attempt_key ` set (ws_attempts s)"
    unfolding key using same_delivery[OF ok _ d(1)] by force
  have cnt: "wd_AttemptCount (f x) = (if wd_ID x = wd_ID d then wd_AttemptCount d + 1 else wd_AttemptCount x)"
    if "x \<in> set (ws_deliveries s)" for x using cl[OF that] by (auto simp: f_def claimed_row_def)
  have pos: "0 \<le> wd_AttemptCount d" using webhook_okD(2)[OF ok d(1)] by (simp add: delivery_ok_def)
  have "(i, n) \<in> attempt_key ` set (ws_attempts ?s) \<longleftrightarrow>
      (\<exists>x \<in> set (ws_deliveries s). wd_ID (f x) = i \<and> 1 \<le> n \<and> n \<le> wd_AttemptCount (f x))" for i n
  proof -
    have "(\<exists>x \<in> set (ws_deliveries s). wd_ID (f x) = i \<and> 1 \<le> n \<and> n \<le> wd_AttemptCount (f x)) \<longleftrightarrow>
        (i, n) = (wd_ID d, wd_AttemptCount d + 1) \<or> (\<exists>x \<in> set (ws_deliveries s). wd_ID x = i \<and> 1 \<le> n \<and> n \<le> wd_AttemptCount x)"
      unfolding fid using cnt d(1) pos same_delivery[OF ok _ d(1)]
      by (auto split: if_splits) (metis zle_add1_eq_le order_le_less)+
    then show ?thesis unfolding key[symmetric] as by (auto simp: attempt_key_def started_attempt_def)
  qed
  then have "keys_ok ?s" using webhook_okD(3)[OF ok] new
    by (auto simp: keys_ok_def ds as attempt_key_def started_attempt_def)
  moreover have "pending_ok ?s" unfolding pending_ok_def ds as
  proof (intro ballI impI)
    fix a y assume a: "a \<in> set (ws_attempts s @ [started_attempt (wd_ID d) (wd_AttemptCount d + 1) now])"
      and y: "y \<in> set (map f (ws_deliveries s))" "wa_DeliveryID a = wd_ID y"
    then obtain x where x: "x \<in> set (ws_deliveries s)" "y = f x" by auto
    show "wa_Status a = AttemptPending \<longleftrightarrow> wd_LeaseUntilNS y \<noteq> None \<and> wa_Number a = wd_AttemptCount y"
    proof (cases "a \<in> set (ws_attempts s)")
      case True
      have "wa_Number a \<le> wd_AttemptCount x"
        using attempt_has_delivery[OF ok True] same_delivery[OF ok x(1)] x y fid by metis
      then show ?thesis using pending_okD[OF ok True x(1)] x y fid cl[OF x(1)] dd by (auto simp: f_def claimed_row_def)
    next
      case False
      then have "wd_ID x = wd_ID d" using a y(2) by (simp add: x(2) fid started_attempt_def)
      then have "x = d" using cl[OF x(1)] by blast
      then show ?thesis using False a x cl(1)[OF d(1)] by (auto simp: f_def started_attempt_def claimed_row_def)
    qed
  qed
  ultimately show ?thesis using dist dok by (simp add: webhook_ok_def ds)
qed

lemma claim_rows_sig:
  assumes ok: "webhook_ok s" and d: "d \<in> set (ws_deliveries s)" "waiting d"
    and g: "g \<in> webhook_sig ` set (ws_deliveries (claim_rows d request owner now s))"
  shows "g = (wd_ID d, wd_AttemptCount d + 1, wd_MaxAttempts d) \<or>
     g \<in> webhook_sig ` set (ws_deliveries s) \<and> fst g \<noteq> wd_ID d"
proof -
  from g obtain x where x: "x \<in> set (ws_deliveries s)"
    "g = webhook_sig (if claimable d x then claimed_row request now x else x)"
    by (auto simp: claim_rows_def update_deliveries_def)
  show ?thesis
  proof (cases "wd_ID x = wd_ID d")
    case True
    then have "x = d" using same_delivery[OF ok x(1) d(1)] by simp
    then show ?thesis using x d by (simp add: webhook_sig_def claimable_def claimed_row_def)
  next
    case False
    then show ?thesis using x by (auto simp: webhook_sig_def claimable_def)
  qed
qed

lemma claims_append [simp]: "claims i (xs @ ys) = claims i xs @ claims i ys"
  by (simp add: claims_def)

lemma claims_single [simp]: "claims i [(c, t)] = (if wd_ID c = i then [(c, t)] else [])"
  by (simp add: claims_def)

lemma claimed_copy_simps [simp]:
  "wd_ID (claimed_copy d q now) = wd_ID d" "wd_OwnerUserID (claimed_copy d q now) = wd_OwnerUserID d"
  "wd_AttemptCount (claimed_copy d q now) = wd_AttemptCount d + 1" "wd_MaxAttempts (claimed_copy d q now) = wd_MaxAttempts d"
  by (simp_all add: claimed_copy_def)

lemma run_claim:
  assumes run: "run_ok r" and d: "d \<in> set (ws_deliveries (wr_store r))" "due owner now d"
    and slot: "ws_slots (wr_store r) owner \<le> now"
  shows "run_ok (r\<lparr>wr_store := claim_rows d request owner now (wr_store r), wr_log := wr_log r @ [(claimed_copy d request now, now)]\<rparr>)"
    (is "run_ok ?r")
proof -
  have ok: "webhook_ok (wr_store r)" using run by (simp add: run_ok_def)
  have w: "waiting d" "wd_OwnerUserID d = owner" "wd_LeaseUntilNS d = None" using d(2) by (simp_all add: due_def)
  have lim: "wd_AttemptCount d < wd_MaxAttempts d" "wd_MaxAttempts d \<le> 3" "0 \<le> wd_AttemptCount d"
    using webhook_okD(2)[OF ok d(1)] w by (simp_all add: delivery_ok_def)
  have lg: "row_logged (wr_ids r) (wr_log r) (webhook_sig d)" using run d(1) by (simp add: run_ok_def rows_logged_def)
  have "rows_logged ?r" unfolding rows_logged_def
  proof
    fix g assume g: "g \<in> webhook_sig ` set (ws_deliveries (wr_store ?r))"
    have old: "row_logged (wr_ids r) (wr_log r) g" if "g \<in> webhook_sig ` set (ws_deliveries (wr_store r))"
      using run that by (auto simp: run_ok_def rows_logged_def)
    from g have "g = (wd_ID d, wd_AttemptCount d + 1, wd_MaxAttempts d) \<or>
        g \<in> webhook_sig ` set (ws_deliveries (wr_store r)) \<and> fst g \<noteq> wd_ID d"
      by (intro claim_rows_sig[OF ok d(1) w(1), where request = request and owner = owner and now = now]) simp
    then show "row_logged (wr_ids ?r) (wr_log ?r) g"
      using old lg by (auto simp: row_logged_def webhook_sig_def)
  qed
  moreover have "claims_ok ?r"
  proof -
    have log: "wd_ID c \<in> wr_ids r \<and> wd_AttemptCount c \<le> wd_MaxAttempts c \<and> wd_MaxAttempts c \<le> 3 \<and>
        t + webhookUserStartInterval \<le> ws_slots (wr_store r) (wd_OwnerUserID c)" if "(c, t) \<in> set (wr_log r)" for c t
      using run that unfolding run_ok_def claims_ok_def by blast
    have num: "map (wd_AttemptCount \<circ> fst) (claims i (wr_log r)) = [1..int (length (claims i (wr_log r)))]"
      and srt: "sorted_wrt spaced (wr_log r)" for i using run by (simp_all add: run_ok_def claims_ok_def)
    have sl: "ws_slots (wr_store ?r) = (ws_slots (wr_store r))(owner := now + webhookUserStartInterval)"
      by (simp add: claim_rows_def)
    have cnt: "int (length (claims (wd_ID d) (wr_log r))) = wd_AttemptCount d" "wd_ID d \<in> wr_ids r"
      using lg by (simp_all add: row_logged_def webhook_sig_def)
    have "sorted_wrt spaced (wr_log ?r)" using srt log slot w(2) by (fastforce simp: sorted_wrt_append spaced_def)
    moreover have "map (wd_AttemptCount \<circ> fst) (claims i (wr_log ?r)) = [1..int (length (claims i (wr_log ?r)))]" for i
      using num[of i] cnt lim(3) upto_rec2[of 1 "wd_AttemptCount d + 1"] by auto
    moreover have "wd_ID c \<in> wr_ids ?r \<and> wd_AttemptCount c \<le> wd_MaxAttempts c \<and> wd_MaxAttempts c \<le> 3 \<and>
        t + webhookUserStartInterval \<le> ws_slots (wr_store ?r) (wd_OwnerUserID c)" if "(c, t) \<in> set (wr_log ?r)" for c t
    proof (cases "(c, t) \<in> set (wr_log r)")
      case True
      then show ?thesis using log[OF True] slot unfolding sl by auto
    next
      case False
      then show ?thesis using that cnt lim w(2) unfolding sl by simp
    qed
    ultimately show ?thesis unfolding claims_ok_def by blast
  qed
  ultimately show ?thesis using claim_rows_ok[OF ok d] by (simp add: run_ok_def)
qed

lemma insert_cases:
  assumes "insertWebhookDeliveryTx i owner webhook origin event m now rendered s = Inr s'"
  obtains d where "s' = s\<lparr>ws_deliveries := ws_deliveries s @ [d]\<rparr>" "webhook_sig d = (i, 0, m)" "delivery_ok d"
    "waiting d" "wd_LeaseUntilNS d = None" "i \<notin> wd_ID ` set (ws_deliveries s)"
  using assms
  by (force simp: insertWebhookDeliveryTx_def bind_res_def webhook_sig_def delivery_ok_def waiting_def terminal_def
      split: sum.splits if_splits)

lemma insert_ok:
  assumes ok: "webhook_ok s" and d: "webhook_sig d = (i, 0, m)" "delivery_ok d" "wd_LeaseUntilNS d = None"
    and new: "i \<notin> wd_ID ` set (ws_deliveries s)"
  shows "webhook_ok (s\<lparr>ws_deliveries := ws_deliveries s @ [d]\<rparr>)" (is "webhook_ok ?s")
proof -
  have i: "wd_ID d = i" "wd_AttemptCount d = 0" using d(1) by (simp_all add: webhook_sig_def)
  have "keys_ok ?s" using webhook_okD(3)[OF ok] i by (auto simp: keys_ok_def)
  moreover have "pending_ok ?s" unfolding pending_ok_def
  proof (intro ballI impI)
    fix a x assume a: "a \<in> set (ws_attempts ?s)" and x: "x \<in> set (ws_deliveries ?s)" "wa_DeliveryID a = wd_ID x"
    from a obtain e where "e \<in> set (ws_deliveries s)" "wd_ID e = wa_DeliveryID a" using attempt_has_delivery[OF ok] by auto
    then have "x \<noteq> d" using x new i by (metis image_eqI)
    then have "x \<in> set (ws_deliveries s)" using x by simp
    then show "wa_Status a = AttemptPending \<longleftrightarrow> wd_LeaseUntilNS x \<noteq> None \<and> wa_Number a = wd_AttemptCount x"
      using pending_okD[OF ok] a x by simp
  qed
  ultimately show ?thesis using ok d(2) new i by (auto simp: webhook_ok_def)
qed

lemma run_insert:
  assumes run: "run_ok r" and new: "i \<notin> wr_ids r"
    and ins: "insertWebhookDeliveryTx i owner webhook origin event m now rendered (wr_store r) = Inr s'"
  shows "run_ok (r\<lparr>wr_store := s', wr_ids := insert i (wr_ids r)\<rparr>)" (is "run_ok ?r")
proof -
  from ins obtain d where d: "s' = (wr_store r)\<lparr>ws_deliveries := ws_deliveries (wr_store r) @ [d]\<rparr>" "webhook_sig d = (i, 0, m)"
      "delivery_ok d" "waiting d" "wd_LeaseUntilNS d = None" "i \<notin> wd_ID ` set (ws_deliveries (wr_store r))"
    by (rule insert_cases)
  have fresh: "wd_ID c \<noteq> i" if "(c, t) \<in> set (wr_log r)" for c t
    using run new that by (auto simp: run_ok_def claims_ok_def)
  then have "row_logged (insert i (wr_ids r)) (wr_log r) (i, 0, m)"
    by (force simp: row_logged_def claims_def filter_empty_conv)
  moreover have "row_logged (insert i (wr_ids r)) (wr_log r) g" if "row_logged (wr_ids r) (wr_log r) g" for g
    using that by (auto simp: row_logged_def)
  ultimately have "rows_logged ?r" using run d(2) by (auto simp: rows_logged_def run_ok_def d(1))
  moreover have "claims_ok ?r" using run by (auto simp: run_ok_def claims_ok_def d(1))
  moreover have "webhook_ok s'" using insert_ok[OF _ d(2,3,5,6)] run by (simp add: run_ok_def d(1))
  ultimately show ?thesis by (simp add: run_ok_def)
qed

lemma run_step: "webhook_step r r' \<Longrightarrow> run_ok r \<Longrightarrow> run_ok r'"
proof (induction rule: webhook_step.induct)
  case (enqueue i r owner webhook origin event maxAttempts now rendered s')
  then show ?case by (blast intro: run_insert)
next
  case (claim render db_ok owner now r res s')
  from claim.hyps show ?case
  proof (cases rule: ClaimDue_cases)
    case none
    then show ?thesis using claim.prems by simp
  next
    case (some d request)
    then show ?thesis using run_claim[OF claim.prems some(1,2,3)] by (simp add: claimed_copy_def)
  qed
next
  case (complete c r db_ok result)
  then show ?case using complete.keeps_run[of r c db_ok result] run_same_limit by simp
next
  case (recover r db_ok now)
  then show ?case by (rule recover.keeps_run)
next
  case (scan r now limit)
  then show ?case by (rule due_owners.keeps_run)
next
  case (cancel r owner webhook now)
  then show ?case by (rule cancel.keeps_run)
next
  case (prune r now)
  then show ?case by (rule prune.keeps_run)
next
  case (configure r users hooks)
  have "webhook_maintenance (\<lambda>s. s\<lparr>ws_webhooks := hooks, ws_active := users\<rparr>)" by (rule maintenance_config) simp_all
  from webhook_maintenance.keeps_run[OF this configure.prems] show ?case .
qed

lemma run_reachable: "webhook_step\<^sup>*\<^sup>* webhook_start r \<Longrightarrow> run_ok r"
  by (induction rule: rtranclp_induct) (auto intro: run_start run_step)

section \<open>A delivery that is over\<close>

lemma settled_step:
  assumes "webhook_step r r'" "run_ok r" "i \<in> wr_ids r" "settled i (wr_store r)"
  shows "settled i (wr_store r') \<and> i \<in> wr_ids r' \<and> claims i (wr_log r') = claims i (wr_log r)"
  using assms
proof (induction rule: webhook_step.induct)
  case (enqueue j r owner webhook origin event m now rendered s')
  from enqueue.hyps(2) obtain d where "s' = (wr_store r)\<lparr>ws_deliveries := ws_deliveries (wr_store r) @ [d]\<rparr>" "webhook_sig d = (j, 0, m)"
    by (rule insert_cases)
  then show ?case using enqueue by (auto simp: settled_def webhook_sig_def)
next
  case (claim render db_ok owner now r res s')
  from claim.hyps show ?case
  proof (cases rule: ClaimDue_cases)
    case none
    then show ?thesis using claim.prems by simp
  next
    case (some d request)
    then have "wd_ID d \<noteq> i" using claim.prems(3) by (auto simp: due_def settled_def terminal_def)
    then show ?thesis using claim.prems some
      by (auto simp: settled_def claim_rows_def update_deliveries_def claimable_def claimed_row_def)
  qed
next
  case (complete c r db_ok result)
  then show ?case using complete.keeps_settled[of "wr_store r" i c db_ok result] run_same_limit by (simp add: run_ok_def)
next
  case (configure r users hooks)
  then show ?case by (simp add: settled_def)
qed (auto simp: run_ok_def recover.keeps_settled due_owners.keeps_settled cancel.keeps_settled prune.keeps_settled)

lemma settled_run:
  "webhook_step\<^sup>*\<^sup>* r r' \<Longrightarrow> run_ok r \<Longrightarrow> i \<in> wr_ids r \<Longrightarrow> settled i (wr_store r) \<Longrightarrow>
     run_ok r' \<and> i \<in> wr_ids r' \<and> settled i (wr_store r') \<and> claims i (wr_log r') = claims i (wr_log r)"
  by (induction rule: rtranclp_induct) (auto dest: settled_step run_step)

section \<open>Progress\<close>

lemma after_terminal_keeps_waiting:
  "d \<in> set (ws_deliveries s) \<Longrightarrow> waiting d \<Longrightarrow> d \<in> set (ws_deliveries (fold (after_terminal now) xs s))"
proof (induction xs arbitrary: s)
  case (Cons x xs)
  have "d \<in> set (ws_deliveries (after_terminal now x s))"
    using Cons.prems by (simp add: after_terminal_def pruneWebhookHistoryTx_def delete_deliveries_def terminal_def)
  then show ?case using Cons by simp
qed simp

lemma ClaimDue_live:
  assumes ok: "webhook_ok s" and d: "d \<in> set (ws_deliveries s)" "due owner t d" and slot: "ws_slots s owner \<le> t"
    and render: "\<And>d n. \<exists>request. render d n = Inr request"
  shows "\<exists>c s'. ClaimDue render True owner t s = (Inr (Some c), s')"
proof -
  have "sort_key due_order (filter (due owner t) (ws_deliveries s)) \<noteq> []"
    using d by (metis (mono_tags, lifting) empty_filter_conv set_empty set_sort)
  then obtain h hs where hs: "sort_key due_order (filter (due owner t) (ws_deliveries s)) = h # hs" by (meson neq_Nil_conv)
  have "set (filter (due owner t) (ws_deliveries s)) = set (h # hs)" using arg_cong[OF hs, where f = set] by simp
  then have "h \<in> set (filter (due owner t) (ws_deliveries s))" by simp
  then have h: "h \<in> set (ws_deliveries s)" "waiting h" by (simp_all add: due_def)
  have "{x. claimable h x} \<inter> set (ws_deliveries s) = {h}"
    using h same_delivery[OF ok _ h(1)] by (auto simp: claimable_def)
  moreover have "distinct (ws_deliveries s)" using webhook_okD(1)[OF ok] by (simp add: distinct_map)
  ultimately have one: "length (filter (claimable h) (ws_deliveries s)) = 1" by (simp add: distinct_length_filter)
  have "\<not> (\<exists>a \<in> set (ws_attempts s). wa_DeliveryID a = wd_ID h \<and> wa_Number a = wd_AttemptCount h + 1)"
  proof
    assume "\<exists>a \<in> set (ws_attempts s). wa_DeliveryID a = wd_ID h \<and> wa_Number a = wd_AttemptCount h + 1"
    then obtain a where a: "a \<in> set (ws_attempts s)" "wa_DeliveryID a = wd_ID h" "wa_Number a = wd_AttemptCount h + 1" by blast
    from attempt_has_delivery[OF ok a(1)] a(2,3) same_delivery[OF ok _ h(1)] show False by (metis zle_add1_eq_le order_less_irrefl)
  qed
  moreover obtain request where "render h (wd_AttemptCount h + 1) = Inr request" using render by blast
  ultimately show ?thesis using slot one by (simp add: ClaimDue_def hs)
qed

lemma recovered_due:
  assumes d: "d \<in> set (ws_deliveries s)" "waiting d" and next_at: "wd_LeaseUntilNS d = None \<longrightarrow> wd_NextAttemptAtNS d \<le> t"
    and lease: "\<forall>u. wd_LeaseUntilNS d = Some u \<longrightarrow> u \<le> t"
    and more: "\<not> (wd_LeaseUntilNS d \<noteq> None \<and> wd_MaxAttempts d \<le> wd_AttemptCount d)"
  shows "\<exists>x \<in> set (ws_deliveries (snd (RecoverInterrupted True t s))). due (wd_OwnerUserID d) t x"
proof -
  let ?f = "\<lambda>d. if stuck t d then interrupted_delivery t d else d"
  have st: "stuck t d \<longleftrightarrow> wd_LeaseUntilNS d \<noteq> None" using d(2) lease by (auto simp: stuck_def lease_over_iff)
  then have due: "due (wd_OwnerUserID d) t (?f d)" using d(2) next_at more by (auto simp: due_def interrupted_delivery_def waiting_def)
  have "?f d \<in> set (ws_deliveries (interrupt_rows t s))" using d(1) by (auto simp: interrupt_rows_def update_deliveries_def)
  with due have "?f d \<in> set (ws_deliveries (fold (after_terminal t) xs (interrupt_rows t s)))" for xs
    by (intro after_terminal_keeps_waiting) (simp_all add: due_def)
  with due show ?thesis unfolding RecoverInterrupted_def Let_def by auto
qed

lemma recovered_over:
  assumes ok: "webhook_ok s" and d: "d \<in> set (ws_deliveries s)" and lease: "wd_LeaseUntilNS d = Some u" "u \<le> t"
    and no_more: "wd_MaxAttempts d \<le> wd_AttemptCount d"
  shows "settled (wd_ID d) (snd (RecoverInterrupted True t s))"
proof -
  have w: "waiting d" using webhook_okD(2)[OF ok d] lease by (simp add: delivery_ok_def)
  have "settled (wd_ID d) (interrupt_rows t s)"
    unfolding settled_def
  proof (intro ballI impI)
    fix y assume y: "y \<in> set (ws_deliveries (interrupt_rows t s))" "wd_ID y = wd_ID d"
    then obtain x where x: "x \<in> set (ws_deliveries s)" "y = (if stuck t x then interrupted_delivery t x else x)"
      by (auto simp: interrupt_rows_def update_deliveries_def)
    then have "x = d" using same_delivery[OF ok x(1) d] y(2) by (auto simp: interrupted_delivery_def split: if_splits)
    then show "terminal y" using x(2) w lease no_more
      by (simp add: stuck_def lease_over_iff interrupted_delivery_def terminal_def waiting_def)
  qed
  then have "settled (wd_ID d) (fold (after_terminal t) xs (interrupt_rows t s))" for xs
    by (rule webhook_maintenance.keeps_settled[OF maintenance_terminal webhook_maintenance.keeps_ok[OF maintenance_interrupt ok]])
  then show ?thesis by (simp add: RecoverInterrupted_def Let_def)
qed

section \<open>An example run\<close>

definition demo_insert :: "WebhookStore \<Rightarrow> webhook_error + WebhookStore" where
  "demo_insert s = insertWebhookDeliveryTx ''d1'' ''u'' ''w'' WebhookOriginTest None 3 10 (Inr ''GET'') s"

definition demo_queued :: webhook_run where
  "demo_queued = webhook_start\<lparr>wr_store := (case demo_insert (wr_store webhook_start) of Inr s \<Rightarrow> s | Inl _ \<Rightarrow> wr_store webhook_start),
     wr_ids := {''d1''}\<rparr>"

definition demo_claim :: "gotime \<Rightarrow> WebhookStore \<Rightarrow> (webhook_error + webhook_delivery option) \<times> WebhookStore" where
  "demo_claim now s = ClaimDue (\<lambda>d n. Inr ''GET'') True ''u'' now s"

definition after_claim :: "gotime \<Rightarrow> webhook_run \<Rightarrow> webhook_run" where
  "after_claim now r = r\<lparr>wr_store := snd (demo_claim now (wr_store r)), wr_log := wr_log r @ claim_of (fst (demo_claim now (wr_store r))) now\<rparr>"

definition demo_result :: webhookAttemptResult where
  "demo_result = \<lparr>ar_CompletedAt = 30, ar_Duration = 10, ar_StatusCode = 200, ar_Body = [], ar_RetryAfter = 0,
     ar_RetryAfterSet = False, ar_Err = None\<rparr>"

definition after_success :: "webhook_run \<Rightarrow> webhook_run" where
  "after_success r = r\<lparr>wr_store := snd (CompleteAttempt True (fst (last (wr_log r))) demo_result (wr_store r))\<rparr>"

lemma demo_queued_reachable: "webhook_step\<^sup>*\<^sup>* webhook_start demo_queued"
proof -
  have "demo_insert (wr_store webhook_start) = Inr (wr_store demo_queued)"
    by (simp add: demo_queued_def demo_insert_def insertWebhookDeliveryTx_def ensurePendingCapTx_def webhook_start_def bind_res_def)
  then have "webhook_step webhook_start (webhook_start\<lparr>wr_store := wr_store demo_queued, wr_ids := insert ''d1'' (wr_ids webhook_start)\<rparr>)"
    unfolding demo_insert_def by (rule webhook_step.enqueue[rotated]) (simp add: webhook_start_def)
  then show ?thesis by (simp add: demo_queued_def webhook_start_def r_into_rtranclp)
qed

lemma after_claim_step: "webhook_step r (after_claim now r)"
  unfolding after_claim_def demo_claim_def by (rule webhook_step.claim) (rule prod.collapse[symmetric])

lemma after_success_step: "wr_log r \<noteq> [] \<Longrightarrow> webhook_step r (after_success r)"
  unfolding after_success_def by (rule webhook_step.complete) (simp add: last_in_set)

lemmas demo_defs = demo_queued_def demo_insert_def insertWebhookDeliveryTx_def ensurePendingCapTx_def webhook_start_def
  bind_res_def after_claim_def demo_claim_def ClaimDue_def due_def waiting_def claimable_def claim_rows_def update_deliveries_def
  claimed_row_def started_attempt_def claim_of_def

lemma demo_claimed_log:
  "map (\<lambda>(c, t). (wd_ID c, wd_AttemptCount c, t)) (wr_log (after_claim 20 demo_queued)) = [(''d1'', 1, 20)]"
  by (simp add: demo_defs)

section \<open>Properties\<close>

text \<open>
  C32 (invariant): however the dispatcher, late workers, recoveries, cancellations, pruning and
  configuration changes interleave, identities of deliveries are unique, a delivery has between
  zero and its limit of attempts (at most three), numbered without gaps; one of them is pending
  exactly when the delivery is leased, and then it is the last one; a delivery is complete exactly
  when its status is final, and a waiting one that is not leased has attempts left.
\<close>

theorem webhook_queue_invariant:
  assumes "webhook_step\<^sup>*\<^sup>* webhook_start r"
  shows "webhook_ok (wr_store r)"
  using run_reachable[OF assms] by (simp add: run_ok_def)

theorem webhook_queue_invariant_witness:
  "webhook_ok (wr_store (after_claim 20 demo_queued)) \<and> length (ws_attempts (wr_store (after_claim 20 demo_queued))) = 1"
  by (rule conjI[OF webhook_queue_invariant[OF rtranclp.rtrancl_into_rtrancl[OF demo_queued_reachable after_claim_step]]])
    (simp add: demo_defs)

text \<open>
  C33 (bounds): any two requests that are started for one user are at least two seconds apart, and
  a delivery is sent at most three times, as its attempts 1, 2, 3 in this order, even when the
  clock is set back.
\<close>

theorem webhook_requests_bounded:
  assumes "webhook_step\<^sup>*\<^sup>* webhook_start r"
  shows "sorted_wrt spaced (wr_log r) \<and> length (claims i (wr_log r)) \<le> 3 \<and>
    map (wd_AttemptCount \<circ> fst) (claims i (wr_log r)) = [1..int (length (claims i (wr_log r)))]"
proof -
  have ok: "claims_ok r" using run_reachable[OF assms] by (simp add: run_ok_def)
  then have num: "map (wd_AttemptCount \<circ> fst) (claims i (wr_log r)) = [1..int (length (claims i (wr_log r)))]"
    by (simp add: claims_ok_def)
  have "length (claims i (wr_log r)) \<le> 3"
  proof (cases "claims i (wr_log r)" rule: rev_cases)
    case (snoc cs x)
    have "wd_AttemptCount (fst x) = last (map (wd_AttemptCount \<circ> fst) (claims i (wr_log r)))" using snoc by simp
    also have "\<dots> = int (length (claims i (wr_log r)))" unfolding num using snoc by (simp add: upto_rec2)
    finally have "int (length (claims i (wr_log r))) = wd_AttemptCount (fst x)" by simp
    moreover have "x \<in> set (claims i (wr_log r))" using snoc by simp
    then have "x \<in> set (wr_log r)" by (simp add: claims_def)
    then have "(fst x, snd x) \<in> set (wr_log r)" by simp
    then have "wd_AttemptCount (fst x) \<le> 3" using ok unfolding claims_ok_def by fastforce
    ultimately show ?thesis by simp
  qed simp
  with num ok show ?thesis by (simp add: claims_ok_def)
qed

theorem webhook_requests_bounded_witness:
  "length (claims ''d1'' (wr_log (after_claim 20 demo_queued))) \<le> 3 \<and> wr_log (after_claim 20 demo_queued) \<noteq> []"
  using webhook_requests_bounded[OF rtranclp.rtrancl_into_rtrancl[OF demo_queued_reachable after_claim_step[where now = 20]], of "''d1''"]
    demo_claimed_log by auto

text \<open>
  C34 (safety): once a delivery has succeeded, failed for good or been canceled, no request is
  sent for it again, whatever recoveries, late completions and scans follow.
\<close>

theorem settled_delivery_not_sent_again:
  assumes "webhook_step\<^sup>*\<^sup>* webhook_start r" and d: "d \<in> set (ws_deliveries (wr_store r))" "terminal d"
    and "webhook_step\<^sup>*\<^sup>* r r'"
  shows "claims (wd_ID d) (wr_log r') = claims (wd_ID d) (wr_log r)"
proof -
  have ok: "run_ok r" using assms(1) by (rule run_reachable)
  then have "webhook_ok (wr_store r)" "wd_ID d \<in> wr_ids r"
    using d(1) by (auto simp: run_ok_def rows_logged_def row_logged_def webhook_sig_def)
  moreover from this have "settled (wd_ID d) (wr_store r)" using d same_delivery unfolding settled_def by blast
  ultimately show ?thesis using settled_run[OF assms(4) ok] by blast
qed

lemma demo_succeeded:
  "map (\<lambda>d. (wd_ID d, wd_Status d)) (ws_deliveries (wr_store (after_success (after_claim 20 demo_queued)))) = [(''d1'', WebhookDeliverySuccess)]"
  by (simp add: demo_defs after_success_def demo_result_def CompleteAttempt_def is_attempt_def finish_rows_def attempt_outcome_def
      attempt_succeeded_def finished_attempt_def finished_delivery_def pruneWebhookHistoryTx_def delete_deliveries_def
      history_def terminal_def expired_def history_order_def webhookAttemptError_def)

theorem settled_delivery_not_sent_again_witness:
  "length (claims ''d1'' (wr_log (after_claim (10 ^ 12) (after_success (after_claim 20 demo_queued))))) = 1"
proof -
  let ?r1 = "after_claim 20 demo_queued"
  let ?r = "after_success ?r1"
  obtain d where d: "ws_deliveries (wr_store ?r) = [d]" "wd_ID d = ''d1''" "terminal d"
    using demo_succeeded by (auto simp: terminal_def waiting_def)
  have "wr_log ?r1 \<noteq> []" using demo_claimed_log by auto
  then have "webhook_step\<^sup>*\<^sup>* webhook_start ?r"
    using demo_queued_reachable after_claim_step after_success_step by (meson rtranclp.rtrancl_into_rtrancl)
  from settled_delivery_not_sent_again[OF this, of d "after_claim (10 ^ 12) ?r"] d after_claim_step
  have "claims ''d1'' (wr_log (after_claim (10 ^ 12) ?r)) = claims ''d1'' (wr_log ?r)" by auto
  then show ?thesis using demo_claimed_log by (simp add: after_success_def) (auto simp: claims_def)
qed

text \<open>
  C35 (liveness): a waiting delivery makes progress. At a time when its lease, if any, and its
  waiting time are over and the user's slot is free, recovery followed by a claim starts a request
  of that user, provided templates render; only a delivery whose last attempt was interrupted is
  closed as failed instead.
\<close>

theorem waiting_delivery_progresses:
  assumes "webhook_step\<^sup>*\<^sup>* webhook_start r" and d: "d \<in> set (ws_deliveries (wr_store r))" "waiting d"
    and next_at: "wd_LeaseUntilNS d = None \<longrightarrow> wd_NextAttemptAtNS d \<le> t" and lease: "\<forall>u. wd_LeaseUntilNS d = Some u \<longrightarrow> u \<le> t"
    and slot: "ws_slots (wr_store r) (wd_OwnerUserID d) \<le> t" and render: "\<And>d n. \<exists>request. render d n = Inr request"
  shows "if wd_LeaseUntilNS d \<noteq> None \<and> wd_AttemptCount d = wd_MaxAttempts d
    then settled (wd_ID d) (snd (RecoverInterrupted True t (wr_store r)))
    else \<exists>c s'. ClaimDue render True (wd_OwnerUserID d) t (snd (RecoverInterrupted True t (wr_store r))) = (Inr (Some c), s')"
proof -
  have ok: "webhook_ok (wr_store r)" using run_reachable[OF assms(1)] by (simp add: run_ok_def)
  have le: "wd_AttemptCount d \<le> wd_MaxAttempts d" using webhook_okD(2)[OF ok d(1)] by (simp add: delivery_ok_def)
  show ?thesis
  proof (cases "wd_LeaseUntilNS d \<noteq> None \<and> wd_AttemptCount d = wd_MaxAttempts d")
    case True
    then show ?thesis using recovered_over[OF ok d(1)] lease by auto
  next
    case False
    then obtain x where "x \<in> set (ws_deliveries (snd (RecoverInterrupted True t (wr_store r))))" "due (wd_OwnerUserID d) t x"
      using recovered_due[OF d next_at lease] le by force
    moreover have "ws_slots (snd (RecoverInterrupted True t (wr_store r))) (wd_OwnerUserID d) \<le> t"
      using slot recover.keeps_slots[OF ok] by simp
    ultimately show ?thesis using False ClaimDue_live[OF recover.keeps_ok[OF ok] _ _ _ render] by auto
  qed
qed

theorem waiting_delivery_progresses_witness:
  "\<exists>c s'. ClaimDue (\<lambda>d n. Inr ''GET'') True ''u'' 20 (snd (RecoverInterrupted True 20 (wr_store demo_queued))) = (Inr (Some c), s')"
proof -
  obtain d where "ws_deliveries (wr_store demo_queued) = [d]" "wd_OwnerUserID d = ''u''" "waiting d" "wd_LeaseUntilNS d = None"
      "wd_NextAttemptAtNS d \<le> 20" "ws_slots (wr_store demo_queued) ''u'' \<le> 20"
    by (simp add: demo_defs)
  with waiting_delivery_progresses[OF demo_queued_reachable, of d 20 "\<lambda>d n. Inr ''GET''"] show ?thesis by simp
qed

end
