(* ===== verification/Webhook_Retry.thy ===== *)
theory Webhook_Retry
  imports Webhook_Delivery
begin

text \<open>
  How long the webhook dispatcher waits before the next attempt: the Retry-After header of a
  response is honoured up to five minutes. The product of seconds and nanoseconds wraps around at
  64 bits, so that very large values end in an immediate retry.
\<close>

definition decimal_digit :: "char \<Rightarrow> bool" where
  "decimal_digit c \<longleftrightarrow> CHR ''0'' \<le> c \<and> c \<le> CHR ''9''"

lemma digit_of_char: "n < 10 \<Longrightarrow> of_char (char_of (48 + n)) = (48 + n :: nat)"
  by simp

lemma nat_digits_digits: "\<forall>c \<in> set (nat_digits n). decimal_digit c"
proof (induction n rule: nat_digits.induct)
  case (1 n)
  have d: "decimal_digit (char_of (48 + k :: nat))" if "k < 10" for k
    using that by (simp add: decimal_digit_def less_eq_char_def)
  show ?case using 1 d[of n] d[of "n mod 10"] by (subst nat_digits.simps) auto
qed

lemma nat_digits_value: "decimal_value (nat_digits n) = int n"
proof (induction n rule: nat_digits.induct)
  case (1 n)
  show ?case
  proof (cases "n < 10")
    case True
    then show ?thesis by (subst nat_digits.simps) (simp add: decimal_value_def)
  next
    case False
    then have "decimal_value (nat_digits (n div 10)) = int (n div 10)" by (rule 1)
    then have "decimal_value (nat_digits n) = 10 * int (n div 10) + int (n mod 10)"
      using False by (subst nat_digits.simps) (simp add: decimal_value_def)
    then show ?thesis by presburger
  qed
qed

lemma nat_digits_not_Nil: "nat_digits n \<noteq> []"
  by (subst nat_digits.simps) simp

lemma Atoi_itoa:
  assumes "0 \<le> n" "n < 2 ^ 63"
  shows "Atoi (itoa n) = Some n"
proof -
  obtain c t where ct: "nat_digits (nat n) = c # t" using nat_digits_not_Nil by (meson neq_Nil_conv)
  have dig: "\<forall>c \<in> set (c # t). CHR ''0'' \<le> c \<and> c \<le> CHR ''9''"
    using nat_digits_digits[of "nat n"] by (simp add: ct decimal_digit_def)
  then have "take 1 (c # t) \<noteq> ''-''" "take 1 (c # t) \<noteq> ''+''" by (auto simp: less_eq_char_def)
  moreover have "decimal_value (c # t) = n" using nat_digits_value[of "nat n"] assms by (simp add: ct)
  ultimately show ?thesis using assms dig unfolding itoa_def Atoi_def by (simp add: ct)
qed

lemma trim_space_digits:
  assumes "\<forall>c \<in> set s. decimal_digit c"
  shows "trim_space s = s"
proof (cases s)
  case (Cons c t)
  obtain d u where du: "rev s = d # u" using Cons by (metis neq_Nil_conv rev_is_Nil_conv list.distinct(1))
  have "d \<in> set (rev s)" using du by simp
  then have dig: "decimal_digit c" "decimal_digit d" using assms Cons by auto
  have "strip_any space_encodings s = s" unfolding Cons
    by (rule strip_any_id) (use dig in \<open>auto simp: space_encodings_def decimal_digit_def less_eq_char_def\<close>)
  moreover have "strip_any (map rev space_encodings) (rev s) = rev s" unfolding du
    by (rule strip_any_id) (use dig in \<open>auto simp: space_encodings_def decimal_digit_def less_eq_char_def\<close>)
  ultimately show ?thesis by (simp add: trim_space_def)
qed (simp add: trim_space_def strip_any.simps has_prefix_def space_encodings_def)

lemma wrap_int64_id: "- (2 ^ 63) \<le> n \<Longrightarrow> n < 2 ^ 63 \<Longrightarrow> wrap_int64 n = n"
  by (simp add: wrap_int64_def)

section \<open>Properties\<close>

text \<open>
  The waiting time taken from a Retry-After header never exceeds five minutes, and a
  header with a number of seconds is honoured exactly, up to five minutes, as long as the number of
  nanoseconds fits in 64 bits.
\<close>

theorem RetryAfter_honoured:
  assumes "0 \<le> n" "n \<le> 9223372036"
  shows "parseWebhookRetryAfter parseTime (itoa n) now = (min (n * second) webhookRetryAfterMax, True) \<and>
    fst (parseWebhookRetryAfter parseTime raw now) \<le> webhookRetryAfterMax"
proof -
  have "trim_space (itoa n) = itoa n" "itoa n \<noteq> []"
    using assms nat_digits_not_Nil by (simp_all add: itoa_def trim_space_digits nat_digits_digits)
  then have "parseWebhookRetryAfter parseTime (itoa n) now = (min (n * second) webhookRetryAfterMax, True)"
    using assms Atoi_itoa[of n] wrap_int64_id[of "n * second"] by (simp add: parseWebhookRetryAfter_def)
  moreover have "fst (parseWebhookRetryAfter parseTime raw now) \<le> webhookRetryAfterMax"
    by (simp add: parseWebhookRetryAfter_def Let_def split: option.splits)
  ultimately show ?thesis by simp
qed

theorem RetryAfter_honoured_witness:
  "parseWebhookRetryAfter (\<lambda>_. None) (itoa 7) 0 = (7 * second, True)"
  using RetryAfter_honoured[of 7 "\<lambda>_. None" 0] by simp

text \<open>
  C36 (error): from 9223372037 seconds on the product wraps around: a server that asks for a very
  long pause is called again at once, since the next attempt is scheduled in the past.
\<close>

theorem RetryAfter_overflow:
  "parseWebhookRetryAfter parseTime ''9223372037'' now = (- 9223372036709551616, True) \<and>
   (let r = \<lparr>ar_CompletedAt = now, ar_Duration = 0, ar_StatusCode = 503, ar_Body = [],
       ar_RetryAfter = - 9223372036709551616, ar_RetryAfterSet = True, ar_Err = None\<rparr> in
    wd_AttemptCount d < wd_MaxAttempts d \<longrightarrow> webhookDeliveryCanContinueTx d s \<longrightarrow>
      fst (attempt_outcome d r s) = WebhookDeliveryRetrying \<and> snd (snd (attempt_outcome d r s)) < now)"
proof -
  have "trim_space ''9223372037'' = ''9223372037''"
    by (rule trim_space_digits) (simp add: decimal_digit_def less_eq_char_def)
  moreover have "Atoi ''9223372037'' = Some 9223372037"
    by (simp add: Atoi_def decimal_value_def less_eq_char_def)
  moreover have "wrap_int64 (9223372037 * second) = - 9223372036709551616" by (simp add: wrap_int64_def)
  ultimately have "parseWebhookRetryAfter parseTime ''9223372037'' now = (- 9223372036709551616, True)"
    by (simp add: parseWebhookRetryAfter_def)
  then show ?thesis
    by (simp add: attempt_outcome_def attempt_succeeded_def webhookRetryable_def webhookRetryDelay_def Let_def)
qed

definition example_delivery :: webhook_delivery where
  "example_delivery = \<lparr>wd_ID = ''d1'', wd_OwnerUserID = ''u'', wd_WebhookID = ''w'', wd_Origin = WebhookOriginTest,
     wd_SourceEventID = None, wd_Status = WebhookDeliveryQueued, wd_AttemptCount = 1, wd_MaxAttempts = 3,
     wd_NextAttemptAtNS = 0, wd_LeaseUntilNS = Some 30, wd_Request = [], wd_StatusCode = None, wd_ResponseBody = [],
     wd_Error = [], wd_DurationMS = None, wd_CreatedAtNS = 0, wd_StartedAtNS = Some 0, wd_CompletedAtNS = None, wd_UpdatedAtNS = 0\<rparr>"

definition example_result :: webhookAttemptResult where
  "example_result = \<lparr>ar_CompletedAt = 100, ar_Duration = 0, ar_StatusCode = 503, ar_Body = [],
     ar_RetryAfter = - 9223372036709551616, ar_RetryAfterSet = True, ar_Err = None\<rparr>"

definition example_store :: WebhookStore where
  "example_store = \<lparr>ws_deliveries = [example_delivery], ws_attempts = [], ws_slots = (\<lambda>_. 0), ws_webhooks = [], ws_active = {''u''}\<rparr>"

theorem RetryAfter_overflow_witness:
  "fst (attempt_outcome example_delivery example_result example_store) = WebhookDeliveryRetrying \<and>
   snd (snd (attempt_outcome example_delivery example_result example_store)) < 100"
proof -
  have "wd_AttemptCount example_delivery < wd_MaxAttempts example_delivery"
    "webhookDeliveryCanContinueTx example_delivery example_store"
    by (simp_all add: example_delivery_def example_store_def webhookDeliveryCanContinueTx_def)
  then show ?thesis
    using RetryAfter_overflow[of "\<lambda>_. None" 100 example_delivery example_store] unfolding Let_def example_result_def by blast
qed

end
