(* ===== verification/Credential.thy ===== *)
theory Credential
  imports Go_Prelude Go_Net
begin

text \<open>
  Password hashes (\<open>internal/credential/password.go\<close>): the encoded form of an Argon2 hash, its
  parser and the verification of a password. \<open>argon2.IDKey\<close> is a parameter; the random salt is an
  argument. The base64 encoding without padding of the standard library is modelled, with the line
  breaks its decoder skips.
\<close>

section \<open>base64 without padding\<close>

definition base64_alphabet :: string where
  "base64_alphabet = ''ABCDEFGHIJKLMNOPQRSTUVWXYZabcdefghijklmnopqrstuvwxyz0123456789+/''"

definition base64_char :: "nat \<Rightarrow> char" where
  "base64_char n = base64_alphabet ! n"

fun index_of :: "'a \<Rightarrow> 'a list \<Rightarrow> nat option" where
  "index_of x [] = None"
| "index_of x (y # ys) = (if x = y then Some 0 else map_option Suc (index_of x ys))"

text \<open>Three bytes are four digits of six bits; one or two bytes at the end are two or three digits.\<close>

fun base64_digits :: "nat list \<Rightarrow> nat list" where
  "base64_digits (a # b # c # r) =
     [a div 4, a mod 4 * 16 + b div 16, b mod 16 * 4 + c div 64, c mod 64] @ base64_digits r"
| "base64_digits [a, b] = [a div 4, a mod 4 * 16 + b div 16, b mod 16 * 4]"
| "base64_digits [a] = [a div 4, a mod 4 * 16]"
| "base64_digits [] = []"

definition EncodeToString :: "bytes \<Rightarrow> string" where
  "EncodeToString bs = map base64_char (base64_digits (map unat bs))"

text \<open>The decoder is not strict: the unused bits of the last digit are ignored.\<close>

fun base64_bytes :: "nat list \<Rightarrow> nat list option" where
  "base64_bytes (p # q # r # s # t) =
     map_option ((@) [p * 4 + q div 16, q mod 16 * 16 + r div 4, r mod 4 * 64 + s]) (base64_bytes t)"
| "base64_bytes [p, q, r] = Some [p * 4 + q div 16, q mod 16 * 16 + r div 4]"
| "base64_bytes [p, q] = Some [p * 4 + q div 16]"
| "base64_bytes [p] = None"
| "base64_bytes [] = Some []"

definition DecodeString :: "string \<Rightarrow> bytes option" where
  "DecodeString s =
     (let ds = map (\<lambda>c. index_of c base64_alphabet) (filter (\<lambda>c. c \<noteq> CHR 0x0A \<and> c \<noteq> CHR 0x0D) s) in
      if None \<in> set ds then None else map_option (map of_nat) (base64_bytes (map the ds)))"

section \<open>Hashes\<close>

record HashParams =
  hp_Memory :: u32
  hp_Time :: u32
  hp_Threads :: u8
  hp_KeyLen :: u32

definition DefaultHashParams :: HashParams where
  "DefaultHashParams = \<lparr>hp_Memory = 64 * 1024, hp_Time = 3, hp_Threads = 1, hp_KeyLen = 32\<rparr>"

datatype credential_error = EmptyPassword | InvalidHashParams | SaltError | InvalidHashFormat | InvalidHashParameters
  | InvalidHashParameter string | InvalidHashParallelism | UnknownHashParameter string | DecodeSalt | DecodeKey | InvalidHash

text \<open>\<open>argon2.IDKey(password, salt, time, memory, threads, keyLen)\<close>\<close>

type_synonym id_key = "bytes \<Rightarrow> bytes \<Rightarrow> u32 \<Rightarrow> u32 \<Rightarrow> u8 \<Rightarrow> u32 \<Rightarrow> bytes"

definition HashPasswordWithParams :: "id_key \<Rightarrow> bytes option \<Rightarrow> string \<Rightarrow> HashParams \<Rightarrow> credential_error + string" where
  "HashPasswordWithParams IDKey random password params =
     (if password = [] then Inl EmptyPassword
      else if hp_Memory params = 0 \<or> hp_Time params = 0 \<or> hp_Threads params = 0 \<or> hp_KeyLen params = 0 then Inl InvalidHashParams
      else case random of None \<Rightarrow> Inl SaltError
      | Some salt \<Rightarrow>
          (let key = IDKey (bytes_of password) salt (hp_Time params) (hp_Memory params) (hp_Threads params) (hp_KeyLen params) in
           Inr (''$argon2id$v=19$m='' @ itoa (uint (hp_Memory params)) @ '',t='' @ itoa (uint (hp_Time params)) @
                '',p='' @ itoa (uint (hp_Threads params)) @ ''$'' @ EncodeToString salt @ ''$'' @ EncodeToString key)))"

definition HashPassword :: "id_key \<Rightarrow> bytes option \<Rightarrow> string \<Rightarrow> credential_error + string" where
  "HashPassword IDKey random password = HashPasswordWithParams IDKey random password DefaultHashParams"

definition Cut_eq :: "string \<Rightarrow> (string \<times> string) option" where
  "Cut_eq s = (if CHR ''='' \<in> set s then Some (takeWhile (\<lambda>c. c \<noteq> CHR ''='') s, tl (dropWhile (\<lambda>c. c \<noteq> CHR ''='') s)) else None)"

definition ParseUint32 :: "string \<Rightarrow> nat option" where
  "ParseUint32 s = (if s \<noteq> [] \<and> list_all is_digit s \<and> dec_value s < 2 ^ 32 then Some (dec_value s) else None)"

definition parse_param :: "string \<Rightarrow> HashParams \<Rightarrow> credential_error + HashParams" where
  "parse_param item params =
     (case Cut_eq item of None \<Rightarrow> Inl InvalidHashParameters
      | Some (key, value) \<Rightarrow>
          (case ParseUint32 value of None \<Rightarrow> Inl (InvalidHashParameter key)
           | Some n \<Rightarrow>
               if key = ''m'' then Inr (params\<lparr>hp_Memory := of_nat n\<rparr>)
               else if key = ''t'' then Inr (params\<lparr>hp_Time := of_nat n\<rparr>)
               else if key = ''p'' then (if n > 255 then Inl InvalidHashParallelism else Inr (params\<lparr>hp_Threads := of_nat n\<rparr>))
               else Inl (UnknownHashParameter key)))"

fun parse_params :: "string list \<Rightarrow> HashParams \<Rightarrow> credential_error + HashParams" where
  "parse_params [] params = Inr params"
| "parse_params (item # items) params = bind_res (parse_param item params) (parse_params items)"

definition ParsePasswordHash :: "string \<Rightarrow> credential_error + HashParams \<times> bytes \<times> bytes" where
  "ParsePasswordHash encoded =
     (let parts = split_on (CHR ''$'') encoded in
      if length parts \<noteq> 6 \<or> parts ! 1 \<noteq> ''argon2id'' \<or> parts ! 2 \<noteq> ''v=19'' then Inl InvalidHashFormat
      else bind_res (parse_params (split_on (CHR '','') (parts ! 3)) \<lparr>hp_Memory = 0, hp_Time = 0, hp_Threads = 0, hp_KeyLen = 0\<rparr>) (\<lambda>params.
        (case DecodeString (parts ! 4) of None \<Rightarrow> Inl DecodeSalt
         | Some salt \<Rightarrow>
             (case DecodeString (parts ! 5) of None \<Rightarrow> Inl DecodeKey
              | Some key \<Rightarrow>
                  if hp_Memory params = 0 \<or> hp_Time params = 0 \<or> hp_Threads params = 0 \<or> salt = [] \<or> key = []
                  then Inl InvalidHash else Inr (params, salt, key)))))"

definition VerifyPassword :: "id_key \<Rightarrow> string \<Rightarrow> string \<Rightarrow> bool" where
  "VerifyPassword IDKey encoded password =
     (case ParsePasswordHash encoded of
        Inl _ \<Rightarrow> False
      | Inr (params, salt, expected) \<Rightarrow>
          password \<noteq> [] \<and>
          IDKey (bytes_of password) salt (hp_Time params) (hp_Memory params) (hp_Threads params) (of_nat (length expected)) = expected)"

section \<open>base64 round trip\<close>

lemma index_of_nth: "distinct xs \<Longrightarrow> i < length xs \<Longrightarrow> index_of (xs ! i) xs = Some i"
proof (induction xs arbitrary: i)
  case (Cons x xs)
  then show ?case by (cases i) (auto simp: nth_mem)
qed simp

lemma index_of_Some: "index_of x xs = Some i \<Longrightarrow> i < length xs \<and> xs ! i = x"
  by (induction xs arbitrary: i) (auto split: if_splits)

lemma base64_alphabet_props: "distinct base64_alphabet" "length base64_alphabet = 64"
  by (simp_all add: base64_alphabet_def)

lemma base64_index: "n < 64 \<Longrightarrow> index_of (base64_char n) base64_alphabet = Some n"
  by (simp add: base64_char_def index_of_nth base64_alphabet_props)

lemma base64_char_in: "n < 64 \<Longrightarrow> base64_char n \<in> set base64_alphabet"
  by (simp add: base64_char_def base64_alphabet_props)

lemma base64_char_plain:
  assumes "n < 64"
  shows "base64_char n \<notin> {CHR 0x0A, CHR 0x0D, CHR ''$''}"
proof -
  have "CHR 0x0A \<notin> set base64_alphabet" "CHR 0x0D \<notin> set base64_alphabet" "CHR ''$'' \<notin> set base64_alphabet"
    by (simp_all add: base64_alphabet_def)
  then show ?thesis using base64_char_in[OF assms] by auto
qed

lemma base64_digits_small: "\<forall>b \<in> set bs. b < 256 \<Longrightarrow> \<forall>d \<in> set (base64_digits bs). d < 64"
  by (induction bs rule: base64_digits.induct) auto

lemma base64_digits_bytes: "\<forall>b \<in> set bs. b < 256 \<Longrightarrow> base64_bytes (base64_digits bs) = Some bs"
  by (induction bs rule: base64_digits.induct) auto

lemma unat_bytes: "\<forall>b \<in> set (map unat (bs :: bytes)). b < 256"
proof -
  have "unat b < 256" for b :: u8 using unsigned_less[of b] by simp
  then show ?thesis by simp
qed

lemma DecodeString_EncodeToString: "DecodeString (EncodeToString bs) = Some bs"
proof -
  let ?ds = "base64_digits (map unat bs)"
  have small: "\<forall>d \<in> set ?ds. d < 64" using base64_digits_small unat_bytes by blast
  have "filter (\<lambda>c. c \<noteq> CHR 0x0A \<and> c \<noteq> CHR 0x0D) (EncodeToString bs) = EncodeToString bs"
    using small base64_char_plain by (auto simp: EncodeToString_def filter_id_conv)
  moreover have "map (\<lambda>c. index_of c base64_alphabet) (EncodeToString bs) = map Some ?ds"
    using small base64_index by (simp add: EncodeToString_def)
  ultimately show ?thesis
    using base64_digits_bytes[OF unat_bytes, of bs] by (simp add: DecodeString_def Let_def comp_def)
qed

section \<open>Parsing a printed hash\<close>

lemma dec_value_digits: "dec_value (nat_digits n) = n"
proof (induction n rule: nat_digits.induct)
  case (1 n)
  show ?case
  proof (cases "n < 10")
    case True
    then show ?thesis by (subst nat_digits.simps) (simp add: dec_value_def digit_val_def)
  next
    case False
    then have "dec_value (nat_digits (n div 10)) = n div 10" by (rule 1)
    then show ?thesis using False by (subst nat_digits.simps) (simp add: dec_value_def digit_val_def)
  qed
qed

lemma digits_are_digits: "list_all is_digit (nat_digits n)"
proof (induction n rule: nat_digits.induct)
  case (1 n)
  have "is_digit (char_of (48 + k :: nat))" if "k < 10" for k
    using that by (simp add: is_digit_def less_eq_char_def)
  then show ?case using 1 by (subst nat_digits.simps) (simp del: char_of_nat)
qed

lemma digit_chars: "c \<in> set (nat_digits n) \<Longrightarrow> c \<notin> {CHR ''$'', CHR '','', CHR ''=''}"
  using digits_are_digits[of n] by (auto simp: list_all_iff is_digit_def)

lemma itoa_word: "itoa (uint w) = nat_digits (unat w)"
  by (simp add: itoa_def nat_uint_eq)

lemma Cut_eq_param: "Cut_eq (k # CHR ''='' # v) = (if k = CHR ''='' then Some ([], CHR ''='' # v) else Some ([k], v))"
  by (simp add: Cut_eq_def)

lemma ParseUint32_digits: "n < 2 ^ 32 \<Longrightarrow> ParseUint32 (nat_digits n) = Some n"
  using digits_are_digits[of n] dec_value_digits[of n] nat_digits.simps[of n] by (simp add: ParseUint32_def)

definition param_text :: "u32 \<Rightarrow> u32 \<Rightarrow> u8 \<Rightarrow> string" where
  "param_text m t p = ''m='' @ nat_digits (unat m) @ '',t='' @ nat_digits (unat t) @ '',p='' @ nat_digits (unat p)"

lemma unat_bounds: "unat (m :: u32) < 4294967296" "unat (p :: u8) \<le> 255"
  using unsigned_less[where 'a = nat, of m] unsigned_less[where 'a = nat, of p] by simp_all

lemma parse_param_text:
  "parse_params (split_on (CHR '','') (param_text m t p)) \<lparr>hp_Memory = 0, hp_Time = 0, hp_Threads = 0, hp_KeyLen = 0\<rparr> =
     Inr \<lparr>hp_Memory = m, hp_Time = t, hp_Threads = p, hp_KeyLen = 0\<rparr>"
proof -
  have nc: "CHR '','' \<notin> set (nat_digits n)" for n using digit_chars by blast
  have "param_text m t p = join_on (CHR '','') [''m='' @ nat_digits (unat m), ''t='' @ nat_digits (unat t), ''p='' @ nat_digits (unat p)]"
    by (simp add: param_text_def)
  then have "split_on (CHR '','') (param_text m t p) =
      [''m='' @ nat_digits (unat m), ''t='' @ nat_digits (unat t), ''p='' @ nat_digits (unat p)]"
    using nc by (simp only:) (intro split_join_on, simp_all)
  moreover have "unat p < 4294967296" using unat_bounds(2)[of p] by simp
  ultimately show ?thesis
    using unat_bounds(1)[of m] unat_bounds(1)[of t] unat_bounds(2)[of p]
    by (simp add: parse_param_def Cut_eq_param ParseUint32_digits)
qed

lemma ParsePasswordHash_printed:
  assumes nz: "m \<noteq> 0" "t \<noteq> 0" "p \<noteq> 0" and ne: "salt \<noteq> []" "key \<noteq> []"
  shows "ParsePasswordHash (''$argon2id$v=19$'' @ param_text m t p @ ''$'' @ EncodeToString salt @ ''$'' @ EncodeToString key) =
    Inr (\<lparr>hp_Memory = m, hp_Time = t, hp_Threads = p, hp_KeyLen = 0\<rparr>, salt, key)"
proof -
  have nd: "CHR ''$'' \<notin> set (nat_digits n)" for n using digit_chars by blast
  have ne64: "CHR ''$'' \<notin> set (EncodeToString bs)" for bs
    using base64_digits_small[OF unat_bytes, of bs] base64_char_plain by (force simp: EncodeToString_def)
  have np: "CHR ''$'' \<notin> set (param_text m t p)" using nd by (simp add: param_text_def)
  have "''$argon2id$v=19$'' @ param_text m t p @ ''$'' @ EncodeToString salt @ ''$'' @ EncodeToString key =
      join_on (CHR ''$'') [[], ''argon2id'', ''v=19'', param_text m t p, EncodeToString salt, EncodeToString key]"
    by simp
  moreover have "split_on (CHR ''$'') (join_on (CHR ''$'') [[], ''argon2id'', ''v=19'', param_text m t p, EncodeToString salt, EncodeToString key]) =
      [[], ''argon2id'', ''v=19'', param_text m t p, EncodeToString salt, EncodeToString key]"
    using np ne64 by (intro split_join_on) simp_all
  ultimately have "split_on (CHR ''$'') (''$argon2id$v=19$'' @ param_text m t p @ ''$'' @ EncodeToString salt @ ''$'' @ EncodeToString key) =
      [[], ''argon2id'', ''v=19'', param_text m t p, EncodeToString salt, EncodeToString key]" by (simp only:)
  then show ?thesis
    using nz ne parse_param_text[of m t p] unfolding ParsePasswordHash_def Let_def
    by (simp add: DecodeString_EncodeToString)
qed

lemma HashPasswordWithParams_Inr:
  assumes "HashPasswordWithParams IDKey (Some salt) password params = Inr h"
  shows "password \<noteq> []" "hp_Memory params \<noteq> 0" "hp_Time params \<noteq> 0" "hp_Threads params \<noteq> 0" "hp_KeyLen params \<noteq> 0"
    "h = ''$argon2id$v=19$'' @ param_text (hp_Memory params) (hp_Time params) (hp_Threads params) @ ''$'' @ EncodeToString salt @ ''$'' @
       EncodeToString (IDKey (bytes_of password) salt (hp_Time params) (hp_Memory params) (hp_Threads params) (hp_KeyLen params))"
  using assms by (auto simp: HashPasswordWithParams_def param_text_def itoa_word split: if_splits)

text \<open>
  C37 (roundtrip): the verification of a stored hash accepts the password it was made from, and a
  password is accepted exactly when it is not empty and Argon2 gives the same key for it; the
  parameters, the salt and the key survive the printed form. Argon2 returns as many bytes as it is
  asked for.
\<close>

theorem password_roundtrip:
  assumes argon2: "\<And>pw s t m p n. length (IDKey pw s t m p n) = unat n"
    and h: "HashPasswordWithParams IDKey (Some salt) password params = Inr h" and salt: "salt \<noteq> []"
  shows "VerifyPassword IDKey h password \<and>
    (VerifyPassword IDKey h q \<longleftrightarrow> q \<noteq> [] \<and>
       IDKey (bytes_of q) salt (hp_Time params) (hp_Memory params) (hp_Threads params) (hp_KeyLen params) =
       IDKey (bytes_of password) salt (hp_Time params) (hp_Memory params) (hp_Threads params) (hp_KeyLen params))"
proof -
  note P = HashPasswordWithParams_Inr[OF h]
  define key where "key = IDKey (bytes_of password) salt (hp_Time params) (hp_Memory params) (hp_Threads params) (hp_KeyLen params)"
  have len: "length key = unat (hp_KeyLen params)" by (simp add: key_def argon2)
  then have "key \<noteq> []" using P(5) by (metis list.size(3) unat_eq_zero)
  then have "ParsePasswordHash h = Inr (\<lparr>hp_Memory = hp_Memory params, hp_Time = hp_Time params, hp_Threads = hp_Threads params, hp_KeyLen = 0\<rparr>,
      salt, key)"
    unfolding P(6) using ParsePasswordHash_printed[OF P(2,3,4) salt] by (simp add: key_def)
  then have "VerifyPassword IDKey h x \<longleftrightarrow> x \<noteq> [] \<and>
      IDKey (bytes_of x) salt (hp_Time params) (hp_Memory params) (hp_Threads params) (hp_KeyLen params) = key" for x
    by (simp add: VerifyPassword_def len)
  then show ?thesis using P(1) by (simp add: key_def)
qed

definition example_IDKey :: id_key where
  "example_IDKey pw salt t m p n = take (unat n) (pw @ replicate (unat n) 0)"

theorem password_roundtrip_witness:
  "\<exists>h. HashPassword example_IDKey (Some [1]) ''secret'' = Inr h \<and> VerifyPassword example_IDKey h ''secret'' \<and>
     \<not> VerifyPassword example_IDKey h ''other''"
proof -
  have len: "length (example_IDKey pw s t m p n) = unat n" for pw s t m p n by (simp add: example_IDKey_def)
  obtain h where h: "HashPasswordWithParams example_IDKey (Some [1]) ''secret'' DefaultHashParams = Inr h"
    by (simp add: HashPasswordWithParams_def DefaultHashParams_def)
  have "hd (example_IDKey (bytes_of ''other'') [1] 3 (64 * 1024) 1 32) \<noteq> hd (example_IDKey (bytes_of ''secret'') [1] 3 (64 * 1024) 1 32)"
    by (simp add: example_IDKey_def bytes_of_def)
  then have "example_IDKey (bytes_of ''other'') [1] 3 (64 * 1024) 1 32 \<noteq> example_IDKey (bytes_of ''secret'') [1] 3 (64 * 1024) 1 32"
    by metis
  then show ?thesis
    using password_roundtrip[of example_IDKey, OF len h, of "''other''"] h by (auto simp: HashPassword_def DefaultHashParams_def)
qed

end
