(* ===== verification/Socks5_Wire.thy ===== *)
theory Socks5_Wire
  imports Tunnel_Model Credential
begin

text \<open>
  The SOCKS5 server side of a tunnel ingress (\<open>internal/socks5wire/wire.go\<close>): method negotiation,
  authentication, the CONNECT request and the replies. A connection is the bytes still to be read
  and the bytes written so far; write errors are ignored, as in the code. \<open>ul\<close> stands for the
  Unicode case tables of \<open>strings.ToLower\<close>, \<open>IDKey\<close> for Argon2.
\<close>

type_synonym wire_conn = "bytes \<times> bytes"

abbreviation (input) "SOCKS5AuthTypeUsernamePassword \<equiv> ''username_password''"

abbreviation (input) MethodNoAuth :: u8 where "MethodNoAuth \<equiv> 0"
abbreviation (input) MethodUsernamePass :: u8 where "MethodUsernamePass \<equiv> 2"
abbreviation (input) MethodNoAcceptable :: u8 where "MethodNoAcceptable \<equiv> 0xFF"
abbreviation (input) SocksVersion :: u8 where "SocksVersion \<equiv> 5"
abbreviation (input) AuthVersion :: u8 where "AuthVersion \<equiv> 1"
abbreviation (input) AddrIPv4 :: u8 where "AddrIPv4 \<equiv> 1"
abbreviation (input) AddrDomain :: u8 where "AddrDomain \<equiv> 3"
abbreviation (input) AddrIPv6 :: u8 where "AddrIPv6 \<equiv> 4"
abbreviation (input) CommandConnect :: u8 where "CommandConnect \<equiv> 1"
abbreviation (input) RepSuccess :: u8 where "RepSuccess \<equiv> 0"
abbreviation (input) RepGeneralFailure :: u8 where "RepGeneralFailure \<equiv> 1"
abbreviation (input) RepNotAllowed :: u8 where "RepNotAllowed \<equiv> 2"
abbreviation (input) RepNetworkUnreachable :: u8 where "RepNetworkUnreachable \<equiv> 3"
abbreviation (input) RepHostUnreachable :: u8 where "RepHostUnreachable \<equiv> 4"
abbreviation (input) RepConnectionRefused :: u8 where "RepConnectionRefused \<equiv> 5"
abbreviation (input) RepCommandUnsupported :: u8 where "RepCommandUnsupported \<equiv> 7"
abbreviation (input) RepAddrUnsupported :: u8 where "RepAddrUnsupported \<equiv> 8"

record ConnectRequest =
  cr_Host :: string
  cr_Port :: int
  cr_AddrType :: string
  cr_OriginalHost :: string

section \<open>Operations\<close>

definition read_conn :: "nat \<Rightarrow> wire_conn \<Rightarrow> bytes option \<times> wire_conn" where
  "read_conn n = (\<lambda>(inp, out). case read_full n inp of Inr (b, rest) \<Rightarrow> (Some b, rest, out) | Inl _ \<Rightarrow> (None, [], out))"

definition write_conn :: "bytes \<Rightarrow> wire_conn \<Rightarrow> wire_conn" where
  "write_conn b = (\<lambda>(inp, out). (inp, out @ b))"

definition selected_method :: "string \<Rightarrow> bytes \<Rightarrow> u8" where
  "selected_method authType methods =
     (if authType = SOCKS5AuthTypeUsernamePassword
      then if MethodUsernamePass \<in> set methods then MethodUsernamePass else MethodNoAcceptable
      else if MethodNoAuth \<in> set methods then MethodNoAuth else MethodNoAcceptable)"

definition NegotiateMethod :: "string \<Rightarrow> wire_conn \<Rightarrow> u8 option \<times> wire_conn" where
  "NegotiateMethod authType c =
     (case read_conn 2 c of
        (None, c) \<Rightarrow> (None, c)
      | (Some header, c) \<Rightarrow>
          if header ! 0 \<noteq> SocksVersion \<or> header ! 1 = 0 then (None, c)
          else (case read_conn (unat (header ! 1)) c of
                  (None, c) \<Rightarrow> (None, c)
                | (Some methods, c) \<Rightarrow>
                    (let sel = selected_method authType methods in
                     (if sel = MethodNoAcceptable then None else Some sel, write_conn [SocksVersion, sel] c))))"

definition Authenticate :: "id_key \<Rightarrow> AuthConfig \<Rightarrow> wire_conn \<Rightarrow> bool \<times> wire_conn" where
  "Authenticate IDKey auth c =
     (case read_conn 2 c of
        (None, c) \<Rightarrow> (False, c)
      | (Some header, c) \<Rightarrow>
          if header ! 0 \<noteq> AuthVersion then (False, c)
          else (case read_conn (unat (header ! 1)) c of
            (None, c) \<Rightarrow> (False, c)
          | (Some username, c) \<Rightarrow>
              (case read_conn 1 c of
                (None, c) \<Rightarrow> (False, c)
              | (Some passLen, c) \<Rightarrow>
                  (case read_conn (unat (passLen ! 0)) c of
                    (None, c) \<Rightarrow> (False, c)
                  | (Some password, c) \<Rightarrow>
                      (let ok = (username = bytes_of (auth_Username auth) \<and>
                                 VerifyPassword IDKey (auth_PasswordHash auth) (string_of password)) in
                       (ok, write_conn [AuthVersion, if ok then 0 else 1] c))))))"

definition ReadAddress :: "(string \<Rightarrow> string) \<Rightarrow> u8 \<Rightarrow> wire_conn \<Rightarrow> (u8 + string \<times> string) \<times> wire_conn" where
  "ReadAddress ul atyp c =
     (if atyp = AddrIPv4 then
        (case read_conn 4 c of (None, c) \<Rightarrow> (Inl RepGeneralFailure, c) | (Some raw, c) \<Rightarrow> (Inr (ip_string raw, ''ipv4''), c))
      else if atyp = AddrIPv6 then
        (case read_conn 16 c of (None, c) \<Rightarrow> (Inl RepGeneralFailure, c) | (Some raw, c) \<Rightarrow> (Inr (ip_string raw, ''ipv6''), c))
      else if atyp = AddrDomain then
        (case read_conn 1 c of
           (None, c) \<Rightarrow> (Inl RepGeneralFailure, c)
         | (Some len, c) \<Rightarrow>
             if len ! 0 = 0 then (Inl RepGeneralFailure, c)
             else (case read_conn (unat (len ! 0)) c of
                     (None, c) \<Rightarrow> (Inl RepGeneralFailure, c)
                   | (Some raw, c) \<Rightarrow> (Inr (to_lower ul (string_of raw), ''domain''), c)))
      else (Inl RepAddrUnsupported, c))"

definition ReadConnectRequest :: "(string \<Rightarrow> string) \<Rightarrow> wire_conn \<Rightarrow> (u8 + ConnectRequest) \<times> wire_conn" where
  "ReadConnectRequest ul c =
     (case read_conn 4 c of
        (None, c) \<Rightarrow> (Inl RepGeneralFailure, c)
      | (Some header, c) \<Rightarrow>
          if header ! 0 \<noteq> SocksVersion then (Inl RepGeneralFailure, c)
          else if header ! 2 \<noteq> 0 then (Inl RepGeneralFailure, c)
          else if header ! 1 \<noteq> CommandConnect then (Inl RepCommandUnsupported, c)
          else (case ReadAddress ul (header ! 3) c of
                  (Inl rep, c) \<Rightarrow> (Inl rep, c)
                | (Inr (host, addrType), c) \<Rightarrow>
                    (case read_conn 2 c of
                       (None, c) \<Rightarrow> (Inl RepGeneralFailure, c)
                     | (Some portRaw, c) \<Rightarrow>
                         (let port = uint (get_uint16 portRaw) in
                          if port < 1 then (Inl RepGeneralFailure, c)
                          else (Inr \<lparr>cr_Host = host, cr_Port = port, cr_AddrType = addrType, cr_OriginalHost = host\<rparr>, c)))))"

definition WriteReply :: "u8 \<Rightarrow> string \<Rightarrow> int \<Rightarrow> wire_conn \<Rightarrow> wire_conn" where
  "WriteReply rep boundAddr boundPort c =
     (case ParseIP boundAddr of
        None \<Rightarrow> write_conn [SocksVersion, rep, 0, AddrIPv4, 0, 0, 0, 0, 0, 0] c
      | Some ip \<Rightarrow>
          (case To4 ip of
             Some ip4 \<Rightarrow> write_conn ([SocksVersion, rep, 0, AddrIPv4] @ ip4 @ put_uint16 (word_of_int boundPort)) c
           | None \<Rightarrow> write_conn ([SocksVersion, rep, 0, AddrIPv6] @ ip @ put_uint16 (word_of_int boundPort)) c))"

definition ServeHandshake ::
  "id_key \<Rightarrow> (string \<Rightarrow> string) \<Rightarrow> SOCKS5ListenConfig \<Rightarrow> wire_conn \<Rightarrow> ConnectRequest option \<times> wire_conn" where
  "ServeHandshake IDKey ul cfg c =
     (case NegotiateMethod (auth_Type (sl_Auth cfg)) c of
        (None, c) \<Rightarrow> (None, c)
      | (Some meth, c) \<Rightarrow>
          (let (ok, c) = (if meth = MethodUsernamePass then Authenticate IDKey (sl_Auth cfg) c else (True, c)) in
           if \<not> ok then (None, c)
           else (case ReadConnectRequest ul c of
                   (Inl rep, c) \<Rightarrow> (None, WriteReply rep [] 0 c)
                 | (Inr req, c) \<Rightarrow> (Some req, c))))"

definition ReplyForDialStatus :: "string \<Rightarrow> u8" where
  "ReplyForDialStatus status =
     (if status = ''success'' then RepSuccess
      else if status = ''target_denied'' then RepNotAllowed
      else if status = ''network_unreachable'' then RepNetworkUnreachable
      else if status = ''host_unreachable'' then RepHostUnreachable
      else if status = ''connection_refused'' then RepConnectionRefused
      else if status = ''dial_timeout'' then RepHostUnreachable
      else RepGeneralFailure)"

section \<open>The messages of a client\<close>

datatype socks_addr = SocksV4 bytes | SocksV6 bytes | SocksName bytes

fun addr_ok :: "socks_addr \<Rightarrow> bool" where
  "addr_ok (SocksV4 b) \<longleftrightarrow> length b = 4"
| "addr_ok (SocksV6 b) \<longleftrightarrow> length b = 16"
| "addr_ok (SocksName b) \<longleftrightarrow> 1 \<le> length b \<and> length b \<le> 255"

fun addr_bytes :: "socks_addr \<Rightarrow> bytes" where
  "addr_bytes (SocksV4 b) = AddrIPv4 # b"
| "addr_bytes (SocksV6 b) = AddrIPv6 # b"
| "addr_bytes (SocksName b) = AddrDomain # of_nat (length b) # b"

fun addr_host :: "(string \<Rightarrow> string) \<Rightarrow> socks_addr \<Rightarrow> string \<times> string" where
  "addr_host ul (SocksV4 b) = (ip_string b, ''ipv4'')"
| "addr_host ul (SocksV6 b) = (ip_string b, ''ipv6'')"
| "addr_host ul (SocksName b) = (to_lower ul (string_of b), ''domain'')"

definition request_bytes :: "socks_addr \<Rightarrow> u16 \<Rightarrow> bytes" where
  "request_bytes a port = [SocksVersion, CommandConnect, 0] @ addr_bytes a @ put_uint16 port"

definition request_of :: "(string \<Rightarrow> string) \<Rightarrow> socks_addr \<Rightarrow> u16 \<Rightarrow> ConnectRequest" where
  "request_of ul a port = \<lparr>cr_Host = fst (addr_host ul a), cr_Port = uint port, cr_AddrType = snd (addr_host ul a),
     cr_OriginalHost = fst (addr_host ul a)\<rparr>"

definition greeting_bytes :: "bytes \<Rightarrow> bytes" where
  "greeting_bytes methods = [SocksVersion, of_nat (length methods)] @ methods"

definition greeting_ok :: "string \<Rightarrow> bytes \<Rightarrow> bool" where
  "greeting_ok authType methods \<longleftrightarrow> 1 \<le> length methods \<and> length methods \<le> 255 \<and>
     (if authType = SOCKS5AuthTypeUsernamePassword then MethodUsernamePass else MethodNoAuth) \<in> set methods"

definition login_bytes :: "bytes \<Rightarrow> bytes \<Rightarrow> bytes" where
  "login_bytes user password = [AuthVersion, of_nat (length user)] @ user @ [of_nat (length password)] @ password"

definition login_ok :: "id_key \<Rightarrow> AuthConfig \<Rightarrow> bytes \<Rightarrow> bytes \<Rightarrow> bool" where
  "login_ok IDKey auth user password \<longleftrightarrow> length user \<le> 255 \<and> length password \<le> 255 \<and>
     user = bytes_of (auth_Username auth) \<and> VerifyPassword IDKey (auth_PasswordHash auth) (string_of password)"

section \<open>Reading them\<close>

lemma read_conn_Some: "read_conn n (inp, out) = (Some b, c') \<longleftrightarrow> inp = b @ fst c' \<and> length b = n \<and> snd c' = out"
proof
  assume "read_conn n (inp, out) = (Some b, c')"
  then show "inp = b @ fst c' \<and> length b = n \<and> snd c' = out"
    by (auto simp: read_conn_def split: sum.splits dest: read_full_InrD)
next
  assume "inp = b @ fst c' \<and> length b = n \<and> snd c' = out"
  then show "read_conn n (inp, out) = (Some b, c')" by (cases c') (simp add: read_conn_def)
qed

lemma read_conn_app: "length b = n \<Longrightarrow> read_conn n (b @ r, out) = (Some b, (r, out))"
  by (simp add: read_conn_Some)

lemma byte_len: "unat (l :: u8) \<le> 255"
  using unsigned_less[where 'a = nat, of l] by simp

lemma byte_of_len: "n \<le> 255 \<Longrightarrow> unat (of_nat n :: u8) = n"
  by (simp add: unat_of_nat_small)

lemma of_nat_len: "length b = unat l \<Longrightarrow> of_nat (length b) = (l :: u8)"
  by simp

lemma two_bytes: "length b = 2 \<longleftrightarrow> (\<exists>x y. b = [x, y])"
  by (auto simp: length_Suc_conv numeral_2_eq_2)

lemma one_byte: "length b = Suc 0 \<longleftrightarrow> (\<exists>x. b = [x])"
  by (auto simp: length_Suc_conv)

lemma four_bytes: "length b = 4 \<longleftrightarrow> (\<exists>x y z w. b = [x, y, z, w])"
  by (auto simp: length_Suc_conv numeral_eq_Suc)

lemma NegotiateMethod_Some:
  "NegotiateMethod ty (inp, out) = (Some m, c') \<longleftrightarrow>
     (\<exists>ms. greeting_ok ty ms \<and> inp = greeting_bytes ms @ fst c' \<and>
        m = (if ty = SOCKS5AuthTypeUsernamePassword then MethodUsernamePass else MethodNoAuth) \<and> snd c' = out @ [SocksVersion, m])"
  (is "?l \<longleftrightarrow> ?r")
proof
  assume ?l
  then obtain h c1 where h: "read_conn 2 (inp, out) = (Some h, c1)" "h ! 0 = SocksVersion" "h ! 1 \<noteq> 0"
    and "(case read_conn (unat (h ! 1)) c1 of (None, c) \<Rightarrow> (None, c) | (Some methods, c) \<Rightarrow>
        (let sel = selected_method ty methods in (if sel = MethodNoAcceptable then None else Some sel, write_conn [SocksVersion, sel] c))) = (Some m, c')"
    by (auto simp: NegotiateMethod_def split: prod.splits option.splits if_splits)
  then obtain ms c2 where ms: "read_conn (unat (h ! 1)) c1 = (Some ms, c2)" "selected_method ty ms = m" "m \<noteq> MethodNoAcceptable"
    "c' = write_conn [SocksVersion, m] c2"
    by (auto simp: Let_def split: prod.splits option.splits if_splits)
  obtain l where l: "h = [SocksVersion, l]" "l \<noteq> 0" "inp = [SocksVersion, l] @ fst c1" "snd c1 = out"
    using h by (auto simp: read_conn_Some two_bytes)
  have r: "fst c1 = ms @ fst c2" "length ms = unat l" "snd c2 = out"
    using ms(1) l by (metis nth_Cons_0 nth_Cons_Suc One_nat_def prod.collapse read_conn_Some)+
  have "0 < unat l" using l(2) by (simp add: unat_gt_0)
  then show ?r using ms l r byte_len[of l]
    by (intro exI[of _ ms]) (auto simp: greeting_ok_def greeting_bytes_def selected_method_def write_conn_def split: if_splits prod.splits)
next
  assume ?r
  then obtain ms where ms: "greeting_ok ty ms" "inp = greeting_bytes ms @ fst c'"
    "m = (if ty = SOCKS5AuthTypeUsernamePassword then MethodUsernamePass else MethodNoAuth)" "snd c' = out @ [SocksVersion, m]" by blast
  have len: "unat (of_nat (length ms) :: u8) = length ms" "(of_nat (length ms) :: u8) \<noteq> 0"
    using ms(1) byte_of_len[of "length ms"] by (auto simp: greeting_ok_def)
  have "read_conn 2 (inp, out) = (Some [SocksVersion, of_nat (length ms)], (ms @ fst c', out))"
    using ms(2) by (simp add: read_conn_Some greeting_bytes_def)
  moreover have "read_conn (length ms) (ms @ fst c', out) = (Some ms, (fst c', out))" by (simp add: read_conn_app)
  ultimately show ?l using ms len
    by (cases c') (auto simp: NegotiateMethod_def Let_def selected_method_def greeting_ok_def write_conn_def split: if_splits)
qed

lemma read_len_prefixed:
  assumes "read_conn (unat (l :: u8)) c = (Some b, c')"
  shows "fst c = b @ fst c'" "l = of_nat (length b)" "length b \<le> 255" "snd c' = snd c"
  using assms byte_len[of l] by (cases c; simp add: read_conn_Some)+

lemma Authenticate_True:
  "Authenticate IDKey auth (inp, out) = (True, c') \<longleftrightarrow>
     (\<exists>user password. login_ok IDKey auth user password \<and> inp = login_bytes user password @ fst c' \<and> snd c' = out @ [AuthVersion, 0])"
  (is "?l \<longleftrightarrow> ?r")
proof
  assume l: ?l
  then obtain h c1 u c2 n c3 p c4 where r: "read_conn 2 (inp, out) = (Some h, c1)" "h ! 0 = AuthVersion"
      "read_conn (unat (h ! 1)) c1 = (Some u, c2)" "read_conn 1 c2 = (Some n, c3)" "read_conn (unat (n ! 0)) c3 = (Some p, c4)"
      "u = bytes_of (auth_Username auth)" "VerifyPassword IDKey (auth_PasswordHash auth) (string_of p)" "c' = write_conn [AuthVersion, 0] c4"
    by (auto simp: Authenticate_def Let_def split: prod.splits option.splits if_splits)
  obtain k where k: "h = [AuthVersion, k]" "inp = [AuthVersion, k] @ fst c1" "snd c1 = out"
    using r(1,2) by (auto simp: read_conn_Some two_bytes)
  obtain j where j: "n = [j]" "fst c2 = j # fst c3" "snd c3 = snd c2" using r(4) by (cases c2) (auto simp: read_conn_Some one_byte)
  have u: "fst c1 = u @ fst c2" "k = of_nat (length u)" "length u \<le> 255" "snd c2 = snd c1"
    using read_len_prefixed[of k c1 u c2] r(3) k(1) by simp_all
  have p: "fst c3 = p @ fst c4" "j = of_nat (length p)" "length p \<le> 255" "snd c4 = snd c3"
    using read_len_prefixed[of j c3 p c4] r(5) j(1) by simp_all
  show ?r using r(6-8) k j u p
    by (intro exI[of _ u] exI[of _ p]) (cases c4, simp add: login_ok_def login_bytes_def write_conn_def)
next
  assume ?r
  then obtain u p where r: "login_ok IDKey auth u p" "inp = login_bytes u p @ fst c'" "snd c' = out @ [AuthVersion, 0]" by blast
  have len: "unat (of_nat (length u) :: u8) = length u" "unat (of_nat (length p) :: u8) = length p"
    using r(1) unfolding login_ok_def by (blast intro: byte_of_len)+
  have "read_conn 2 (inp, out) = (Some [AuthVersion, of_nat (length u)], (u @ [of_nat (length p)] @ p @ fst c', out))"
    "read_conn (length u) (u @ [of_nat (length p)] @ p @ fst c', out) = (Some u, ([of_nat (length p)] @ p @ fst c', out))"
    "read_conn 1 ([of_nat (length p)] @ p @ fst c', out) = (Some [of_nat (length p)], (p @ fst c', out))"
    "read_conn (length p) (p @ fst c', out) = (Some p, (fst c', out))"
    using r(2) by (simp_all add: read_conn_Some login_bytes_def)
  then show ?l using r len by (cases c') (simp add: Authenticate_def Let_def login_ok_def write_conn_def)
qed

lemma ReadAddress_Inr:
  "ReadAddress ul t (inp, out) = (Inr h, c') \<longleftrightarrow>
     (\<exists>a. addr_ok a \<and> t # inp = addr_bytes a @ fst c' \<and> h = addr_host ul a \<and> snd c' = out)"
  (is "?l \<longleftrightarrow> ?r")
proof
  assume l: ?l
  consider b where "t = AddrIPv4" "read_conn 4 (inp, out) = (Some b, c')" "h = (ip_string b, ''ipv4'')"
    | b where "t = AddrIPv6" "read_conn 16 (inp, out) = (Some b, c')" "h = (ip_string b, ''ipv6'')"
    | n c1 b where "t = AddrDomain" "read_conn 1 (inp, out) = (Some n, c1)" "n ! 0 \<noteq> 0" "read_conn (unat (n ! 0)) c1 = (Some b, c')"
        "h = (to_lower ul (string_of b), ''domain'')"
    using l by (auto simp: ReadAddress_def split: prod.splits option.splits if_splits)
  then show ?r
  proof cases
    case (1 b)
    then show ?thesis by (intro exI[of _ "SocksV4 b"]) (simp add: read_conn_Some)
  next
    case (2 b)
    then show ?thesis by (intro exI[of _ "SocksV6 b"]) (simp add: read_conn_Some)
  next
    case (3 n c1 b)
    obtain k where k: "n = [k]" "inp = k # fst c1" "snd c1 = out" using 3(2) by (auto simp: read_conn_Some one_byte)
    have b: "fst c1 = b @ fst c'" "k = of_nat (length b)" "length b \<le> 255" "snd c' = snd c1"
      using read_len_prefixed[of k c1 b c'] 3(4) k(1) by simp_all
    have "b \<noteq> []" using 3(3) k(1) b(2) by auto
    then have "1 \<le> length b" by (cases b) auto
    then show ?thesis using 3(1,5) k b by (intro exI[of _ "SocksName b"]) simp
  qed
next
  assume ?r
  then obtain a where a: "addr_ok a" "t # inp = addr_bytes a @ fst c'" "h = addr_host ul a" "snd c' = out" by blast
  then show ?l
  proof (cases a)
    case (SocksName b)
    then have len: "unat (of_nat (length b) :: u8) = length b" using a(1) by (simp add: byte_of_len)
    then have "(of_nat (length b) :: u8) \<noteq> 0" using a(1) SocksName by (metis addr_ok.simps(3) not_one_le_zero unat_0)
    moreover have "read_conn 1 (inp, out) = (Some [of_nat (length b)], (b @ fst c', out))" using a SocksName by (simp add: read_conn_Some)
    moreover have "read_conn (length b) (b @ fst c', out) = (Some b, c')" using a by (simp add: read_conn_Some)
    ultimately show ?thesis using a SocksName len by (simp add: ReadAddress_def)
  qed (auto simp: ReadAddress_def read_conn_app[where out = out] prod_eq_iff)
qed

lemma ReadConnectRequest_Inr:
  "ReadConnectRequest ul (inp, out) = (Inr req, c') \<longleftrightarrow>
     (\<exists>a port. addr_ok a \<and> port \<noteq> 0 \<and> inp = request_bytes a port @ fst c' \<and> req = request_of ul a port \<and> snd c' = out)"
  (is "?l \<longleftrightarrow> ?r")
proof
  assume l: ?l
  then obtain h c1 host kind c2 q where r: "read_conn 4 (inp, out) = (Some h, c1)" "h ! 0 = SocksVersion" "h ! 2 = 0" "h ! 1 = CommandConnect"
      "ReadAddress ul (h ! 3) c1 = (Inr (host, kind), c2)" "read_conn 2 c2 = (Some q, c')" "1 \<le> uint (get_uint16 q)"
      "req = \<lparr>cr_Host = host, cr_Port = uint (get_uint16 q), cr_AddrType = kind, cr_OriginalHost = host\<rparr>"
    by (auto simp: ReadConnectRequest_def Let_def split: prod.splits option.splits sum.splits if_splits)
  obtain t where t: "h = [SocksVersion, CommandConnect, 0, t]" "inp = [SocksVersion, CommandConnect, 0, t] @ fst c1" "snd c1 = out"
    using r(1-4) by (auto simp: read_conn_Some four_bytes)
  obtain a where a: "addr_ok a" "t # fst c1 = addr_bytes a @ fst c2" "(host, kind) = addr_host ul a" "snd c2 = out"
  proof -
    have "ReadAddress ul t (fst c1, snd c1) = (Inr (host, kind), c2)" using r(5) t(1) by simp
    then show ?thesis using that t(3) unfolding ReadAddress_Inr by blast
  qed
  have q: "fst c2 = q @ fst c'" "length q = 2" "snd c' = out" using r(6) a(4) by (cases c2; simp add: read_conn_Some)+
  have "put_uint16 (get_uint16 q) = q" "get_uint16 q \<noteq> 0" using q(2) r(7) put_get_uint16[of q] by auto
  then show ?r using a q t r(8)
    by (intro exI[of _ a] exI[of _ "get_uint16 q"]) (simp add: request_bytes_def request_of_def prod_eq_iff)
next
  assume ?r
  then obtain a port where r: "addr_ok a" "port \<noteq> 0" "inp = request_bytes a port @ fst c'" "req = request_of ul a port" "snd c' = out" by blast
  obtain t rest where t: "addr_bytes a = t # rest" by (cases a) auto
  have "read_conn 4 (inp, out) = (Some [SocksVersion, CommandConnect, 0, t], (rest @ put_uint16 port @ fst c', out))"
    using r(3) t by (simp add: read_conn_Some request_bytes_def)
  moreover have "ReadAddress ul t (rest @ put_uint16 port @ fst c', out) = (Inr (addr_host ul a), (put_uint16 port @ fst c', out))"
    unfolding ReadAddress_Inr using r(1) t by (intro exI[of _ a]) simp
  moreover have "read_conn 2 (put_uint16 port @ fst c', out) = (Some (put_uint16 port), c')" using r(5) by (simp add: read_conn_Some)
  moreover have "\<not> uint port < 1" using r(2) by (metis int_one_le_iff_zero_less linorder_not_less uint_0_iff uint_ge_0 order_le_less zless_imp_add1_zle add_0)
  ultimately show ?l using r(4) by (cases "addr_host ul a") (simp add: ReadConnectRequest_def Let_def request_of_def)
qed

section \<open>Properties\<close>


end
