(* ===== verification/Socks5_Target.thy ===== *)
theory Socks5_Target
  imports Socks5_Wire Data_Channel
begin

text \<open>
  Both ends of a SOCKS5 tunnel around the wire protocol: the ingress checks the source address,
  serves the handshake and opens a stream (\<open>internal/client/socks5.go\<close>, with
  \<open>internal/ingresspolicy/policy.go\<close>), the target decides whether the requested host, port and
  resolved addresses are allowed and dials them. The resolver, the dialer, the local socket
  address and the deadline are arguments; the JSON of the dial result between the two ends is left
  out.
\<close>

section \<open>Source policy of an ingress\<close>

datatype policy_error = CIDRListRequired | InvalidCIDR string | TargetConfigInvalid | TargetPortInvalid

fun parse_cidr_list :: "string list \<Rightarrow> policy_error + ip_net list" where
  "parse_cidr_list [] = Inr []"
| "parse_cidr_list (v # vs) =
     (case ParseCIDR (trim_space v) of
        None \<Rightarrow> Inl (InvalidCIDR v)
      | Some n \<Rightarrow> bind_res (parse_cidr_list vs) (\<lambda>ns. Inr (n # ns)))"

definition ParseCIDRs :: "string list \<Rightarrow> policy_error + ip_net list" where
  "ParseCIDRs values = (if values = [] then Inl CIDRListRequired else parse_cidr_list values)"

text \<open>\<open>addr\<close> is the text of the remote address, \<open>None\<close> for a nil address.\<close>

definition SourceAllowed :: "string option \<Rightarrow> ip_net list \<Rightarrow> bool" where
  "SourceAllowed addr cidrs =
     (case addr of None \<Rightarrow> False
      | Some a \<Rightarrow>
          (let host = trim_set (case SplitHostPort a of Some (h, _) \<Rightarrow> h | None \<Rightarrow> a) ''[]'' in
           (case ParseIP host of None \<Rightarrow> False | Some ip \<Rightarrow> list_ex (\<lambda>n. Contains n ip) cidrs)))"

section \<open>Target policy\<close>

record SOCKS5ConnectHandlerConfig =
  ch_AllowedTargetCIDRs :: "string list option"
  ch_AllowedTargetHosts :: "string list option"
  ch_AllowedTargetPorts :: "int list option"
  ch_DialTimeoutSeconds :: int

fun ints_into :: "json \<Rightarrow> int list option \<Rightarrow> int list option option" where
  "ints_into JNull x = Some None"
| "ints_into (JArr vs) x =
     (if list_all (\<lambda>v. int_into v 0 \<noteq> None) vs then Some (Some (map (\<lambda>v. the (int_into v 0)) vs)) else None)"
| "ints_into _ x = None"

definition decode_connectHandler :: "string \<Rightarrow> SOCKS5ConnectHandlerConfig option" where
  "decode_connectHandler raw =
     Option.bind (json_object raw) (\<lambda>ms.
     Option.bind (decode_field strings_into None (members ''allowed_target_cidrs'' ms)) (\<lambda>c.
     Option.bind (decode_field strings_into None (members ''allowed_target_hosts'' ms)) (\<lambda>h.
     Option.bind (decode_field ints_into None (members ''allowed_target_ports'' ms)) (\<lambda>p.
     Option.bind (decode_field int_into 0 (members ''dial_timeout_seconds'' ms)) (\<lambda>t.
       Some \<lparr>ch_AllowedTargetCIDRs = c, ch_AllowedTargetHosts = h, ch_AllowedTargetPorts = p, ch_DialTimeoutSeconds = t\<rparr>)))))"

record clientSOCKS5TargetRuntime =
  st_tunnelID :: string
  st_revision :: int
  st_TransportPolicy :: string
  st_DialTimeoutSeconds :: int
  st_targetCIDRs :: "ip_net list"
  st_targetHosts :: "string set"
  st_targetPorts :: "int set"

definition slice :: "'a list option \<Rightarrow> 'a list" where
  "slice x = (case x of None \<Rightarrow> [] | Some xs \<Rightarrow> xs)"

definition normal_host :: "(string \<Rightarrow> string) \<Rightarrow> string \<Rightarrow> string" where
  "normal_host ul host = to_lower ul (trim_suffix (trim_space host) ''.'')"

definition newClientSOCKS5TargetRuntime ::
  "(string \<Rightarrow> string) \<Rightarrow> string \<Rightarrow> int \<Rightarrow> string \<Rightarrow> string \<Rightarrow> policy_error + clientSOCKS5TargetRuntime" where
  "newClientSOCKS5TargetRuntime ul tunnelID revision transportPolicy raw =
     (case decode_connectHandler raw of
        None \<Rightarrow> Inl TargetConfigInvalid
      | Some cfg \<Rightarrow>
          if slice (ch_AllowedTargetCIDRs cfg) = [] then Inl CIDRListRequired
          else bind_res (parse_cidr_list (slice (ch_AllowedTargetCIDRs cfg))) (\<lambda>cidrs.
            if list_ex (\<lambda>p. p < 1 \<or> p > 65535) (slice (ch_AllowedTargetPorts cfg)) then Inl TargetPortInvalid
            else Inr \<lparr>st_tunnelID = tunnelID, st_revision = revision, st_TransportPolicy = transportPolicy,
              st_DialTimeoutSeconds = (if ch_DialTimeoutSeconds cfg \<le> 0 then 10 else ch_DialTimeoutSeconds cfg),
              st_targetCIDRs = cidrs,
              st_targetHosts = set (filter (\<lambda>h. h \<noteq> []) (map (normal_host ul) (slice (ch_AllowedTargetHosts cfg)))),
              st_targetPorts = set (slice (ch_AllowedTargetPorts cfg))\<rparr>))"

definition targetAcceptsDataTransport :: "DataStreamHeader \<Rightarrow> bool" where
  "targetAcceptsDataTransport h \<longleftrightarrow> Transport h = ActualTransportServerRelay \<or>
     (Transport h = ActualTransportPeerDirect \<and> ServerAuthorized h)"

definition dataStreamHeaderMatchesSOCKS5Target :: "DataStreamHeader \<Rightarrow> clientSOCKS5TargetRuntime \<Rightarrow> bool" where
  "dataStreamHeaderMatchesSOCKS5Target h t =
     (if TunnelID h \<noteq> st_tunnelID t \<or> Revision h \<noteq> st_revision t then False
      else if TargetRole h \<noteq> DataStreamRoleTarget then False
      else if SourceRole h \<noteq> DataStreamRoleServer \<and> SourceRole h \<noteq> DataStreamRoleIngress then False
      else if Direction h \<noteq> DataStreamDirectionIngressToTarget \<or> \<not> targetAcceptsDataTransport h then False
      else if st_TransportPolicy t = ''direct_only'' \<and> Transport h \<noteq> ActualTransportPeerDirect then False
      else if TargetHost h = [] \<or> TargetPort h < 1 \<or> TargetPort h > 65535 then False
      else True)"

definition targetAllowsHostPort :: "(string \<Rightarrow> string) \<Rightarrow> string \<Rightarrow> int \<Rightarrow> clientSOCKS5TargetRuntime \<Rightarrow> bool" where
  "targetAllowsHostPort ul host port t =
     (if st_targetPorts t \<noteq> {} \<and> port \<notin> st_targetPorts t then False
      else if st_targetHosts t = {} then True
      else normal_host ul host \<in> st_targetHosts t)"

definition resolveTargetIPs :: "(string \<Rightarrow> string + bytes list) \<Rightarrow> string \<Rightarrow> string + bytes list" where
  "resolveTargetIPs lookup host = (case ParseIP host of Some ip \<Rightarrow> Inr [ip] | None \<Rightarrow> lookup host)"

definition targetAllowsResolvedIPs :: "bytes list \<Rightarrow> ip_net list \<Rightarrow> bool" where
  "targetAllowsResolvedIPs ips cidrs =
     (if ips = [] \<or> cidrs = [] then False else list_all (\<lambda>ip. list_ex (\<lambda>n. Contains n ip) cidrs) ips)"

section \<open>Dialing\<close>

datatype dial_error = DialTimedOut string | DialRefused string | DialFailed string

record SOCKS5DialResult =
  dr_Status :: string
  dr_BoundAddr :: string
  dr_BoundPort :: int
  dr_Message :: string

definition dial_result :: "string \<Rightarrow> string \<Rightarrow> SOCKS5DialResult" where
  "dial_result status msg = \<lparr>dr_Status = status, dr_BoundAddr = [], dr_BoundPort = 0, dr_Message = msg\<rparr>"

definition socks5DialResultFromError :: "dial_error \<Rightarrow> SOCKS5DialResult" where
  "socks5DialResultFromError e =
     (case e of DialTimedOut m \<Rightarrow> dial_result ''dial_timeout'' m
      | DialRefused m \<Rightarrow> dial_result ''connection_refused'' m
      | DialFailed m \<Rightarrow> dial_result ''general_failure'' m)"

text \<open>
  \<open>dial\<close> gives the outcome for one address, a success with the local TCP address if it is one;
  \<open>late n\<close> tells whether the deadline has passed when \<open>n\<close> addresses are left. The addresses that
  were dialed are the second result.
\<close>

type_synonym dialer = "bytes \<Rightarrow> int \<Rightarrow> dial_error + (bytes \<times> int) option"

fun dialResolvedSOCKS5TargetIPs ::
  "dialer \<Rightarrow> (nat \<Rightarrow> bool) \<Rightarrow> dial_error option \<Rightarrow> bytes list \<Rightarrow> int \<Rightarrow> (dial_error + bytes \<times> (bytes \<times> int) option) \<times> (bytes \<times> int) list" where
  "dialResolvedSOCKS5TargetIPs dial late lastErr [] port =
     (Inl (case lastErr of Some e \<Rightarrow> e | None \<Rightarrow> DialFailed ''dial timeout''), [])"
| "dialResolvedSOCKS5TargetIPs dial late lastErr (ip # ips) port =
     (if late (length (ip # ips)) then (Inl (case lastErr of Some e \<Rightarrow> e | None \<Rightarrow> DialFailed ''dial timeout''), [])
      else case dial ip port of
        Inr local \<Rightarrow> (Inr (ip, local), [(ip, port)])
      | Inl e \<Rightarrow> (let (r, tried) = dialResolvedSOCKS5TargetIPs dial late (Some e) ips port in (r, (ip, port) # tried)))"

definition dialSOCKS5Target ::
  "(string \<Rightarrow> string) \<Rightarrow> (string \<Rightarrow> string + bytes list) \<Rightarrow> dialer \<Rightarrow> (nat \<Rightarrow> bool) \<Rightarrow> DataStreamHeader \<Rightarrow> clientSOCKS5TargetRuntime \<Rightarrow>
     bytes option \<times> SOCKS5DialResult \<times> (bytes \<times> int) list" where
  "dialSOCKS5Target ul lookup dial late h t =
     (let host = trim_space (TargetHost h); port = TargetPort h in
      if \<not> targetAllowsHostPort ul host port t then (None, dial_result ''target_denied'' ''target denied by policy'', [])
      else case resolveTargetIPs lookup host of
        Inl e \<Rightarrow> (None, dial_result ''host_unreachable'' e, [])
      | Inr ips \<Rightarrow>
          if \<not> targetAllowsResolvedIPs ips (st_targetCIDRs t)
          then (None, dial_result ''target_denied'' ''resolved target IP denied by policy'', [])
          else (case dialResolvedSOCKS5TargetIPs dial late None ips port of
                  (Inl e, tried) \<Rightarrow> (None, socks5DialResultFromError e, tried)
                | (Inr (ip, local), tried) \<Rightarrow>
                    (Some ip, (case local of
                       None \<Rightarrow> dial_result ''success'' []
                     | Some (addr, p) \<Rightarrow> (dial_result ''success'' [])\<lparr>dr_BoundAddr := ip_string addr, dr_BoundPort := p\<rparr>), tried)))"

section \<open>The ingress\<close>

text \<open>
  \<open>openStream\<close> opens a stream for a request and reads the dial result from it; \<open>reply_ok\<close> tells
  whether the success reply could be written. The first result tells whether the relay starts.
\<close>

definition handleIngressSOCKS5Conn ::
  "id_key \<Rightarrow> (string \<Rightarrow> string) \<Rightarrow> SOCKS5ListenConfig \<Rightarrow> ip_net list \<Rightarrow> string option \<Rightarrow>
     (ConnectRequest \<Rightarrow> string + (string + SOCKS5DialResult)) \<Rightarrow> bool \<Rightarrow> wire_conn \<Rightarrow> bool \<times> wire_conn" where
  "handleIngressSOCKS5Conn IDKey ul cfg sourceCIDRs addr openStream reply_ok c =
     (if \<not> SourceAllowed addr sourceCIDRs then (False, c)
      else case ServeHandshake IDKey ul cfg c of
        (None, c) \<Rightarrow> (False, c)
      | (Some request, c) \<Rightarrow>
          (case openStream request of
             Inl _ \<Rightarrow> (False, WriteReply RepGeneralFailure [] 0 c)
           | Inr (Inl _) \<Rightarrow> (False, WriteReply RepGeneralFailure [] 0 c)
           | Inr (Inr result) \<Rightarrow>
               if dr_Status result \<noteq> ''success'' then (False, WriteReply (ReplyForDialStatus (dr_Status result)) [] 0 c)
               else (reply_ok, WriteReply RepSuccess (dr_BoundAddr result) (dr_BoundPort result) c)))"

definition socks5_header :: "DataStreamHeader \<Rightarrow> ConnectRequest \<Rightarrow> DataStreamHeader" where
  "socks5_header h0 request = h0\<lparr>TargetHost := cr_Host request, TargetPort := cr_Port request,
     TargetAddrType := cr_AddrType request, OriginalHost := cr_OriginalHost request\<rparr>"

section \<open>What is dialed\<close>

lemma dialed_addresses:
  assumes "dialResolvedSOCKS5TargetIPs dial late err ips port = (r, tried)"
  shows "set tried \<subseteq> set ips \<times> {port} \<and> (\<forall>ip local. r = Inr (ip, local) \<longrightarrow> tried \<noteq> [] \<and> last tried = (ip, port) \<and> dial ip port = Inr local)"
  using assms
proof (induction ips arbitrary: err r tried)
  case (Cons ip ips)
  show ?case
  proof (cases "late (length (ip # ips))")
    case True
    then show ?thesis using Cons.prems by auto
  next
    case False
    show ?thesis
    proof (cases "dial ip port")
      case (Inl e)
      obtain r' tried' where rec: "dialResolvedSOCKS5TargetIPs dial late (Some e) ips port = (r', tried')" by fastforce
      with Inl False Cons.prems have "r = r'" "tried = (ip, port) # tried'" by auto
      then show ?thesis using Cons.IH[OF rec] by auto
    next
      case (Inr local)
      then show ?thesis using False Cons.prems by auto
    qed
  qed
qed auto

lemma dialResolved_total:
  assumes "ips \<noteq> []" "\<forall>n. \<not> late n"
  shows "fst (dialResolvedSOCKS5TargetIPs dial late err ips port) =
    (case find (\<lambda>ip. \<exists>l. dial ip port = Inr l) ips of
       Some ip \<Rightarrow> Inr (ip, projr (dial ip port)) | None \<Rightarrow> Inl (projl (dial (last ips) port)))"
  using assms
proof (induction ips arbitrary: err)
  case (Cons ip ips)
  show ?case
  proof (cases "dial ip port")
    case (Inl e)
    then show ?thesis using Cons by (cases ips) (auto split: prod.splits option.splits)
  next
    case (Inr local)
    then show ?thesis using Cons.prems by auto
  qed
qed simp

definition target_allows :: "(string \<Rightarrow> string) \<Rightarrow> clientSOCKS5TargetRuntime \<Rightarrow> string \<Rightarrow> int \<Rightarrow> bytes \<Rightarrow> bool" where
  "target_allows ul t host port ip \<longleftrightarrow>
     (st_targetPorts t \<noteq> {} \<longrightarrow> port \<in> st_targetPorts t) \<and> (st_targetHosts t \<noteq> {} \<longrightarrow> normal_host ul host \<in> st_targetHosts t) \<and>
     (\<exists>n \<in> set (st_targetCIDRs t). Contains n ip)"

lemma dialSOCKS5Target_allowed:
  assumes "dialSOCKS5Target ul lookup dial late h t = (conn, result, tried)"
  shows "\<forall>(ip, p) \<in> set tried. p = TargetPort h \<and> target_allows ul t (trim_space (TargetHost h)) p ip \<and>
      (\<exists>ips. resolveTargetIPs lookup (trim_space (TargetHost h)) = Inr ips \<and> ip \<in> set ips \<and>
         (\<forall>x \<in> set ips. \<exists>n \<in> set (st_targetCIDRs t). Contains n x))"
    and "dr_Status result = ''success'' \<longleftrightarrow> conn \<noteq> None" "conn = Some ip \<Longrightarrow> (ip, TargetPort h) \<in> set tried"
proof -
  let ?host = "trim_space (TargetHost h)"
  consider (denied) "tried = []" "conn = None" "dr_Status result \<noteq> ''success''"
    | (dialed) ips r where "targetAllowsHostPort ul ?host (TargetPort h) t" "resolveTargetIPs lookup ?host = Inr ips"
        "targetAllowsResolvedIPs ips (st_targetCIDRs t)" "dialResolvedSOCKS5TargetIPs dial late None ips (TargetPort h) = (r, tried)"
        "case r of Inl e \<Rightarrow> conn = None \<and> dr_Status result \<noteq> ''success'' | Inr (ip, l) \<Rightarrow> conn = Some ip \<and> dr_Status result = ''success''"
    using assms by (auto simp: dialSOCKS5Target_def Let_def dial_result_def socks5DialResultFromError_def
        split: if_splits sum.splits prod.splits option.splits dial_error.splits)
  note cases = this
  show "\<forall>(ip, p) \<in> set tried. p = TargetPort h \<and> target_allows ul t ?host p ip \<and>
      (\<exists>ips. resolveTargetIPs lookup ?host = Inr ips \<and> ip \<in> set ips \<and> (\<forall>x \<in> set ips. \<exists>n \<in> set (st_targetCIDRs t). Contains n x))"
    using cases
  proof cases
    case denied
    then show ?thesis by simp
  next
    case (dialed ips r)
    then show ?thesis using dialed_addresses[OF dialed(4)]
      by (auto simp: target_allows_def targetAllowsHostPort_def targetAllowsResolvedIPs_def list_all_iff list_ex_iff split: if_splits)
  qed
  show "dr_Status result = ''success'' \<longleftrightarrow> conn \<noteq> None" using cases by cases (auto split: sum.splits prod.splits)
  show "(ip, TargetPort h) \<in> set tried" if c: "conn = Some ip"
    using cases
  proof cases
    case denied
    then show ?thesis using c by simp
  next
    case (dialed ips r)
    then obtain l where "r = Inr (ip, l)" using c by (auto split: sum.splits prod.splits)
    then have "tried \<noteq> [] \<and> last tried = (ip, TargetPort h)" using dialed_addresses[OF dialed(4)] by blast
    then show ?thesis using last_in_set by metis
  qed
qed

section \<open>Properties\<close>

text \<open>The target end of a stream: the header must match the tunnel before anything is dialed.\<close>

definition target_stream ::
  "(string \<Rightarrow> string) \<Rightarrow> (string \<Rightarrow> string + bytes list) \<Rightarrow> dialer \<Rightarrow> (nat \<Rightarrow> bool) \<Rightarrow> clientSOCKS5TargetRuntime \<Rightarrow> DataStreamHeader \<Rightarrow>
     string + (string + SOCKS5DialResult)" where
  "target_stream ul lookup dial late t h =
     (if dataStreamHeaderMatchesSOCKS5Target h t then Inr (Inr (fst (snd (dialSOCKS5Target ul lookup dial late h t)))) else Inl ''rejected'')"

lemma parse_cidr_list_Inr:
  "parse_cidr_list vs = Inr ns \<Longrightarrow> n \<in> set ns \<Longrightarrow> \<exists>v \<in> set vs. ParseCIDR (trim_space v) = Some n"
  by (induction vs arbitrary: ns) (auto split: option.splits simp: bind_res_eq_Inr)

text \<open>
  C39 (safety): bytes are relayed through a SOCKS5 tunnel only for an authorised connection. The
  source address is in the networks of the ingress, the client has completed the handshake with
  the demanded credentials, and the target has dialed the requested port at an address to which
  the requested host resolves; that address, and every other one in the answer of the resolver,
  lies in a network the target configuration lists, and where the configuration lists ports or
  hosts the port and the normalised host are among them.
\<close>

theorem socks5_relay_authorised:
  assumes rt: "newClientSOCKS5TargetRuntime ul tid revision pol raw = Inr t" and cfg: "decode_connectHandler raw = Some tcfg"
    and run: "handleIngressSOCKS5Conn IDKey ul cfg cidrs addr (\<lambda>req. target_stream ul lookup dial late t (socks5_header h0 req)) ok (inp, out) = (True, c')"
  shows "SourceAllowed addr cidrs \<and> (\<exists>req ip ips. fst (ServeHandshake IDKey ul cfg (inp, out)) = Some req \<and>
    (ip, cr_Port req) \<in> set (snd (snd (dialSOCKS5Target ul lookup dial late (socks5_header h0 req) t))) \<and>
    resolveTargetIPs lookup (trim_space (cr_Host req)) = Inr ips \<and> ip \<in> set ips \<and>
    (\<forall>x \<in> set ips. \<exists>v \<in> set (slice (ch_AllowedTargetCIDRs tcfg)). \<exists>n. ParseCIDR (trim_space v) = Some n \<and> Contains n x) \<and>
    (slice (ch_AllowedTargetPorts tcfg) \<noteq> [] \<longrightarrow> cr_Port req \<in> set (slice (ch_AllowedTargetPorts tcfg))) \<and>
    ((\<exists>x \<in> set (slice (ch_AllowedTargetHosts tcfg)). normal_host ul x \<noteq> []) \<longrightarrow>
       normal_host ul (trim_space (cr_Host req)) \<in> normal_host ul ` set (slice (ch_AllowedTargetHosts tcfg))))"
proof -
  from rt cfg have t: "parse_cidr_list (slice (ch_AllowedTargetCIDRs tcfg)) = Inr (st_targetCIDRs t)"
      "st_targetPorts t = set (slice (ch_AllowedTargetPorts tcfg))"
      "st_targetHosts t = set (filter (\<lambda>h. h \<noteq> []) (map (normal_host ul) (slice (ch_AllowedTargetHosts tcfg))))"
    by (auto simp: newClientSOCKS5TargetRuntime_def bind_res_eq_Inr split: if_splits)
  from run obtain req c1 where src: "SourceAllowed addr cidrs" and req: "ServeHandshake IDKey ul cfg (inp, out) = (Some req, c1)"
    and stat: "dr_Status (fst (snd (dialSOCKS5Target ul lookup dial late (socks5_header h0 req) t))) = ''success''"
    by (auto simp: handleIngressSOCKS5Conn_def target_stream_def split: if_splits option.splits prod.splits sum.splits)
  let ?h = "socks5_header h0 req"
  obtain conn result tried where d: "dialSOCKS5Target ul lookup dial late ?h t = (conn, result, tried)" by (metis prod_cases3)
  obtain ip where ip: "(ip, TargetPort ?h) \<in> set tried"
    using stat dialSOCKS5Target_allowed(2,3)[OF d] by (auto simp: d)
  then have al: "target_allows ul t (trim_space (TargetHost ?h)) (TargetPort ?h) ip"
    and "\<exists>ips. resolveTargetIPs lookup (trim_space (TargetHost ?h)) = Inr ips \<and> ip \<in> set ips \<and>
      (\<forall>x \<in> set ips. \<exists>n \<in> set (st_targetCIDRs t). Contains n x)"
    using dialSOCKS5Target_allowed(1)[OF d] by auto
  then obtain ips where ips: "resolveTargetIPs lookup (trim_space (TargetHost ?h)) = Inr ips" "ip \<in> set ips"
    "\<forall>x \<in> set ips. \<exists>n \<in> set (st_targetCIDRs t). Contains n x" by blast
  have nets: "\<forall>x \<in> set ips. \<exists>v \<in> set (slice (ch_AllowedTargetCIDRs tcfg)). \<exists>n. ParseCIDR (trim_space v) = Some n \<and> Contains n x"
    using ips(3) parse_cidr_list_Inr[OF t(1)] by blast
  have hp: "TargetHost ?h = cr_Host req" "TargetPort ?h = cr_Port req" by (simp_all add: socks5_header_def)
  have "slice (ch_AllowedTargetPorts tcfg) \<noteq> [] \<longrightarrow> cr_Port req \<in> set (slice (ch_AllowedTargetPorts tcfg))"
    using al hp by (simp add: target_allows_def t(2))
  moreover have "(\<exists>x \<in> set (slice (ch_AllowedTargetHosts tcfg)). normal_host ul x \<noteq> []) \<longrightarrow>
      normal_host ul (trim_space (cr_Host req)) \<in> normal_host ul ` set (slice (ch_AllowedTargetHosts tcfg))"
    using al hp by (auto simp: target_allows_def t(3))
  moreover have "(ip, cr_Port req) \<in> set (snd (snd (dialSOCKS5Target ul lookup dial late ?h t)))" using ip hp d by simp
  moreover have "resolveTargetIPs lookup (trim_space (cr_Host req)) = Inr ips" using ips(1) hp by simp
  ultimately show ?thesis using src req ips(2) nets by fastforce
qed

definition demo_target_config :: string where
  "demo_target_config = ''{\"allowed_target_cidrs\":[\"127.0.0.0/8\"],\"allowed_target_ports\":[80]}''"

definition demo_header :: DataStreamHeader where
  "demo_header = \<lparr>Kind = ''tunnel_stream'', TunnelID = ''t'', Revision = 1, StreamID = ''s'', OpenClientID = ''c'', SourceRole = ''ingress'',
     TargetRole = ''target'', Direction = ''ingress_to_target'', Transport = ''server_relay'', OpenToken = ''k'', ServerAuthorized = True,
     TargetHost = [], TargetPort = 0, TargetAddrType = [], OriginalHost = []\<rparr>"

definition demo_listen :: SOCKS5ListenConfig where
  "demo_listen = \<lparr>tl_BindIP = ''127.0.0.1'', tl_Port = 1080, tl_AllowedSourceCIDRs = None,
     sl_Auth = \<lparr>auth_Type = ''none'', auth_Username = [], auth_Password = [], auth_PasswordHash = []\<rparr>\<rparr>"

definition demo_open :: "clientSOCKS5TargetRuntime \<Rightarrow> ConnectRequest \<Rightarrow> string + (string + SOCKS5DialResult)" where
  "demo_open t = (\<lambda>req. target_stream (\<lambda>s. s) (\<lambda>_. Inl []) (\<lambda>_ _. Inr None) (\<lambda>_. False) t (socks5_header demo_header req))"

definition demo_source :: "string option" where
  "demo_source = Some ''10.1.2.3:4000''"

definition demo_input :: bytes where
  "demo_input = [5, 1, 0, 5, 1, 0, 1, 127, 0, 0, 1, 0, 80]"

definition demo_runtime :: "policy_error + clientSOCKS5TargetRuntime" where
  "demo_runtime = newClientSOCKS5TargetRuntime (\<lambda>s. s) ''t'' 1 [] demo_target_config"

definition demo_sources :: "policy_error + ip_net list" where
  "demo_sources = ParseCIDRs [''10.0.0.0/8'']"

definition demo_relay :: bool where
  "demo_relay = (case (demo_runtime, demo_sources) of
     (Inr t, Inr cidrs) \<Rightarrow> fst (handleIngressSOCKS5Conn example_IDKey (\<lambda>s. s) demo_listen cidrs demo_source (demo_open t) True (demo_input, []))
   | _ \<Rightarrow> False)"

lemma demo_relay_starts: "demo_relay"
  by code_simp

lemma both_Inr: "(case (x, y) of (Inr a, Inr b) \<Rightarrow> P a b | _ \<Rightarrow> False) \<Longrightarrow> \<exists>a b. x = Inr a \<and> y = Inr b \<and> P a b"
  by (cases x; cases y) auto

theorem socks5_relay_authorised_witness:
  "\<exists>cidrs. demo_sources = Inr cidrs \<and> SourceAllowed demo_source cidrs"
proof -
  obtain t cidrs where t: "demo_runtime = Inr t" and c: "demo_sources = Inr cidrs"
    and r: "fst (handleIngressSOCKS5Conn example_IDKey (\<lambda>s. s) demo_listen cidrs demo_source (demo_open t) True (demo_input, []))"
    using both_Inr[OF demo_relay_starts[unfolded demo_relay_def]] by blast
  obtain tcfg where tc: "decode_connectHandler demo_target_config = Some tcfg"
    using t by (cases "decode_connectHandler demo_target_config") (simp_all add: demo_runtime_def newClientSOCKS5TargetRuntime_def)
  obtain c' where "handleIngressSOCKS5Conn example_IDKey (\<lambda>s. s) demo_listen cidrs demo_source (demo_open t) True (demo_input, []) = (True, c')"
    using r by (metis prod.collapse)
  from socks5_relay_authorised[OF t[unfolded demo_runtime_def] tc this[unfolded demo_open_def]] c show ?thesis by blast
qed

end
