(* ===== verification/Tunnel_Registry.thy ===== *)
theory Tunnel_Registry
  imports Go_Prelude
begin

text \<open>
  The waiters for answers of clients (\<open>internal/server/tunnel_registry.go\<close>): provisioning
  acknowledgements and preflight responses. A channel is its buffered values and whether it is
  closed, and is named by its index; a map of pending waiters is an association list. Resolving a
  waiter takes it out of the map under the mutex and sends and closes after the mutex is released,
  so these are three steps that other operations interleave with.
\<close>

section \<open>Channels and waiters\<close>

record 'v go_chan =
  gc_buf :: "'v list"
  gc_closed :: bool

record ('k, 'v) waiters =
  wt_pending :: "('k \<times> nat) list"
  wt_chans :: "'v go_chan list"

datatype 'a chan_op = ChanDone 'a | ChanPanic | ChanBlock

definition chan_send :: "nat \<Rightarrow> 'v \<Rightarrow> ('k, 'v) waiters \<Rightarrow> ('k, 'v) waiters chan_op" where
  "chan_send n v w =
     (if gc_closed (wt_chans w ! n) then ChanPanic
      else if 1 \<le> length (gc_buf (wt_chans w ! n)) then ChanBlock
      else ChanDone (w\<lparr>wt_chans := (wt_chans w)[n := (wt_chans w ! n)\<lparr>gc_buf := gc_buf (wt_chans w ! n) @ [v]\<rparr>]\<rparr>))"

definition chan_close :: "nat \<Rightarrow> ('k, 'v) waiters \<Rightarrow> ('k, 'v) waiters chan_op" where
  "chan_close n w =
     (if gc_closed (wt_chans w ! n) then ChanPanic
      else ChanDone (w\<lparr>wt_chans := (wt_chans w)[n := (wt_chans w ! n)\<lparr>gc_closed := True\<rparr>]\<rparr>))"

definition chan_receive :: "nat \<Rightarrow> ('k, 'v) waiters \<Rightarrow> ('k, 'v) waiters" where
  "chan_receive n w = w\<lparr>wt_chans := (wt_chans w)[n := (wt_chans w ! n)\<lparr>gc_buf := drop 1 (gc_buf (wt_chans w ! n))\<rparr>]\<rparr>"

definition register_waiter :: "'k \<Rightarrow> ('k, 'v) waiters \<Rightarrow> nat option \<times> ('k, 'v) waiters" where
  "register_waiter k w =
     (case map_of (wt_pending w) k of
        Some _ \<Rightarrow> (None, w)
      | None \<Rightarrow> (Some (length (wt_chans w)),
                 w\<lparr>wt_pending := (k, length (wt_chans w)) # wt_pending w, wt_chans := wt_chans w @ [\<lparr>gc_buf = [], gc_closed = False\<rparr>]\<rparr>))"

definition unregister_waiter :: "'k \<Rightarrow> ('k, 'v) waiters \<Rightarrow> ('k, 'v) waiters" where
  "unregister_waiter k w = w\<lparr>wt_pending := filter (\<lambda>e. fst e \<noteq> k) (wt_pending w)\<rparr>"

definition take_waiter :: "'k \<Rightarrow> ('k, 'v) waiters \<Rightarrow> nat option \<times> ('k, 'v) waiters" where
  "take_waiter k w = (map_of (wt_pending w) k, unregister_waiter k w)"

fun cancel_each :: "('k \<times> nat) list \<Rightarrow> ('k, 'v) waiters \<Rightarrow> ('k, 'v) waiters chan_op" where
  "cancel_each [] w = ChanDone w"
| "cancel_each ((k, n) # es) w =
     (case chan_close n (unregister_waiter k w) of ChanDone w' \<Rightarrow> cancel_each es w' | ChanPanic \<Rightarrow> ChanPanic | ChanBlock \<Rightarrow> ChanBlock)"

section \<open>The registry\<close>

record pendingTunnelProvisionAckKey =
  pk_clientID :: string
  pk_generation :: u64
  pk_name :: string
  pk_revision :: u64
  pk_role :: string

record provisionAckResult =
  ack_name :: string
  ack_accepted :: bool
  ack_message :: string
  ack_revision :: u64
  ack_role :: string

record pendingTunnelPreflightKey =
  fk_clientID :: string
  fk_generation :: u64
  fk_requestID :: string

record TunnelPreflightResponse =
  pf_RequestID :: string
  pf_TunnelID :: string
  pf_Revision :: int
  pf_Role :: string
  pf_Accepted :: bool
  pf_Code :: string
  pf_Message :: string

record TunnelRegistry =
  tr_acks :: "(pendingTunnelProvisionAckKey, provisionAckResult) waiters"
  tr_preflights :: "(pendingTunnelPreflightKey, TunnelPreflightResponse) waiters"

definition newTunnelRegistry :: TunnelRegistry where
  "newTunnelRegistry = \<lparr>tr_acks = \<lparr>wt_pending = [], wt_chans = []\<rparr>, tr_preflights = \<lparr>wt_pending = [], wt_chans = []\<rparr>\<rparr>"

definition registerProvisionAckWaiter ::
  "string \<Rightarrow> u64 \<Rightarrow> string \<Rightarrow> u64 \<Rightarrow> string \<Rightarrow> TunnelRegistry \<Rightarrow> nat option \<times> TunnelRegistry" where
  "registerProvisionAckWaiter client generation name revision role tr =
     (let (ch, w) = register_waiter \<lparr>pk_clientID = client, pk_generation = generation, pk_name = name, pk_revision = revision,
            pk_role = role\<rparr> (tr_acks tr) in (ch, tr\<lparr>tr_acks := w\<rparr>))"

definition unregisterProvisionAckWaiter :: "string \<Rightarrow> u64 \<Rightarrow> string \<Rightarrow> u64 \<Rightarrow> string \<Rightarrow> TunnelRegistry \<Rightarrow> TunnelRegistry" where
  "unregisterProvisionAckWaiter client generation name revision role tr =
     tr\<lparr>tr_acks := unregister_waiter \<lparr>pk_clientID = client, pk_generation = generation, pk_name = name, pk_revision = revision,
            pk_role = role\<rparr> (tr_acks tr)\<rparr>"

text \<open>The key an answer is looked up under; an answer without a name is ignored.\<close>

definition ack_key :: "string \<Rightarrow> u64 \<Rightarrow> provisionAckResult \<Rightarrow> pendingTunnelProvisionAckKey option" where
  "ack_key client generation resp =
     (if ack_name resp = [] then None
      else Some \<lparr>pk_clientID = client, pk_generation = generation, pk_name = ack_name resp, pk_revision = ack_revision resp,
             pk_role = ack_role resp\<rparr>)"

definition resolveProvisionAckWaiter_take :: "string \<Rightarrow> u64 \<Rightarrow> provisionAckResult \<Rightarrow> TunnelRegistry \<Rightarrow> nat option \<times> TunnelRegistry" where
  "resolveProvisionAckWaiter_take client generation resp tr =
     (case ack_key client generation resp of
        None \<Rightarrow> (None, tr)
      | Some k \<Rightarrow> (let (ch, w) = take_waiter k (tr_acks tr) in (ch, tr\<lparr>tr_acks := w\<rparr>)))"

definition ack_owner :: "pendingTunnelProvisionAckKey \<Rightarrow> string \<times> u64" where
  "ack_owner k = (pk_clientID k, pk_generation k)"

definition cancelProvisionAckWaiters :: "string \<Rightarrow> u64 \<Rightarrow> TunnelRegistry \<Rightarrow> TunnelRegistry chan_op" where
  "cancelProvisionAckWaiters client generation tr =
     (case cancel_each (filter (\<lambda>e. ack_owner (fst e) = (client, generation)) (wt_pending (tr_acks tr))) (tr_acks tr) of
        ChanDone w \<Rightarrow> ChanDone (tr\<lparr>tr_acks := w\<rparr>) | ChanPanic \<Rightarrow> ChanPanic | ChanBlock \<Rightarrow> ChanBlock)"

definition registerPreflightWaiter :: "string \<Rightarrow> u64 \<Rightarrow> string \<Rightarrow> TunnelRegistry \<Rightarrow> nat option \<times> TunnelRegistry" where
  "registerPreflightWaiter client generation requestID tr =
     (if requestID = [] then (None, tr)
      else let (ch, w) = register_waiter \<lparr>fk_clientID = client, fk_generation = generation, fk_requestID = requestID\<rparr> (tr_preflights tr) in
        (ch, tr\<lparr>tr_preflights := w\<rparr>))"

definition unregisterPreflightWaiter :: "string \<Rightarrow> u64 \<Rightarrow> string \<Rightarrow> TunnelRegistry \<Rightarrow> TunnelRegistry" where
  "unregisterPreflightWaiter client generation requestID tr =
     tr\<lparr>tr_preflights := unregister_waiter \<lparr>fk_clientID = client, fk_generation = generation, fk_requestID = requestID\<rparr> (tr_preflights tr)\<rparr>"

definition preflight_key :: "string \<Rightarrow> u64 \<Rightarrow> TunnelPreflightResponse \<Rightarrow> pendingTunnelPreflightKey option" where
  "preflight_key client generation resp =
     (if pf_RequestID resp = [] then None
      else Some \<lparr>fk_clientID = client, fk_generation = generation, fk_requestID = pf_RequestID resp\<rparr>)"

definition preflight_owner :: "pendingTunnelPreflightKey \<Rightarrow> string \<times> u64" where
  "preflight_owner k = (fk_clientID k, fk_generation k)"

definition resolvePreflightWaiter_take :: "string \<Rightarrow> u64 \<Rightarrow> TunnelPreflightResponse \<Rightarrow> TunnelRegistry \<Rightarrow> nat option \<times> TunnelRegistry" where
  "resolvePreflightWaiter_take client generation resp tr =
     (case preflight_key client generation resp of
        None \<Rightarrow> (None, tr)
      | Some k \<Rightarrow> (let (ch, w) = take_waiter k (tr_preflights tr) in (ch, tr\<lparr>tr_preflights := w\<rparr>)))"

definition cancelPreflightWaiters :: "string \<Rightarrow> u64 \<Rightarrow> TunnelRegistry \<Rightarrow> TunnelRegistry chan_op" where
  "cancelPreflightWaiters client generation tr =
     (case cancel_each (filter (\<lambda>e. preflight_owner (fst e) = (client, generation)) (wt_pending (tr_preflights tr))) (tr_preflights tr) of
        ChanDone w \<Rightarrow> ChanDone (tr\<lparr>tr_preflights := w\<rparr>) | ChanPanic \<Rightarrow> ChanPanic | ChanBlock \<Rightarrow> ChanBlock)"

section \<open>Interleaved operations\<close>

text \<open>
  Beside the tables a run has the calls of the resolve functions between their critical section
  and their return, the keys of all channels in the order of their creation, the answers sent and
  received, and whether some call panicked or blocked.
\<close>

datatype 'v resolver = Sending nat string u64 'v | Closing nat

record ('k, 'v) waiter_ghost =
  wg_threads :: "'v resolver list"
  wg_keys :: "'k list"
  wg_sent :: "(nat \<times> string \<times> u64 \<times> 'v) list"
  wg_received :: "(nat \<times> 'v) list"
  wg_fault :: bool

fun resolver_chan :: "'v resolver \<Rightarrow> nat" where
  "resolver_chan (Sending n c g v) = n"
| "resolver_chan (Closing n) = n"

definition ghost_register :: "'k \<Rightarrow> nat option \<Rightarrow> ('k, 'v) waiter_ghost \<Rightarrow> ('k, 'v) waiter_ghost" where
  "ghost_register k ch g = (if ch = None then g else g\<lparr>wg_keys := wg_keys g @ [k]\<rparr>)"

definition ghost_take :: "nat option \<Rightarrow> string \<Rightarrow> u64 \<Rightarrow> 'v \<Rightarrow> ('k, 'v) waiter_ghost \<Rightarrow> ('k, 'v) waiter_ghost" where
  "ghost_take ch c ge v g = (case ch of None \<Rightarrow> g | Some n \<Rightarrow> g\<lparr>wg_threads := wg_threads g @ [Sending n c ge v]\<rparr>)"

text \<open>The two steps of a resolve call after its critical section, and the receive of the waiter.\<close>

definition resolver_step :: "nat \<Rightarrow> ('k, 'v) waiters \<times> ('k, 'v) waiter_ghost \<Rightarrow> ('k, 'v) waiters \<times> ('k, 'v) waiter_ghost" where
  "resolver_step i = (\<lambda>(w, g).
     case wg_threads g ! i of
       Sending n c ge v \<Rightarrow>
         (case chan_send n v w of
            ChanDone w' \<Rightarrow> (w', g\<lparr>wg_threads := (wg_threads g)[i := Closing n], wg_sent := wg_sent g @ [(n, c, ge, v)]\<rparr>)
          | _ \<Rightarrow> (w, g\<lparr>wg_fault := True\<rparr>))
     | Closing n \<Rightarrow>
         (case chan_close n w of
            ChanDone w' \<Rightarrow> (w', g\<lparr>wg_threads := take i (wg_threads g) @ drop (Suc i) (wg_threads g)\<rparr>)
          | _ \<Rightarrow> (w, g\<lparr>wg_fault := True\<rparr>)))"

definition receive_step :: "nat \<Rightarrow> ('k, 'v) waiters \<times> ('k, 'v) waiter_ghost \<Rightarrow> ('k, 'v) waiters \<times> ('k, 'v) waiter_ghost" where
  "receive_step n = (\<lambda>(w, g). (chan_receive n w, g\<lparr>wg_received := wg_received g @ map (Pair n) (take 1 (gc_buf (wt_chans w ! n)))\<rparr>))"

record registry_run =
  rr_tr :: TunnelRegistry
  rr_acks :: "(pendingTunnelProvisionAckKey, provisionAckResult) waiter_ghost"
  rr_preflights :: "(pendingTunnelPreflightKey, TunnelPreflightResponse) waiter_ghost"

inductive registry_step :: "registry_run \<Rightarrow> registry_run \<Rightarrow> bool" where
  register_ack: "registerProvisionAckWaiter c ge name rv role (rr_tr r) = (ch, tr) \<Longrightarrow>
     registry_step r (r\<lparr>rr_tr := tr, rr_acks := ghost_register
       \<lparr>pk_clientID = c, pk_generation = ge, pk_name = name, pk_revision = rv, pk_role = role\<rparr> ch (rr_acks r)\<rparr>)"
| unregister_ack: "registry_step r (r\<lparr>rr_tr := unregisterProvisionAckWaiter c ge name rv role (rr_tr r)\<rparr>)"
| resolve_ack: "resolveProvisionAckWaiter_take c ge resp (rr_tr r) = (ch, tr) \<Longrightarrow>
     registry_step r (r\<lparr>rr_tr := tr, rr_acks := ghost_take ch c ge resp (rr_acks r)\<rparr>)"
| finish_ack: "i < length (wg_threads (rr_acks r)) \<Longrightarrow> resolver_step i (tr_acks (rr_tr r), rr_acks r) = (w, g) \<Longrightarrow>
     registry_step r (r\<lparr>rr_tr := (rr_tr r)\<lparr>tr_acks := w\<rparr>, rr_acks := g\<rparr>)"
| receive_ack: "n < length (wt_chans (tr_acks (rr_tr r))) \<Longrightarrow> receive_step n (tr_acks (rr_tr r), rr_acks r) = (w, g) \<Longrightarrow>
     registry_step r (r\<lparr>rr_tr := (rr_tr r)\<lparr>tr_acks := w\<rparr>, rr_acks := g\<rparr>)"
| cancel_ack: "cancelProvisionAckWaiters c ge (rr_tr r) = ChanDone tr \<Longrightarrow> registry_step r (r\<lparr>rr_tr := tr\<rparr>)"
| cancel_ack_fault: "\<nexists>tr. cancelProvisionAckWaiters c ge (rr_tr r) = ChanDone tr \<Longrightarrow>
     registry_step r (r\<lparr>rr_acks := (rr_acks r)\<lparr>wg_fault := True\<rparr>\<rparr>)"
| register_preflight: "registerPreflightWaiter c ge q (rr_tr r) = (ch, tr) \<Longrightarrow>
     registry_step r (r\<lparr>rr_tr := tr, rr_preflights := ghost_register
       \<lparr>fk_clientID = c, fk_generation = ge, fk_requestID = q\<rparr> ch (rr_preflights r)\<rparr>)"
| unregister_preflight: "registry_step r (r\<lparr>rr_tr := unregisterPreflightWaiter c ge q (rr_tr r)\<rparr>)"
| resolve_preflight: "resolvePreflightWaiter_take c ge presp (rr_tr r) = (ch, tr) \<Longrightarrow>
     registry_step r (r\<lparr>rr_tr := tr, rr_preflights := ghost_take ch c ge presp (rr_preflights r)\<rparr>)"
| finish_preflight: "i < length (wg_threads (rr_preflights r)) \<Longrightarrow> resolver_step i (tr_preflights (rr_tr r), rr_preflights r) = (pw, pg) \<Longrightarrow>
     registry_step r (r\<lparr>rr_tr := (rr_tr r)\<lparr>tr_preflights := pw\<rparr>, rr_preflights := pg\<rparr>)"
| receive_preflight: "n < length (wt_chans (tr_preflights (rr_tr r))) \<Longrightarrow> receive_step n (tr_preflights (rr_tr r), rr_preflights r) = (pw, pg) \<Longrightarrow>
     registry_step r (r\<lparr>rr_tr := (rr_tr r)\<lparr>tr_preflights := pw\<rparr>, rr_preflights := pg\<rparr>)"
| cancel_preflight: "cancelPreflightWaiters c ge (rr_tr r) = ChanDone tr \<Longrightarrow> registry_step r (r\<lparr>rr_tr := tr\<rparr>)"
| cancel_preflight_fault: "\<nexists>tr. cancelPreflightWaiters c ge (rr_tr r) = ChanDone tr \<Longrightarrow>
     registry_step r (r\<lparr>rr_preflights := (rr_preflights r)\<lparr>wg_fault := True\<rparr>\<rparr>)"

definition registry_start :: registry_run where
  "registry_start = \<lparr>rr_tr = newTunnelRegistry,
     rr_acks = \<lparr>wg_threads = [], wg_keys = [], wg_sent = [], wg_received = [], wg_fault = False\<rparr>,
     rr_preflights = \<lparr>wg_threads = [], wg_keys = [], wg_sent = [], wg_received = [], wg_fault = False\<rparr>\<rparr>"

section \<open>The invariant of the waiters\<close>

definition fresh_chan :: "'v go_chan" where
  "fresh_chan = \<lparr>gc_buf = [], gc_closed = False\<rparr>"

type_synonym 'v sent_log = "(nat \<times> string \<times> u64 \<times> 'v) list"

definition awaiting_ok :: "('k \<times> nat) list \<Rightarrow> 'v go_chan list \<Rightarrow> 'k list \<Rightarrow> 'v sent_log \<Rightarrow> bool" where
  "awaiting_ok pend chans keys sent \<longleftrightarrow> distinct (map fst pend) \<and>
     (\<forall>(k, n) \<in> set pend. n < length chans \<and> keys ! n = k \<and> chans ! n = fresh_chan \<and> n \<notin> fst ` set sent)"

definition busy_ok :: "('k \<times> nat) list \<Rightarrow> 'v resolver list \<Rightarrow> bool" where
  "busy_ok pend threads \<longleftrightarrow> distinct (map snd pend) \<and> distinct (map resolver_chan threads) \<and>
     snd ` set pend \<inter> resolver_chan ` set threads = {}"

fun thread_ok ::
  "(string \<Rightarrow> u64 \<Rightarrow> 'v \<Rightarrow> 'k option) \<Rightarrow> 'v go_chan list \<Rightarrow> 'k list \<Rightarrow> 'v sent_log \<Rightarrow> 'v resolver \<Rightarrow> bool" where
  "thread_ok key chans keys sent (Sending n c ge v) \<longleftrightarrow>
     n < length chans \<and> chans ! n = fresh_chan \<and> n \<notin> fst ` set sent \<and> key c ge v = Some (keys ! n)"
| "thread_ok key chans keys sent (Closing n) \<longleftrightarrow> n < length chans \<and> \<not> gc_closed (chans ! n)"

definition sent_ok :: "(string \<Rightarrow> u64 \<Rightarrow> 'v \<Rightarrow> 'k option) \<Rightarrow> 'v go_chan list \<Rightarrow> 'k list \<Rightarrow> 'v sent_log \<Rightarrow> (nat \<times> 'v) list \<Rightarrow> bool" where
  "sent_ok key chans keys sent received \<longleftrightarrow> distinct (map fst sent) \<and>
     (\<forall>(n, c, ge, v) \<in> set sent. n < length chans \<and> key c ge v = Some (keys ! n) \<and>
        gc_buf (chans ! n) = (if (n, v) \<in> set received then [] else [v])) \<and>
     (\<forall>n < length chans. n \<notin> fst ` set sent \<longrightarrow> gc_buf (chans ! n) = [])"

definition received_ok :: "'v sent_log \<Rightarrow> (nat \<times> 'v) list \<Rightarrow> bool" where
  "received_ok sent received \<longleftrightarrow> distinct (map fst received) \<and> (\<forall>(n, v) \<in> set received. \<exists>c ge. (n, c, ge, v) \<in> set sent)"

definition waiters_ok :: "(string \<Rightarrow> u64 \<Rightarrow> 'v \<Rightarrow> 'k option) \<Rightarrow> ('k, 'v) waiters \<Rightarrow> ('k, 'v) waiter_ghost \<Rightarrow> bool" where
  "waiters_ok key w g \<longleftrightarrow> length (wg_keys g) = length (wt_chans w) \<and>
     awaiting_ok (wt_pending w) (wt_chans w) (wg_keys g) (wg_sent g) \<and> busy_ok (wt_pending w) (wg_threads g) \<and>
     (\<forall>t \<in> set (wg_threads g). thread_ok key (wt_chans w) (wg_keys g) (wg_sent g) t) \<and>
     sent_ok key (wt_chans w) (wg_keys g) (wg_sent g) (wg_received g) \<and> received_ok (wg_sent g) (wg_received g) \<and> \<not> wg_fault g"

lemma waiters_okD:
  assumes "waiters_ok key w g"
  shows "length (wg_keys g) = length (wt_chans w)" "awaiting_ok (wt_pending w) (wt_chans w) (wg_keys g) (wg_sent g)"
    "busy_ok (wt_pending w) (wg_threads g)" "\<And>t. t \<in> set (wg_threads g) \<Longrightarrow> thread_ok key (wt_chans w) (wg_keys g) (wg_sent g) t"
    "sent_ok key (wt_chans w) (wg_keys g) (wg_sent g) (wg_received g)" "received_ok (wg_sent g) (wg_received g)" "\<not> wg_fault g"
  using assms by (auto simp: waiters_ok_def)

lemma thread_chan: "thread_ok key chans keys sent t \<Longrightarrow> resolver_chan t < length chans"
  by (cases t) auto

text \<open>A new channel at the end.\<close>

lemma thread_ok_new:
  "thread_ok key chans keys sent t \<Longrightarrow> length keys = length chans \<Longrightarrow> thread_ok key (chans @ [c]) (keys @ [k]) sent t"
  by (cases t) (auto simp: nth_append)

lemma sent_ok_new:
  assumes "sent_ok key chans keys sent received" "length keys = length chans"
  shows "sent_ok key (chans @ [fresh_chan]) (keys @ [k]) sent received"
  using assms by (fastforce simp: sent_ok_def nth_append fresh_chan_def less_Suc_eq)

lemma waiters_ok_register:
  assumes ok: "waiters_ok key w g" and r: "register_waiter k w = (ch, w')"
  shows "waiters_ok key w' (ghost_register k ch g)"
proof (cases "map_of (wt_pending w) k")
  case None
  let ?n = "length (wt_chans w)"
  have w': "w' = w\<lparr>wt_pending := (k, ?n) # wt_pending w, wt_chans := wt_chans w @ [fresh_chan]\<rparr>"
    and ch: "ch = Some ?n" using r None by (auto simp: register_waiter_def fresh_chan_def)
  have k: "k \<notin> fst ` set (wt_pending w)" using None by (simp add: map_of_eq_None_iff)
  note I = waiters_okD[OF ok]
  have out: "?n \<notin> fst ` set (wg_sent g)" "?n \<notin> snd ` set (wt_pending w)" "?n \<notin> resolver_chan ` set (wg_threads g)"
    using I(2) I(5) thread_chan[OF I(4)] by (force simp: awaiting_ok_def sent_ok_def)+
  have "awaiting_ok ((k, ?n) # wt_pending w) (wt_chans w @ [fresh_chan]) (wg_keys g @ [k]) (wg_sent g)"
    using I(1,2) k out(1) by (auto simp: awaiting_ok_def nth_append)
  moreover have "busy_ok ((k, ?n) # wt_pending w) (wg_threads g)" using I(3) out by (auto simp: busy_ok_def)
  ultimately show ?thesis
    using I thread_ok_new[OF I(4) I(1)] sent_ok_new[OF I(5,1)] by (simp add: waiters_ok_def w' ch ghost_register_def)
next
  case (Some n)
  then show ?thesis using ok r by (auto simp: register_waiter_def ghost_register_def)
qed

lemma awaiting_ok_filter: "awaiting_ok pend chans keys sent \<Longrightarrow> awaiting_ok (filter P pend) chans keys sent"
  by (auto simp: awaiting_ok_def distinct_map_filter)

lemma busy_ok_filter: "busy_ok pend threads \<Longrightarrow> busy_ok (filter P pend) threads"
  by (auto simp: busy_ok_def distinct_map_filter)

lemma waiters_ok_unregister: "waiters_ok key w g \<Longrightarrow> waiters_ok key (unregister_waiter k w) g"
  by (simp add: waiters_ok_def unregister_waiter_def awaiting_ok_filter busy_ok_filter)

lemma waiters_ok_take:
  assumes ok: "waiters_ok key w g" and k: "key c ge v = Some k" and t: "take_waiter k w = (ch, w')"
  shows "waiters_ok key w' (ghost_take ch c ge v g)"
proof (cases ch)
  case None
  then show ?thesis using waiters_ok_unregister[OF ok] t by (auto simp: take_waiter_def ghost_take_def)
next
  case (Some n)
  note I = waiters_okD[OF ok]
  have w': "w' = unregister_waiter k w" and n: "(k, n) \<in> set (wt_pending w)"
    using t Some by (auto simp: take_waiter_def map_of_SomeD)
  have kn: "wg_keys g ! n = k" "thread_ok key (wt_chans w) (wg_keys g) (wg_sent g) (Sending n c ge v)"
    using I(2) n k by (auto simp: awaiting_ok_def)
  have "distinct (map snd (wt_pending w))" using I(3) by (simp add: busy_ok_def)
  then have "e = (k, n)" if "e \<in> set (wt_pending w)" "snd e = n" for e
    using that n by (metis distinct_map inj_on_def snd_conv)
  then have "n \<notin> snd ` set (filter (\<lambda>e. fst e \<noteq> k) (wt_pending w))" by force
  moreover have "n \<notin> resolver_chan ` set (wg_threads g)" using I(3) n by (force simp: busy_ok_def)
  ultimately have "busy_ok (filter (\<lambda>e. fst e \<noteq> k) (wt_pending w)) (wg_threads g @ [Sending n c ge v])"
    using busy_ok_filter[OF I(3)] by (auto simp: busy_ok_def)
  then show ?thesis
    using I kn(2) by (auto simp: waiters_ok_def w' Some ghost_take_def unregister_waiter_def awaiting_ok_filter)
qed

text \<open>A channel that only one thread owns is changed: pending waiters and other threads are not affected.\<close>

lemma awaiting_ok_update:
  assumes "awaiting_ok pend chans keys sent" "n \<notin> snd ` set pend" "fst ` set sent' \<subseteq> insert n (fst ` set sent)"
  shows "awaiting_ok pend (chans[n := x]) keys sent'"
  using assms by (fastforce simp: awaiting_ok_def nth_list_update image_iff)

lemma thread_ok_update:
  assumes "thread_ok key chans keys sent t" "resolver_chan t \<noteq> n" "fst ` set sent' \<subseteq> insert n (fst ` set sent)"
  shows "thread_ok key (chans[n := x]) keys sent' t"
  using assms by (cases t) (auto simp: nth_list_update)

lemma split_threads:
  assumes "i < length threads" "busy_ok pend threads"
  obtains xs ys where "threads = xs @ threads ! i # ys" "take i threads @ drop (Suc i) threads = xs @ ys"
    "\<And>x. threads[i := x] = xs @ x # ys" "\<And>t. t \<in> set (xs @ ys) \<Longrightarrow> resolver_chan t \<noteq> resolver_chan (threads ! i)"
    "resolver_chan (threads ! i) \<notin> snd ` set pend"
proof -
  let ?xs = "take i threads" and ?ys = "drop (Suc i) threads"
  have th: "threads = ?xs @ threads ! i # ?ys" using assms(1) by (rule id_take_nth_drop)
  have "distinct (map resolver_chan (?xs @ threads ! i # ?ys))" using assms(2) th by (metis busy_ok_def)
  then have "\<And>t. t \<in> set (?xs @ ?ys) \<Longrightarrow> resolver_chan t \<noteq> resolver_chan (threads ! i)"
    by (auto simp del: append_take_drop_id) (metis image_eqI)+
  moreover have "resolver_chan (threads ! i) \<notin> snd ` set pend" using assms nth_mem by (fastforce simp: busy_ok_def)
  ultimately show ?thesis using that[OF th refl] upd_conv_take_nth_drop[OF assms(1)] by blast
qed

lemma sent_ok_send:
  assumes s: "sent_ok key chans keys sent received" and r: "received_ok sent received" and n: "n < length chans" "n \<notin> fst ` set sent"
    and k: "key c ge v = Some (keys ! n)"
  shows "sent_ok key (chans[n := (chans ! n)\<lparr>gc_buf := [v]\<rparr>]) keys (sent @ [(n, c, ge, v)]) received"
proof -
  have new: "(n, v) \<notin> set received" using r n(2) by (force simp: received_ok_def)
  have other: "m \<noteq> n" if "(m, x) \<in> set sent" for m x using n(2) that by force
  show ?thesis using s n k new other unfolding sent_ok_def by (fastforce simp: nth_list_update)
qed

lemma waiters_ok_resolver:
  assumes ok: "waiters_ok key w g" and i: "i < length (wg_threads g)" and st: "resolver_step i (w, g) = (w', g')"
  shows "waiters_ok key w' g'"
proof -
  note I = waiters_okD[OF ok]
  obtain xs ys where th: "wg_threads g = xs @ wg_threads g ! i # ys" "take i (wg_threads g) @ drop (Suc i) (wg_threads g) = xs @ ys"
    "\<And>x. (wg_threads g)[i := x] = xs @ x # ys"
    "\<And>t. t \<in> set (xs @ ys) \<Longrightarrow> resolver_chan t \<noteq> resolver_chan (wg_threads g ! i)"
    "resolver_chan (wg_threads g ! i) \<notin> snd ` set (wt_pending w)" using split_threads[OF i I(3)] by metis
  have t: "thread_ok key (wt_chans w) (wg_keys g) (wg_sent g) (wg_threads g ! i)" using I(4) i by simp
  have rest: "thread_ok key (wt_chans w) (wg_keys g) (wg_sent g) s" if "s \<in> set (xs @ ys)" for s
    using I(4) that th(1) by (metis Un_iff in_set_conv_decomp list.set_intros(2) set_append)
  have busy: "busy_ok (wt_pending w) (xs @ wg_threads g ! i # ys)" using I(3) th(1) by simp
  show ?thesis
  proof (cases "wg_threads g ! i")
    case (Sending n c ge v)
    have n: "n < length (wt_chans w)" "wt_chans w ! n = fresh_chan" "n \<notin> fst ` set (wg_sent g)" "key c ge v = Some (wg_keys g ! n)"
      using t Sending by simp_all
    let ?ch = "(wt_chans w)[n := (wt_chans w ! n)\<lparr>gc_buf := [v]\<rparr>]" and ?sent = "wg_sent g @ [(n, c, ge, v)]"
    have r: "w' = w\<lparr>wt_chans := ?ch\<rparr>" "g' = g\<lparr>wg_threads := xs @ Closing n # ys, wg_sent := ?sent\<rparr>"
      using st n(2) by (simp_all add: resolver_step_def Sending chan_send_def fresh_chan_def th(3))
    have "thread_ok key ?ch (wg_keys g) ?sent s" if "s \<in> set (xs @ Closing n # ys)" for s
    proof (cases "s = Closing n")
      case True
      then show ?thesis using n by (simp add: fresh_chan_def)
    next
      case False
      then have s: "s \<in> set (xs @ ys)" using that by auto
      then have "resolver_chan s \<noteq> n" using th(4)[OF s] Sending by simp
      then show ?thesis by (intro thread_ok_update[OF rest[OF s]]) auto
    qed
    moreover have "awaiting_ok (wt_pending w) ?ch (wg_keys g) ?sent"
      using th(5) Sending by (intro awaiting_ok_update[OF I(2)]) auto
    moreover have "busy_ok (wt_pending w) (xs @ Closing n # ys)" using busy Sending by (simp add: busy_ok_def)
    moreover have "received_ok ?sent (wg_received g)" using I(6) by (fastforce simp: received_ok_def)
    ultimately show ?thesis using I sent_ok_send[OF I(5,6) n(1,3,4)] by (simp add: waiters_ok_def r)
  next
    case (Closing n)
    have n: "n < length (wt_chans w)" "\<not> gc_closed (wt_chans w ! n)" using t Closing by simp_all
    let ?ch = "(wt_chans w)[n := (wt_chans w ! n)\<lparr>gc_closed := True\<rparr>]"
    have r: "w' = w\<lparr>wt_chans := ?ch\<rparr>" "g' = g\<lparr>wg_threads := xs @ ys\<rparr>"
      using st n(2) by (simp_all add: resolver_step_def Closing chan_close_def th(2))
    have "thread_ok key ?ch (wg_keys g) (wg_sent g) s" if s: "s \<in> set (xs @ ys)" for s
      using th(4)[OF s] Closing by (intro thread_ok_update[OF rest[OF s]]) auto
    moreover have "awaiting_ok (wt_pending w) ?ch (wg_keys g) (wg_sent g)"
      using th(5) Closing by (intro awaiting_ok_update[OF I(2)]) auto
    moreover have "busy_ok (wt_pending w) (xs @ ys)" using busy by (auto simp: busy_ok_def)
    moreover have "sent_ok key ?ch (wg_keys g) (wg_sent g) (wg_received g)"
      using I(5) n(1) by (auto simp: sent_ok_def nth_list_update)
    ultimately show ?thesis using I by (simp add: waiters_ok_def r)
  qed
qed

lemma waiters_ok_receive:
  assumes ok: "waiters_ok key w g" and n: "n < length (wt_chans w)" and st: "receive_step n (w, g) = (w', g')"
  shows "waiters_ok key w' g'"
proof (cases "gc_buf (wt_chans w ! n)")
  case Nil
  then have "(wt_chans w ! n)\<lparr>gc_buf := []\<rparr> = wt_chans w ! n" by (cases "wt_chans w ! n") simp
  then have "(wt_chans w)[n := (wt_chans w ! n)\<lparr>gc_buf := []\<rparr>] = wt_chans w" by simp
  then have "w' = w" "g' = g" using st Nil by (simp_all add: receive_step_def chan_receive_def)
  then show ?thesis using ok by simp
next
  case (Cons v vs)
  note I = waiters_okD[OF ok]
  let ?ch = "(wt_chans w)[n := (wt_chans w ! n)\<lparr>gc_buf := []\<rparr>]"
  have "n \<in> fst ` set (wg_sent g)" using I(5) n Cons by (auto simp: sent_ok_def)
  then obtain c ge u where u: "(n, c, ge, u) \<in> set (wg_sent g)" by force
  then have v: "u = v" "vs = []" "(n, v) \<notin> set (wg_received g)" using I(5) Cons by (auto simp: sent_ok_def split: if_splits)
  have r: "w' = w\<lparr>wt_chans := ?ch\<rparr>" "g' = g\<lparr>wg_received := wg_received g @ [(n, v)]\<rparr>"
    using st Cons v(2) by (simp_all add: receive_step_def chan_receive_def)
  have uniq: "x = (c, ge, u)" if "(n, x) \<in> set (wg_sent g)" for x
    using I(5) that u eq_key_imp_eq_value[of "wg_sent g" n] by (simp add: sent_ok_def)
  have out: "n \<notin> snd ` set (wt_pending w)" using I(2) u by (force simp: awaiting_ok_def)
  have notyet: "n \<notin> fst ` set (wg_received g)" using I(6) uniq v(1,3) by (force simp: received_ok_def)
  have "thread_ok key ?ch (wg_keys g) (wg_sent g) t" if t: "t \<in> set (wg_threads g)" for t
  proof (cases "resolver_chan t = n")
    case True
    then show ?thesis using I(4)[OF t] u by (cases t) force+
  next
    case False
    then show ?thesis by (intro thread_ok_update[OF I(4)[OF t]]) auto
  qed
  moreover have "awaiting_ok (wt_pending w) ?ch (wg_keys g) (wg_sent g)" by (rule awaiting_ok_update[OF I(2) out]) auto
  moreover have "sent_ok key ?ch (wg_keys g) (wg_sent g) (wg_received g @ [(n, v)])"
    using I(5) uniq v(1) n unfolding sent_ok_def by (fastforce simp: nth_list_update)
  moreover have "received_ok (wg_sent g) (wg_received g @ [(n, v)])" using I(6) notyet u v(1) by (auto simp: received_ok_def)
  ultimately show ?thesis using I by (simp add: waiters_ok_def r)
qed

lemma cancel_each_ok:
  assumes "waiters_ok key w g" "set es \<subseteq> set (wt_pending w)" "distinct (map fst es)"
  shows "\<exists>w'. cancel_each es w = ChanDone w' \<and> waiters_ok key w' g"
  using assms
proof (induction es arbitrary: w)
  case (Cons e es)
  obtain k n where e: "e = (k, n)" by (cases e)
  note I = waiters_okD[OF Cons.prems(1)]
  let ?w = "unregister_waiter k w"
  have kn: "(k, n) \<in> set (wt_pending w)" using Cons.prems(2) e by simp
  have ok: "waiters_ok key ?w g" using Cons.prems(1) by (rule waiters_ok_unregister)
  note J = waiters_okD[OF ok]
  have ch: "wt_chans ?w = wt_chans w" by (simp add: unregister_waiter_def)
  have n: "n < length (wt_chans w)" "wt_chans w ! n = fresh_chan" "n \<notin> fst ` set (wg_sent g)"
    using I(2) kn by (auto simp: awaiting_ok_def)
  have "distinct (map snd (wt_pending w))" using I(3) by (simp add: busy_ok_def)
  then have "x = (k, n)" if "x \<in> set (wt_pending w)" "snd x = n" for x
    using that kn by (metis distinct_map inj_on_def snd_conv)
  then have "n \<notin> snd ` set (wt_pending ?w)" by (force simp: unregister_waiter_def)
  moreover have "n \<notin> resolver_chan ` set (wg_threads g)" using I(3) kn by (force simp: busy_ok_def)
  ultimately have out: "n \<notin> snd ` set (wt_pending ?w)" "n \<notin> resolver_chan ` set (wg_threads g)" by simp_all
  let ?ch = "(wt_chans w)[n := (wt_chans w ! n)\<lparr>gc_closed := True\<rparr>]"
  have cl: "chan_close n ?w = ChanDone (?w\<lparr>wt_chans := ?ch\<rparr>)" using n ch by (simp add: chan_close_def fresh_chan_def)
  have "thread_ok key ?ch (wg_keys g) (wg_sent g) t" if t: "t \<in> set (wg_threads g)" for t
    using out(2) t by (intro thread_ok_update[OF I(4)[OF t]]) auto
  moreover have "awaiting_ok (wt_pending ?w) ?ch (wg_keys g) (wg_sent g)"
    using awaiting_ok_update[OF J(2) out(1) subset_insertI] ch by simp
  moreover have "sent_ok key ?ch (wg_keys g) (wg_sent g) (wg_received g)"
    using I(5) n(1) by (auto simp: sent_ok_def nth_list_update)
  ultimately have "waiters_ok key (?w\<lparr>wt_chans := ?ch\<rparr>) g" using J ch by (simp add: waiters_ok_def)
  moreover have "set es \<subseteq> set (wt_pending (?w\<lparr>wt_chans := ?ch\<rparr>))"
    using Cons.prems(2,3) e by (force simp: unregister_waiter_def)
  ultimately show ?case using Cons.IH Cons.prems(3) cl e by simp
qed simp

lemma waiters_ok_cancel:
  assumes ok: "waiters_ok key w g"
  shows "\<exists>w'. cancel_each (filter P (wt_pending w)) w = ChanDone w' \<and> waiters_ok key w' g"
  using waiters_okD(2)[OF ok] by (intro cancel_each_ok[OF ok]) (auto simp: awaiting_ok_def distinct_map_filter)

section \<open>The contract of an answer key\<close>

text \<open>
  What the two maps have in common: an answer is looked up under a key that names the client and
  the generation of the connection it came from.
\<close>

locale answer_key =
  fixes key :: "string \<Rightarrow> u64 \<Rightarrow> 'v \<Rightarrow> 'k option"
    and owner :: "'k \<Rightarrow> string \<times> u64"
  assumes key_owner: "key c ge v = Some k \<Longrightarrow> owner k = (c, ge)"
begin

lemma received_matches:
  assumes "waiters_ok key w g" "(n, v) \<in> set (wg_received g)"
  shows "n < length (wg_keys g) \<and> key (fst (owner (wg_keys g ! n))) (snd (owner (wg_keys g ! n))) v = Some (wg_keys g ! n)"
proof -
  obtain c ge where "(n, c, ge, v) \<in> set (wg_sent g)" using waiters_okD(6)[OF assms(1)] assms(2) by (auto simp: received_ok_def)
  then have k: "key c ge v = Some (wg_keys g ! n)" "n < length (wt_chans w)" using waiters_okD(5)[OF assms(1)] by (auto simp: sent_ok_def)
  then show ?thesis using key_owner[OF k(1)] waiters_okD(1)[OF assms(1)] by simp
qed

lemma received_once: "waiters_ok key w g \<Longrightarrow> distinct (map fst (wg_received g))"
  using waiters_okD(6) by (auto simp: received_ok_def)

lemma sent_available:
  assumes "waiters_ok key w g" "(n, c, ge, v) \<in> set (wg_sent g)"
  shows "(n, v) \<in> set (wg_received g) \<or> gc_buf (wt_chans w ! n) = [v]"
  using waiters_okD(5)[OF assms(1)] assms(2) by (auto simp: sent_ok_def split: if_splits)

end

interpretation acks: answer_key ack_key ack_owner
  by unfold_locales (auto simp: ack_key_def ack_owner_def split: if_splits)

interpretation preflights: answer_key preflight_key preflight_owner
  by unfold_locales (auto simp: preflight_key_def preflight_owner_def split: if_splits)

lemma ack_key_Some: "ack_key c ge v = Some k \<Longrightarrow> ack_name v = pk_name k \<and> ack_revision v = pk_revision k \<and> ack_role v = pk_role k"
  by (auto simp: ack_key_def split: if_splits)

lemma preflight_key_Some: "preflight_key c ge v = Some k \<Longrightarrow> pf_RequestID v = fk_requestID k"
  by (auto simp: preflight_key_def split: if_splits)

section \<open>Runs of the registry\<close>

definition registry_ok :: "registry_run \<Rightarrow> bool" where
  "registry_ok r \<longleftrightarrow> waiters_ok ack_key (tr_acks (rr_tr r)) (rr_acks r) \<and> waiters_ok preflight_key (tr_preflights (rr_tr r)) (rr_preflights r)"

lemma registry_start_ok: "registry_ok registry_start"
  by (simp add: registry_ok_def registry_start_def newTunnelRegistry_def waiters_ok_def awaiting_ok_def busy_ok_def sent_ok_def received_ok_def)

lemma cancel_acks_ok:
  assumes "registry_ok r"
  shows "\<exists>tr. cancelProvisionAckWaiters c ge (rr_tr r) = ChanDone tr \<and> registry_ok (r\<lparr>rr_tr := tr\<rparr>)"
proof -
  obtain w' where "cancel_each (filter (\<lambda>e. ack_owner (fst e) = (c, ge)) (wt_pending (tr_acks (rr_tr r)))) (tr_acks (rr_tr r)) = ChanDone w'"
    "waiters_ok ack_key w' (rr_acks r)" using waiters_ok_cancel assms unfolding registry_ok_def by metis
  then show ?thesis using assms by (simp add: cancelProvisionAckWaiters_def registry_ok_def)
qed

lemma cancel_preflights_ok:
  assumes "registry_ok r"
  shows "\<exists>tr. cancelPreflightWaiters c ge (rr_tr r) = ChanDone tr \<and> registry_ok (r\<lparr>rr_tr := tr\<rparr>)"
proof -
  obtain w' where "cancel_each (filter (\<lambda>e. preflight_owner (fst e) = (c, ge)) (wt_pending (tr_preflights (rr_tr r)))) (tr_preflights (rr_tr r)) = ChanDone w'"
    "waiters_ok preflight_key w' (rr_preflights r)" using waiters_ok_cancel assms unfolding registry_ok_def by metis
  then show ?thesis using assms by (simp add: cancelPreflightWaiters_def registry_ok_def)
qed

lemma registry_step_ok: "registry_step r r' \<Longrightarrow> registry_ok r \<Longrightarrow> registry_ok r'"
proof (induction rule: registry_step.induct)
  case (register_ack c ge name rv role r ch tr)
  then show ?case
    by (auto simp: registry_ok_def registerProvisionAckWaiter_def split: prod.splits intro: waiters_ok_register)
next
  case (unregister_ack r c ge name rv role)
  then show ?case by (simp add: registry_ok_def unregisterProvisionAckWaiter_def waiters_ok_unregister)
next
  case (resolve_ack c ge resp r ch tr)
  then show ?case
    by (auto simp: registry_ok_def resolveProvisionAckWaiter_take_def ghost_take_def split: option.splits prod.splits
        dest: waiters_ok_take)
next
  case (finish_ack i r w g)
  then show ?case using waiters_ok_resolver[of ack_key "tr_acks (rr_tr r)" "rr_acks r" i w g] by (simp add: registry_ok_def)
next
  case (receive_ack n r w g)
  then show ?case using waiters_ok_receive[of ack_key "tr_acks (rr_tr r)" "rr_acks r" n w g] by (simp add: registry_ok_def)
next
  case (cancel_ack c ge r tr)
  then show ?case using cancel_acks_ok[of r c ge] by auto
next
  case (cancel_ack_fault c ge r)
  then show ?case using cancel_acks_ok[of r c ge] by auto
next
  case (register_preflight c ge q r ch tr)
  then show ?case
    by (auto simp: registry_ok_def registerPreflightWaiter_def ghost_register_def split: prod.splits if_splits
        dest: waiters_ok_register)
next
  case (unregister_preflight r c ge q)
  then show ?case by (simp add: registry_ok_def unregisterPreflightWaiter_def waiters_ok_unregister)
next
  case (resolve_preflight c ge presp r ch tr)
  then show ?case
    by (auto simp: registry_ok_def resolvePreflightWaiter_take_def ghost_take_def split: option.splits prod.splits
        dest: waiters_ok_take)
next
  case (finish_preflight i r w g)
  then show ?case using waiters_ok_resolver[of preflight_key "tr_preflights (rr_tr r)" "rr_preflights r" i w g] by (simp add: registry_ok_def)
next
  case (receive_preflight n r w g)
  then show ?case using waiters_ok_receive[of preflight_key "tr_preflights (rr_tr r)" "rr_preflights r" n w g] by (simp add: registry_ok_def)
next
  case (cancel_preflight c ge r tr)
  then show ?case using cancel_preflights_ok[of r c ge] by auto
next
  case (cancel_preflight_fault c ge r)
  then show ?case using cancel_preflights_ok[of r c ge] by auto
qed

lemma registry_reachable: "registry_step\<^sup>*\<^sup>* registry_start r \<Longrightarrow> registry_ok r"
  by (induction rule: rtranclp_induct) (auto intro: registry_start_ok registry_step_ok)

section \<open>Properties\<close>

text \<open>
  C40 (safety): however registrations, time-outs, answers, cancellations and receives of the
  waiters interleave, also between the critical section of a resolve call and its send and close,
  no call sends on or closes a closed channel and none blocks. A waiter receives at most one
  answer, and it is one that the client connection it was registered for has given for exactly the
  awaited tunnel name, revision and role, or request; an answer that was accepted is either
  received or waits in the channel.
\<close>

theorem waiters_get_their_own_answer:
  assumes "registry_step\<^sup>*\<^sup>* registry_start r"
  shows "\<not> wg_fault (rr_acks r) \<and> \<not> wg_fault (rr_preflights r) \<and>
    distinct (map fst (wg_received (rr_acks r))) \<and> distinct (map fst (wg_received (rr_preflights r))) \<and>
    (\<forall>(n, v) \<in> set (wg_received (rr_acks r)). let k = wg_keys (rr_acks r) ! n in
       ack_name v = pk_name k \<and> ack_revision v = pk_revision k \<and> ack_role v = pk_role k) \<and>
    (\<forall>(n, v) \<in> set (wg_received (rr_preflights r)). pf_RequestID v = fk_requestID (wg_keys (rr_preflights r) ! n)) \<and>
    (\<forall>(n, c, ge, v) \<in> set (wg_sent (rr_acks r)). ack_owner (wg_keys (rr_acks r) ! n) = (c, ge) \<and>
       ((n, v) \<in> set (wg_received (rr_acks r)) \<or> gc_buf (wt_chans (tr_acks (rr_tr r)) ! n) = [v])) \<and>
    (\<forall>(n, c, ge, v) \<in> set (wg_sent (rr_preflights r)). preflight_owner (wg_keys (rr_preflights r) ! n) = (c, ge) \<and>
       ((n, v) \<in> set (wg_received (rr_preflights r)) \<or> gc_buf (wt_chans (tr_preflights (rr_tr r)) ! n) = [v]))"
proof -
  have a: "waiters_ok ack_key (tr_acks (rr_tr r)) (rr_acks r)" and p: "waiters_ok preflight_key (tr_preflights (rr_tr r)) (rr_preflights r)"
    using registry_reachable[OF assms] by (simp_all add: registry_ok_def)
  have "ack_owner (wg_keys (rr_acks r) ! n) = (c, ge)" if "(n, c, ge, v) \<in> set (wg_sent (rr_acks r))" for n c ge v
    using waiters_okD(5)[OF a] that acks.key_owner by (fastforce simp: sent_ok_def)
  moreover have "preflight_owner (wg_keys (rr_preflights r) ! n) = (c, ge)" if "(n, c, ge, v) \<in> set (wg_sent (rr_preflights r))" for n c ge v
    using waiters_okD(5)[OF p] that preflights.key_owner by (fastforce simp: sent_ok_def)
  moreover have "ack_name v = pk_name k \<and> ack_revision v = pk_revision k \<and> ack_role v = pk_role k"
    if "(n, v) \<in> set (wg_received (rr_acks r))" "k = wg_keys (rr_acks r) ! n" for n v k
    using acks.received_matches[OF a that(1)] that(2) ack_key_Some by metis
  moreover have "pf_RequestID v = fk_requestID (wg_keys (rr_preflights r) ! n)" if "(n, v) \<in> set (wg_received (rr_preflights r))" for n v
    using preflights.received_matches[OF p that] preflight_key_Some by metis
  ultimately show ?thesis
    using waiters_okD(7)[OF a] waiters_okD(7)[OF p] acks.received_once[OF a] preflights.received_once[OF p]
    unfolding Let_def by (intro conjI ballI) (auto dest: acks.sent_available[OF a] preflights.sent_available[OF p])
qed

definition demo_ack :: provisionAckResult where
  "demo_ack = \<lparr>ack_name = ''t'', ack_accepted = True, ack_message = [], ack_revision = 1, ack_role = ''target''\<rparr>"

definition ack_registered :: "registry_run \<Rightarrow> registry_run" where
  "ack_registered r = (let x = registerProvisionAckWaiter ''c'' 1 ''t'' 1 ''target'' (rr_tr r) in
     r\<lparr>rr_tr := snd x, rr_acks := ghost_register
       \<lparr>pk_clientID = ''c'', pk_generation = 1, pk_name = ''t'', pk_revision = 1, pk_role = ''target''\<rparr> (fst x) (rr_acks r)\<rparr>)"

definition ack_resolved :: "registry_run \<Rightarrow> registry_run" where
  "ack_resolved r = (let x = resolveProvisionAckWaiter_take ''c'' 1 demo_ack (rr_tr r) in
     r\<lparr>rr_tr := snd x, rr_acks := ghost_take (fst x) ''c'' 1 demo_ack (rr_acks r)\<rparr>)"

definition ack_finished :: "registry_run \<Rightarrow> registry_run" where
  "ack_finished r = (let x = resolver_step 0 (tr_acks (rr_tr r), rr_acks r) in r\<lparr>rr_tr := (rr_tr r)\<lparr>tr_acks := fst x\<rparr>, rr_acks := snd x\<rparr>)"

definition ack_received :: "registry_run \<Rightarrow> registry_run" where
  "ack_received r = (let x = receive_step 0 (tr_acks (rr_tr r), rr_acks r) in r\<lparr>rr_tr := (rr_tr r)\<lparr>tr_acks := fst x\<rparr>, rr_acks := snd x\<rparr>)"

definition demo_answers :: registry_run where
  "demo_answers = ack_received (ack_finished (ack_resolved (ack_registered registry_start)))"

lemmas demo_answers_defs = demo_answers_def demo_ack_def ack_registered_def ack_resolved_def ack_finished_def ack_received_def registry_start_def
  newTunnelRegistry_def registerProvisionAckWaiter_def register_waiter_def ghost_register_def resolveProvisionAckWaiter_take_def
  take_waiter_def unregister_waiter_def ack_key_def ghost_take_def resolver_step_def chan_send_def receive_step_def chan_receive_def

lemma demo_answers_reachable: "registry_step\<^sup>*\<^sup>* registry_start demo_answers"
proof -
  have 1: "registry_step r (ack_registered r)" for r
    unfolding ack_registered_def Let_def by (rule registry_step.register_ack) simp
  have 2: "registry_step r (ack_resolved r)" for r
    unfolding ack_resolved_def Let_def by (rule registry_step.resolve_ack) simp
  have 3: "registry_step r (ack_finished r)" if "wg_threads (rr_acks r) \<noteq> []" for r
    unfolding ack_finished_def Let_def using that by (intro registry_step.finish_ack[of 0]) simp_all
  have 4: "registry_step r (ack_received r)" if "wt_chans (tr_acks (rr_tr r)) \<noteq> []" for r
    unfolding ack_received_def Let_def using that by (intro registry_step.receive_ack[of 0]) simp_all
  have "wg_threads (rr_acks (ack_resolved (ack_registered registry_start))) \<noteq> []"
    "wt_chans (tr_acks (rr_tr (ack_finished (ack_resolved (ack_registered registry_start))))) \<noteq> []"
    by (simp_all add: demo_answers_defs)
  from rtranclp.rtrancl_into_rtrancl[OF rtranclp.rtrancl_into_rtrancl[OF rtranclp.rtrancl_into_rtrancl[OF
      r_into_rtranclp[of registry_step, OF 1] 2] 3[OF this(1)]] 4[OF this(2)]]
  show ?thesis unfolding demo_answers_def .
qed

theorem waiters_get_their_own_answer_witness:
  "wg_received (rr_acks demo_answers) = [(0, demo_ack)] \<and> \<not> wg_fault (rr_acks demo_answers)"
proof
  show "wg_received (rr_acks demo_answers) = [(0, demo_ack)]" by (simp add: demo_answers_defs)
  show "\<not> wg_fault (rr_acks demo_answers)" using waiters_get_their_own_answer[OF demo_answers_reachable] by blast
qed

end
