(* ===== verification/User_Store.thy ===== *)
theory User_Store
  imports Go_Prelude "HOL-Library.Product_Lexorder"
begin

text \<open>
  The accounts of the server (\<open>internal/server/user_policy.go\<close>,
  \<open>user_store.go\<close>, the user, session and second-factor parts of
  \<open>admin_store.go\<close>, \<open>admin_security_store.go\<close> and
  \<open>admin_security_activity.go\<close>): the tables as lists of rows, every operation that
  changes them as one transaction, and the policy that keeps an administrator.

  A transaction gets the instant it runs at, the random bytes it draws, the outcome of
  hashing a password, and whether all its statements and the commit succeed; a failed
  statement, a failed commit and the injected save failure all roll back. What the code takes
  from elsewhere (bcrypt, TOTP validation, the Unicode tables behind \<open>IsLetter\<close> and
  \<open>IsDigit\<close> outside ASCII) is the argument \<open>libs\<close>. An activity event is the row
  that \<open>appendActivityTx\<close> inserts, or its failure.
\<close>

section \<open>Instants as the database compares them\<close>

text \<open>
  \<open>formatTime\<close> writes RFC 3339 with the fraction cut after its last non-zero digit.
  SQLite compares these texts. Up to the seconds they have a fixed width, so the order is
  that of the seconds and then that of the rest of the text.
\<close>

definition frac_digits :: "int \<Rightarrow> int list" where
  "frac_digits n = rev (dropWhile (\<lambda>d. d = 0) (map (\<lambda>i. n div 10 ^ i mod 10) [0..<9]))"

definition frac_text :: "int \<Rightarrow> string" where
  "frac_text n =
     (if n = 0 then ''Z'' else ''.'' @ map (\<lambda>d. char_of (48 + nat d)) (frac_digits n) @ ''Z'')"

definition formatTime :: "gotime \<Rightarrow> int \<times> string" where
  "formatTime t = (t div second, frac_text (t mod second))"

section \<open>Identifiers and passwords\<close>

definition uuid_digit :: "nat \<Rightarrow> char" where
  "uuid_digit n = (if n < 10 then char_of (48 + n) else char_of (87 + n))"

definition hex_bytes :: "bytes \<Rightarrow> string" where
  "hex_bytes bs = concat (map (\<lambda>b. [uuid_digit (unat b div 16), uuid_digit (unat b mod 16)]) bs)"

unbundle bit_operations_syntax

text \<open>The random source either fails or fills the 16 bytes.\<close>

definition generateUUIDE :: "bytes option \<Rightarrow> string option" where
  "generateUUIDE rnd =
     (case rnd of
        None \<Rightarrow> None
      | Some r \<Rightarrow>
          (let buf = take 16 (r @ replicate 16 0);
               buf = buf[6 := (buf ! 6 AND 0x0f) OR 0x40];
               buf = buf[8 := (buf ! 8 AND 0x3f) OR 0x80]
           in Some (hex_bytes (take 4 buf) @ ''-'' @ hex_bytes (take 2 (drop 4 buf)) @ ''-'' @
                    hex_bytes (take 2 (drop 6 buf)) @ ''-'' @ hex_bytes (take 2 (drop 8 buf)) @ ''-'' @
                    hex_bytes (drop 10 buf))))"

lemma generateUUIDE_nonempty: "generateUUIDE r = Some i \<Longrightarrow> i \<noteq> []"
  by (auto simp: generateUUIDE_def Let_def split: option.splits)

record libs =
  lb_letter :: "nat \<Rightarrow> bool"
  lb_digit :: "nat \<Rightarrow> bool"
  lb_bcrypt :: "string \<Rightarrow> string \<Rightarrow> bool"
  lb_totp :: "string \<Rightarrow> string \<Rightarrow> bool"

text \<open>
  A \<open>range\<close> over a string decodes UTF-8; a byte that starts no valid encoding is
  U+FFFD and takes one byte.
\<close>

definition is_cont :: "nat \<Rightarrow> bool" where
  "is_cont b \<longleftrightarrow> 128 \<le> b \<and> b < 192"

fun range_runes :: "nat list \<Rightarrow> nat list" where
  "range_runes [] = []"
| "range_runes (a # bs) =
     (if a < 128 then a # range_runes bs
      else if 194 \<le> a \<and> a < 224 \<and> 1 \<le> length bs \<and> is_cont (bs ! 0)
      then ((a - 192) * 64 + (bs ! 0 - 128)) # range_runes (drop 1 bs)
      else if 224 \<le> a \<and> a < 240 \<and> 2 \<le> length bs \<and> is_cont (bs ! 0) \<and> is_cont (bs ! 1)
        \<and> (a = 224 \<longrightarrow> 160 \<le> bs ! 0) \<and> (a = 237 \<longrightarrow> bs ! 0 < 160)
      then ((a - 224) * 4096 + (bs ! 0 - 128) * 64 + (bs ! 1 - 128)) # range_runes (drop 2 bs)
      else if 240 \<le> a \<and> a < 245 \<and> 3 \<le> length bs \<and> is_cont (bs ! 0) \<and> is_cont (bs ! 1) \<and> is_cont (bs ! 2)
        \<and> (a = 240 \<longrightarrow> 144 \<le> bs ! 0) \<and> (a = 244 \<longrightarrow> bs ! 0 < 144)
      then ((a - 240) * 262144 + (bs ! 0 - 128) * 4096 + (bs ! 1 - 128) * 64 + (bs ! 2 - 128)) # range_runes (drop 3 bs)
      else 65533 # range_runes bs)"

definition IsLetter :: "libs \<Rightarrow> nat \<Rightarrow> bool" where
  "IsLetter L r = (if r < 128 then (65 \<le> r \<and> r \<le> 90) \<or> (97 \<le> r \<and> r \<le> 122) else lb_letter L r)"

definition IsDigit :: "libs \<Rightarrow> nat \<Rightarrow> bool" where
  "IsDigit L r = (if r < 128 then 48 \<le> r \<and> r \<le> 57 else lb_digit L r)"

definition validatePassword :: "libs \<Rightarrow> string \<Rightarrow> bool" where
  "validatePassword L password =
     (let runes = range_runes (map of_char password)
      in 8 \<le> length password \<and> (\<exists>c \<in> set runes. IsLetter L c) \<and> (\<exists>c \<in> set runes. IsDigit L c))"

section \<open>Rows and tables\<close>

definition UserStatusActive :: string where "UserStatusActive = ''active''"
definition UserStatusDisabled :: string where "UserStatusDisabled = ''disabled''"

text \<open>The role is not a column: every query derives it from the administrator flag.\<close>

record User =
  us_ID :: string
  us_Username :: string
  us_PasswordHash :: string
  us_IsAdmin :: bool
  us_Status :: string
  us_CreatedAt :: gotime
  us_UpdatedAt :: gotime
  us_LastLogin :: "gotime option"
  us_TOTPEnabled :: bool
  us_TOTPSecret :: string

definition user_role :: "User \<Rightarrow> string" where
  "user_role u = (if us_IsAdmin u then ''admin'' else ''user'')"

record session_row =
  se_ID :: string
  se_UserID :: string
  se_CreatedAt :: gotime
  se_ExpiresAt :: gotime
  se_IP :: string
  se_UserAgent :: string

record AdminSession = session_row +
  as_Username :: string
  as_Role :: string

record AdminAuthChallenge =
  ch_ID :: string
  ch_UserID :: "string option"
  ch_Kind :: string
  ch_SessionJSON :: string
  ch_MetadataJSON :: string
  ch_CreatedAt :: gotime
  ch_ExpiresAt :: gotime

record recovery_row =
  rc_ID :: string
  rc_UserID :: string
  rc_CodeHash :: string
  rc_CreatedAt :: gotime
  rc_UsedAt :: "gotime option"

record AdminPasskey =
  pk_ID :: string
  pk_UserID :: string
  pk_Name :: string
  pk_CredentialID :: string
  pk_CredentialJSON :: string
  pk_RPID :: string
  pk_Origin :: string
  pk_CreatedAt :: gotime
  pk_LastUsedAt :: "gotime option"

text \<open>
  Of the tables of resources, the columns that the deletion of a user reads or writes: the
  key, the owner (which may be NULL) and the references.
\<close>

record api_key_row =
  ak_ID :: string
  ak_OwnerUserID :: "string option"

record client_row =
  cl_ID :: string
  cl_OwnerUserID :: "string option"
  cl_InstallID :: string

record token_row =
  tk_ID :: string
  tk_ClientID :: string
  tk_InstallID :: string

record tunnel_row =
  tu_ID :: string
  tu_OwnerUserID :: "string option"
  tu_CreatedByUserID :: "string option"

record resource_lock_row =
  lk_ResourceKey :: string
  lk_TunnelID :: string

record bucket_row =
  bk_OwnerUserID :: "string option"
  bk_TunnelID :: string

record event_row =
  ev_ID :: int
  ev_ScopeUserID :: "string option"
  ev_SubjectUserID :: "string option"
  ev_ActorType :: string
  ev_ActorID :: string

record user_db =
  db_initialized :: bool
  db_jwtSecret :: string
  db_serverAddr :: string
  db_allowedPorts :: "(int \<times> int) list"
  db_users :: "User list"
  db_sessions :: "session_row list"
  db_challenges :: "AdminAuthChallenge list"
  db_recovery :: "recovery_row list"
  db_passkeys :: "AdminPasskey list"
  db_apiKeys :: "api_key_row list"
  db_clients :: "client_row list"
  db_tokens :: "token_row list"
  db_tunnels :: "tunnel_row list"
  db_locks :: "resource_lock_row list"
  db_buckets :: "bucket_row list"
  db_events :: "event_row list"
  db_eventClients :: "(int \<times> string) list"
  db_eventTunnels :: "(int \<times> string) list"

datatype account_error =
  ErrUserNotFound | ErrUserMustBeDisabled | ErrInvalidUserStatus | ErrInvalidUsername | ErrInvalidPassword
  | ErrUserAlreadyExists | ErrUserDisabled | ErrLastOperationalAdmin | ErrSelfUserLifecycleMutation
  | ErrUserLifecycleTargetNotFound | ErrUserLifecycleIdentityChange | ErrNoRows | ErrHash | ErrRandom
  | ErrChallengeExpired | ErrChallengeUserRequired | ErrPasskeyLoginChallengeCapacity | ErrPasskeyNotFound
  | ErrPasskeyNameRequired | ErrCurrentPassword | ErrMFAInvalid | ErrSamePassword | ErrIncorrectLogin
  | ErrUserOwnerUnavailable | ErrAlreadyInitialized | ErrNotInitialized | ErrNoAdministrator | ErrConstraint | ErrActivity string
  | ErrStorage

type_synonym 'a tx = "user_db \<Rightarrow> account_error + ('a \<times> user_db)"

text \<open>Begin, run, and commit or roll back.\<close>

definition in_tx :: "bool \<Rightarrow> 'a tx \<Rightarrow> user_db \<Rightarrow> (account_error + 'a) \<times> user_db" where
  "in_tx ok body db =
     (case body db of
        Inl e \<Rightarrow> (Inl e, db)
      | Inr (x, db') \<Rightarrow> if ok then (Inr x, db') else (Inl ErrStorage, db))"

section \<open>Statements\<close>

definition has_user :: "user_db \<Rightarrow> string \<Rightarrow> bool" where
  "has_user db u \<longleftrightarrow> u \<in> us_ID ` set (db_users db)"

definition update_user :: "string \<Rightarrow> (User \<Rightarrow> User) \<Rightarrow> user_db \<Rightarrow> user_db" where
  "update_user u f db = db\<lparr>db_users := map (\<lambda>x. if us_ID x = u then f x else x) (db_users db)\<rparr>"

definition delete_sessions :: "string \<Rightarrow> user_db \<Rightarrow> user_db" where
  "delete_sessions u db = db\<lparr>db_sessions := filter (\<lambda>s. se_UserID s \<noteq> u) (db_sessions db)\<rparr>"

definition delete_challenges :: "string \<Rightarrow> user_db \<Rightarrow> user_db" where
  "delete_challenges u db = db\<lparr>db_challenges := filter (\<lambda>c. ch_UserID c \<noteq> Some u) (db_challenges db)\<rparr>"

definition delete_recovery :: "string \<Rightarrow> user_db \<Rightarrow> user_db" where
  "delete_recovery u db = db\<lparr>db_recovery := filter (\<lambda>r. rc_UserID r \<noteq> u) (db_recovery db)\<rparr>"

definition delete_passkeys :: "string \<Rightarrow> user_db \<Rightarrow> user_db" where
  "delete_passkeys u db = db\<lparr>db_passkeys := filter (\<lambda>p. pk_UserID p \<noteq> u) (db_passkeys db)\<rparr>"

text \<open>
  \<open>appendActivityTx\<close>: no actor, a failure, or the inserted row.
\<close>

definition append_event :: "(string + event_row) option \<Rightarrow> int tx" where
  "append_event actor db =
     (case actor of
        None \<Rightarrow> Inr (0, db)
      | Some (Inl e) \<Rightarrow> Inl (ErrActivity e)
      | Some (Inr ev) \<Rightarrow> Inr (ev_ID ev, db\<lparr>db_events := db_events db @ [ev]\<rparr>))"

lemmas statement_defs = update_user_def delete_sessions_def delete_challenges_def delete_recovery_def
  delete_passkeys_def

section \<open>The policy\<close>

definition isOperationalUser :: "User \<Rightarrow> bool" where
  "isOperationalUser u \<longleftrightarrow> us_ID u \<noteq> [] \<and> us_Status u = UserStatusActive"

text \<open>The loop of the policy over the users, with the target replaced or skipped.\<close>

fun lifecycle_loop :: "User \<Rightarrow> User \<Rightarrow> bool \<Rightarrow> User list \<Rightarrow> bool \<times> nat \<Rightarrow> bool \<times> nat" where
  "lifecycle_loop prior after deleting [] acc = acc"
| "lifecycle_loop prior after deleting (x # xs) (found, n) =
     (if us_ID x = us_ID prior then
        (if deleting then lifecycle_loop prior after deleting xs (True, n)
         else lifecycle_loop prior after deleting xs
                (True, if us_IsAdmin after \<and> isOperationalUser after then n + 1 else n))
      else lifecycle_loop prior after deleting xs
             (found, if us_IsAdmin x \<and> isOperationalUser x then n + 1 else n))"

definition validateUserLifecycleMutation ::
  "User list \<Rightarrow> string \<Rightarrow> User \<Rightarrow> User \<Rightarrow> bool \<Rightarrow> account_error option" where
  "validateUserLifecycleMutation users actorUserID prior after deleting =
     (if us_ID prior = [] then Some ErrUserLifecycleTargetNotFound
      else if us_ID after \<noteq> us_ID prior then Some ErrUserLifecycleIdentityChange
      else if actorUserID = us_ID prior \<and> (deleting \<or> us_Status after = UserStatusDisabled)
      then Some ErrSelfUserLifecycleMutation
      else (case lifecycle_loop prior after deleting users (False, 0) of
              (foundTarget, operationalAdmins) \<Rightarrow>
                if \<not> foundTarget then Some ErrUserLifecycleTargetNotFound
                else if operationalAdmins = 0 then Some ErrLastOperationalAdmin
                else None))"

definition getUserInTx :: "string \<Rightarrow> user_db \<Rightarrow> account_error + User" where
  "getUserInTx u db =
     (case find (\<lambda>x. us_ID x = u) (db_users db) of None \<Rightarrow> Inl ErrUserNotFound | Some x \<Rightarrow> Inr x)"

definition created_key :: "User \<Rightarrow> (int \<times> string) \<times> string" where
  "created_key u = (formatTime (us_CreatedAt u), us_ID u)"

definition listUsersInTx :: "user_db \<Rightarrow> User list" where
  "listUsersInTx db = sort_key created_key (db_users db)"

definition legacyOwnerUserIDInTx :: "user_db \<Rightarrow> account_error + string" where
  "legacyOwnerUserIDInTx db =
     (case sort_key created_key (filter (\<lambda>u. us_IsAdmin u \<and> us_Status u = UserStatusActive) (db_users db)) of
        [] \<Rightarrow> Inl ErrUserOwnerUnavailable
      | u # _ \<Rightarrow> Inr (us_ID u))"

definition GetUserByUsername :: "string \<Rightarrow> user_db \<Rightarrow> account_error + User" where
  "GetUserByUsername username db =
     (let n = trim_space username
      in if n = [] then Inl ErrUserNotFound
         else (case find (\<lambda>x. us_Username x = n) (db_users db) of None \<Rightarrow> Inl ErrUserNotFound | Some x \<Rightarrow> Inr x))"

definition IsUserOperational :: "string \<Rightarrow> user_db \<Rightarrow> account_error + bool" where
  "IsUserOperational userID db =
     (if userID = [] then Inl ErrUserNotFound
      else (case find (\<lambda>x. us_ID x = userID) (db_users db) of
              None \<Rightarrow> Inl ErrUserNotFound
            | Some x \<Rightarrow> Inr (us_Status x = UserStatusActive)))"

section \<open>Operations on accounts\<close>

definition normalizeUsername :: "string \<Rightarrow> account_error + string" where
  "normalizeUsername username =
     (let n = trim_space username in if n = [] then Inl ErrInvalidUsername else Inr n)"

definition from_option :: "account_error \<Rightarrow> 'a option \<Rightarrow> account_error + 'a" where
  "from_option e x = (case x of None \<Rightarrow> Inl e | Some y \<Rightarrow> Inr y)"

definition createUserTx :: "User \<Rightarrow> (string + event_row) option \<Rightarrow> (User \<times> int) tx" where
  "createUserTx user actor db =
     (if us_Username user \<in> us_Username ` set (db_users db) \<or> us_ID user \<in> us_ID ` set (db_users db)
      then Inl ErrUserAlreadyExists
      else bind_res (append_event actor (db\<lparr>db_users := db_users db @ [user]\<rparr>))
             (\<lambda>(activityID, db'). Inr ((user, activityID), db')))"

definition createUser ::
  "libs \<Rightarrow> gotime \<Rightarrow> bytes option \<Rightarrow> string option \<Rightarrow> bool \<Rightarrow> string \<Rightarrow> string \<Rightarrow> (string + event_row) option
   \<Rightarrow> user_db \<Rightarrow> (account_error + User \<times> int) \<times> user_db" where
  "createUser L now rnd hashed ok username password actor db =
     (case bind_res (normalizeUsername username) (\<lambda>name.
           bind_res (check_that (validatePassword L password) ErrInvalidPassword) (\<lambda>_.
           bind_res (from_option ErrHash hashed) (\<lambda>h.
           bind_res (from_option ErrRandom (generateUUIDE rnd)) (\<lambda>i.
             Inr \<lparr>us_ID = i, us_Username = name, us_PasswordHash = h, us_IsAdmin = False,
                  us_Status = UserStatusActive, us_CreatedAt = now, us_UpdatedAt = now,
                  us_LastLogin = None, us_TOTPEnabled = False, us_TOTPSecret = []\<rparr>)))) of
        Inl e \<Rightarrow> (Inl e, db)
      | Inr user \<Rightarrow> in_tx ok (createUserTx user actor) db)"

definition updateUserUsernameTx ::
  "gotime \<Rightarrow> string \<Rightarrow> string \<Rightarrow> (string + event_row) option \<Rightarrow> (User \<times> int) tx" where
  "updateUserUsernameTx now userID username actor db =
     bind_res (getUserInTx userID db) (\<lambda>user.
       if \<exists>x \<in> set (db_users db). us_ID x \<noteq> userID \<and> us_Username x = username
       then Inl ErrUserAlreadyExists
       else (let db1 = update_user userID (\<lambda>x. x\<lparr>us_Username := username, us_UpdatedAt := now\<rparr>) db;
                 db2 = delete_sessions userID db1
             in bind_res (append_event actor db2) (\<lambda>(activityID, db3).
                  Inr ((user\<lparr>us_Username := username, us_UpdatedAt := now\<rparr>, activityID), db3))))"

definition updateUserUsername ::
  "gotime \<Rightarrow> bool \<Rightarrow> string \<Rightarrow> string \<Rightarrow> (string + event_row) option
   \<Rightarrow> user_db \<Rightarrow> (account_error + User \<times> int) \<times> user_db" where
  "updateUserUsername now ok userID username actor db =
     (case normalizeUsername username of
        Inl e \<Rightarrow> (Inl e, db)
      | Inr name \<Rightarrow> in_tx ok (updateUserUsernameTx now userID name actor) db)"

definition resetUserPasswordTx ::
  "gotime \<Rightarrow> string \<Rightarrow> string \<Rightarrow> (string + event_row) option \<Rightarrow> (User \<times> int) tx" where
  "resetUserPasswordTx now userID h actor db =
     bind_res (getUserInTx userID db) (\<lambda>user.
       let db1 = update_user userID (\<lambda>x. x\<lparr>us_PasswordHash := h, us_UpdatedAt := now\<rparr>) db;
           db2 = delete_challenges userID (delete_sessions userID db1)
       in bind_res (append_event actor db2) (\<lambda>(activityID, db3).
            Inr ((user\<lparr>us_PasswordHash := h, us_UpdatedAt := now\<rparr>, activityID), db3)))"

definition resetUserPassword ::
  "libs \<Rightarrow> gotime \<Rightarrow> string option \<Rightarrow> bool \<Rightarrow> string \<Rightarrow> string \<Rightarrow> (string + event_row) option
   \<Rightarrow> user_db \<Rightarrow> (account_error + User \<times> int) \<times> user_db" where
  "resetUserPassword L now hashed ok userID password actor db =
     (case bind_res (check_that (validatePassword L password) ErrInvalidPassword) (\<lambda>_. from_option ErrHash hashed) of
        Inl e \<Rightarrow> (Inl e, db)
      | Inr h \<Rightarrow> in_tx ok (resetUserPasswordTx now userID h actor) db)"

text \<open>Demotion removes the second factors, which only administrators have.\<close>

definition clear_admin_security :: "string \<Rightarrow> user_db \<Rightarrow> user_db" where
  "clear_admin_security userID db =
     delete_challenges userID (delete_passkeys userID (delete_recovery userID
       (update_user userID (\<lambda>x. x\<lparr>us_TOTPEnabled := False, us_TOTPSecret := []\<rparr>) db)))"

definition setUserAdminTx ::
  "gotime \<Rightarrow> string \<Rightarrow> string \<Rightarrow> bool \<Rightarrow> (string + event_row) option \<Rightarrow> (User \<times> bool \<times> int) tx" where
  "setUserAdminTx now actorUserID userID isAdmin actor db =
     bind_res (getUserInTx userID db) (\<lambda>prior.
       let after = prior\<lparr>us_IsAdmin := isAdmin\<rparr>
       in case validateUserLifecycleMutation (listUsersInTx db) actorUserID prior after False of
            Some e \<Rightarrow> Inl e
          | None \<Rightarrow>
              if us_IsAdmin prior = isAdmin then Inr ((prior, False, 0), db)
              else (let db1 = update_user userID (\<lambda>x. x\<lparr>us_IsAdmin := isAdmin, us_UpdatedAt := now\<rparr>) db;
                        db2 = delete_sessions userID db1;
                        db3 = (if isAdmin then db2 else clear_admin_security userID db2)
                    in bind_res (append_event actor db3) (\<lambda>(activityID, db4).
                         Inr ((after\<lparr>us_UpdatedAt := now\<rparr>, True, activityID), db4))))"

definition setUserAdmin ::
  "gotime \<Rightarrow> bool \<Rightarrow> string \<Rightarrow> string \<Rightarrow> bool \<Rightarrow> (string + event_row) option
   \<Rightarrow> user_db \<Rightarrow> (account_error + User \<times> bool \<times> int) \<times> user_db" where
  "setUserAdmin now ok actorUserID userID isAdmin actor db =
     in_tx ok (setUserAdminTx now actorUserID userID isAdmin actor) db"

definition revokeUserLoginStateTx :: "string \<Rightarrow> user_db \<Rightarrow> user_db" where
  "revokeUserLoginStateTx userID db = delete_challenges userID (delete_sessions userID db)"

definition setUserStatusTx ::
  "gotime \<Rightarrow> string \<Rightarrow> string \<Rightarrow> string \<Rightarrow> (string + event_row) option \<Rightarrow> (User \<times> bool \<times> int) tx" where
  "setUserStatusTx now actorUserID userID status actor db =
     bind_res (getUserInTx userID db) (\<lambda>prior.
       let after = prior\<lparr>us_Status := status\<rparr>;
           revoke = (\<lambda>d. if status = UserStatusDisabled then revokeUserLoginStateTx userID d else d)
       in case validateUserLifecycleMutation (listUsersInTx db) actorUserID prior after False of
            Some e \<Rightarrow> Inl e
          | None \<Rightarrow>
              if us_Status prior = status then Inr ((prior, False, 0), revoke db)
              else (let db1 = update_user userID (\<lambda>x. x\<lparr>us_Status := status, us_UpdatedAt := now\<rparr>) db;
                        db2 = revoke db1
                    in bind_res (append_event actor db2) (\<lambda>(activityID, db3).
                         Inr ((after\<lparr>us_UpdatedAt := now\<rparr>, True, activityID), db3))))"

definition setUserStatus ::
  "gotime \<Rightarrow> bool \<Rightarrow> string \<Rightarrow> string \<Rightarrow> string \<Rightarrow> (string + event_row) option
   \<Rightarrow> user_db \<Rightarrow> (account_error + User \<times> bool \<times> int) \<times> user_db" where
  "setUserStatus now ok actorUserID userID status actor db =
     (if status \<noteq> UserStatusActive \<and> status \<noteq> UserStatusDisabled then (Inl ErrInvalidUserStatus, db)
      else in_tx ok (setUserStatusTx now actorUserID userID status actor) db)"

definition DeleteSessionsByUserIDWithActivity ::
  "bool \<Rightarrow> string \<Rightarrow> (string + event_row) option \<Rightarrow> user_db \<Rightarrow> (account_error + int) \<times> user_db" where
  "DeleteSessionsByUserIDWithActivity ok userID actor =
     in_tx ok (\<lambda>db. bind_res (getUserInTx userID db) (\<lambda>target. append_event actor (delete_sessions userID db)))"

section \<open>Deletion of a user\<close>

text \<open>
  \<open>userActivityDeletionPredicate\<close>. A comparison with NULL is not true.
\<close>

definition userActivityDeletionPredicate :: "string \<Rightarrow> user_db \<Rightarrow> event_row \<Rightarrow> bool" where
  "userActivityDeletionPredicate u db e \<longleftrightarrow>
     ev_ScopeUserID e = Some u \<or> ev_SubjectUserID e = Some u
     \<or> (ev_ActorType e \<in> {''admin'', ''user''} \<and> ev_ActorID e = u)
     \<or> (ev_ActorType e = ''client'' \<and> ev_ActorID e \<in> cl_ID ` {c \<in> set (db_clients db). cl_OwnerUserID c = Some u})
     \<or> ev_ID e \<in> fst ` {r \<in> set (db_eventClients db). snd r \<in> cl_ID ` {c \<in> set (db_clients db). cl_OwnerUserID c = Some u}}
     \<or> ev_ID e \<in> fst ` {r \<in> set (db_eventTunnels db). snd r \<in> tu_ID ` {t \<in> set (db_tunnels db). tu_OwnerUserID t = Some u}}"

record UserDeletionImpact =
  im_UserID :: string
  im_APIKeys :: nat
  im_Clients :: nat
  im_Tunnels :: nat
  im_TrafficBuckets :: nat
  im_ActivityEvents :: nat

definition GetUserDeletionImpact :: "string \<Rightarrow> user_db \<Rightarrow> account_error + UserDeletionImpact" where
  "GetUserDeletionImpact u db =
     (if \<not> has_user db u then Inl ErrUserNotFound
      else Inr \<lparr>im_UserID = u,
        im_APIKeys = length (filter (\<lambda>k. ak_OwnerUserID k = Some u) (db_apiKeys db)),
        im_Clients = length (filter (\<lambda>c. cl_OwnerUserID c = Some u) (db_clients db)),
        im_Tunnels = length (filter (\<lambda>t. tu_OwnerUserID t = Some u) (db_tunnels db)),
        im_TrafficBuckets = length (filter (\<lambda>b. bk_OwnerUserID b = Some u) (db_buckets db)),
        im_ActivityEvents = length (filter (userActivityDeletionPredicate u db) (db_events db))\<rparr>)"

text \<open>
  The statements of \<open>DeleteDisabledUser\<close> in their order. The relation rows of an event
  go with it (their foreign key cascades).
\<close>

definition clear_creator :: "string \<Rightarrow> user_db \<Rightarrow> user_db" where
  "clear_creator u db = db\<lparr>db_tunnels := map (\<lambda>t.
     if tu_CreatedByUserID t = Some u \<and> tu_OwnerUserID t \<noteq> None \<and> tu_OwnerUserID t \<noteq> Some u
     then t\<lparr>tu_CreatedByUserID := None\<rparr> else t) (db_tunnels db)\<rparr>"

definition delete_events :: "string \<Rightarrow> user_db \<Rightarrow> user_db" where
  "delete_events u db =
     (let gone = ev_ID ` {e \<in> set (db_events db). userActivityDeletionPredicate u db e}
      in db\<lparr>db_events := filter (\<lambda>e. \<not> userActivityDeletionPredicate u db e) (db_events db),
            db_eventClients := filter (\<lambda>r. fst r \<notin> gone) (db_eventClients db),
            db_eventTunnels := filter (\<lambda>r. fst r \<notin> gone) (db_eventTunnels db)\<rparr>)"

definition delete_buckets :: "string \<Rightarrow> user_db \<Rightarrow> user_db" where
  "delete_buckets u db = db\<lparr>db_buckets := filter (\<lambda>b. bk_OwnerUserID b \<noteq> Some u) (db_buckets db)\<rparr>"

definition delete_locks :: "string \<Rightarrow> user_db \<Rightarrow> user_db" where
  "delete_locks u db = db\<lparr>db_locks := filter (\<lambda>k.
     lk_TunnelID k \<notin> tu_ID ` {t \<in> set (db_tunnels db). tu_OwnerUserID t = Some u}) (db_locks db)\<rparr>"

definition delete_owned_tunnels :: "string \<Rightarrow> user_db \<Rightarrow> user_db" where
  "delete_owned_tunnels u db = db\<lparr>db_tunnels := filter (\<lambda>t. tu_OwnerUserID t \<noteq> Some u) (db_tunnels db)\<rparr>"

definition delete_tokens :: "string \<Rightarrow> user_db \<Rightarrow> user_db" where
  "delete_tokens u db =
     (let owned = {c \<in> set (db_clients db). cl_OwnerUserID c = Some u}
      in db\<lparr>db_tokens := filter (\<lambda>k. \<not> (tk_ClientID k \<in> cl_ID ` owned
            \<or> (tk_InstallID k \<noteq> [] \<and> tk_InstallID k \<in> cl_InstallID ` {c \<in> owned. cl_InstallID c \<noteq> []})))
          (db_tokens db)\<rparr>)"

definition delete_clients :: "string \<Rightarrow> user_db \<Rightarrow> user_db" where
  "delete_clients u db = db\<lparr>db_clients := filter (\<lambda>c. cl_OwnerUserID c \<noteq> Some u) (db_clients db)\<rparr>"

definition delete_apiKeys :: "string \<Rightarrow> user_db \<Rightarrow> user_db" where
  "delete_apiKeys u db = db\<lparr>db_apiKeys := filter (\<lambda>k. ak_OwnerUserID k \<noteq> Some u) (db_apiKeys db)\<rparr>"

definition delete_user_row :: "string \<Rightarrow> user_db \<Rightarrow> user_db" where
  "delete_user_row u db = db\<lparr>db_users := filter (\<lambda>x. us_ID x \<noteq> u) (db_users db)\<rparr>"

definition delete_user_rows :: "string \<Rightarrow> user_db \<Rightarrow> user_db" where
  "delete_user_rows u db =
     delete_user_row u (delete_challenges u (delete_passkeys u (delete_recovery u (delete_sessions u
       (delete_apiKeys u (delete_clients u (delete_tokens u (delete_owned_tunnels u (delete_locks u
         (delete_buckets u (delete_events u (clear_creator u db))))))))))))"

definition DeleteDisabledUserTx :: "string \<Rightarrow> string \<Rightarrow> unit tx" where
  "DeleteDisabledUserTx actorUserID userID db =
     bind_res (getUserInTx userID db) (\<lambda>prior.
       if actorUserID = us_ID prior then Inl ErrSelfUserLifecycleMutation
       else if us_Status prior \<noteq> UserStatusDisabled then Inl ErrUserMustBeDisabled
       else (case validateUserLifecycleMutation (listUsersInTx db) actorUserID prior prior True of
               Some e \<Rightarrow> Inl e
             | None \<Rightarrow>
                 if length (filter (\<lambda>x. us_ID x = userID) (db_users db)) \<noteq> 1 then Inl ErrUserNotFound
                 else Inr ((), delete_user_rows userID db)))"

definition DeleteDisabledUser :: "bool \<Rightarrow> string \<Rightarrow> string \<Rightarrow> user_db \<Rightarrow> (account_error + unit) \<times> user_db" where
  "DeleteDisabledUser ok actorUserID userID = in_tx ok (DeleteDisabledUserTx actorUserID userID)"

lemmas deletion_defs = clear_creator_def delete_events_def delete_buckets_def delete_locks_def delete_owned_tunnels_def
  delete_tokens_def delete_clients_def delete_apiKeys_def delete_user_row_def

section \<open>Initialisation and recovery of the administrator\<close>

text \<open>
  A foreign key with \<open>ON DELETE CASCADE\<close>: the rows of a deleted user go with it.
\<close>

definition fk_cascade :: "user_db \<Rightarrow> user_db" where
  "fk_cascade db =
     (let known = (\<lambda>r. case r of None \<Rightarrow> True | Some u \<Rightarrow> has_user db u);
          gone = ev_ID ` {e \<in> set (db_events db). \<not> (known (ev_ScopeUserID e) \<and> known (ev_SubjectUserID e))}
      in db\<lparr>db_sessions := filter (\<lambda>s. has_user db (se_UserID s)) (db_sessions db),
            db_challenges := filter (\<lambda>c. known (ch_UserID c)) (db_challenges db),
            db_recovery := filter (\<lambda>r. has_user db (rc_UserID r)) (db_recovery db),
            db_passkeys := filter (\<lambda>p. has_user db (pk_UserID p)) (db_passkeys db),
            db_apiKeys := filter (\<lambda>k. known (ak_OwnerUserID k)) (db_apiKeys db),
            db_clients := filter (\<lambda>c. known (cl_OwnerUserID c)) (db_clients db),
            db_tunnels := filter (\<lambda>t. known (tu_OwnerUserID t)) (db_tunnels db),
            db_buckets := filter (\<lambda>b. known (bk_OwnerUserID b)) (db_buckets db),
            db_events := filter (\<lambda>e. known (ev_ScopeUserID e) \<and> known (ev_SubjectUserID e)) (db_events db),
            db_eventClients := filter (\<lambda>r. fst r \<notin> gone) (db_eventClients db),
            db_eventTunnels := filter (\<lambda>r. fst r \<notin> gone) (db_eventTunnels db)\<rparr>)"

text \<open>The checks of the table \<open>allowed_ports\<close> make an insertion fail.\<close>

definition valid_range :: "int \<times> int \<Rightarrow> bool" where
  "valid_range p \<longleftrightarrow> 1 \<le> fst p \<and> fst p \<le> snd p \<and> snd p \<le> 65535"

definition replaceAllowedPorts :: "(int \<times> int) list \<Rightarrow> unit tx" where
  "replaceAllowedPorts ports db =
     (if list_all valid_range ports then Inr ((), db\<lparr>db_allowedPorts := ports\<rparr>) else Inl ErrConstraint)"

definition IsPortAllowed :: "user_db \<Rightarrow> int \<Rightarrow> bool" where
  "IsPortAllowed db port \<longleftrightarrow>
     db_allowedPorts db = [] \<or> list_ex (\<lambda>(a, b). a \<le> port \<and> port \<le> b) (db_allowedPorts db)"

definition InitializeTx :: "User \<Rightarrow> string \<Rightarrow> string \<Rightarrow> (int \<times> int) list \<Rightarrow> unit tx" where
  "InitializeTx user jwtSecret serverAddr allowedPorts db =
     (if db_initialized db then Inl ErrAlreadyInitialized
      else (let db1 = fk_cascade (db\<lparr>db_sessions := [], db_users := []\<rparr>);
                db2 = db1\<lparr>db_challenges := [], db_passkeys := [], db_recovery := [],
                          db_users := [user], db_initialized := True, db_jwtSecret := jwtSecret,
                          db_serverAddr := serverAddr\<rparr>
            in replaceAllowedPorts allowedPorts db2))"

definition Initialize ::
  "libs \<Rightarrow> gotime \<Rightarrow> bytes option \<Rightarrow> bytes option \<Rightarrow> string option \<Rightarrow> bool \<Rightarrow> string \<Rightarrow> string \<Rightarrow> string
   \<Rightarrow> (int \<times> int) list \<Rightarrow> user_db \<Rightarrow> (account_error + unit) \<times> user_db" where
  "Initialize L now secret rnd hashed ok username password serverAddr allowedPorts db =
     (case bind_res (check_that (validatePassword L password) ErrInvalidPassword) (\<lambda>_.
           bind_res (from_option ErrHash hashed) (\<lambda>h.
           bind_res (from_option ErrRandom secret) (\<lambda>sec.
           bind_res (from_option ErrRandom (generateUUIDE rnd)) (\<lambda>i.
             Inr (\<lparr>us_ID = i, us_Username = username, us_PasswordHash = h, us_IsAdmin = True,
                   us_Status = UserStatusActive, us_CreatedAt = now, us_UpdatedAt = now,
                   us_LastLogin = None, us_TOTPEnabled = False, us_TOTPSecret = []\<rparr>,
                  hex_bytes (take 32 (sec @ replicate 32 0))))))) of
        Inl e \<Rightarrow> (Inl e, db)
      | Inr (user, jwtSecret) \<Rightarrow> in_tx ok (InitializeTx user jwtSecret serverAddr allowedPorts) db)"

text \<open>The oldest administrator gets the new name and password and becomes active.\<close>

definition ResetAdminUserTx :: "gotime \<Rightarrow> string \<Rightarrow> string \<Rightarrow> unit tx" where
  "ResetAdminUserTx now username h db =
     (if \<not> db_initialized db then Inl ErrNotInitialized
      else (case filter us_IsAdmin (listUsersInTx db) of
              [] \<Rightarrow> Inl ErrNoAdministrator
            | a # _ \<Rightarrow>
                (let userID = us_ID a
                 in if \<exists>x \<in> set (db_users db). us_ID x \<noteq> userID \<and> us_Username x = username
                    then Inl ErrConstraint
                    else Inr ((), delete_recovery userID (delete_passkeys userID (delete_challenges userID
                           (delete_sessions userID (update_user userID (\<lambda>x. x\<lparr>us_Username := username,
                              us_PasswordHash := h, us_IsAdmin := True, us_Status := UserStatusActive,
                              us_UpdatedAt := now, us_LastLogin := None, us_TOTPEnabled := False,
                              us_TOTPSecret := []\<rparr>) db))))))))"

definition ResetAdminUser ::
  "libs \<Rightarrow> gotime \<Rightarrow> string option \<Rightarrow> bool \<Rightarrow> string \<Rightarrow> string \<Rightarrow> user_db \<Rightarrow> (account_error + unit) \<times> user_db" where
  "ResetAdminUser L now hashed ok username password db =
     (let name = trim_space username
      in if name = [] then (Inl ErrInvalidUsername, db)
         else if \<not> validatePassword L password then (Inl ErrInvalidPassword, db)
         else (case hashed of None \<Rightarrow> (Inl ErrHash, db)
               | Some h \<Rightarrow> in_tx ok (ResetAdminUserTx now name h) db))"

definition UpdateAdminLoginTime :: "gotime \<Rightarrow> bool \<Rightarrow> string \<Rightarrow> user_db \<Rightarrow> (account_error + unit) \<times> user_db" where
  "UpdateAdminLoginTime now ok u =
     in_tx ok (\<lambda>db. Inr ((), update_user u (\<lambda>x. x\<lparr>us_LastLogin := Some now, us_UpdatedAt := now\<rparr>) db))"

section \<open>Sessions\<close>

definition sessionDefaultTTL :: duration where
  "sessionDefaultTTL = 24 * 60 * minute"

definition ValidateUserPassword :: "libs \<Rightarrow> string \<Rightarrow> string \<Rightarrow> user_db \<Rightarrow> account_error + User" where
  "ValidateUserPassword L username password db =
     (case find (\<lambda>x. us_Username x = username) (db_users db) of
        None \<Rightarrow> Inl ErrIncorrectLogin
      | Some u \<Rightarrow>
          if \<not> lb_bcrypt L (us_PasswordHash u) password then Inl ErrIncorrectLogin
          else if us_Status u \<noteq> UserStatusActive then Inl ErrUserDisabled
          else Inr u)"

definition ValidateAdminPassword :: "libs \<Rightarrow> string \<Rightarrow> string \<Rightarrow> user_db \<Rightarrow> account_error + User" where
  "ValidateAdminPassword L username password db =
     bind_res (ValidateUserPassword L username password db)
       (\<lambda>u. if \<not> us_IsAdmin u then Inl ErrIncorrectLogin else Inr u)"

definition createSessionForActiveUserTx ::
  "string \<Rightarrow> string \<Rightarrow> string \<Rightarrow> string \<Rightarrow> gotime \<Rightarrow> (AdminSession \<times> User) tx" where
  "createSessionForActiveUserTx sessionID userID ip ua now db =
     bind_res (getUserInTx userID db) (\<lambda>user.
       if us_Status user \<noteq> UserStatusActive then Inl ErrUserDisabled
       else (let row = \<lparr>se_ID = sessionID, se_UserID = us_ID user, se_CreatedAt = now,
                        se_ExpiresAt = now + sessionDefaultTTL, se_IP = ip, se_UserAgent = ua\<rparr>;
                 db1 = delete_sessions userID db
             in if sessionID \<in> se_ID ` set (db_sessions db1) then Inl ErrConstraint
                else (let db2 = db1\<lparr>db_sessions := db_sessions db1 @ [row]\<rparr>;
                          db3 = update_user userID (\<lambda>x. x\<lparr>us_LastLogin := Some now, us_UpdatedAt := now\<rparr>) db2
                      in Inr ((session_row.extend row \<lparr>as_Username = us_Username user, as_Role = user_role user\<rparr>,
                               user\<lparr>us_LastLogin := Some now, us_UpdatedAt := now\<rparr>), db3))))"

definition CreateSessionWithActivity ::
  "gotime \<Rightarrow> bytes option \<Rightarrow> bool \<Rightarrow> string \<Rightarrow> string \<Rightarrow> string \<Rightarrow> (string + event_row) option
   \<Rightarrow> user_db \<Rightarrow> (account_error + AdminSession \<times> int) \<times> user_db" where
  "CreateSessionWithActivity now rnd ok userID ip ua actor db =
     (case generateUUIDE rnd of
        None \<Rightarrow> (Inl ErrRandom, db)
      | Some sessionID \<Rightarrow>
          in_tx ok (\<lambda>d. bind_res (createSessionForActiveUserTx sessionID userID ip ua now d) (\<lambda>((session, currentUser), d1).
            bind_res (append_event actor d1) (\<lambda>(activityID, d2). Inr ((session, activityID), d2)))) db)"

definition CreateSession ::
  "gotime \<Rightarrow> bytes option \<Rightarrow> bool \<Rightarrow> string \<Rightarrow> string \<Rightarrow> string \<Rightarrow> user_db \<Rightarrow> (account_error + AdminSession) \<times> user_db" where
  "CreateSession now rnd ok userID ip ua db =
     (case generateUUIDE rnd of
        None \<Rightarrow> (Inl ErrRandom, db)
      | Some sessionID \<Rightarrow>
          in_tx ok (\<lambda>d. bind_res (createSessionForActiveUserTx sessionID userID ip ua now d)
            (\<lambda>((session, currentUser), d1). Inr (session, d1))) db)"

text \<open>The join of a session with its user; no answer stands for the \<open>nil\<close> session.\<close>

definition GetSession :: "gotime \<Rightarrow> string \<Rightarrow> user_db \<Rightarrow> AdminSession option" where
  "GetSession now sessionID db =
     (case find (\<lambda>s. se_ID s = sessionID) (db_sessions db) of
        None \<Rightarrow> None
      | Some s \<Rightarrow>
          (case find (\<lambda>x. us_ID x = se_UserID s) (db_users db) of
             None \<Rightarrow> None
           | Some u \<Rightarrow>
               if us_Status u \<noteq> UserStatusActive then None
               else if se_ExpiresAt s < now then None
               else Some (session_row.extend s \<lparr>as_Username = us_Username u, as_Role = user_role u\<rparr>)))"

definition DeleteSession :: "bool \<Rightarrow> string \<Rightarrow> user_db \<Rightarrow> (account_error + unit) \<times> user_db" where
  "DeleteSession ok sessionID =
     in_tx ok (\<lambda>db. Inr ((), db\<lparr>db_sessions := filter (\<lambda>s. se_ID s \<noteq> sessionID) (db_sessions db)\<rparr>))"

definition DeleteSessionWithActivity ::
  "bool \<Rightarrow> string \<Rightarrow> (string + event_row) option \<Rightarrow> user_db \<Rightarrow> (account_error + int) \<times> user_db" where
  "DeleteSessionWithActivity ok sessionID actor =
     in_tx ok (\<lambda>db. if sessionID \<notin> se_ID ` set (db_sessions db) then Inl ErrNoRows
       else append_event actor (db\<lparr>db_sessions := filter (\<lambda>s. se_ID s \<noteq> sessionID) (db_sessions db)\<rparr>))"

definition DeleteSessionsByUserID :: "bool \<Rightarrow> string \<Rightarrow> user_db \<Rightarrow> (account_error + unit) \<times> user_db" where
  "DeleteSessionsByUserID ok userID = in_tx ok (\<lambda>db. Inr ((), delete_sessions userID db))"

text \<open>The comparison is made on the texts of the instants.\<close>

definition CleanExpiredSessions :: "gotime \<Rightarrow> bool \<Rightarrow> user_db \<Rightarrow> (account_error + unit) \<times> user_db" where
  "CleanExpiredSessions now ok =
     in_tx ok (\<lambda>db. Inr ((), db\<lparr>db_sessions :=
       filter (\<lambda>s. \<not> formatTime (se_ExpiresAt s) \<le> formatTime now) (db_sessions db)\<rparr>))"

section \<open>Challenges and second factors\<close>

definition adminAuthChallengeDefaultTTL :: duration where
  "adminAuthChallengeDefaultTTL = 5 * minute"

definition adminPasskeyLoginChallengeMaxActive :: nat where
  "adminPasskeyLoginChallengeMaxActive = 256"

definition StoreAuthChallengeTx :: "gotime \<Rightarrow> AdminAuthChallenge \<Rightarrow> AdminAuthChallenge tx" where
  "StoreAuthChallengeTx now c db =
     (let kind = ch_Kind c;
          db1 = db\<lparr>db_challenges := filter (\<lambda>x. \<not> formatTime (ch_ExpiresAt x) \<le> formatTime now) (db_challenges db)\<rparr>;
          insert = (\<lambda>d. if ch_ID c \<in> ch_ID ` set (db_challenges d)
              \<or> (case ch_UserID c of None \<Rightarrow> kind \<noteq> ''passkey_login'' | Some u \<Rightarrow> \<not> has_user d u)
            then Inl ErrConstraint else Inr (c, d\<lparr>db_challenges := db_challenges d @ [c]\<rparr>))
      in case ch_UserID c of
           Some u \<Rightarrow>
             insert (db1\<lparr>db_challenges := filter (\<lambda>x. \<not> (ch_UserID x = Some u \<and> ch_Kind x = kind)) (db_challenges db1)\<rparr>)
         | None \<Rightarrow>
             if kind = ''passkey_login'' \<and> adminPasskeyLoginChallengeMaxActive
                  \<le> length (filter (\<lambda>x. ch_UserID x = None \<and> ch_Kind x = kind) (db_challenges db1))
             then Inl ErrPasskeyLoginChallengeCapacity
             else insert db1)"

definition StoreAuthChallenge ::
  "gotime \<Rightarrow> bytes option \<Rightarrow> bool \<Rightarrow> string \<Rightarrow> string \<Rightarrow> string \<Rightarrow> string \<Rightarrow> duration
   \<Rightarrow> user_db \<Rightarrow> (account_error + AdminAuthChallenge) \<times> user_db" where
  "StoreAuthChallenge now rnd ok userID kind sessionJSON metadataJSON ttl db =
     (if userID = [] \<and> kind \<noteq> ''passkey_login'' then (Inl ErrChallengeUserRequired, db)
      else (case generateUUIDE rnd of
              None \<Rightarrow> (Inl ErrRandom, db)
            | Some i \<Rightarrow>
                in_tx ok (StoreAuthChallengeTx now
                  \<lparr>ch_ID = i, ch_UserID = (if userID = [] then None else Some userID), ch_Kind = kind,
                   ch_SessionJSON = sessionJSON, ch_MetadataJSON = metadataJSON, ch_CreatedAt = now,
                   ch_ExpiresAt = now + (if ttl \<le> 0 then adminAuthChallengeDefaultTTL else ttl)\<rparr>) db))"

definition drop_challenge :: "string \<Rightarrow> user_db \<Rightarrow> user_db" where
  "drop_challenge i db = db\<lparr>db_challenges := filter (\<lambda>c. ch_ID c \<noteq> i) (db_challenges db)\<rparr>"

text \<open>An expired challenge is deleted and the deletion committed before the error is returned.\<close>

definition ConsumeAuthChallenge ::
  "gotime \<Rightarrow> bool \<Rightarrow> string \<Rightarrow> string \<Rightarrow> string \<Rightarrow> user_db \<Rightarrow> (account_error + AdminAuthChallenge) \<times> user_db" where
  "ConsumeAuthChallenge now ok i userID kind db =
     (case find (\<lambda>c. ch_ID c = i \<and> (userID = [] \<or> ch_UserID c = Some userID) \<and> ch_Kind c = kind) (db_challenges db) of
        None \<Rightarrow> (Inl ErrNoRows, db)
      | Some c \<Rightarrow>
          if ch_ExpiresAt c < now then (Inl ErrChallengeExpired, if ok then drop_challenge i db else db)
          else if ok then (Inr c, drop_challenge i db)
          else (Inl ErrStorage, db))"

definition GetAuthChallenge :: "gotime \<Rightarrow> string \<Rightarrow> string \<Rightarrow> user_db \<Rightarrow> account_error + AdminAuthChallenge" where
  "GetAuthChallenge now i kind db =
     (case find (\<lambda>c. ch_ID c = i \<and> ch_Kind c = kind) (db_challenges db) of
        None \<Rightarrow> Inl ErrNoRows
      | Some c \<Rightarrow> if ch_ExpiresAt c < now then Inl ErrChallengeExpired else Inr c)"

text \<open>
  \<open>strings.ToUpper\<close> is applied to codes typed by the user; on bytes outside ASCII it is the
  parameter \<open>up\<close>.
\<close>

definition normalizeMFACode :: "(string \<Rightarrow> string) \<Rightarrow> string \<Rightarrow> string" where
  "normalizeMFACode up code =
     (let s = filter (\<lambda>c. c \<noteq> CHR '' '') (trim_space code)
      in if list_all (\<lambda>c. (of_char c :: nat) < 128) s
         then map (\<lambda>c. if 97 \<le> (of_char c :: nat) \<and> (of_char c :: nat) \<le> 122 then char_of ((of_char c :: nat) - 32) else c) s
         else up s)"

text \<open>
  The unused codes are tried in the order of their creation; the first that matches is marked.
\<close>

definition recovery_key :: "recovery_row \<Rightarrow> (int \<times> string) \<times> string" where
  "recovery_key r = (formatTime (rc_CreatedAt r), rc_ID r)"

definition consumeRecoveryCodeInTx :: "libs \<Rightarrow> gotime \<Rightarrow> string \<Rightarrow> string \<Rightarrow> bool tx" where
  "consumeRecoveryCodeInTx L now userID code db =
     (case find (\<lambda>r. lb_bcrypt L (rc_CodeHash r) code)
             (sort_key recovery_key (filter (\<lambda>r. rc_UserID r = userID \<and> rc_UsedAt r = None) (db_recovery db))) of
        None \<Rightarrow> Inr (False, db)
      | Some r \<Rightarrow>
          if rc_ID r = [] then Inr (False, db)
          else Inr (True, db\<lparr>db_recovery := map (\<lambda>x. if rc_ID x = rc_ID r \<and> rc_UsedAt x = None
                 then x\<lparr>rc_UsedAt := Some now\<rparr> else x) (db_recovery db)\<rparr>))"

definition verifyMFAInTx :: "libs \<Rightarrow> (string \<Rightarrow> string) \<Rightarrow> gotime \<Rightarrow> User \<Rightarrow> string \<Rightarrow> (bool \<times> bool) tx" where
  "verifyMFAInTx L up now user rawcode db =
     (let code = normalizeMFACode up rawcode
      in if code = [] then Inr ((False, False), db)
         else if us_TOTPSecret user \<noteq> [] \<and> lb_totp L code (us_TOTPSecret user) then Inr ((True, False), db)
         else bind_res (consumeRecoveryCodeInTx L now (us_ID user) code db)
                (\<lambda>(used, db'). Inr ((used, used), db')))"

definition VerifyAdminSecurityCredentials ::
  "libs \<Rightarrow> (string \<Rightarrow> string) \<Rightarrow> gotime \<Rightarrow> bool \<Rightarrow> string \<Rightarrow> string \<Rightarrow> string
   \<Rightarrow> user_db \<Rightarrow> (account_error + User \<times> bool) \<times> user_db" where
  "VerifyAdminSecurityCredentials L up now ok userID currentPassword mfaCode =
     in_tx ok (\<lambda>db.
       case find (\<lambda>x. us_ID x = userID \<and> us_IsAdmin x) (db_users db) of
         None \<Rightarrow> Inl ErrCurrentPassword
       | Some user \<Rightarrow>
           if \<not> lb_bcrypt L (us_PasswordHash user) currentPassword then Inl ErrCurrentPassword
           else if us_TOTPEnabled user then
             bind_res (verifyMFAInTx L up now user mfaCode db) (\<lambda>((mfa, recoveryUsed), db').
               if \<not> mfa then Inl ErrMFAInvalid else Inr ((user, recoveryUsed), db'))
           else Inr ((user, False), db))"

definition CountUnusedRecoveryCodes :: "string \<Rightarrow> user_db \<Rightarrow> nat" where
  "CountUnusedRecoveryCodes userID db =
     length (filter (\<lambda>r. rc_UserID r = userID \<and> rc_UsedAt r = None) (db_recovery db))"

text \<open>The two statements that end the logins of a user after a change of its credentials.\<close>

definition revoke_logins :: "string \<Rightarrow> user_db \<Rightarrow> user_db" where
  "revoke_logins userID db = delete_challenges userID (delete_sessions userID db)"

definition UpdateAdminUsernameWithActivity ::
  "gotime \<Rightarrow> bool \<Rightarrow> string \<Rightarrow> string \<Rightarrow> (string + event_row) option \<Rightarrow> user_db \<Rightarrow> (account_error + int) \<times> user_db" where
  "UpdateAdminUsernameWithActivity now ok userID username actor db0 =
     (let name = trim_space username
      in if name = [] then (Inl ErrInvalidUsername, db0)
         else in_tx ok (\<lambda>db.
           case find (\<lambda>x. us_ID x = userID) (db_users db) of
             None \<Rightarrow> Inl ErrNoRows
           | Some u \<Rightarrow>
               if us_Username u = name then Inr (0, db)
               else if \<exists>x \<in> set (db_users db). us_ID x \<noteq> userID \<and> us_Username x = name then Inl ErrConstraint
               else append_event actor (revoke_logins userID
                      (update_user userID (\<lambda>x. x\<lparr>us_Username := name, us_UpdatedAt := now\<rparr>) db))) db0)"

definition UpdateAdminPasswordWithActivity ::
  "libs \<Rightarrow> gotime \<Rightarrow> string option \<Rightarrow> bool \<Rightarrow> string \<Rightarrow> string \<Rightarrow> string \<Rightarrow> (string + event_row) option
   \<Rightarrow> user_db \<Rightarrow> (account_error + int) \<times> user_db" where
  "UpdateAdminPasswordWithActivity L now hashed ok userID currentPassword newPassword actor db0 =
     (if \<not> validatePassword L newPassword then (Inl ErrInvalidPassword, db0)
      else (case hashed of None \<Rightarrow> (Inl ErrHash, db0)
            | Some h \<Rightarrow>
                in_tx ok (\<lambda>db.
                  case find (\<lambda>x. us_ID x = userID \<and> us_IsAdmin x) (db_users db) of
                    None \<Rightarrow> Inl ErrNoRows
                  | Some u \<Rightarrow>
                      if lb_bcrypt L (us_PasswordHash u) newPassword then Inl ErrSamePassword
                      else if currentPassword \<noteq> [] \<and> \<not> lb_bcrypt L (us_PasswordHash u) currentPassword
                      then Inl ErrCurrentPassword
                      else append_event actor (revoke_logins userID
                             (update_user userID (\<lambda>x. x\<lparr>us_PasswordHash := h, us_UpdatedAt := now\<rparr>) db))) db0))"

text \<open>
  The new codes come as their identifiers and hashes; the column of hashes is unique, and a
  code needs its user.
\<close>

fun insert_codes :: "gotime \<Rightarrow> string \<Rightarrow> (string \<times> string) list \<Rightarrow> unit tx" where
  "insert_codes now u [] db = Inr ((), db)"
| "insert_codes now u ((i, h) # cs) db =
     (if i \<in> rc_ID ` set (db_recovery db) \<or> h \<in> rc_CodeHash ` set (db_recovery db) \<or> \<not> has_user db u
      then Inl ErrConstraint
      else insert_codes now u cs (db\<lparr>db_recovery := db_recovery db @
             [\<lparr>rc_ID = i, rc_UserID = u, rc_CodeHash = h, rc_CreatedAt = now, rc_UsedAt = None\<rparr>]\<rparr>))"

definition replaceRecoveryCodesInTx :: "gotime \<Rightarrow> string \<Rightarrow> (string \<times> string) list \<Rightarrow> unit tx" where
  "replaceRecoveryCodesInTx now userID codes db = insert_codes now userID codes (delete_recovery userID db)"

text \<open>
  The secret is read from the challenge before the transaction: \<open>secret\<close> is what the JSON
  of the challenge holds, if it parses. The transaction then deletes the challenge itself, so
  that only one confirmation can succeed.
\<close>

definition ConfirmTOTPSetupWithActivity ::
  "libs \<Rightarrow> (string \<Rightarrow> string) \<Rightarrow> (string \<Rightarrow> string option) \<Rightarrow> gotime \<Rightarrow> (string \<times> string) list option \<Rightarrow> bool
   \<Rightarrow> string \<Rightarrow> string \<Rightarrow> string \<Rightarrow> (string + event_row) option \<Rightarrow> user_db \<Rightarrow> (account_error + int) \<times> user_db" where
  "ConfirmTOTPSetupWithActivity L up secret now codes ok userID challengeID code actor db0 =
     (case GetAuthChallenge now challengeID ''totp_setup'' db0 of
        Inl e \<Rightarrow> (Inl e, db0)
      | Inr c \<Rightarrow>
          if ch_UserID c \<noteq> Some userID then (Inl ErrNoRows, db0)
          else (case secret (ch_SessionJSON c) of
                  None \<Rightarrow> (Inl ErrStorage, db0)
                | Some sec \<Rightarrow>
                    if sec = [] \<or> \<not> lb_totp L (normalizeMFACode up code) sec then (Inl ErrMFAInvalid, db0)
                    else (case codes of
                            None \<Rightarrow> (Inl ErrRandom, db0)
                          | Some cs \<Rightarrow>
                              in_tx ok (\<lambda>db.
                                let hit = (\<lambda>x. ch_ID x = challengeID \<and> ch_UserID x = Some userID \<and>
                                             ch_Kind x = ''totp_setup'' \<and> formatTime now < formatTime (ch_ExpiresAt x))
                                in if \<not> (\<exists>x \<in> set (db_challenges db). hit x) then Inl ErrNoRows
                                   else (let db1 = db\<lparr>db_challenges := filter (\<lambda>x. \<not> hit x) (db_challenges db)\<rparr>;
                                             db2 = update_user userID (\<lambda>x. x\<lparr>us_TOTPEnabled := True,
                                                     us_TOTPSecret := sec, us_UpdatedAt := now\<rparr>) db1
                                         in bind_res (replaceRecoveryCodesInTx now userID cs db2) (\<lambda>(_, db3).
                                              append_event actor (revoke_logins userID db3)))) db0)))"

definition securitySimpleActivity ::
  "bool \<Rightarrow> string \<Rightarrow> (string + event_row) option \<Rightarrow> unit tx \<Rightarrow> bool \<Rightarrow> user_db \<Rightarrow> (account_error + int) \<times> user_db" where
  "securitySimpleActivity ok userID actor mutate revokeSessions =
     in_tx ok (\<lambda>db. bind_res (mutate db) (\<lambda>(_, db1).
       append_event actor (if revokeSessions then revoke_logins userID db1 else db1)))"

definition DisableTOTPWithActivity ::
  "gotime \<Rightarrow> bool \<Rightarrow> string \<Rightarrow> (string + event_row) option \<Rightarrow> user_db \<Rightarrow> (account_error + int) \<times> user_db" where
  "DisableTOTPWithActivity now ok userID actor =
     securitySimpleActivity ok userID actor (\<lambda>db. Inr ((), delete_recovery userID
       (update_user userID (\<lambda>x. x\<lparr>us_TOTPEnabled := False, us_TOTPSecret := [], us_UpdatedAt := now\<rparr>) db))) True"

definition RegenerateRecoveryCodesWithActivity ::
  "gotime \<Rightarrow> (string \<times> string) list option \<Rightarrow> bool \<Rightarrow> string \<Rightarrow> (string + event_row) option
   \<Rightarrow> user_db \<Rightarrow> (account_error + int) \<times> user_db" where
  "RegenerateRecoveryCodesWithActivity now codes ok userID actor db0 =
     (case codes of
        None \<Rightarrow> (Inl ErrRandom, db0)
      | Some cs \<Rightarrow> in_tx ok (\<lambda>db. bind_res (replaceRecoveryCodesInTx now userID cs db) (\<lambda>(_, db1).
          append_event actor (revoke_logins userID db1))) db0)"

definition AddPasskeyWithActivity ::
  "gotime \<Rightarrow> bytes option \<Rightarrow> bool \<Rightarrow> string \<Rightarrow> string \<Rightarrow> string \<Rightarrow> string \<Rightarrow> string \<Rightarrow> string
   \<Rightarrow> (string + event_row) option \<Rightarrow> user_db \<Rightarrow> (account_error + AdminPasskey \<times> int) \<times> user_db" where
  "AddPasskeyWithActivity now rnd ok userID name credentialID credentialJSON rpID origin actor db0 =
     (case generateUUIDE rnd of
        None \<Rightarrow> (Inl ErrRandom, db0)
      | Some i \<Rightarrow>
          (let passkey = \<lparr>pk_ID = i, pk_UserID = userID,
                 pk_Name = (if trim_space name = [] then ''Passkey'' else trim_space name),
                 pk_CredentialID = credentialID, pk_CredentialJSON = credentialJSON, pk_RPID = rpID,
                 pk_Origin = origin, pk_CreatedAt = now, pk_LastUsedAt = None\<rparr>
           in in_tx ok (\<lambda>db.
                if i \<in> pk_ID ` set (db_passkeys db) \<or> credentialID \<in> pk_CredentialID ` set (db_passkeys db)
                   \<or> \<not> has_user db userID
                then Inl ErrConstraint
                else bind_res (append_event actor (revoke_logins userID (db\<lparr>db_passkeys := db_passkeys db @ [passkey]\<rparr>)))
                       (\<lambda>(activityID, db'). Inr ((passkey, activityID), db'))) db0))"

definition UpdatePasskeyNameWithActivity ::
  "bool \<Rightarrow> string \<Rightarrow> string \<Rightarrow> string \<Rightarrow> (string + event_row) option \<Rightarrow> user_db \<Rightarrow> (account_error + int) \<times> user_db" where
  "UpdatePasskeyNameWithActivity ok userID passkeyID name actor db0 =
     (let n = trim_space name
      in if n = [] then (Inl ErrPasskeyNameRequired, db0)
         else securitySimpleActivity ok userID actor (\<lambda>db.
           if \<exists>p \<in> set (db_passkeys db). pk_ID p = passkeyID \<and> pk_UserID p = userID
           then Inr ((), db\<lparr>db_passkeys := map (\<lambda>p. if pk_ID p = passkeyID \<and> pk_UserID p = userID
                            then p\<lparr>pk_Name := n\<rparr> else p) (db_passkeys db)\<rparr>)
           else Inl ErrPasskeyNotFound) False db0)"

definition DeletePasskeyWithActivity ::
  "bool \<Rightarrow> string \<Rightarrow> string \<Rightarrow> (string + event_row) option \<Rightarrow> user_db \<Rightarrow> (account_error + int) \<times> user_db" where
  "DeletePasskeyWithActivity ok userID passkeyID actor =
     securitySimpleActivity ok userID actor (\<lambda>db.
       if \<exists>p \<in> set (db_passkeys db). pk_ID p = passkeyID \<and> pk_UserID p = userID
       then Inr ((), db\<lparr>db_passkeys := filter (\<lambda>p. \<not> (pk_ID p = passkeyID \<and> pk_UserID p = userID)) (db_passkeys db)\<rparr>)
       else Inl ErrPasskeyNotFound) True"

definition TouchPasskey :: "gotime \<Rightarrow> bool \<Rightarrow> string \<Rightarrow> string \<Rightarrow> string \<Rightarrow> user_db \<Rightarrow> (account_error + unit) \<times> user_db" where
  "TouchPasskey now ok userID credentialID credentialJSON =
     in_tx ok (\<lambda>db.
       if \<exists>p \<in> set (db_passkeys db). pk_UserID p = userID \<and> pk_CredentialID p = credentialID
       then Inr ((), db\<lparr>db_passkeys := map (\<lambda>p. if pk_UserID p = userID \<and> pk_CredentialID p = credentialID
              then p\<lparr>pk_CredentialJSON := credentialJSON, pk_LastUsedAt := Some now\<rparr> else p) (db_passkeys db)\<rparr>)
       else Inl ErrPasskeyNotFound)"

end
