(* ===== verification/User_Runs.thy ===== *)
theory User_Runs
  imports User_Store
begin

text \<open>
  What the operations on accounts keep, in every sequence of them: the tables are consistent,
  an initialised server has an active administrator, a login session belongs to an active
  user and is its only one. From this follow the lock-out of a disabled user, the single use
  of challenges and recovery codes, and what the deletion of a user leaves behind.
\<close>

section \<open>The invariant\<close>

definition operational_admin :: "User \<Rightarrow> bool" where
  "operational_admin u \<longleftrightarrow> us_IsAdmin u \<and> isOperationalUser u"

definition users_ok :: "user_db \<Rightarrow> bool" where
  "users_ok db \<longleftrightarrow>
     distinct (map us_ID (db_users db)) \<and> distinct (map us_Username (db_users db))
     \<and> (\<forall>u \<in> set (db_users db). us_ID u \<noteq> [])
     \<and> (db_initialized db \<longrightarrow> (\<exists>u \<in> set (db_users db). operational_admin u))"

definition logins_ok :: "user_db \<Rightarrow> bool" where
  "logins_ok db \<longleftrightarrow>
     distinct (map se_ID (db_sessions db)) \<and> distinct (map se_UserID (db_sessions db))
     \<and> (\<forall>s \<in> set (db_sessions db). \<exists>u \<in> set (db_users db). us_ID u = se_UserID s \<and> us_Status u = UserStatusActive)"

definition factors_ok :: "user_db \<Rightarrow> bool" where
  "factors_ok db \<longleftrightarrow>
     (\<forall>c \<in> set (db_challenges db).
        (ch_UserID c = None \<and> ch_Kind c = ''passkey_login'') \<or> ch_UserID c \<in> Some ` us_ID ` set (db_users db))
     \<and> (\<forall>r \<in> set (db_recovery db). rc_UserID r \<in> us_ID ` set (db_users db))
     \<and> (\<forall>p \<in> set (db_passkeys db). pk_UserID p \<in> us_ID ` set (db_users db))
     \<and> distinct (map ch_ID (db_challenges db)) \<and> distinct (map rc_ID (db_recovery db))
     \<and> distinct (map pk_CredentialID (db_passkeys db))"

definition account_inv :: "user_db \<Rightarrow> bool" where
  "account_inv db \<longleftrightarrow> users_ok db \<and> logins_ok db \<and> factors_ok db"

named_theorems account_keeps \<open>statements that keep the invariant of the accounts\<close>

lemmas account_defs = account_inv_def users_ok_def logins_ok_def factors_ok_def

subsection \<open>The policy\<close>

lemma lifecycle_loop_spec:
  "lifecycle_loop b a d xs (f, n) =
     (f \<or> us_ID b \<in> us_ID ` set xs,
      n + length (filter operational_admin
        (if d then filter (\<lambda>x. us_ID x \<noteq> us_ID b) xs else map (\<lambda>x. if us_ID x = us_ID b then a else x) xs)))"
  by (induction xs arbitrary: f n) (auto simp: operational_admin_def)

lemma policy_keeps_admin:
  assumes "validateUserLifecycleMutation users actor b a d = None"
  shows "\<exists>u \<in> set (if d then filter (\<lambda>x. us_ID x \<noteq> us_ID b) users
                 else map (\<lambda>x. if us_ID x = us_ID b then a else x) users). operational_admin u"
proof -
  let ?l = "filter operational_admin
        (if d then filter (\<lambda>x. us_ID x \<noteq> us_ID b) users else map (\<lambda>x. if us_ID x = us_ID b then a else x) users)"
  have "length ?l \<noteq> 0"
    using assms unfolding validateUserLifecycleMutation_def lifecycle_loop_spec
    by (auto split: if_splits)
  then obtain u where "u \<in> set ?l" by (cases ?l) auto
  then show ?thesis by (auto split: if_splits)
qed

lemma policy_not_self:
  "validateUserLifecycleMutation users actor b a d = None \<Longrightarrow> d \<or> us_Status a = UserStatusDisabled \<Longrightarrow> actor \<noteq> us_ID b"
  by (auto simp: validateUserLifecycleMutation_def split: if_splits)

lemma set_listUsersInTx [simp]: "set (listUsersInTx db) = set (db_users db)"
  by (simp add: listUsersInTx_def)

lemma getUserInTx_Inr:
  assumes "getUserInTx u db = Inr x"
  shows "x \<in> set (db_users db)" "us_ID x = u"
  using assms by (auto simp: getUserInTx_def find_Some_iff split: option.splits)

lemma same_id_same_user:
  "users_ok db \<Longrightarrow> x \<in> set (db_users db) \<Longrightarrow> y \<in> set (db_users db) \<Longrightarrow> us_ID x = us_ID y \<Longrightarrow> x = y"
  by (auto simp: users_ok_def distinct_map inj_on_def)

subsection \<open>Statements\<close>

lemma users_after_update: "db_users (update_user u f db) = map (\<lambda>x. if us_ID x = u then f x else x) (db_users db)"
  by (simp add: update_user_def)

lemma update_user_other [simp]:
  "db_initialized (update_user u f db) = db_initialized db" "db_sessions (update_user u f db) = db_sessions db"
  "db_challenges (update_user u f db) = db_challenges db" "db_recovery (update_user u f db) = db_recovery db"
  "db_passkeys (update_user u f db) = db_passkeys db"
  by (simp_all add: update_user_def)

lemma ids_after_update:
  "(\<And>x. us_ID (f x) = us_ID x) \<Longrightarrow> map us_ID (db_users (update_user u f db)) = map us_ID (db_users db)"
  by (simp add: users_after_update comp_def if_distrib cong: if_cong)

lemma id_set_after_update:
  "(\<And>x. us_ID (f x) = us_ID x) \<Longrightarrow> us_ID ` set (db_users (update_user u f db)) = us_ID ` set (db_users db)"
  using ids_after_update[of f u db] by (metis list.set_map)

text \<open>
  An update of one row keeps the invariant when the row keeps its identifier, names stay
  unique, an administrator remains, and the row stays active or has no session.
\<close>

lemma update_user_keeps:
  assumes inv: "account_inv db" and i: "\<And>x. us_ID (f x) = us_ID x"
    and names: "distinct (map us_Username (db_users (update_user u f db)))"
    and adm: "db_initialized db \<Longrightarrow> \<exists>x \<in> set (db_users (update_user u f db)). operational_admin x"
    and act: "\<And>x. x \<in> set (db_users db) \<Longrightarrow> us_ID x = u \<Longrightarrow> us_Status x = UserStatusActive \<Longrightarrow>
                us_Status (f x) = UserStatusActive \<or> (\<forall>s \<in> set (db_sessions db). se_UserID s \<noteq> u)"
  shows "account_inv (update_user u f db)"
proof -
  let ?d = "update_user u f db"
  have "users_ok ?d"
  proof -
    have "set (map us_ID (db_users ?d)) = set (map us_ID (db_users db))"
      by (simp only: ids_after_update[OF i])
    then show ?thesis
      using inv names adm ids_after_update[of f u db, OF i] unfolding users_ok_def account_inv_def
      by (metis (no_types, lifting) image_iff list.set_map update_user_other(1))
  qed
  moreover have "logins_ok ?d"
  proof -
    have "\<exists>v \<in> set (db_users ?d). us_ID v = se_UserID s \<and> us_Status v = UserStatusActive"
      if s: "s \<in> set (db_sessions db)" for s
    proof -
      obtain v where v: "v \<in> set (db_users db)" "us_ID v = se_UserID s" "us_Status v = UserStatusActive"
        using inv s by (auto simp: account_inv_def logins_ok_def)
      show ?thesis
      proof (cases "us_ID v = u")
        case True
        then have "us_Status (f v) = UserStatusActive" using act[OF v(1) True v(3)] s v(2) by auto
        moreover have "f v \<in> set (db_users ?d)" using v(1) True by (force simp: users_after_update)
        ultimately show ?thesis using i v(2) by metis
      next
        case False
        then have "v \<in> set (db_users ?d)" using v(1) by (force simp: users_after_update)
        then show ?thesis using v by blast
      qed
    qed
    then show ?thesis using inv by (simp add: account_inv_def logins_ok_def)
  qed
  moreover have "factors_ok ?d"
    using inv by (simp add: account_inv_def factors_ok_def id_set_after_update[OF i])
  ultimately show ?thesis by (simp add: account_inv_def)
qed

text \<open>An update that touches neither the name nor the rights.\<close>

lemma update_user_quiet [account_keeps]:
  assumes inv: "account_inv db" and i: "\<And>x. us_ID (f x) = us_ID x" and n: "\<And>x. us_Username (f x) = us_Username x"
    and a: "\<And>x. us_IsAdmin (f x) = us_IsAdmin x" and st: "\<And>x. us_Status (f x) = us_Status x"
  shows "account_inv (update_user u f db)"
proof (rule update_user_keeps[OF inv i])
  have "map us_Username (db_users (update_user u f db)) = map us_Username (db_users db)"
    by (simp add: users_after_update comp_def if_distrib n cong: if_cong)
  then show "distinct (map us_Username (db_users (update_user u f db)))"
    using inv by (simp add: account_inv_def users_ok_def)
next
  assume "db_initialized db"
  then obtain x where x: "x \<in> set (db_users db)" "operational_admin x"
    using inv by (auto simp: account_inv_def users_ok_def)
  have "operational_admin (if us_ID x = u then f x else x)"
    using x(2) by (auto simp: operational_admin_def isOperationalUser_def i a st)
  then show "\<exists>y \<in> set (db_users (update_user u f db)). operational_admin y"
    using x(1) unfolding users_after_update set_map by blast
qed (simp add: st)

lemma delete_sessions_keeps [account_keeps]: "account_inv db \<Longrightarrow> account_inv (delete_sessions u db)"
  by (auto simp: account_defs delete_sessions_def distinct_map_filter)

lemma drop_sessions_keeps [account_keeps]:
  "account_inv db \<Longrightarrow> account_inv (db\<lparr>db_sessions := filter P (db_sessions db)\<rparr>)"
  by (auto simp: account_defs distinct_map_filter)

lemma drop_challenges_keeps [account_keeps]:
  "account_inv db \<Longrightarrow> account_inv (db\<lparr>db_challenges := filter P (db_challenges db)\<rparr>)"
  by (auto simp: account_defs distinct_map_filter)

lemma delete_challenges_keeps [account_keeps]: "account_inv db \<Longrightarrow> account_inv (delete_challenges u db)"
  unfolding delete_challenges_def by (rule drop_challenges_keeps)

lemma delete_recovery_keeps [account_keeps]: "account_inv db \<Longrightarrow> account_inv (delete_recovery u db)"
  by (auto simp: account_defs delete_recovery_def distinct_map_filter)

lemma drop_passkeys_keeps [account_keeps]:
  "account_inv db \<Longrightarrow> account_inv (db\<lparr>db_passkeys := filter P (db_passkeys db)\<rparr>)"
  by (auto simp: account_defs distinct_map_filter)

lemma delete_passkeys_keeps [account_keeps]: "account_inv db \<Longrightarrow> account_inv (delete_passkeys u db)"
  unfolding delete_passkeys_def by (rule drop_passkeys_keeps)

lemma map_passkeys_keeps [account_keeps]:
  assumes "account_inv db" "\<And>p. pk_UserID (f p) = pk_UserID p" "\<And>p. pk_CredentialID (f p) = pk_CredentialID p"
  shows "account_inv (db\<lparr>db_passkeys := map (\<lambda>p. if P p then f p else p) (db_passkeys db)\<rparr>)"
proof -
  define ps where "ps = map (\<lambda>p. if P p then f p else p) (db_passkeys db)"
  have "map pk_CredentialID ps = map pk_CredentialID (db_passkeys db)"
    unfolding ps_def by (simp add: assms(3))
  moreover have "\<forall>p \<in> set ps. pk_UserID p \<in> us_ID ` set (db_users db)"
    unfolding ps_def using assms(1,2) by (auto simp: account_inv_def factors_ok_def)
  ultimately show ?thesis
    using assms(1) unfolding ps_def[symmetric]
    by (simp add: account_inv_def users_ok_def logins_ok_def factors_ok_def)
qed

lemma revoke_keeps [account_keeps]: "account_inv db \<Longrightarrow> account_inv (revoke_logins u db)"
  by (simp add: revoke_logins_def account_keeps)

lemma append_event_keeps: "account_inv db \<Longrightarrow> append_event actor db = Inr (x, db') \<Longrightarrow> account_inv db'"
  by (auto simp: append_event_def account_defs split: option.splits sum.splits)

lemma append_event_fields:
  assumes "append_event actor db = Inr (x, db')"
  shows "db_users db' = db_users db" "db_sessions db' = db_sessions db" "db_challenges db' = db_challenges db"
    "db_recovery db' = db_recovery db" "db_passkeys db' = db_passkeys db" "db_initialized db' = db_initialized db"
  using assms by (auto simp: append_event_def split: option.splits sum.splits)

section \<open>Transactions\<close>

text \<open>
  The contract of a transaction: what it does to consistent tables leaves them consistent.
  The two facts every operation inherits are that an error changes nothing and that the
  invariant survives whether or not the commit succeeds.
\<close>

locale account_transaction =
  fixes body :: "'a tx"
  assumes body_keeps: "account_inv db \<Longrightarrow> body db = Inr (x, db') \<Longrightarrow> account_inv db'"
begin

lemma in_tx_keeps: "account_inv db \<Longrightarrow> account_inv (snd (in_tx ok body db))"
  using body_keeps by (auto simp: in_tx_def split: sum.splits prod.splits)

lemma failed_unchanged: "fst (in_tx ok body db) = Inl e \<Longrightarrow> snd (in_tx ok body db) = db"
  by (auto simp: in_tx_def split: sum.splits prod.splits if_splits)

end

text \<open>A change of the name that no other row has.\<close>

lemma rename_user_keeps:
  assumes inv: "account_inv db" and i: "\<And>x. us_ID (f x) = us_ID x" and n: "\<And>x. us_Username (f x) = name"
    and free: "\<not> (\<exists>x \<in> set (db_users db). us_ID x \<noteq> u \<and> us_Username x = name)"
    and adm: "db_initialized db \<Longrightarrow> \<exists>x \<in> set (db_users (update_user u f db)). operational_admin x"
    and st: "\<And>x. us_Status x = UserStatusActive \<Longrightarrow> us_Status (f x) = UserStatusActive"
  shows "account_inv (update_user u f db)"
proof (rule update_user_keeps[OF inv i _ adm])
  let ?g = "\<lambda>x. us_Username (if us_ID x = u then f x else x)"
  have ids: "inj_on us_ID (set (db_users db))" and names: "inj_on us_Username (set (db_users db))"
    and d: "distinct (db_users db)"
    using inv by (simp_all add: account_inv_def users_ok_def distinct_map)
  have "inj_on ?g (set (db_users db))"
  proof (rule inj_onI)
    fix x y assume xy: "x \<in> set (db_users db)" "y \<in> set (db_users db)" "?g x = ?g y"
    have "us_ID x = us_ID y"
      using xy free n names by (auto simp: inj_on_def split: if_splits)
    then show "x = y" using ids xy by (auto simp: inj_on_def)
  qed
  then show "distinct (map us_Username (db_users (update_user u f db)))"
    using d by (simp add: users_after_update distinct_map inj_on_def)
qed (use st in auto)

lemma admin_survives_update:
  assumes "account_inv db" "db_initialized db"
    and "\<And>x. us_ID (f x) = us_ID x" "\<And>x. us_IsAdmin x \<Longrightarrow> us_IsAdmin (f x)"
    and "\<And>x. us_Status x = UserStatusActive \<Longrightarrow> us_Status (f x) = UserStatusActive"
  shows "\<exists>x \<in> set (db_users (update_user u f db)). operational_admin x"
proof -
  obtain x where x: "x \<in> set (db_users db)" "operational_admin x"
    using assms by (auto simp: account_inv_def users_ok_def)
  have "operational_admin (if us_ID x = u then f x else x)"
    using x(2) assms(3-5) by (auto simp: operational_admin_def isOperationalUser_def)
  then show ?thesis
    using x(1) unfolding users_after_update set_map by blast
qed

text \<open>What the policy says about an update of the rights or the status of its target.\<close>

lemma policy_admin_after_update:
  assumes inv: "account_inv db" and b: "b \<in> set (db_users db)"
    and ok: "validateUserLifecycleMutation (listUsersInTx db) actor b a False = None"
    and same: "operational_admin a \<Longrightarrow> operational_admin (f b)"
  shows "\<exists>x \<in> set (db_users (update_user (us_ID b) f db)). operational_admin x"
proof -
  obtain y where y: "y \<in> set (db_users db)" "operational_admin (if us_ID y = us_ID b then a else y)"
    using policy_keeps_admin[OF ok] by auto
  have "operational_admin (if us_ID y = us_ID b then f y else y)"
  proof (cases "us_ID y = us_ID b")
    case True
    then have "y = b" using same_id_same_user[OF _ y(1) b] inv by (simp add: account_inv_def)
    then show ?thesis using y(2) same by simp
  qed (use y(2) in simp)
  then show ?thesis using y(1) unfolding users_after_update set_map by blast
qed

lemma update_same_name:
  assumes "account_inv db" "\<And>x. us_Username (f x) = us_Username x"
  shows "distinct (map us_Username (db_users (update_user u f db)))"
proof -
  have "map us_Username (db_users (update_user u f db)) = map us_Username (db_users db)"
    by (simp add: users_after_update comp_def if_distrib assms(2) cong: if_cong)
  then show ?thesis using assms(1) by (simp add: account_inv_def users_ok_def)
qed

subsection \<open>Accounts\<close>

interpretation rename: account_transaction "updateUserUsernameTx now u name actor" for now u name actor
proof
  fix db x db'
  assume inv: "account_inv db" and r: "updateUserUsernameTx now u name actor db = Inr (x, db')"
  let ?d = "update_user u (\<lambda>x. x\<lparr>us_Username := name, us_UpdatedAt := now\<rparr>) db"
  have free: "\<not> (\<exists>x \<in> set (db_users db). us_ID x \<noteq> u \<and> us_Username x = name)"
    and ap: "\<exists>i. append_event actor (delete_sessions u ?d) = Inr (i, db')"
    using r by (auto simp: updateUserUsernameTx_def bind_res_eq_Inr Let_def split: if_splits)
  have "account_inv ?d"
    by (rule rename_user_keeps[OF inv _ _ free admin_survives_update[OF inv]]) simp_all
  then show "account_inv db'"
    using ap append_event_keeps delete_sessions_keeps by metis
qed

interpretation password: account_transaction "resetUserPasswordTx now u h actor" for now u h actor
proof
  fix db x db'
  assume inv: "account_inv db" and r: "resetUserPasswordTx now u h actor db = Inr (x, db')"
  let ?d = "update_user u (\<lambda>x. x\<lparr>us_PasswordHash := h, us_UpdatedAt := now\<rparr>) db"
  have ap: "\<exists>i. append_event actor (delete_challenges u (delete_sessions u ?d)) = Inr (i, db')"
    using r by (auto simp: resetUserPasswordTx_def bind_res_eq_Inr Let_def)
  have "account_inv ?d" by (rule update_user_quiet[OF inv]) simp_all
  then show "account_inv db'"
    using ap append_event_keeps delete_sessions_keeps delete_challenges_keeps by metis
qed

lemma clear_admin_security_keeps [account_keeps]: "account_inv db \<Longrightarrow> account_inv (clear_admin_security u db)"
  by (simp add: clear_admin_security_def account_keeps)

lemma admin_policy_cases:
  assumes "setUserAdminTx now actorID u adm actor db = Inr (x, db')"
  obtains b where "getUserInTx u db = Inr b"
    "validateUserLifecycleMutation (listUsersInTx db) actorID b (b\<lparr>us_IsAdmin := adm\<rparr>) False = None"
    "db' = db \<or> (\<exists>i. append_event actor ((if adm then id else clear_admin_security u) (delete_sessions u
       (update_user u (\<lambda>x. x\<lparr>us_IsAdmin := adm, us_UpdatedAt := now\<rparr>) db))) = Inr (i, db'))"
  using assms
  by (auto simp: setUserAdminTx_def bind_res_eq_Inr Let_def split: option.splits if_splits)

interpretation rights: account_transaction "setUserAdminTx now actorID u adm actor" for now actorID u adm actor
proof
  fix db x db'
  assume inv: "account_inv db" and r: "setUserAdminTx now actorID u adm actor db = Inr (x, db')"
  let ?f = "\<lambda>x. x\<lparr>us_IsAdmin := adm, us_UpdatedAt := now\<rparr>"
  from r obtain b where b: "getUserInTx u db = Inr b"
    and ok: "validateUserLifecycleMutation (listUsersInTx db) actorID b (b\<lparr>us_IsAdmin := adm\<rparr>) False = None"
    and ap: "db' = db \<or> (\<exists>i. append_event actor ((if adm then id else clear_admin_security u) (delete_sessions u
       (update_user u ?f db))) = Inr (i, db'))"
    by (rule admin_policy_cases)
  have bu: "b \<in> set (db_users db)" "us_ID b = u" using getUserInTx_Inr[OF b] by auto
  have "\<exists>x \<in> set (db_users (update_user u ?f db)). operational_admin x"
    using policy_admin_after_update[OF inv bu(1) ok, of ?f] bu(2)
    by (simp add: operational_admin_def isOperationalUser_def)
  then have "account_inv (update_user u ?f db)"
    by (intro update_user_keeps[OF inv] update_same_name[OF inv]) simp_all
  then have "account_inv ((if adm then id else clear_admin_security u) (delete_sessions u (update_user u ?f db)))"
    by (cases adm) (simp_all add: delete_sessions_keeps clear_admin_security_keeps)
  then show "account_inv db'" using ap append_event_keeps inv by metis
qed

text \<open>
  A disable removes the sessions in the same transaction, so its intermediate states need not
  be consistent; the tables are compared with those where the sessions went first.
\<close>

lemma update_then_revoke:
  "revokeUserLoginStateTx u (update_user u f db) = update_user u f (revokeUserLoginStateTx u db)"
  by (simp add: revokeUserLoginStateTx_def statement_defs)

lemma revoke_state_keeps [account_keeps]: "account_inv db \<Longrightarrow> account_inv (revokeUserLoginStateTx u db)"
  by (simp add: revokeUserLoginStateTx_def account_keeps)

lemma revoke_state_fields [simp]:
  "db_users (revokeUserLoginStateTx u db) = db_users db"
  "db_initialized (revokeUserLoginStateTx u db) = db_initialized db"
  "db_sessions (revokeUserLoginStateTx u db) = filter (\<lambda>s. se_UserID s \<noteq> u) (db_sessions db)"
  "db_challenges (revokeUserLoginStateTx u db) = filter (\<lambda>c. ch_UserID c \<noteq> Some u) (db_challenges db)"
  by (simp_all add: revokeUserLoginStateTx_def statement_defs)

definition status_revoke :: "string \<Rightarrow> string \<Rightarrow> user_db \<Rightarrow> user_db" where
  "status_revoke st u db = (if st = UserStatusDisabled then revokeUserLoginStateTx u db else db)"

lemma status_cases:
  assumes "setUserStatusTx now actorID u st actor db = Inr (x, db')"
  obtains b where "getUserInTx u db = Inr b"
    "validateUserLifecycleMutation (listUsersInTx db) actorID b (b\<lparr>us_Status := st\<rparr>) False = None"
    "(us_Status b = st \<and> db' = status_revoke st u db) \<or> (\<exists>i. append_event actor (status_revoke st u
       (update_user u (\<lambda>x. x\<lparr>us_Status := st, us_UpdatedAt := now\<rparr>) db)) = Inr (i, db'))"
  using assms
  by (auto simp: setUserStatusTx_def status_revoke_def bind_res_eq_Inr Let_def split: option.splits if_splits)

lemma status_update_keeps:
  assumes inv: "account_inv db" and bu: "b \<in> set (db_users db)" "us_ID b = u"
    and st: "st = UserStatusActive \<or> st = UserStatusDisabled"
    and ok: "validateUserLifecycleMutation (listUsersInTx db) actorID b (b\<lparr>us_Status := st\<rparr>) False = None"
  shows "account_inv (status_revoke st u (update_user u (\<lambda>x. x\<lparr>us_Status := st, us_UpdatedAt := now\<rparr>) db))"
    (is "account_inv (status_revoke st u (update_user u ?f db))")
proof -
  have adm: "\<exists>x \<in> set (db_users (update_user u ?f db)). operational_admin x"
    using policy_admin_after_update[OF inv bu(1) ok, of ?f] bu(2)
    by (simp add: operational_admin_def isOperationalUser_def)
  show ?thesis
  proof (cases "st = UserStatusDisabled")
    case True
    let ?d = "revokeUserLoginStateTx u db"
    have "\<exists>x \<in> set (db_users (update_user u ?f ?d)). operational_admin x"
      using adm by (simp add: users_after_update)
    then have "account_inv (update_user u ?f ?d)"
      by (intro update_user_keeps update_same_name revoke_state_keeps[OF inv]) auto
    then show ?thesis using True by (simp add: status_revoke_def update_then_revoke)
  next
    case False
    then have "account_inv (update_user u ?f db)"
      using st adm by (intro update_user_keeps[OF inv] update_same_name[OF inv]) auto
    then show ?thesis using False by (simp add: status_revoke_def)
  qed
qed

lemma setUserStatus_keeps:
  assumes inv: "account_inv db"
  shows "account_inv (snd (setUserStatus now ok actorID u st actor db))"
proof (cases "\<exists>x db'. setUserStatusTx now actorID u st actor db = Inr (x, db') \<and> (st = UserStatusActive \<or> st = UserStatusDisabled)")
  case False
  then show ?thesis using inv by (auto simp: setUserStatus_def in_tx_def split: sum.splits)
next
  case True
  then obtain x db' where r: "setUserStatusTx now actorID u st actor db = Inr (x, db')"
    and st: "st = UserStatusActive \<or> st = UserStatusDisabled" by auto
  from r obtain b where b: "getUserInTx u db = Inr b"
    and ok: "validateUserLifecycleMutation (listUsersInTx db) actorID b (b\<lparr>us_Status := st\<rparr>) False = None"
    and ap: "(us_Status b = st \<and> db' = status_revoke st u db) \<or> (\<exists>i. append_event actor (status_revoke st u
       (update_user u (\<lambda>x. x\<lparr>us_Status := st, us_UpdatedAt := now\<rparr>) db)) = Inr (i, db'))"
    by (rule status_cases)
  have "account_inv (status_revoke st u db)" using inv by (simp add: status_revoke_def account_keeps)
  then have "account_inv db'"
    using ap append_event_keeps status_update_keeps[OF inv getUserInTx_Inr[OF b] st ok] by blast
  then show ?thesis using inv r by (auto simp: setUserStatus_def in_tx_def)
qed

interpretation revoke_all: account_transaction
  "\<lambda>db. bind_res (getUserInTx u db) (\<lambda>t. append_event actor (delete_sessions u db))" for u actor
  by unfold_locales (auto simp: bind_res_eq_Inr dest: append_event_keeps delete_sessions_keeps)

text \<open>A new row needs an identifier and brings a fresh name, which the insertion checks.\<close>

lemma createUser_keeps:
  assumes inv: "account_inv db"
  shows "account_inv (snd (createUser L now rnd hashed ok username password actor db))"
proof -
  have "account_inv db'"
    if i: "us_ID user \<noteq> []" and r: "createUserTx user actor db = Inr (x, db')" for user x db'
  proof -
    have "account_inv (db\<lparr>db_users := db_users db @ [user]\<rparr>)"
      using inv i r by (auto simp: account_defs createUserTx_def split: if_splits)
    then show ?thesis using r append_event_keeps by (auto simp: createUserTx_def bind_res_eq_Inr split: if_splits)
  qed
  then show ?thesis
    using inv generateUUIDE_nonempty
    by (auto simp: createUser_def in_tx_def bind_res_def from_option_def check_that_def split: sum.splits option.splits if_splits)
       (metis User.select_convs(1))
qed

subsection \<open>Deletion\<close>

lemma delete_user_rows_fields:
  "db_users (delete_user_rows u db) = filter (\<lambda>x. us_ID x \<noteq> u) (db_users db)"
  "db_initialized (delete_user_rows u db) = db_initialized db"
  "db_sessions (delete_user_rows u db) = filter (\<lambda>s. se_UserID s \<noteq> u) (db_sessions db)"
  "db_challenges (delete_user_rows u db) = filter (\<lambda>c. ch_UserID c \<noteq> Some u) (db_challenges db)"
  "db_recovery (delete_user_rows u db) = filter (\<lambda>r. rc_UserID r \<noteq> u) (db_recovery db)"
  "db_passkeys (delete_user_rows u db) = filter (\<lambda>p. pk_UserID p \<noteq> u) (db_passkeys db)"
  by (simp_all add: delete_user_rows_def statement_defs deletion_defs Let_def)

lemma delete_cases:
  assumes "DeleteDisabledUserTx actorID u db = Inr (x, db')"
  obtains b where "getUserInTx u db = Inr b" "us_Status b = UserStatusDisabled" "actorID \<noteq> u"
    "validateUserLifecycleMutation (listUsersInTx db) actorID b b True = None" "db' = delete_user_rows u db"
  using assms getUserInTx_Inr(2)
  by (auto simp: DeleteDisabledUserTx_def bind_res_eq_Inr split: option.splits if_splits)

interpretation deletion: account_transaction "DeleteDisabledUserTx actorID u" for actorID u
proof
  fix db x db'
  assume inv: "account_inv db" and r: "DeleteDisabledUserTx actorID u db = Inr (x, db')"
  from r obtain b where b: "getUserInTx u db = Inr b"
    and ok: "validateUserLifecycleMutation (listUsersInTx db) actorID b b True = None"
    and d: "db' = delete_user_rows u db" by (rule delete_cases)
  have adm: "\<exists>x \<in> set (db_users db). us_ID x \<noteq> u \<and> operational_admin x"
    using policy_keeps_admin[OF ok] getUserInTx_Inr[OF b] by auto
  have "users_ok db'"
    using inv adm by (auto simp: d delete_user_rows_fields account_inv_def users_ok_def distinct_map_filter)
  moreover have "logins_ok db'"
    using inv by (fastforce simp: d delete_user_rows_fields account_inv_def logins_ok_def distinct_map_filter)
  moreover have "factors_ok db'"
    using inv by (fastforce simp: d delete_user_rows_fields account_inv_def factors_ok_def distinct_map_filter)
  ultimately show "account_inv db'" by (simp add: account_inv_def)
qed

subsection \<open>Initialisation and recovery\<close>

lemma InitializeTx_keeps:
  assumes i: "us_ID user \<noteq> []" and op: "operational_admin user"
    and r: "InitializeTx user sec addr ports db = Inr (x, db')"
  shows "account_inv db'"
  using r i op
  by (auto simp: InitializeTx_def replaceAllowedPorts_def fk_cascade_def account_defs Let_def split: if_splits)

lemma Initialize_keeps:
  assumes inv: "account_inv db"
  shows "account_inv (snd (Initialize L now secret rnd hashed ok username password addr ports db))"
proof -
  define u where "u = (\<lambda>i h. \<lparr>us_ID = i, us_Username = username, us_PasswordHash = h, us_IsAdmin = True,
    us_Status = UserStatusActive, us_CreatedAt = now, us_UpdatedAt = now, us_LastLogin = None,
    us_TOTPEnabled = False, us_TOTPSecret = []\<rparr>)"
  have "account_inv db'"
    if "generateUUIDE rnd = Some i" "InitializeTx (u i h) s addr ports db = Inr (x, db')" for i h s x db'
  proof (rule InitializeTx_keeps[OF _ _ that(2)])
    show "us_ID (u i h) \<noteq> []" "operational_admin (u i h)"
      using generateUUIDE_nonempty[OF that(1)] by (simp_all add: u_def operational_admin_def isOperationalUser_def)
  qed
  then show ?thesis
    using inv by (auto simp: Initialize_def u_def in_tx_def bind_res_def from_option_def check_that_def
      split: sum.splits option.splits if_splits)
qed

interpretation recover_admin: account_transaction "ResetAdminUserTx now name h" for now name h
proof
  fix db x db'
  assume inv: "account_inv db" and r: "ResetAdminUserTx now name h db = Inr (x, db')"
  define f where "f = (\<lambda>x. x\<lparr>us_Username := name, us_PasswordHash := h, us_IsAdmin := True,
      us_Status := UserStatusActive, us_UpdatedAt := now, us_LastLogin := None, us_TOTPEnabled := False,
      us_TOTPSecret := []\<rparr> :: User)"
  obtain u where free: "\<not> (\<exists>x \<in> set (db_users db). us_ID x \<noteq> u \<and> us_Username x = name)"
    and d: "db' = delete_recovery u (delete_passkeys u (delete_challenges u (delete_sessions u (update_user u f db))))"
    using r by (auto simp: ResetAdminUserTx_def f_def Let_def split: if_splits list.splits)
  have "account_inv (update_user u f db)"
    by (rule rename_user_keeps[OF inv _ _ free admin_survives_update[OF inv]]) (simp_all add: f_def)
  then show "account_inv db'" by (simp add: d account_keeps)
qed

interpretation login_time: account_transaction
  "\<lambda>db. Inr ((), update_user u (\<lambda>x. x\<lparr>us_LastLogin := Some now, us_UpdatedAt := now\<rparr>) db)" for u now
  by unfold_locales (auto intro: update_user_quiet)

subsection \<open>Sessions\<close>

lemma find_user_unique:
  "users_ok db \<Longrightarrow> x \<in> set (db_users db) \<Longrightarrow> find (\<lambda>y. us_ID y = us_ID x) (db_users db) = Some x"
proof -
  assume ok: "users_ok db" and x: "x \<in> set (db_users db)"
  obtain y where y: "find (\<lambda>y. us_ID y = us_ID x) (db_users db) = Some y"
    using x by (cases "find (\<lambda>y. us_ID y = us_ID x) (db_users db)") (auto simp: find_None_iff)
  then have "y \<in> set (db_users db)" "us_ID y = us_ID x" by (auto simp: find_Some_iff)
  with y x same_id_same_user[OF ok] show ?thesis by auto
qed

lemma session_cases:
  assumes "createSessionForActiveUserTx i u ip ua now db = Inr (r, db')"
  obtains b row where "getUserInTx u db = Inr b" "us_Status b = UserStatusActive"
    "se_UserID row = u" "se_ID row = i" "se_ExpiresAt row = now + sessionDefaultTTL"
    "i \<notin> se_ID ` set (db_sessions (delete_sessions u db))"
    "fst r = session_row.extend row \<lparr>as_Username = us_Username b, as_Role = user_role b\<rparr>"
    "db' = update_user u (\<lambda>x. x\<lparr>us_LastLogin := Some now, us_UpdatedAt := now\<rparr>)
       (delete_sessions u db\<lparr>db_sessions := db_sessions (delete_sessions u db) @ [row]\<rparr>)"
proof -
  obtain b where b: "getUserInTx u db = Inr b"
    using assms by (auto simp: createSessionForActiveUserTx_def bind_res_eq_Inr)
  define row where "row = \<lparr>se_ID = i, se_UserID = u, se_CreatedAt = now, se_ExpiresAt = now + sessionDefaultTTL,
    se_IP = ip, se_UserAgent = ua\<rparr>"
  show thesis
    using assms b getUserInTx_Inr(2)[OF b]
    by (intro that[of b row]) (auto simp: createSessionForActiveUserTx_def row_def Let_def split: if_splits)
qed

lemma create_session_keeps:
  assumes inv: "account_inv db" and r: "createSessionForActiveUserTx i u ip ua now db = Inr (x, db')"
  shows "account_inv db'"
proof -
  from r obtain b row where b: "getUserInTx u db = Inr b" "us_Status b = UserStatusActive"
    and row: "se_UserID row = u" "se_ID row = i"
    and fresh: "i \<notin> se_ID ` set (db_sessions (delete_sessions u db))"
    and d: "db' = update_user u (\<lambda>x. x\<lparr>us_LastLogin := Some now, us_UpdatedAt := now\<rparr>)
       (delete_sessions u db\<lparr>db_sessions := db_sessions (delete_sessions u db) @ [row]\<rparr>)"
    by (rule session_cases)
  let ?d = "delete_sessions u db\<lparr>db_sessions := db_sessions (delete_sessions u db) @ [row]\<rparr>"
  have "account_inv (delete_sessions u db)" by (rule delete_sessions_keeps[OF inv])
  moreover have "u \<notin> se_UserID ` set (db_sessions (delete_sessions u db))" by (auto simp: delete_sessions_def)
  moreover have "b \<in> set (db_users (delete_sessions u db))" "us_ID b = u"
    using getUserInTx_Inr[OF b(1)] by (simp_all add: delete_sessions_def)
  ultimately have "account_inv ?d" using row fresh b(2) by (auto simp: account_defs)
  then show ?thesis unfolding d by (rule update_user_quiet) simp_all
qed

interpretation login: account_transaction
  "\<lambda>d. bind_res (createSessionForActiveUserTx i u ip ua now d) (\<lambda>((session, cu), d1).
     bind_res (append_event actor d1) (\<lambda>(a, d2). Inr ((session, a), d2)))" for i u ip ua now actor
  by unfold_locales (auto simp: bind_res_eq_Inr dest: create_session_keeps append_event_keeps)

interpretation plain_login: account_transaction
  "\<lambda>d. bind_res (createSessionForActiveUserTx i u ip ua now d) (\<lambda>((session, cu), d1). Inr (session, d1))"
  for i u ip ua now
  by unfold_locales (auto simp: bind_res_eq_Inr dest: create_session_keeps)

interpretation logout: account_transaction
  "\<lambda>db. Inr ((), db\<lparr>db_sessions := filter P (db_sessions db)\<rparr>)" for P
  by unfold_locales (auto intro: drop_sessions_keeps)

interpretation logged_logout: account_transaction
  "\<lambda>db. if i \<notin> se_ID ` set (db_sessions db) then Inl ErrNoRows
     else append_event actor (db\<lparr>db_sessions := filter (\<lambda>s. se_ID s \<noteq> i) (db_sessions db)\<rparr>)" for i actor
  by unfold_locales (auto dest!: append_event_keeps[rotated] intro: drop_sessions_keeps split: if_splits)

interpretation revoke_user: account_transaction "\<lambda>db. Inr ((), delete_sessions u db)" for u
  by unfold_locales (auto intro: delete_sessions_keeps)

subsection \<open>Challenges and second factors\<close>

lemma add_challenge_keeps:
  assumes "account_inv db" "ch_ID c \<notin> ch_ID ` set (db_challenges db)"
    and "(ch_UserID c = None \<and> ch_Kind c = ''passkey_login'') \<or> ch_UserID c \<in> Some ` us_ID ` set (db_users db)"
  shows "account_inv (db\<lparr>db_challenges := db_challenges db @ [c]\<rparr>)"
  using assms by (auto simp: account_defs)

text \<open>The stored challenges are some of those before, and the new one.\<close>

lemma StoreAuthChallengeTx_cases:
  assumes "StoreAuthChallengeTx now c db = Inr (x, db')"
  obtains P where "x = c" "db' = db\<lparr>db_challenges := filter P (db_challenges db) @ [c]\<rparr>"
    "ch_ID c \<notin> ch_ID ` set (filter P (db_challenges db))"
    "(ch_UserID c = None \<and> ch_Kind c = ''passkey_login'') \<or> ch_UserID c \<in> Some ` us_ID ` set (db_users db)"
proof (cases "ch_UserID c")
  case None
  with assms show thesis
    by (intro that[of "\<lambda>x. \<not> formatTime (ch_ExpiresAt x) \<le> formatTime now"])
      (auto simp: StoreAuthChallengeTx_def Let_def split: if_splits)
next
  case (Some u)
  with assms show thesis
    by (intro that[of "\<lambda>x. \<not> formatTime (ch_ExpiresAt x) \<le> formatTime now \<and> \<not> (ch_UserID x = Some u \<and> ch_Kind x = ch_Kind c)"])
      (auto simp: StoreAuthChallengeTx_def Let_def has_user_def split: if_splits)
qed

interpretation challenge: account_transaction "StoreAuthChallengeTx now c" for now c
proof
  fix db x db'
  assume inv: "account_inv db" and r: "StoreAuthChallengeTx now c db = Inr (x, db')"
  from r obtain P where d: "db' = db\<lparr>db_challenges := filter P (db_challenges db) @ [c]\<rparr>"
    "ch_ID c \<notin> ch_ID ` set (filter P (db_challenges db))"
    "(ch_UserID c = None \<and> ch_Kind c = ''passkey_login'') \<or> ch_UserID c \<in> Some ` us_ID ` set (db_users db)"
    by (rule StoreAuthChallengeTx_cases)
  show "account_inv db'"
    using add_challenge_keeps[OF drop_challenges_keeps[OF inv, of P], of c] d by simp
qed

lemma ConsumeAuthChallenge_keeps:
  "account_inv db \<Longrightarrow> account_inv (snd (ConsumeAuthChallenge now ok i u kind db))"
  by (auto simp: ConsumeAuthChallenge_def drop_challenge_def drop_challenges_keeps split: option.splits)

lemma mark_code_keeps:
  assumes "account_inv db"
  shows "account_inv (db\<lparr>db_recovery := map (\<lambda>x. if P x then x\<lparr>rc_UsedAt := t\<rparr> else x) (db_recovery db)\<rparr>)"
proof -
  define rs where "rs = map (\<lambda>x. if P x then x\<lparr>rc_UsedAt := t\<rparr> else x) (db_recovery db)"
  have "map rc_ID rs = map rc_ID (db_recovery db)" unfolding rs_def by (simp cong: if_cong)
  moreover have "\<forall>r \<in> set rs. rc_UserID r \<in> us_ID ` set (db_users db)"
    unfolding rs_def using assms by (auto simp: account_inv_def factors_ok_def)
  ultimately show ?thesis
    using assms unfolding rs_def[symmetric]
    by (simp add: account_inv_def users_ok_def logins_ok_def factors_ok_def)
qed

lemma consume_code_keeps:
  "account_inv db \<Longrightarrow> consumeRecoveryCodeInTx L now u code db = Inr (x, db') \<Longrightarrow> account_inv db'"
  by (auto simp: consumeRecoveryCodeInTx_def mark_code_keeps split: option.splits if_splits)

lemma verifyMFA_keeps: "account_inv db \<Longrightarrow> verifyMFAInTx L up now user code db = Inr (x, db') \<Longrightarrow> account_inv db'"
  by (auto simp: verifyMFAInTx_def bind_res_eq_Inr Let_def dest: consume_code_keeps split: if_splits)

lemma VerifyAdminSecurityCredentials_keeps:
  "account_inv db \<Longrightarrow> account_inv (snd (VerifyAdminSecurityCredentials L up now ok u pw code db))"
  by (auto simp: VerifyAdminSecurityCredentials_def in_tx_def bind_res_def dest: verifyMFA_keeps
    split: option.splits if_splits sum.splits prod.splits)

lemma insert_codes_keeps:
  "account_inv db \<Longrightarrow> insert_codes now u cs db = Inr (x, db') \<Longrightarrow> account_inv db'"
proof (induction cs arbitrary: db)
  case (Cons c cs)
  obtain i h where c: "c = (i, h)" by (cases c)
  let ?d = "db\<lparr>db_recovery := db_recovery db @
             [\<lparr>rc_ID = i, rc_UserID = u, rc_CodeHash = h, rc_CreatedAt = now, rc_UsedAt = None\<rparr>]\<rparr>"
  have n: "i \<notin> rc_ID ` set (db_recovery db)" "has_user db u" "insert_codes now u cs ?d = Inr (x, db')"
    using Cons.prems(2) by (auto simp: c split: if_splits)
  have "account_inv ?d" using Cons.prems(1) n by (auto simp: account_defs has_user_def)
  then show ?case using Cons.IH n(3) by blast
qed simp

lemma replace_codes_keeps:
  "account_inv db \<Longrightarrow> replaceRecoveryCodesInTx now u cs db = Inr (x, db') \<Longrightarrow> account_inv db'"
  unfolding replaceRecoveryCodesInTx_def by (rule insert_codes_keeps[OF delete_recovery_keeps])

lemma UpdateAdminUsername_keeps:
  assumes inv: "account_inv db"
  shows "account_inv (snd (UpdateAdminUsernameWithActivity now ok u username actor db))"
proof -
  have "account_inv (update_user u (\<lambda>x. x\<lparr>us_Username := n, us_UpdatedAt := now\<rparr>) db)"
    if "\<not> (\<exists>x \<in> set (db_users db). us_ID x \<noteq> u \<and> us_Username x = n)" for n
    by (rule rename_user_keeps[OF inv _ _ that admin_survives_update[OF inv]]) simp_all
  then show ?thesis
    using inv by (auto simp: UpdateAdminUsernameWithActivity_def in_tx_def Let_def
      dest!: append_event_keeps[rotated] intro: revoke_keeps split: sum.splits option.splits if_splits)
qed

lemma UpdateAdminPassword_keeps:
  assumes inv: "account_inv db"
  shows "account_inv (snd (UpdateAdminPasswordWithActivity L now hashed ok u cur new actor db))"
proof -
  have "account_inv (update_user u (\<lambda>x. x\<lparr>us_PasswordHash := h, us_UpdatedAt := now\<rparr>) db)" for h
    by (rule update_user_quiet[OF inv]) simp_all
  then show ?thesis
    using inv by (auto simp: UpdateAdminPasswordWithActivity_def in_tx_def
      dest!: append_event_keeps[rotated] intro: revoke_keeps split: sum.splits option.splits if_splits)
qed

lemma simple_activity_keeps:
  assumes "account_inv db" "\<And>x db'. mutate db = Inr (x, db') \<Longrightarrow> account_inv db'"
  shows "account_inv (snd (securitySimpleActivity ok u actor mutate revoking db))"
  using assms by (auto simp: securitySimpleActivity_def in_tx_def bind_res_def
    dest!: append_event_keeps[rotated] intro: revoke_keeps split: sum.splits if_splits prod.splits)

lemma DisableTOTP_keeps: "account_inv db \<Longrightarrow> account_inv (snd (DisableTOTPWithActivity now ok u actor db))"
  unfolding DisableTOTPWithActivity_def
  by (rule simple_activity_keeps) (auto intro!: delete_recovery_keeps update_user_quiet)

lemma DeletePasskey_keeps: "account_inv db \<Longrightarrow> account_inv (snd (DeletePasskeyWithActivity ok u i actor db))"
  unfolding DeletePasskeyWithActivity_def
  by (rule simple_activity_keeps) (auto intro: drop_passkeys_keeps split: if_splits)

lemma UpdatePasskeyName_keeps: "account_inv db \<Longrightarrow> account_inv (snd (UpdatePasskeyNameWithActivity ok u i n actor db))"
  unfolding UpdatePasskeyNameWithActivity_def Let_def
  by (auto intro!: simple_activity_keeps map_passkeys_keeps split: if_splits)

lemma TouchPasskey_keeps: "account_inv db \<Longrightarrow> account_inv (snd (TouchPasskey now ok u i j db))"
  by (auto simp: TouchPasskey_def in_tx_def intro!: map_passkeys_keeps split: if_splits)

lemma RegenerateRecoveryCodes_keeps:
  assumes "account_inv db"
  shows "account_inv (snd (RegenerateRecoveryCodesWithActivity now codes ok u actor db))"
proof -
  have "account_inv db'" if "replaceRecoveryCodesInTx now u cs db = Inr (x, d)"
    "append_event actor (revoke_logins u d) = Inr (y, db')" for cs x d y db'
    using replace_codes_keeps[OF assms that(1)] that(2) append_event_keeps revoke_keeps by blast
  then show ?thesis
    using assms by (auto simp: RegenerateRecoveryCodesWithActivity_def in_tx_def bind_res_def
      split: option.splits sum.splits prod.splits)
qed

lemma AddPasskey_keeps:
  assumes "account_inv db"
  shows "account_inv (snd (AddPasskeyWithActivity now rnd ok u name cid cj rp origin actor db))"
proof -
  have add: "account_inv (db\<lparr>db_passkeys := db_passkeys db @ [p]\<rparr>)"
    if "pk_CredentialID p \<notin> pk_CredentialID ` set (db_passkeys db)" "has_user db (pk_UserID p)" for p
    using assms that by (auto simp: account_defs has_user_def)
  have fin: "account_inv db'"
    if "pk_CredentialID p \<notin> pk_CredentialID ` set (db_passkeys db)" "has_user db (pk_UserID p)"
      "append_event actor (revoke_logins (pk_UserID p) (db\<lparr>db_passkeys := db_passkeys db @ [p]\<rparr>)) = Inr (y, db')" for p y db'
    using append_event_keeps[OF revoke_keeps[OF add[OF that(1,2)]] that(3)] .
  show ?thesis
  proof (cases "generateUUIDE rnd")
    case (Some i)
    define p where "p = \<lparr>pk_ID = i, pk_UserID = u, pk_Name = (if trim_space name = [] then ''Passkey'' else trim_space name),
      pk_CredentialID = cid, pk_CredentialJSON = cj, pk_RPID = rp, pk_Origin = origin, pk_CreatedAt = now, pk_LastUsedAt = None\<rparr>"
    have [simp]: "pk_UserID p = u" "pk_CredentialID p = cid" by (simp_all add: p_def)
    show ?thesis
      using assms fin[of p] unfolding AddPasskeyWithActivity_def Some p_def[symmetric]
      by (auto simp: in_tx_def bind_res_def Let_def p_def[symmetric] split: sum.splits prod.splits if_splits)
  qed (simp add: AddPasskeyWithActivity_def assms)
qed

lemma ConfirmTOTPSetup_keeps:
  assumes inv: "account_inv db"
  shows "account_inv (snd (ConfirmTOTPSetupWithActivity L up secret now codes ok u cid code actor db))"
proof -
  have "account_inv db'"
    if "replaceRecoveryCodesInTx now u cs (update_user u (\<lambda>x. x\<lparr>us_TOTPEnabled := True, us_TOTPSecret := sec,
           us_UpdatedAt := now\<rparr>) (db\<lparr>db_challenges := filter P (db_challenges db)\<rparr>)) = Inr (x, d)"
      "append_event actor (revoke_logins u d) = Inr (y, db')" for cs sec P x d y db'
  proof -
    have "account_inv (update_user u (\<lambda>x. x\<lparr>us_TOTPEnabled := True, us_TOTPSecret := sec,
           us_UpdatedAt := now\<rparr>) (db\<lparr>db_challenges := filter P (db_challenges db)\<rparr>))"
      by (rule update_user_quiet[OF drop_challenges_keeps[OF inv]]) simp_all
    from append_event_keeps[OF revoke_keeps[OF replace_codes_keeps[OF this that(1)]] that(2)] show ?thesis .
  qed
  then show ?thesis
    using inv by (auto simp: ConfirmTOTPSetupWithActivity_def in_tx_def bind_res_def Let_def
      split: sum.splits option.splits prod.splits if_splits)
qed

section \<open>Runs\<close>

text \<open>
  The operations the server calls, with all they depend on; each is one call under the
  mutex of the store, so a run is a list of them.
\<close>

datatype user_op =
  DoInitialize gotime "bytes option" "bytes option" "string option" bool string string string "(int \<times> int) list"
  | DoCreateUser gotime "bytes option" "string option" bool string string "(string + event_row) option"
  | DoUpdateUsername gotime bool string string "(string + event_row) option"
  | DoResetPassword gotime "string option" bool string string "(string + event_row) option"
  | DoSetAdmin gotime bool string string bool "(string + event_row) option"
  | DoSetStatus gotime bool string string string "(string + event_row) option"
  | DoRevokeSessions bool string "(string + event_row) option"
  | DoDeleteUser bool string string
  | DoResetAdmin gotime "string option" bool string string
  | DoLoginTime gotime bool string
  | DoCreateSession gotime "bytes option" bool string string string
  | DoLogin gotime "bytes option" bool string string string "(string + event_row) option"
  | DoDeleteSession bool string
  | DoLogout bool string "(string + event_row) option"
  | DoDeleteSessions bool string
  | DoCleanSessions gotime bool
  | DoStoreChallenge gotime "bytes option" bool string string string string duration
  | DoConsumeChallenge gotime bool string string string
  | DoVerify gotime bool string string string
  | DoAdminUsername gotime bool string string "(string + event_row) option"
  | DoAdminPassword gotime "string option" bool string string string "(string + event_row) option"
  | DoConfirmTOTP gotime "(string \<times> string) list option" bool string string string "(string + event_row) option"
  | DoDisableTOTP gotime bool string "(string + event_row) option"
  | DoRegenerateCodes gotime "(string \<times> string) list option" bool string "(string + event_row) option"
  | DoAddPasskey gotime "bytes option" bool string string string string string string "(string + event_row) option"
  | DoRenamePasskey bool string string string "(string + event_row) option"
  | DoDeletePasskey bool string string "(string + event_row) option"
  | DoTouchPasskey gotime bool string string string

fun exec_user_op :: "libs \<Rightarrow> (string \<Rightarrow> string) \<Rightarrow> (string \<Rightarrow> string option) \<Rightarrow> user_op \<Rightarrow> user_db \<Rightarrow> user_db" where
  "exec_user_op L up secret (DoInitialize now sec rnd h ok n p a ports) db = snd (Initialize L now sec rnd h ok n p a ports db)"
| "exec_user_op L up secret (DoCreateUser now rnd h ok n p act) db = snd (createUser L now rnd h ok n p act db)"
| "exec_user_op L up secret (DoUpdateUsername now ok u n act) db = snd (updateUserUsername now ok u n act db)"
| "exec_user_op L up secret (DoResetPassword now h ok u p act) db = snd (resetUserPassword L now h ok u p act db)"
| "exec_user_op L up secret (DoSetAdmin now ok a u adm act) db = snd (setUserAdmin now ok a u adm act db)"
| "exec_user_op L up secret (DoSetStatus now ok a u st act) db = snd (setUserStatus now ok a u st act db)"
| "exec_user_op L up secret (DoRevokeSessions ok u act) db = snd (DeleteSessionsByUserIDWithActivity ok u act db)"
| "exec_user_op L up secret (DoDeleteUser ok a u) db = snd (DeleteDisabledUser ok a u db)"
| "exec_user_op L up secret (DoResetAdmin now h ok n p) db = snd (ResetAdminUser L now h ok n p db)"
| "exec_user_op L up secret (DoLoginTime now ok u) db = snd (UpdateAdminLoginTime now ok u db)"
| "exec_user_op L up secret (DoCreateSession now rnd ok u ip ua) db = snd (CreateSession now rnd ok u ip ua db)"
| "exec_user_op L up secret (DoLogin now rnd ok u ip ua act) db = snd (CreateSessionWithActivity now rnd ok u ip ua act db)"
| "exec_user_op L up secret (DoDeleteSession ok i) db = snd (DeleteSession ok i db)"
| "exec_user_op L up secret (DoLogout ok i act) db = snd (DeleteSessionWithActivity ok i act db)"
| "exec_user_op L up secret (DoDeleteSessions ok u) db = snd (DeleteSessionsByUserID ok u db)"
| "exec_user_op L up secret (DoCleanSessions now ok) db = snd (CleanExpiredSessions now ok db)"
| "exec_user_op L up secret (DoStoreChallenge now rnd ok u k j m ttl) db = snd (StoreAuthChallenge now rnd ok u k j m ttl db)"
| "exec_user_op L up secret (DoConsumeChallenge now ok i u k) db = snd (ConsumeAuthChallenge now ok i u k db)"
| "exec_user_op L up secret (DoVerify now ok u p c) db = snd (VerifyAdminSecurityCredentials L up now ok u p c db)"
| "exec_user_op L up secret (DoAdminUsername now ok u n act) db = snd (UpdateAdminUsernameWithActivity now ok u n act db)"
| "exec_user_op L up secret (DoAdminPassword now h ok u c n act) db = snd (UpdateAdminPasswordWithActivity L now h ok u c n act db)"
| "exec_user_op L up secret (DoConfirmTOTP now cs ok u i c act) db =
     snd (ConfirmTOTPSetupWithActivity L up secret now cs ok u i c act db)"
| "exec_user_op L up secret (DoDisableTOTP now ok u act) db = snd (DisableTOTPWithActivity now ok u act db)"
| "exec_user_op L up secret (DoRegenerateCodes now cs ok u act) db = snd (RegenerateRecoveryCodesWithActivity now cs ok u act db)"
| "exec_user_op L up secret (DoAddPasskey now rnd ok u n ci cj rp o' act) db =
     snd (AddPasskeyWithActivity now rnd ok u n ci cj rp o' act db)"
| "exec_user_op L up secret (DoRenamePasskey ok u i n act) db = snd (UpdatePasskeyNameWithActivity ok u i n act db)"
| "exec_user_op L up secret (DoDeletePasskey ok u i act) db = snd (DeletePasskeyWithActivity ok u i act db)"
| "exec_user_op L up secret (DoTouchPasskey now ok u c j) db = snd (TouchPasskey now ok u c j db)"

definition run_user_ops ::
  "libs \<Rightarrow> (string \<Rightarrow> string) \<Rightarrow> (string \<Rightarrow> string option) \<Rightarrow> user_op list \<Rightarrow> user_db \<Rightarrow> user_db" where
  "run_user_ops L up secret ops db = fold (exec_user_op L up secret) ops db"

lemma run_user_ops_simps [simp]:
  "run_user_ops L up secret [] db = db"
  "run_user_ops L up secret (x # xs) db = run_user_ops L up secret xs (exec_user_op L up secret x db)"
  by (simp_all add: run_user_ops_def)

lemma exec_user_op_keeps:
  assumes inv: "account_inv db"
  shows "account_inv (exec_user_op L up secret x db)"
proof (cases x)
  case DoUpdateUsername
  then show ?thesis using inv rename.in_tx_keeps by (auto simp: updateUserUsername_def split: sum.splits)
next
  case DoResetPassword
  then show ?thesis using inv password.in_tx_keeps by (auto simp: resetUserPassword_def split: sum.splits)
next
  case DoResetAdmin
  then show ?thesis using inv recover_admin.in_tx_keeps by (auto simp: ResetAdminUser_def Let_def split: option.splits)
next
  case DoCreateSession
  then show ?thesis using inv plain_login.in_tx_keeps by (auto simp: CreateSession_def split: option.splits)
next
  case DoLogin
  then show ?thesis using inv login.in_tx_keeps by (auto simp: CreateSessionWithActivity_def split: option.splits)
next
  case DoStoreChallenge
  then show ?thesis using inv challenge.in_tx_keeps by (auto simp: StoreAuthChallenge_def split: option.splits)
qed (simp_all add: inv Initialize_keeps createUser_keeps setUserAdmin_def rights.in_tx_keeps setUserStatus_keeps
  DeleteSessionsByUserIDWithActivity_def revoke_all.in_tx_keeps DeleteDisabledUser_def deletion.in_tx_keeps
  UpdateAdminLoginTime_def login_time.in_tx_keeps DeleteSession_def logout.in_tx_keeps DeleteSessionWithActivity_def
  logged_logout.in_tx_keeps DeleteSessionsByUserID_def revoke_user.in_tx_keeps CleanExpiredSessions_def
  ConsumeAuthChallenge_keeps VerifyAdminSecurityCredentials_keeps UpdateAdminUsername_keeps UpdateAdminPassword_keeps
  ConfirmTOTPSetup_keeps DisableTOTP_keeps RegenerateRecoveryCodes_keeps AddPasskey_keeps UpdatePasskeyName_keeps
  DeletePasskey_keeps TouchPasskey_keeps)

lemma run_user_ops_keeps: "account_inv db \<Longrightarrow> account_inv (run_user_ops L up secret ops db)"
  by (induction ops arbitrary: db) (simp_all add: exec_user_op_keeps)

definition empty_user_db :: user_db where
  "empty_user_db = \<lparr>db_initialized = False, db_jwtSecret = [], db_serverAddr = [], db_allowedPorts = [],
     db_users = [], db_sessions = [], db_challenges = [], db_recovery = [], db_passkeys = [], db_apiKeys = [],
     db_clients = [], db_tokens = [], db_tunnels = [], db_locks = [], db_buckets = [], db_events = [],
     db_eventClients = [], db_eventTunnels = []\<rparr>"

lemma empty_user_db_inv: "account_inv empty_user_db"
  by (simp add: empty_user_db_def account_defs)

section \<open>What an operation may add\<close>

text \<open>
  Two views of the tables: the status of each user, and the identifiers of the unused recovery
  codes of one user. Most operations add nothing to either.
\<close>

definition statuses :: "user_db \<Rightarrow> (string \<times> string) set" where
  "statuses db = (\<lambda>x. (us_ID x, us_Status x)) ` set (db_users db)"

definition unused_codes :: "string \<Rightarrow> user_db \<Rightarrow> string set" where
  "unused_codes u db = rc_ID ` {r \<in> set (db_recovery db). rc_UserID r = u \<and> rc_UsedAt r = None}"

definition no_more :: "string \<Rightarrow> user_db \<Rightarrow> user_db \<Rightarrow> bool" where
  "no_more u db db' \<longleftrightarrow> statuses db' \<subseteq> statuses db \<and> unused_codes u db' \<subseteq> unused_codes u db"

named_theorems adds_nothing \<open>statements that add neither a status nor an unused code\<close>

lemma no_more_refl [adds_nothing]: "no_more u db db"
  by (simp add: no_more_def)

lemma no_more_trans: "no_more u a b \<Longrightarrow> no_more u b c \<Longrightarrow> no_more u a c"
  by (auto simp: no_more_def)

lemma no_more_same: "db_users b = db_users a \<Longrightarrow> db_recovery b = db_recovery a \<Longrightarrow> no_more u a b"
  by (simp add: no_more_def statuses_def unused_codes_def)

lemma no_more_update:
  assumes "no_more u db d" "\<And>x. us_ID (f x) = us_ID x" "\<And>x. us_Status (f x) = us_Status x"
  shows "no_more u db (update_user v f d)"
proof -
  have "statuses (update_user v f d) = statuses d"
    unfolding statuses_def users_after_update set_map image_image using assms(2,3) by (intro image_cong) auto
  then show ?thesis using assms(1) by (simp add: no_more_def unused_codes_def)
qed

lemma no_more_statements [adds_nothing]:
  "no_more u db d \<Longrightarrow> no_more u db (delete_sessions v d)"
  "no_more u db d \<Longrightarrow> no_more u db (delete_challenges v d)"
  "no_more u db d \<Longrightarrow> no_more u db (delete_recovery v d)"
  "no_more u db d \<Longrightarrow> no_more u db (delete_passkeys v d)"
  "no_more u db d \<Longrightarrow> no_more u db (revoke_logins v d)"
  "no_more u db d \<Longrightarrow> no_more u db (d\<lparr>db_sessions := xs\<rparr>)"
  "no_more u db d \<Longrightarrow> no_more u db (d\<lparr>db_challenges := cs\<rparr>)"
  "no_more u db d \<Longrightarrow> no_more u db (d\<lparr>db_passkeys := ps\<rparr>)"
  "no_more u db d \<Longrightarrow> no_more u db (revokeUserLoginStateTx v d)"
  "no_more u db d \<Longrightarrow> no_more u db (delete_user_rows v d)"
  by (auto simp: no_more_def statuses_def unused_codes_def statement_defs revoke_logins_def
    revokeUserLoginStateTx_def delete_user_rows_fields)

lemma no_more_clear [adds_nothing]:
  "no_more u db d \<Longrightarrow> no_more u db (clear_admin_security v d)"
  by (simp add: clear_admin_security_def adds_nothing no_more_update)

lemma no_more_event: "append_event act d = Inr (y, d') \<Longrightarrow> no_more u db d \<Longrightarrow> no_more u db d'"
  using append_event_fields[of act d y d'] by (simp add: no_more_def statuses_def unused_codes_def)

lemma no_more_tx:
  "(\<And>y d. body db = Inr (y, d) \<Longrightarrow> no_more u db d) \<Longrightarrow> no_more u db (snd (in_tx ok body db))"
  by (auto simp: in_tx_def no_more_refl split: sum.splits prod.splits)

lemma no_more_simple:
  assumes "\<And>y d. mutate db = Inr (y, d) \<Longrightarrow> no_more u db d"
  shows "no_more u db (snd (securitySimpleActivity ok v act mutate revoking db))"
  unfolding securitySimpleActivity_def
proof (rule no_more_tx)
  fix y d
  assume "bind_res (mutate db) (\<lambda>(_, db1). append_event act (if revoking then revoke_logins v db1 else db1)) = Inr (y, d)"
  then obtain z d1 where m: "mutate db = Inr (z, d1)"
    and e: "append_event act (if revoking then revoke_logins v d1 else d1) = Inr (y, d)"
    by (auto simp: bind_res_eq_Inr)
  have "no_more u db (if revoking then revoke_logins v d1 else d1)"
    using assms[OF m] by (simp add: no_more_statements)
  then show "no_more u db d" by (rule no_more_event[OF e])
qed

lemma find_hit: "find P xs = Some x \<Longrightarrow> x \<in> set xs \<and> P x"
  by (induction xs) (auto split: if_splits)

text \<open>A recovery code that matches is marked: nothing else changes.\<close>

lemma consume_code_marks:
  assumes "consumeRecoveryCodeInTx L now v code db = Inr (used, db')"
  shows "if used then (\<exists>r \<in> set (db_recovery db). rc_UserID r = v \<and> rc_UsedAt r = None \<and> lb_bcrypt L (rc_CodeHash r) code
      \<and> db' = db\<lparr>db_recovery := map (\<lambda>x. if rc_ID x = rc_ID r \<and> rc_UsedAt x = None then x\<lparr>rc_UsedAt := Some now\<rparr> else x) (db_recovery db)\<rparr>)
    else db' = db"
proof (cases used)
  case True
  from assms True obtain r where
    f: "find (\<lambda>r. lb_bcrypt L (rc_CodeHash r) code) (sort_key recovery_key
          (filter (\<lambda>r. rc_UserID r = v \<and> rc_UsedAt r = None) (db_recovery db))) = Some r"
    and d: "db' = db\<lparr>db_recovery := map (\<lambda>x. if rc_ID x = rc_ID r \<and> rc_UsedAt x = None then x\<lparr>rc_UsedAt := Some now\<rparr> else x) (db_recovery db)\<rparr>"
    by (auto simp: consumeRecoveryCodeInTx_def split: option.splits if_splits)
  have "r \<in> set (sort_key recovery_key (filter (\<lambda>r. rc_UserID r = v \<and> rc_UsedAt r = None) (db_recovery db)))"
    "lb_bcrypt L (rc_CodeHash r) code"
    using find_hit[OF f] by auto
  then show ?thesis using True d by auto
qed (use assms in \<open>auto simp: consumeRecoveryCodeInTx_def split: option.splits if_splits\<close>)

lemma marking_adds_nothing:
  "no_more u db (db\<lparr>db_recovery := map (\<lambda>x. if P x then x\<lparr>rc_UsedAt := Some t\<rparr> else x) (db_recovery db)\<rparr>)"
  by (auto simp: no_more_def statuses_def unused_codes_def split: if_splits)

lemma verifyMFA_no_more: "verifyMFAInTx L up now user code db = Inr (x, db') \<Longrightarrow> no_more u db db'"
  using consume_code_marks
  by (fastforce simp: verifyMFAInTx_def bind_res_eq_Inr Let_def no_more_refl marking_adds_nothing split: if_splits)

text \<open>New codes of one user are not codes of another.\<close>

lemma insert_codes_other:
  "insert_codes now v cs db = Inr (x, db') \<Longrightarrow> u \<noteq> v \<Longrightarrow> unused_codes u db' = unused_codes u db \<and> db_users db' = db_users db"
proof (induction cs arbitrary: db)
  case (Cons c cs)
  obtain i h where c: "c = (i, h)" by (cases c)
  let ?d = "db\<lparr>db_recovery := db_recovery db @
             [\<lparr>rc_ID = i, rc_UserID = v, rc_CodeHash = h, rc_CreatedAt = now, rc_UsedAt = None\<rparr>]\<rparr>"
  have "insert_codes now v cs ?d = Inr (x, db')" using Cons.prems(1) by (auto simp: c split: if_splits)
  then have "unused_codes u db' = unused_codes u ?d \<and> db_users db' = db_users ?d" using Cons.IH Cons.prems(2) by blast
  moreover have "unused_codes u ?d = unused_codes u db" using Cons.prems(2) by (auto simp: unused_codes_def)
  ultimately show ?case by simp
qed simp

lemma replace_codes_other:
  assumes "replaceRecoveryCodesInTx now v cs d = Inr (x, d')" "u \<noteq> v" "no_more u db d"
  shows "no_more u db d'"
  using insert_codes_other[OF assms(1)[unfolded replaceRecoveryCodesInTx_def] assms(2)] no_more_statements(3)[OF assms(3), of v]
  by (simp add: no_more_def statuses_def)

lemma insert_codes_users: "insert_codes now v cs db = Inr (x, db') \<Longrightarrow> db_users db' = db_users db"
  by (induction now v cs db rule: insert_codes.induct) (auto split: if_splits)

fun may_activate :: "string \<Rightarrow> user_op \<Rightarrow> bool" where
  "may_activate u (DoSetStatus now ok a v st act) = (v = u \<and> st = UserStatusActive)"
| "may_activate u (DoResetAdmin now h ok n p) = True"
| "may_activate u (DoCreateUser now rnd h ok n p act) = (generateUUIDE rnd = Some u)"
| "may_activate u (DoInitialize now sec rnd h ok n p a ports) = (generateUUIDE rnd = Some u)"
| "may_activate u _ = False"

fun replaces_codes :: "string \<Rightarrow> user_op \<Rightarrow> bool" where
  "replaces_codes u (DoConfirmTOTP now cs ok v i c act) = (v = u)"
| "replaces_codes u (DoRegenerateCodes now cs ok v act) = (v = u)"
| "replaces_codes u _ = False"

fun changes_status :: "user_op \<Rightarrow> bool" where
  "changes_status (DoSetStatus now ok a v st act) = True"
| "changes_status (DoResetAdmin now h ok n p) = True"
| "changes_status (DoCreateUser now rnd h ok n p act) = True"
| "changes_status (DoInitialize now sec rnd h ok n p a ports) = True"
| "changes_status _ = False"

text \<open>The transactions that add nothing.\<close>

lemma rename_no_more: "no_more u db (snd (updateUserUsername now ok v n act db))"
proof (cases "normalizeUsername n")
  case (Inr name)
  have "no_more u db d" if "updateUserUsernameTx now v name act db = Inr (y, d)" for y d
    using that by (auto simp: updateUserUsernameTx_def bind_res_eq_Inr Let_def split: if_splits
      elim!: no_more_event intro!: no_more_statements no_more_update no_more_refl)
  then show ?thesis using Inr by (simp add: updateUserUsername_def no_more_tx)
qed (simp add: updateUserUsername_def no_more_refl)

lemma password_no_more: "no_more u db (snd (resetUserPassword L now h ok v p act db))"
proof -
  have "no_more u db d" if "resetUserPasswordTx now v h' act db = Inr (y, d)" for h' y d
    using that by (auto simp: resetUserPasswordTx_def bind_res_eq_Inr Let_def
      elim!: no_more_event intro!: no_more_statements no_more_update no_more_refl)
  then show ?thesis by (auto simp: resetUserPassword_def no_more_refl no_more_tx split: sum.splits)
qed

lemma rights_no_more: "no_more u db (snd (setUserAdmin now ok a v adm act db))"
  unfolding setUserAdmin_def
proof (rule no_more_tx)
  fix y d
  assume "setUserAdminTx now a v adm act db = Inr (y, d)"
  then obtain b where "d = db \<or> (\<exists>i. append_event act ((if adm then id else clear_admin_security v) (delete_sessions v
       (update_user v (\<lambda>x. x\<lparr>us_IsAdmin := adm, us_UpdatedAt := now\<rparr>) db))) = Inr (i, d))"
    by (rule admin_policy_cases)
  then show "no_more u db d"
    by (auto simp: no_more_refl elim!: no_more_event intro!: no_more_statements no_more_clear no_more_update no_more_refl)
qed

lemma session_no_more:
  assumes "createSessionForActiveUserTx i v ip ua now db = Inr (y, d)"
  shows "no_more u db d"
  using assms by (rule session_cases) (simp add: no_more_update no_more_statements no_more_refl)

lemma login_no_more: "no_more u db (snd (CreateSessionWithActivity now rnd ok v ip ua act db))"
proof -
  have "no_more u db d"
    if "bind_res (createSessionForActiveUserTx i v ip ua now db) (\<lambda>((session, cu), d1).
          bind_res (append_event act d1) (\<lambda>(a, d2). Inr ((session, a), d2))) = Inr (y, d)" for i y d
    using that by (auto simp: bind_res_eq_Inr elim!: no_more_event session_no_more)
  then show ?thesis by (auto simp: CreateSessionWithActivity_def no_more_refl intro!: no_more_tx split: option.splits)
qed

lemma plain_login_no_more: "no_more u db (snd (CreateSession now rnd ok v ip ua db))"
proof -
  have "no_more u db d"
    if "bind_res (createSessionForActiveUserTx i v ip ua now db) (\<lambda>((session, cu), d1). Inr (session, d1)) = Inr (y, d)" for i y d
    using that by (auto simp: bind_res_eq_Inr elim!: session_no_more)
  then show ?thesis by (auto simp: CreateSession_def no_more_refl intro!: no_more_tx split: option.splits)
qed

lemma logout_no_more: "no_more u db (snd (DeleteSessionWithActivity ok i act db))"
  unfolding DeleteSessionWithActivity_def
  by (rule no_more_tx) (auto elim!: no_more_event intro!: no_more_statements no_more_refl split: if_splits)

lemma revoke_no_more: "no_more u db (snd (DeleteSessionsByUserIDWithActivity ok v act db))"
  unfolding DeleteSessionsByUserIDWithActivity_def
  by (rule no_more_tx) (auto simp: bind_res_eq_Inr elim!: no_more_event intro!: no_more_statements no_more_refl)

lemma deletion_no_more: "no_more u db (snd (DeleteDisabledUser ok a v db))"
  unfolding DeleteDisabledUser_def
  by (rule no_more_tx) (auto elim!: delete_cases intro!: no_more_statements no_more_refl)

lemma challenge_no_more: "no_more u db (snd (StoreAuthChallenge now rnd ok v k j m ttl db))"
proof -
  have "no_more u db d" if "StoreAuthChallengeTx now c db = Inr (y, d)" for c y d
    using that by (rule StoreAuthChallengeTx_cases) (simp add: no_more_statements no_more_refl)
  then show ?thesis by (auto simp: StoreAuthChallenge_def no_more_refl intro!: no_more_tx split: option.splits)
qed

lemma consume_no_more: "no_more u db (snd (ConsumeAuthChallenge now ok i v k db))"
  by (auto simp: ConsumeAuthChallenge_def drop_challenge_def no_more_refl no_more_statements split: option.splits)

lemma verify_no_more: "no_more u db (snd (VerifyAdminSecurityCredentials L up now ok v p c db))"
  unfolding VerifyAdminSecurityCredentials_def
  by (rule no_more_tx) (auto simp: bind_res_eq_Inr no_more_refl dest: verifyMFA_no_more split: option.splits if_splits)

lemma admin_name_no_more: "no_more u db (snd (UpdateAdminUsernameWithActivity now ok v n act db))"
  unfolding UpdateAdminUsernameWithActivity_def Let_def
  by (auto simp: no_more_refl elim!: no_more_event intro!: no_more_tx no_more_statements no_more_update split: option.splits if_splits)

lemma admin_password_no_more: "no_more u db (snd (UpdateAdminPasswordWithActivity L now h ok v c n act db))"
  unfolding UpdateAdminPasswordWithActivity_def
  by (auto simp: no_more_refl elim!: no_more_event intro!: no_more_tx no_more_statements no_more_update split: option.splits if_splits)

lemma totp_off_no_more: "no_more u db (snd (DisableTOTPWithActivity now ok v act db))"
  unfolding DisableTOTPWithActivity_def
  by (rule no_more_simple) (auto intro!: no_more_statements no_more_update no_more_refl)

lemma regenerate_no_more:
  assumes "u \<noteq> v"
  shows "no_more u db (snd (RegenerateRecoveryCodesWithActivity now cs ok v act db))"
proof -
  have "no_more u db d"
    if "replaceRecoveryCodesInTx now v c db = Inr (x, d1)" "append_event act (revoke_logins v d1) = Inr (y, d)" for c x d1 y d
    using no_more_event[OF that(2) no_more_statements(5)[OF replace_codes_other[OF that(1) assms no_more_refl]]] .
  then show ?thesis
    by (auto simp: RegenerateRecoveryCodesWithActivity_def bind_res_eq_Inr no_more_refl intro!: no_more_tx split: option.splits)
qed

lemma confirm_no_more:
  assumes "u \<noteq> v"
  shows "no_more u db (snd (ConfirmTOTPSetupWithActivity L up secret now cs ok v i c act db))"
proof -
  have "no_more u db d"
    if r: "replaceRecoveryCodesInTx now v cs' (update_user v (\<lambda>x. x\<lparr>us_TOTPEnabled := True, us_TOTPSecret := sec,
           us_UpdatedAt := now\<rparr>) (db\<lparr>db_challenges := xs\<rparr>)) = Inr (x, d1)"
      and e: "append_event act (revoke_logins v d1) = Inr (y, d)" for cs' sec xs x d1 y d
  proof -
    have "no_more u db (update_user v (\<lambda>x. x\<lparr>us_TOTPEnabled := True, us_TOTPSecret := sec,
           us_UpdatedAt := now\<rparr>) (db\<lparr>db_challenges := xs\<rparr>))"
      by (intro no_more_update no_more_statements no_more_refl) simp_all
    from no_more_event[OF e no_more_statements(5)[OF replace_codes_other[OF r assms this]]] show ?thesis .
  qed
  then show ?thesis
    by (auto simp: ConfirmTOTPSetupWithActivity_def bind_res_eq_Inr Let_def no_more_refl intro!: no_more_tx
      split: option.splits sum.splits if_splits)
qed

lemma passkey_no_more:
  "no_more u db (snd (AddPasskeyWithActivity now rnd ok v n ci cj rp o' act db))"
  "no_more u db (snd (UpdatePasskeyNameWithActivity ok v i n act db))"
  "no_more u db (snd (DeletePasskeyWithActivity ok v i act db))"
  "no_more u db (snd (TouchPasskey now ok v ci cj db))"
  unfolding AddPasskeyWithActivity_def UpdatePasskeyNameWithActivity_def DeletePasskeyWithActivity_def TouchPasskey_def Let_def
  by (auto simp: bind_res_eq_Inr no_more_refl elim!: no_more_event
    intro!: no_more_tx no_more_simple no_more_statements split: option.splits if_splits)

lemmas tx_no_more = rename_no_more password_no_more rights_no_more login_no_more plain_login_no_more logout_no_more
  revoke_no_more deletion_no_more challenge_no_more consume_no_more verify_no_more admin_name_no_more
  admin_password_no_more totp_off_no_more regenerate_no_more confirm_no_more passkey_no_more

lemma exec_no_more:
  assumes "\<not> changes_status x" "\<not> replaces_codes u x"
  shows "no_more u db (exec_user_op L up secret x db)"
  using assms
  by (cases x) (auto simp: tx_no_more UpdateAdminLoginTime_def DeleteSession_def DeleteSessionsByUserID_def
    CleanExpiredSessions_def intro!: no_more_tx no_more_statements no_more_update no_more_refl)

definition locked :: "string \<Rightarrow> user_db \<Rightarrow> bool" where
  "locked u db \<longleftrightarrow> (u, UserStatusActive) \<notin> statuses db"

lemma locked_tx: "locked u db \<Longrightarrow> (\<And>y d. body db = Inr (y, d) \<Longrightarrow> locked u d) \<Longrightarrow> locked u (snd (in_tx ok body db))"
  by (auto simp: in_tx_def split: sum.splits prod.splits)

lemma status_recovery_tx:
  assumes "setUserStatusTx now a v st act db = Inr (y, d)"
  shows "statuses d \<subseteq> statuses db \<union> {(v, st)} \<and> db_recovery d = db_recovery db"
proof -
  let ?e = "update_user v (\<lambda>x. x\<lparr>us_Status := st, us_UpdatedAt := now\<rparr>) db"
  have rv: "db_users (status_revoke st v e) = db_users e \<and> db_recovery (status_revoke st v e) = db_recovery e" for e
    by (simp add: status_revoke_def revokeUserLoginStateTx_def statement_defs)
  have "statuses ?e \<subseteq> statuses db \<union> {(v, st)}"
    by (auto simp: statuses_def users_after_update)
  moreover from assms obtain b where "d = status_revoke st v db \<or> (\<exists>i. append_event act (status_revoke st v ?e) = Inr (i, d))"
    by (rule status_cases) auto
  then have "(db_users d = db_users db \<or> db_users d = db_users ?e) \<and> db_recovery d = db_recovery db"
    using rv append_event_fields by fastforce
  then have "(statuses d = statuses db \<or> statuses d = statuses ?e) \<and> db_recovery d = db_recovery db"
    by (auto simp only: statuses_def)
  ultimately show ?thesis by blast
qed

lemma create_statuses:
  assumes "generateUUIDE rnd \<noteq> Some u" "locked u db"
  shows "locked u (snd (createUser L now rnd h ok n p act db))"
proof -
  have "locked u d" if c: "createUserTx x act db = Inr (y, d)" and i: "us_ID x \<noteq> u" for x y d
  proof -
    obtain j where "append_event act (db\<lparr>db_users := db_users db @ [x]\<rparr>) = Inr (j, d)"
      using c by (auto simp: createUserTx_def bind_res_eq_Inr split: if_splits)
    from append_event_fields(1)[OF this] show ?thesis
      using assms(2) i by (auto simp: locked_def statuses_def)
  qed
  then show ?thesis
    using assms by (auto simp: createUser_def bind_res_def from_option_def check_that_def intro!: locked_tx
      split: sum.splits option.splits if_splits)
qed

lemma create_recovery: "db_recovery (snd (createUser L now rnd h ok n p act db)) = db_recovery db"
  by (auto simp: createUser_def in_tx_def createUserTx_def bind_res_def from_option_def check_that_def append_event_def
    split: sum.splits option.splits if_splits)

lemma initialize_statuses:
  assumes "generateUUIDE rnd \<noteq> Some u" "locked u db"
  shows "locked u (snd (Initialize L now sec rnd h ok n p a ports db))"
proof -
  have "locked u d" if "InitializeTx x s a ports db = Inr (y, d)" and "us_ID x \<noteq> u" for x s y d
    using that by (auto simp: InitializeTx_def replaceAllowedPorts_def locked_def statuses_def Let_def split: if_splits)
  then show ?thesis
    using assms by (auto simp: Initialize_def bind_res_def from_option_def check_that_def intro!: locked_tx
      split: sum.splits option.splits if_splits)
qed

lemma initialize_recovery:
  "set (db_recovery (snd (Initialize L now sec rnd h ok n p a ports db))) \<subseteq> set (db_recovery db)"
  by (auto simp: Initialize_def in_tx_def InitializeTx_def replaceAllowedPorts_def bind_res_def from_option_def
    check_that_def Let_def split: sum.splits option.splits if_splits)

lemma reset_recovery: "set (db_recovery (snd (ResetAdminUser L now h ok n p db))) \<subseteq> set (db_recovery db)"
  by (auto simp: ResetAdminUser_def in_tx_def ResetAdminUserTx_def statement_defs Let_def
    split: sum.splits option.splits if_splits list.splits)

lemma exec_locked:
  assumes l: "locked u db" and n: "\<not> may_activate u x"
  shows "locked u (exec_user_op L up secret x db)"
proof (cases "changes_status x")
  case False
  obtain w where w: "\<not> replaces_codes w x"
  proof (cases x)
    case (DoConfirmTOTP a b c v d e f)
    then show ?thesis using that[of "CHR ''x'' # v"] by simp
  next
    case (DoRegenerateCodes a b c v d)
    then show ?thesis using that[of "CHR ''x'' # v"] by simp
  qed (use that in auto)
  show ?thesis using exec_no_more[OF False w, of db L up secret] l by (auto simp: no_more_def locked_def)
next
  case True
  then show ?thesis
  proof (cases x)
    case (DoSetStatus now ok a v st act)
    have "locked u d" if "setUserStatusTx now a v st act db = Inr (y, d)" for y d
      using status_recovery_tx[OF that] l n DoSetStatus by (auto simp: locked_def)
    then show ?thesis using l DoSetStatus by (auto simp: setUserStatus_def intro!: locked_tx)
  qed (use l n create_statuses initialize_statuses in auto)
qed

lemma exec_unused:
  assumes "\<not> replaces_codes u x"
  shows "unused_codes u (exec_user_op L up secret x db) \<subseteq> unused_codes u db"
proof (cases "changes_status x")
  case False
  then show ?thesis using exec_no_more[OF False assms] by (simp add: no_more_def)
next
  case True
  then show ?thesis
  proof (cases x)
    case (DoSetStatus now ok a v st act)
    have "db_recovery (snd (setUserStatus now ok a v st act db)) = db_recovery db"
      using status_recovery_tx by (auto simp: setUserStatus_def in_tx_def split: sum.splits)
    then show ?thesis using DoSetStatus by (simp add: unused_codes_def)
  next
    case (DoResetAdmin now h ok n p)
    then show ?thesis using reset_recovery[of L now h ok n p db] by (auto simp: unused_codes_def)
  next
    case (DoInitialize now sec rnd h ok n p a ports)
    then show ?thesis using initialize_recovery[of L now sec rnd h ok n p a ports db] by (auto simp: unused_codes_def)
  next
    case (DoCreateUser now rnd h ok n p act)
    then show ?thesis by (simp add: unused_codes_def create_recovery)
  qed auto
qed

lemma run_locked:
  "locked u db \<Longrightarrow> list_all (\<lambda>x. \<not> may_activate u x) ops \<Longrightarrow> locked u (run_user_ops L up secret ops db)"
  by (induction ops arbitrary: db) (simp_all add: exec_locked)

lemma run_unused:
  "list_all (\<lambda>x. \<not> replaces_codes u x) ops \<Longrightarrow> unused_codes u (run_user_ops L up secret ops db) \<subseteq> unused_codes u db"
proof (induction ops arbitrary: db)
  case (Cons x xs)
  have "unused_codes u (run_user_ops L up secret xs (exec_user_op L up secret x db)) \<subseteq> unused_codes u (exec_user_op L up secret x db)"
    using Cons by simp
  also have "\<dots> \<subseteq> unused_codes u db" using Cons.prems by (intro exec_unused) simp
  finally show ?case by simp
qed simp

end
