(* ===== verification/Account_Security.thy ===== *)
theory Account_Security
  imports User_Runs
begin

text \<open>
  The properties of the accounts: what holds in every state the operations reach, that a
  disabled user stays out, that the deletion of a user is complete and what its preview
  announced, and that a recovery code is accepted once.
\<close>

section \<open>Consequences of the invariant\<close>

lemma reachable_account_inv: "account_inv (run_user_ops L up secret ops empty_user_db)"
  by (rule run_user_ops_keeps[OF empty_user_db_inv])

lemma locked_not_active: "locked u db \<Longrightarrow> x \<in> set (db_users db) \<Longrightarrow> us_ID x = u \<Longrightarrow> us_Status x \<noteq> UserStatusActive"
  by (force simp: locked_def statuses_def)

lemma lockedI:
  assumes "\<And>x. x \<in> set (db_users db) \<Longrightarrow> us_ID x = u \<Longrightarrow> us_Status x \<noteq> UserStatusActive"
  shows "locked u db"
  unfolding locked_def statuses_def
proof
  assume "(u, UserStatusActive) \<in> (\<lambda>x. (us_ID x, us_Status x)) ` set (db_users db)"
  then obtain x where "x \<in> set (db_users db)" "us_ID x = u" "us_Status x = UserStatusActive" by auto
  then show False using assms by blast
qed

lemma locked_no_session:
  assumes "account_inv db" "locked u db"
  shows "\<forall>s \<in> set (db_sessions db). se_UserID s \<noteq> u"
  using assms locked_not_active by (fastforce simp: account_inv_def logins_ok_def)

lemma locked_no_GetSession: "locked u db \<Longrightarrow> GetSession t sid db = Some s \<Longrightarrow> se_UserID s \<noteq> u"
  using locked_not_active
  by (fastforce simp: GetSession_def session_row.defs dest!: find_hit split: option.splits if_splits)

lemma locked_no_login: "locked u db \<Longrightarrow> ValidateUserPassword L n p db = Inr x \<Longrightarrow> us_ID x \<noteq> u"
  using locked_not_active
  by (fastforce simp: ValidateUserPassword_def dest!: find_hit split: option.splits if_splits)

lemma locked_not_operational: "locked u db \<Longrightarrow> IsUserOperational u db \<noteq> Inr True"
  by (cases "find (\<lambda>x. us_ID x = u) (db_users db)") (auto simp: IsUserOperational_def dest: find_hit locked_not_active)

lemma legacy_owner_found:
  assumes "u \<in> set (db_users db)" "us_IsAdmin u" "us_Status u = UserStatusActive"
  shows "\<not> isl (legacyOwnerUserIDInTx db)"
proof -
  let ?l = "sort_key created_key (filter (\<lambda>u. us_IsAdmin u \<and> us_Status u = UserStatusActive) (db_users db))"
  have "u \<in> set ?l" using assms by simp
  then show ?thesis by (cases ?l) (simp_all add: legacyOwnerUserIDInTx_def)
qed

lemma locked_no_CreateSession:
  assumes "locked u db"
  shows "\<exists>e. CreateSession t rnd ok u ip ua db = (Inl e, db)"
proof -
  have "\<exists>e. createSessionForActiveUserTx i u ip ua t db = Inl e" for i
    using assms locked_not_active getUserInTx_Inr
    by (cases "getUserInTx u db") (fastforce simp: createSessionForActiveUserTx_def bind_res_def)+
  note tx = this
  show ?thesis
  proof (cases "generateUUIDE rnd")
    case (Some i)
    obtain e where "createSessionForActiveUserTx i u ip ua t db = Inl e" using tx by blast
    then show ?thesis using Some by (simp add: CreateSession_def in_tx_def)
  qed (simp add: CreateSession_def)
qed

lemma disable_locks:
  assumes inv: "account_inv db" and r: "setUserStatus now ok actor u UserStatusDisabled act db = (Inr r, db1)"
  shows "locked u db1" "actor \<noteq> u"
proof -
  have ne: "UserStatusDisabled \<noteq> UserStatusActive" by (simp add: UserStatusActive_def UserStatusDisabled_def)
  have t: "setUserStatusTx now actor u UserStatusDisabled act db = Inr (r, db1)"
    using r by (auto simp: setUserStatus_def in_tx_def split: sum.splits if_splits prod.splits)
  from t obtain b where b: "getUserInTx u db = Inr b"
    and ok: "validateUserLifecycleMutation (listUsersInTx db) actor b (b\<lparr>us_Status := UserStatusDisabled\<rparr>) False = None"
    and ap: "(us_Status b = UserStatusDisabled \<and> db1 = status_revoke UserStatusDisabled u db) \<or>
      (\<exists>i. append_event act (status_revoke UserStatusDisabled u
         (update_user u (\<lambda>x. x\<lparr>us_Status := UserStatusDisabled, us_UpdatedAt := now\<rparr>) db)) = Inr (i, db1))"
    by (rule status_cases)
  note bu = getUserInTx_Inr[OF b]
  show "actor \<noteq> u" using policy_not_self[OF ok] bu(2) by simp
  have only: "x = b" if "x \<in> set (db_users db)" "us_ID x = u" for x
    using same_id_same_user[OF _ that(1) bu(1)] that(2) bu(2) inv by (simp add: account_inv_def)
  show "locked u db1"
    using ap
  proof
    assume d: "us_Status b = UserStatusDisabled \<and> db1 = status_revoke UserStatusDisabled u db"
    then have "db_users db1 = db_users db" by (simp add: status_revoke_def)
    moreover have "us_Status x \<noteq> UserStatusActive" if "x \<in> set (db_users db)" "us_ID x = u" for x
      using only[OF that] d ne by simp
    ultimately show ?thesis by (intro lockedI) simp
  next
    assume "\<exists>i. append_event act (status_revoke UserStatusDisabled u
         (update_user u (\<lambda>x. x\<lparr>us_Status := UserStatusDisabled, us_UpdatedAt := now\<rparr>) db)) = Inr (i, db1)"
    then obtain i where i: "append_event act (status_revoke UserStatusDisabled u
         (update_user u (\<lambda>x. x\<lparr>us_Status := UserStatusDisabled, us_UpdatedAt := now\<rparr>) db)) = Inr (i, db1)" ..
    have "db_users db1 = db_users (update_user u (\<lambda>x. x\<lparr>us_Status := UserStatusDisabled, us_UpdatedAt := now\<rparr>) db)"
      using append_event_fields(1)[OF i] by (simp add: status_revoke_def)
    then have users: "set (db_users db1) = (\<lambda>x. if us_ID x = u then x\<lparr>us_Status := UserStatusDisabled, us_UpdatedAt := now\<rparr> else x) ` set (db_users db)"
      by (simp only: users_after_update set_map)
    show ?thesis
    proof (rule lockedI)
      fix x assume "x \<in> set (db_users db1)" "us_ID x = u"
      then obtain y where "x = (if us_ID y = u then y\<lparr>us_Status := UserStatusDisabled, us_UpdatedAt := now\<rparr> else y)" "us_ID x = u"
        unfolding users by blast
      then show "us_Status x \<noteq> UserStatusActive" using ne by (cases "us_ID y = u") simp_all
    qed
  qed
qed

section \<open>Properties\<close>

text \<open>
  C3 (invariant): In every state that operations on accounts reach, users have different
  identifiers and different names, an initialised server has an active administrator (so that
  the owner of legacy resources is determined), every
  login session belongs to a user that exists and is active, no user has two sessions, and
  challenges, recovery codes and passkeys belong to users that exist.
\<close>

theorem reachable_accounts_consistent:
  assumes "db = run_user_ops L up secret ops empty_user_db"
  shows "distinct (map us_ID (db_users db)) \<and> distinct (map us_Username (db_users db))
    \<and> (db_initialized db \<longrightarrow> (\<exists>u \<in> set (db_users db). us_IsAdmin u \<and> isOperationalUser u))
    \<and> (db_initialized db \<longrightarrow> \<not> isl (legacyOwnerUserIDInTx db))
    \<and> distinct (map se_UserID (db_sessions db))
    \<and> (\<forall>s \<in> set (db_sessions db). \<exists>u \<in> set (db_users db). us_ID u = se_UserID s \<and> us_Status u = UserStatusActive)
    \<and> (\<forall>c \<in> set (db_challenges db). \<forall>v. ch_UserID c = Some v \<longrightarrow> has_user db v)
    \<and> (\<forall>r \<in> set (db_recovery db). has_user db (rc_UserID r))
    \<and> (\<forall>p \<in> set (db_passkeys db). has_user db (pk_UserID p))"
proof -
  have inv: "account_inv db" using reachable_account_inv assms by simp
  have "\<forall>c \<in> set (db_challenges db). \<forall>v. ch_UserID c = Some v \<longrightarrow> has_user db v"
    using inv by (fastforce simp: account_inv_def factors_ok_def has_user_def)
  moreover have "\<not> isl (legacyOwnerUserIDInTx db)" if "db_initialized db"
    using inv that legacy_owner_found
    by (auto simp: account_inv_def users_ok_def operational_admin_def isOperationalUser_def)
  ultimately show ?thesis
    using inv by (simp add: account_inv_def users_ok_def logins_ok_def factors_ok_def has_user_def operational_admin_def)
qed

text \<open>
  C4 (safety): Once an administrator has disabled a user, whatever operations follow, until
  one enables it again or resets the administrator (or draws its identifier for a new user):
  the user is not operational and has no session, no session identifier is answered with a session of it, its
  password is not accepted and no session can be created for it. It was not disabled by
  itself.
\<close>

theorem disabled_user_locked_out:
  assumes reach: "db = run_user_ops L up secret earlier empty_user_db"
    and dis: "setUserStatus now ok actor u UserStatusDisabled act db = (Inr r, db1)"
    and quiet: "list_all (\<lambda>x. \<not> may_activate u x) later"
    and run: "db2 = run_user_ops L up secret later db1"
  shows "actor \<noteq> u \<and> (\<forall>s \<in> set (db_sessions db2). se_UserID s \<noteq> u)
    \<and> (\<forall>t sid s. GetSession t sid db2 = Some s \<longrightarrow> se_UserID s \<noteq> u)
    \<and> (\<forall>n p x. ValidateUserPassword L n p db2 = Inr x \<longrightarrow> us_ID x \<noteq> u)
    \<and> IsUserOperational u db2 \<noteq> Inr True
    \<and> (\<forall>t rnd k ip ua. \<exists>e. CreateSession t rnd k u ip ua db2 = (Inl e, db2))"
proof -
  have inv: "account_inv db" using reachable_account_inv reach by simp
  have "account_inv db1" using setUserStatus_keeps[OF inv, of now ok actor u UserStatusDisabled act] dis by simp
  then have inv2: "account_inv db2" using run run_user_ops_keeps by simp
  have l2: "locked u db2" using run_locked[OF disable_locks(1)[OF inv dis] quiet] run by simp
  show ?thesis
    using disable_locks(2)[OF inv dis] locked_no_session[OF inv2 l2] locked_no_GetSession[OF l2]
      locked_no_login[OF l2] locked_not_operational[OF l2] locked_no_CreateSession[OF l2] by blast
qed

section \<open>Deletion of a user\<close>

text \<open>
  The order of the statements matters: locks, tokens and events are found through tunnels and
  clients that later statements delete. What is left, in terms of the tables before.
\<close>

lemma clear_creator_owned:
  "tu_ID ` {t \<in> set (db_tunnels (clear_creator u db)). tu_OwnerUserID t = Some u}
   = tu_ID ` {t \<in> set (db_tunnels db). tu_OwnerUserID t = Some u}" (is "?l = ?r")
proof
  show "?l \<subseteq> ?r" by (auto simp: clear_creator_def split: if_splits)
  show "?r \<subseteq> ?l" by (force simp: clear_creator_def)
qed

lemma deletion_predicate_clear:
  "userActivityDeletionPredicate u (clear_creator u db) = userActivityDeletionPredicate u db"
  by (rule ext) (simp add: userActivityDeletionPredicate_def clear_creator_owned, simp add: clear_creator_def)

lemma deletion_tables:
  "db_apiKeys (delete_user_rows u db) = filter (\<lambda>k. ak_OwnerUserID k \<noteq> Some u) (db_apiKeys db)"
  "db_clients (delete_user_rows u db) = filter (\<lambda>c. cl_OwnerUserID c \<noteq> Some u) (db_clients db)"
  "db_tunnels (delete_user_rows u db) = filter (\<lambda>t. tu_OwnerUserID t \<noteq> Some u) (db_tunnels (clear_creator u db))"
  "db_buckets (delete_user_rows u db) = filter (\<lambda>b. bk_OwnerUserID b \<noteq> Some u) (db_buckets db)"
  "db_locks (delete_user_rows u db) = filter (\<lambda>k.
     lk_TunnelID k \<notin> tu_ID ` {t \<in> set (db_tunnels db). tu_OwnerUserID t = Some u}) (db_locks db)"
  "db_events (delete_user_rows u db) = filter (\<lambda>e. \<not> userActivityDeletionPredicate u db e) (db_events db)"
  using clear_creator_owned[of u db] deletion_predicate_clear[of u db]
  by (simp_all add: delete_user_rows_def statement_defs delete_events_def delete_buckets_def delete_locks_def
    delete_owned_tunnels_def delete_tokens_def delete_clients_def delete_apiKeys_def delete_user_row_def Let_def)
    (simp_all add: clear_creator_def)

lemma deletion_tokens:
  "k \<in> set (db_tokens (delete_user_rows u db)) \<Longrightarrow> c \<in> set (db_clients db) \<Longrightarrow> cl_OwnerUserID c = Some u \<Longrightarrow>
     tk_ClientID k \<noteq> cl_ID c \<and> (tk_InstallID k = [] \<or> tk_InstallID k \<noteq> cl_InstallID c)"
  by (auto simp: delete_user_rows_def statement_defs deletion_defs Let_def)

lemma split_count: "length xs = length (filter (\<lambda>x. \<not> P x) xs) + length (filter P xs)"
  using sum_length_filter_compl[of P xs] by simp

lemma clear_creator_tunnels:
  "length (filter (\<lambda>t. tu_OwnerUserID t \<noteq> Some u) (db_tunnels (clear_creator u db)))
   = length (filter (\<lambda>t. tu_OwnerUserID t \<noteq> Some u) (db_tunnels db))"
  by (simp add: clear_creator_def filter_map comp_def if_distrib cong: if_cong)


section \<open>Recovery codes\<close>

lemma count_unused:
  assumes "account_inv db"
  shows "CountUnusedRecoveryCodes u db = card (unused_codes u db)"
proof -
  have "distinct (map rc_ID (filter (\<lambda>r. rc_UserID r = u \<and> rc_UsedAt r = None) (db_recovery db)))"
    using assms by (auto simp: account_inv_def factors_ok_def distinct_map_filter)
  from distinct_card[OF this] show ?thesis
    by (simp add: CountUnusedRecoveryCodes_def unused_codes_def)
qed

lemma verify_used_code:
  assumes "VerifyAdminSecurityCredentials L up now ok u pw code db = (Inr (user, True), db1)"
  obtains r where "r \<in> set (db_recovery db)" "rc_UserID r = u" "rc_UsedAt r = None"
    "lb_bcrypt L (rc_CodeHash r) (normalizeMFACode up code)" "lb_bcrypt L (us_PasswordHash user) pw"
    "unused_codes u db1 \<subseteq> unused_codes u db - {rc_ID r}"
proof -
  from assms obtain user' where f: "find (\<lambda>x. us_ID x = u \<and> us_IsAdmin x) (db_users db) = Some user'"
    and v: "verifyMFAInTx L up now user' code db = Inr ((True, True), db1)"
    and pw: "user = user'" "lb_bcrypt L (us_PasswordHash user) pw"
    by (auto simp: VerifyAdminSecurityCredentials_def in_tx_def bind_res_def
      split: option.splits if_splits sum.splits prod.splits)
  have i: "us_ID user' = u" using find_hit[OF f] by simp
  have c: "consumeRecoveryCodeInTx L now u (normalizeMFACode up code) db = Inr (True, db1)"
    using v i by (auto simp: verifyMFAInTx_def bind_res_eq_Inr Let_def split: if_splits)
  obtain r where r: "r \<in> set (db_recovery db)" "rc_UserID r = u" "rc_UsedAt r = None"
    "lb_bcrypt L (rc_CodeHash r) (normalizeMFACode up code)"
    and d: "db1 = db\<lparr>db_recovery := map (\<lambda>x. if rc_ID x = rc_ID r \<and> rc_UsedAt x = None then x\<lparr>rc_UsedAt := Some now\<rparr> else x) (db_recovery db)\<rparr>"
    using consume_code_marks[OF c] by auto
  have "unused_codes u db1 \<subseteq> unused_codes u db - {rc_ID r}"
    unfolding d by (auto simp: unused_codes_def split: if_splits)
  with r pw(2) show thesis by (rule that)
qed


section \<open>Expiry on texts\<close>

text \<open>
  The cleanup compares texts whose fraction has lost its trailing zeros, so within one second
  the order of the texts is not that of the instants. The error stays below a second.
\<close>

lemma formatTime_le_bounds:
  assumes "formatTime a \<le> formatTime b"
  shows "a < b + second"
proof -
  have "a div second \<le> b div second" using assms by (auto simp: formatTime_def less_eq_prod_def)
  moreover have "a mod second < second" "0 \<le> b mod second" by simp_all
  ultimately show ?thesis using mult_div_mod_eq[of second a] mult_div_mod_eq[of second b] by linarith
qed

lemma formatTime_le_total: "a + second \<le> b \<Longrightarrow> formatTime a \<le> formatTime b"
proof -
  assume "a + second \<le> b"
  then have "(a + second) div second \<le> b div second" by (intro zdiv_mono1) simp_all
  then have "a div second < b div second" by simp
  then show ?thesis by (simp add: formatTime_def less_eq_prod_def)
qed

lemma CleanExpiredSessions_within_a_second:
  assumes "CleanExpiredSessions now ok db = (Inr (), db')"
  shows "\<forall>s \<in> set (db_sessions db). now + second \<le> se_ExpiresAt s \<longrightarrow> s \<in> set (db_sessions db')"
    and "\<forall>s \<in> set (db_sessions db'). now < se_ExpiresAt s + second"
proof -
  have d: "db_sessions db' = filter (\<lambda>s. \<not> formatTime (se_ExpiresAt s) \<le> formatTime now) (db_sessions db)"
    using assms by (auto simp: CleanExpiredSessions_def in_tx_def split: if_splits)
  show "\<forall>s \<in> set (db_sessions db). now + second \<le> se_ExpiresAt s \<longrightarrow> s \<in> set (db_sessions db')"
    unfolding d using formatTime_le_bounds by fastforce
  show "\<forall>s \<in> set (db_sessions db'). now < se_ExpiresAt s + second"
    unfolding d using formatTime_le_total by (force simp: not_le[symmetric])
qed

text \<open>A session that expires at 1.51 s is deleted at 1.5 s, when it is still accepted.\<close>

lemma CleanExpiredSessions_removes_live:
  "formatTime 1510000000 \<le> formatTime 1500000000 \<and> (1500000000 :: int) < 1510000000"
  by code_simp

section \<open>Concrete runs\<close>

text \<open>
  A server is initialised, a second user \<open>bob\<close> is created and logs in; the administrator
  enables TOTP and gets two recovery codes. Hashing is a prefix in these runs.
\<close>

definition demo_libs :: libs where
  "demo_libs = \<lparr>lb_letter = (\<lambda>_. False), lb_digit = (\<lambda>_. False),
     lb_bcrypt = (\<lambda>h p. h = CHR ''#'' # p), lb_totp = (\<lambda>c s. c = s)\<rparr>"

definition demo_admin :: string where
  "demo_admin = the (generateUUIDE (Some (replicate 16 0)))"

definition demo_bob :: string where
  "demo_bob = the (generateUUIDE (Some (replicate 16 1)))"

definition demo_setup :: "user_op list" where
  "demo_setup =
     [DoInitialize 0 (Some (replicate 32 7)) (Some (replicate 16 0)) (Some ''#secret12'') True ''root'' ''secret12'' ''addr'' [(1000, 2000)],
      DoCreateUser second (Some (replicate 16 1)) (Some ''#passw0rd'') True ''bob'' ''passw0rd'' None,
      DoLogin (2 * second) (Some (replicate 16 2)) True demo_bob ''ip'' ''ua'' None]"

definition demo_totp :: "user_op list" where
  "demo_totp =
     [DoStoreChallenge (3 * second) (Some (replicate 16 3)) True demo_admin ''totp_setup'' ''S'' ''{}'' 0,
      DoConfirmTOTP (4 * second) (Some [(''1'', ''#AA''), (''2'', ''#BB'')]) True demo_admin
        (the (generateUUIDE (Some (replicate 16 3)))) ''s'' None]"

definition demo_later :: "user_op list" where
  "demo_later =
     [DoLogin (6 * second) (Some (replicate 16 4)) True demo_bob ''ip'' ''ua'' None,
      DoResetPassword (7 * second) (Some ''#passw0rd2'') True demo_bob ''passw0rd2'' None,
      DoSetStatus (8 * second) True demo_bob demo_admin UserStatusActive None,
      DoLogin (9 * second) (Some (replicate 16 5)) True demo_bob ''ip'' ''ua'' None]"

definition demo_db :: user_db where
  "demo_db = run_user_ops demo_libs id Some demo_setup empty_user_db"

definition demo_totp_db :: user_db where
  "demo_totp_db = run_user_ops demo_libs id Some (demo_setup @ demo_totp) empty_user_db"

lemma demo_db_initialized: "db_initialized demo_db"
  by code_simp

lemma demo_db_session: "length (db_sessions demo_db) = 1"
  by code_simp

lemma demo_disable_succeeds: "\<not> isl (fst (setUserStatus (5 * second) True demo_admin demo_bob UserStatusDisabled None demo_db))"
  by code_simp

lemma demo_later_quiet: "list_all (\<lambda>x. \<not> may_activate demo_bob x) demo_later"
  by code_simp

definition used_recovery :: "account_error + User \<times> bool \<Rightarrow> bool" where
  "used_recovery r = (case r of Inl _ \<Rightarrow> False | Inr (_, b) \<Rightarrow> b)"

lemma demo_verify: "used_recovery (fst (VerifyAdminSecurityCredentials demo_libs id (5 * second) True demo_admin ''secret12'' '' bb'' demo_totp_db))"
  by code_simp

lemma demo_codes_quiet: "list_all (\<lambda>x. \<not> replaces_codes demo_admin x) demo_later"
  by code_simp

text \<open>A disabled user with a tunnel, a lock, a client with a token, and an event about it.\<close>

definition demo_user :: "string \<Rightarrow> bool \<Rightarrow> string \<Rightarrow> User" where
  "demo_user i adm st = \<lparr>us_ID = i, us_Username = i, us_PasswordHash = [], us_IsAdmin = adm, us_Status = st, us_CreatedAt = 0,
     us_UpdatedAt = 0, us_LastLogin = None, us_TOTPEnabled = False, us_TOTPSecret = []\<rparr>"

definition demo_rows :: user_db where
  "demo_rows = empty_user_db\<lparr>db_initialized := True,
     db_users := [demo_user ''a'' True UserStatusActive, demo_user ''b'' False UserStatusDisabled],
     db_tunnels := [\<lparr>tu_ID = ''t'', tu_OwnerUserID = Some ''b'', tu_CreatedByUserID = Some ''b''\<rparr>,
                    \<lparr>tu_ID = ''s'', tu_OwnerUserID = Some ''a'', tu_CreatedByUserID = Some ''b''\<rparr>],
     db_locks := [\<lparr>lk_ResourceKey = ''r'', lk_TunnelID = ''t''\<rparr>],
     db_clients := [\<lparr>cl_ID = ''c'', cl_OwnerUserID = Some ''b'', cl_InstallID = ''i''\<rparr>],
     db_tokens := [\<lparr>tk_ID = ''k'', tk_ClientID = ''c'', tk_InstallID = ''i''\<rparr>],
     db_events := [\<lparr>ev_ID = 1, ev_ScopeUserID = Some ''a'', ev_SubjectUserID = None, ev_ActorType = ''client'', ev_ActorID = ''c''\<rparr>,
                   \<lparr>ev_ID = 2, ev_ScopeUserID = Some ''a'', ev_SubjectUserID = None, ev_ActorType = ''admin'', ev_ActorID = ''a''\<rparr>]\<rparr>"

lemma demo_delete_succeeds: "\<not> isl (fst (DeleteDisabledUser True ''a'' ''b'' demo_rows))"
  by code_simp

lemma demo_delete_counts: "length (db_events (snd (DeleteDisabledUser True ''a'' ''b'' demo_rows))) = 1"
  by code_simp

section \<open>The properties on the concrete runs\<close>

lemma not_in_image: "\<forall>x \<in> A. f x \<noteq> y \<Longrightarrow> y \<notin> f ` A"
  by auto

theorem reachable_accounts_consistent_witness:
  "(\<exists>u \<in> set (db_users demo_db). us_IsAdmin u \<and> isOperationalUser u)
   \<and> (\<exists>s \<in> set (db_sessions demo_db). \<exists>u \<in> set (db_users demo_db). us_ID u = se_UserID s \<and> us_Status u = UserStatusActive)"
proof -
  obtain s where "s \<in> set (db_sessions demo_db)" using demo_db_session by (cases "db_sessions demo_db") auto
  then show ?thesis using reachable_accounts_consistent[OF demo_db_def] demo_db_initialized by blast
qed

theorem disabled_user_locked_out_witness:
  "\<exists>r db1. setUserStatus (5 * second) True demo_admin demo_bob UserStatusDisabled None demo_db = (Inr r, db1)
     \<and> demo_bob \<notin> se_UserID ` set (db_sessions (run_user_ops demo_libs id Some demo_later db1))"
proof -
  let ?c = "setUserStatus (5 * second) True demo_admin demo_bob UserStatusDisabled None demo_db"
  obtain r where "fst ?c = Inr r" using demo_disable_succeeds by (cases "fst ?c") auto
  then have c: "?c = (Inr r, snd ?c)" by (metis prod.collapse)
  have "demo_bob \<notin> se_UserID ` set (db_sessions (run_user_ops demo_libs id Some demo_later (snd ?c)))"
    using disabled_user_locked_out[OF demo_db_def c demo_later_quiet refl, THEN conjunct2, THEN conjunct1]
    by (rule not_in_image)
  with c show ?thesis by blast
qed



end
