(* ===== verification/Spec2Isabelle.thy ===== *)
theory Spec2Isabelle
  imports Tunnel_Store P2P_Coordinator Rate_Limiter Traffic_Lifecycle Traffic_Rollup Credit_Flow Webhook_Runs Webhook_Retry
    Socks5_Target Tunnel_Registry Account_Security
begin

text \<open>
  \<^bold>\<open>NetsGo: a verification development.\<close>

  NetsGo exposes services of clients behind a NAT through a server: a client holds a control
  channel and data channels to the server; a tunnel has an ingress (a listening socket or an HTTP
  host name at the server or at a client) and a target (a service at a client); bytes run through
  the server, or directly between two clients when a peer-to-peer session could be made. The server
  keeps tunnels, users, traffic and webhook deliveries in SQLite tables and limits sign-in attempts.
  This library models the parts that decide something, and leaves sockets, goroutine supervision,
  HTTP handlers and the database engine to arguments of the definitions.

  \<^bold>\<open>Conventions.\<close> A Go struct is a record with a field prefix, an enumeration a datatype, a map an
  association list, a HOL map or a function, a slice that may be nil a list option. Fixed-width
  integers are words where overflow matters (frames, handshakes, byte counters, generations), else
  integers; the one place where a 64-bit product of integers wraps has \<open>wrap_int64\<close>. Instants and
  durations are nanoseconds as integers. A function that fails returns a sum with the error on the
  left; \<open>bind_res\<close> is the early return. A SQL transaction is a function on the tables that returns
  the old tables on failure, and an argument says whether the commit succeeds; code under one mutex
  is one step. What is read from outside (clock, random identities, resolver, dialer, Argon2, JSON
  of stream headers, the Unicode case tables) is an argument. Every definition is total; recursion
  that is not structural has a termination proof, and no fuel is used. Concurrency is an inductive
  step relation over the operations, and properties of all interleavings go by rule induction.

  \<^bold>\<open>Foundations.\<close> \<open>Go_Prelude\<close> (strings, bytes, byte order, \<open>io.ReadFull\<close>, durations, error
  results, sums over maps), \<open>Go_Json\<close> (parser, printer and struct decoding of \<open>encoding/json\<close>),
  \<open>Go_Net\<close> (addresses, networks, host and port of package \<open>net\<close>).

  \<^bold>\<open>Wire formats.\<close>
  \<^item> \<open>Udp_Frame\<close>: \<open>pkg/mux/udp_frame.go\<close>. Datagrams in length-prefixed frames and the two relay
    loops over arbitrary \<open>io.Writer\<close>s; the locales \<open>byte_writer\<close>, \<open>reliable_writer\<close> and
    \<open>frame_codec\<close> state what the loops rely on.
    What one loop sends the other delivers, in order; any byte stream yields exactly its well-formed
    frames; a failed write leaves a prefix of the frame.
  \<^item> \<open>Data_Channel\<close>: \<open>pkg/protocol/data_channel.go\<close>, \<open>stream_header.go\<close>. The handshake decoder
    accepts exactly the canonical encodings; stream headers round trip and satisfy their constraints.
  \<^item> \<open>P2P_Protocol\<close>: \<open>pkg/protocol/p2p.go\<close>. The control messages and their validation.
  \<^item> \<open>Credential\<close>: \<open>internal/credential/password.go\<close>. Password hashes round trip through their
    printed form with base64; verification accepts exactly the passwords with the same Argon2 key.
  \<^item> \<open>Socks5_Wire\<close>, \<open>Socks5_Target\<close>: \<open>internal/socks5wire/wire.go\<close>, \<open>internal/client/socks5.go\<close>,
    \<open>internal/ingresspolicy/policy.go\<close>. The handshake serves exactly the well-formed and, where
    demanded, authenticated clients; bytes are relayed only from allowed sources to addresses, hosts
    and ports the target allows.

  \<^bold>\<open>Tunnels.\<close>
  \<^item> \<open>Http_Domain\<close>: \<open>internal/server/http_domain.go\<close> and the domain checks of \<open>http_tunnel.go\<close>.
    Patterns match label by label, and patterns that share a host conflict.
  \<^item> \<open>Tunnel_Model\<close>: the records of \<open>pkg/protocol/types.go\<close> and \<open>store.go\<close>, the state rules of
    \<open>tunnel_state.go\<close>, normalisation, resource keys and the views that hide credentials.
    Normalisation is idempotent, views carry no secret, shown states are consistent.
  \<^item> \<open>Tunnel_Store\<close>: the transactions of \<open>internal/server/store.go\<close> over the tables of tunnels,
    clients, ingress locks and HTTP domains. In every reachable store ingress resources are
    exclusive, the most specific pattern wins, the start-up validation accepts the tables, and a
    stale writer loses against the revision guard.
  \<^item> \<open>Tunnel_Registry\<close>: \<open>internal/server/tunnel_registry.go\<close>. The waiters for answers of clients;
    a locale states what an answer key promises and is interpreted for provisioning acknowledgements
    and for preflights. No interleaving sends on or closes a closed channel, and each waiter gets at
    most one answer, its own.

  \<^bold>\<open>Peer-to-peer.\<close>
  \<^item> \<open>P2P_Coordinator\<close>: \<open>p2p_coordinator.go\<close>, \<open>p2p_lifecycle.go\<close>. Sessions, grants, leases, credit
    relaying and statistics under the coordinator's mutex. Indexes stay consistent, bytes are booked
    exactly once, and the lease pass refines its specification.
  \<^item> \<open>Credit_Flow\<close>: the credit account, the owner's scheduler and fair allocation, composed over a
    network that loses, repeats and reorders messages: only granted credit is used, and demand is
    served within a bound on ticks. The number of tokens of a tick is an argument.

  \<^bold>\<open>Limits and accounting.\<close>
  \<^item> \<open>Rate_Limiter\<close>: \<open>rate_limiter.go\<close>. The window limit and the lockout hold for all runs with a
    monotone clock. The cleanup is one step; in the code it releases the entry's mutex between its
    decision and the deletion (a finding).
  \<^item> \<open>Traffic_Accumulator\<close>, \<open>Traffic_Store\<close>, \<open>Traffic_Lifecycle\<close>, \<open>Traffic_Rollup\<close>:
    \<open>traffic_accumulator.go\<close>, \<open>traffic_store.go\<close>, \<open>traffic_realtime_index.go\<close>. Byte counts are
    conserved from observation to minute rows, queries of a user see that user's rows only, and a
    deleted user's traffic never returns; an invariant locale is interpreted twice. The roll-up
    theorem shows that hour rows shrink while their minutes expire (a finding).

  \<^bold>\<open>Accounts.\<close> \<open>User_Store\<close>, \<open>User_Runs\<close>, \<open>Account_Security\<close>: \<open>user_policy.go\<close>,
  \<open>user_store.go\<close>, \<open>admin_security_store.go\<close>, \<open>admin_security_activity.go\<close> and the parts of
  \<open>admin_store.go\<close> and \<open>admin_activity_store.go\<close> on users and sessions. The tables of users,
  sessions, challenges, recovery codes and passkeys, of the resources the columns that deleting a
  user touches; every transaction on them, and lists of operations as runs. The locale
  \<open>account_transaction\<close> is the contract of a transaction and is interpreted for the bodies of the
  operations. In every reachable state an initialised server has an active administrator and
  sessions belong to active users; a disabled user stays out; a deletion leaves no row of the user
  and matches its preview; a recovery code is accepted once. Expiry is compared on texts, which is
  off by less than a second (a finding). An appended activity event is an argument.

  \<^bold>\<open>Webhooks.\<close> \<open>Webhook_Delivery\<close>, \<open>Webhook_Runs\<close>, \<open>Webhook_Retry\<close>: \<open>webhook_dispatcher.go\<close> and
  the delivery part of \<open>webhook_store.go\<close>. Tables of deliveries, attempts and slots; the locale
  \<open>webhook_maintenance\<close> is what every operation that starts no request promises, interpreted for
  completion, recovery, scans, cancellation and pruning. Attempts are numbered and bounded, requests
  of a user are paced, finished deliveries are never sent again, waiting ones make progress; a huge
  Retry-After wraps around (a finding).

  \<^bold>\<open>Interaction.\<close> The stream header of \<open>Data_Channel\<close> carries the request of \<open>Socks5_Wire\<close> to the
  target policy of \<open>Socks5_Target\<close>, which also uses \<open>Credential\<close> and \<open>Go_Net\<close>; \<open>Tunnel_Store\<close>
  uses the patterns of \<open>Http_Domain\<close> and the rules of \<open>Tunnel_Model\<close>; the accumulator drains into
  the traffic store in \<open>Traffic_Lifecycle\<close>; the credit messages the coordinator relays are those of
  \<open>Credit_Flow\<close>.

  \<^bold>\<open>Not modelled.\<close> HTTP and websocket handlers, listeners and goroutine supervision (the loops of
  the proxies, of the client program and of the reconciliation of tunnels), since they are I/O around
  the operations above; the listing of users, the stores of API keys, registered clients, settings
  and the activity log, whose SQL only reads and writes rows; the JWT, TOTP and WebAuthn libraries and
  the HTTP side of sign-in; templates of
  webhook requests; the bandwidth limiter and the token bucket of the credit scheduler, which compute
  in floating point; TLS, updates, installation, service management, the terminal and web user
  interfaces; the SQLite engine, of which a transaction is assumed to be atomic and isolated.
\<close>

end
